(* ===== verification/Prelude.thy ===== *)
theory Prelude
  imports Main "HOL-Library.Word" "HOL-Library.Char_ord" "HOL-Library.List_Lexorder"
    "HOL-Library.Product_Lexorder"
begin

text \<open>
  Names and lemmas shared by every component: the types of the model (bytes, machine
  integers, Rust strings and results), the state-machine and codec interfaces that
  several components provide, and the list and word facts their proofs use.

  Conventions. A Rust \<open>Result<T, E>\<close> is \<open>'e + 'a\<close>, with \<open>Err\<close> for \<open>Inl\<close> and \<open>Ok\<close>
  for \<open>Inr\<close>. Where a Rust operation can panic (an index out of range, an integer
  underflow, an \<open>expect\<close>), the model returns an option, and \<open>None\<close> is the panic.
  A Rust \<open>String\<close> is the list of its UTF-8 bytes, so \<open>length\<close> is \<open>String::len\<close>,
  and the order of lists is the order of \<open>BTreeMap<String, _>\<close>.
\<close>

unbundle bit_operations_syntax

section \<open>Types\<close>

type_synonym u8 = "8 word"
type_synonym u32 = "32 word"
type_synonym u64 = "64 word"
type_synonym u128 = "128 word"
type_synonym bytes = "8 word list"

abbreviation Err :: "'e \<Rightarrow> 'e + 'a" where "Err \<equiv> Inl"
abbreviation Ok :: "'a \<Rightarrow> 'e + 'a" where "Ok \<equiv> Inr"

text \<open>The \<open>?\<close> operator, and \<open>map_err\<close>.\<close>

fun res_bind :: "'e + 'a \<Rightarrow> ('a \<Rightarrow> 'e + 'b) \<Rightarrow> 'e + 'b" where
  "res_bind (Inl e) f = Inl e"
| "res_bind (Inr x) f = f x"

fun map_err :: "('e \<Rightarrow> 'd) \<Rightarrow> 'e + 'a \<Rightarrow> 'd + 'a" where
  "map_err f (Inl e) = Inl (f e)"
| "map_err f (Inr x) = Inr x"

fun ok_or :: "'e \<Rightarrow> 'a option \<Rightarrow> 'e + 'a" where
  "ok_or e None = Inl e"
| "ok_or e (Some x) = Inr x"

named_theorems res_simps \<open>rewriting of results and options\<close>

lemma res_bind_eq_Ok [res_simps]:
  "res_bind r f = Inr y \<longleftrightarrow> (\<exists>x. r = Inr x \<and> f x = Inr y)"
  by (cases r) auto

lemma map_err_eq_Ok [res_simps]: "map_err f r = Inr x \<longleftrightarrow> r = Inr x"
  by (cases r) auto

lemma ok_or_eq_Ok [res_simps]: "ok_or e r = Inr x \<longleftrightarrow> r = Some x"
  by (cases r) auto

section \<open>Interfaces shared by the components\<close>

text \<open>
  A component with state: its initial states, one step per call of an operation, and an
  invariant every step keeps. The client's fact is that every state it can reach by
  calls satisfies the invariant.
\<close>

fun run_ops :: "('op \<Rightarrow> 's \<Rightarrow> 's) \<Rightarrow> 'op list \<Rightarrow> 's \<Rightarrow> 's" where
  "run_ops step [] s = s"
| "run_ops step (x # xs) s = run_ops step xs (step x s)"

lemma run_ops_append: "run_ops step (xs @ ys) s = run_ops step ys (run_ops step xs s)"
  by (induction xs arbitrary: s) auto

locale machine =
  fixes step :: "'op \<Rightarrow> 's \<Rightarrow> 's" and init :: "'s" and inv :: "'s \<Rightarrow> bool"
  assumes inv_init: "inv init"
    and inv_step: "inv s \<Longrightarrow> inv (step x s)"
begin

lemma inv_run_from: "inv s \<Longrightarrow> inv (run_ops step xs s)"
  by (induction xs arbitrary: s) (auto intro: inv_step)

lemma inv_run: "inv (run_ops step xs init)"
  by (rule inv_run_from [OF inv_init])

end

text \<open>
  A wire format: an encoder, a decoder, and the round trip on the values of a domain.
  Then encoding is injective, and nothing that decodes to something else is an encoding.
\<close>

locale codec =
  fixes enc :: "'a \<Rightarrow> 'b" and dec :: "'b \<Rightarrow> 'e + 'a" and dom :: "'a \<Rightarrow> bool"
  assumes dec_enc: "dom x \<Longrightarrow> dec (enc x) = Inr x"
begin

lemma enc_inject: "dom x \<Longrightarrow> dom y \<Longrightarrow> enc x = enc y \<longleftrightarrow> x = y"
proof
  assume d: "dom x" "dom y" and "enc x = enc y"
  then have "Inr x = (Inr y :: 'e + 'a)" by (metis dec_enc)
  then show "x = y" by simp
qed simp

lemma dec_error_not_enc: "dec b = Inl e \<Longrightarrow> dom x \<Longrightarrow> enc x \<noteq> b"
proof
  assume err: "dec b = Inl e" and "dom x" and "enc x = b"
  then have "dec b = Inr x" using dec_enc [of x] by simp
  with err show False by simp
qed

end

section \<open>Lists\<close>

lemma takeWhile_length_le: "length (takeWhile P xs) \<le> length xs"
  by (rule length_takeWhile_le)

lemma drop_length_takeWhile: "drop (length (takeWhile P xs)) xs = dropWhile P xs"
  by (simp add: dropWhile_eq_drop)

lemma take_length_takeWhile: "take (length (takeWhile P xs)) xs = takeWhile P xs"
  by (metis takeWhile_eq_take)

lemma sorted_wrt_less_distinct: "sorted_wrt (<) (xs :: 'a :: linorder list) \<Longrightarrow> distinct xs"
  by (induction xs) auto

lemma sorted_wrt_less_sorted: "sorted_wrt (<) (xs :: 'a :: linorder list) \<Longrightarrow> sorted xs"
  by (induction xs) (auto simp: less_imp_le)

text \<open>Two strictly sorted lists with the same elements are equal.\<close>

lemma sorted_wrt_less_unique:
  fixes xs ys :: "'a :: linorder list"
  assumes "sorted_wrt (<) xs" "sorted_wrt (<) ys" "set xs = set ys"
  shows "xs = ys"
  using assms by (intro sorted_distinct_set_unique)
    (auto dest: sorted_wrt_less_distinct sorted_wrt_less_sorted)

lemma filter_eq_append_ConsD:
  "filter P xs = pre @ t # post \<Longrightarrow>
     \<exists>us vs. xs = us @ t # vs \<and> filter P us = pre \<and> filter P vs = post"
proof (induction pre arbitrary: xs)
  case Nil
  then obtain us vs where "xs = us @ t # vs" "\<forall>u \<in> set us. \<not> P u" "post = filter P vs"
    using filter_eq_ConsD [of P xs t post] by auto
  then show ?case by (intro exI [of _ us] exI [of _ vs]) simp
next
  case (Cons a pre)
  then obtain us vs where xs: "xs = us @ a # vs" "\<forall>u \<in> set us. \<not> P u" "P a"
    "pre @ t # post = filter P vs"
    using filter_eq_ConsD [of P xs a "pre @ t # post"] by auto
  with Cons.IH [of vs] obtain us' vs' where "vs = us' @ t # vs'" "filter P us' = pre"
    "filter P vs' = post" by metis
  with xs show ?case by (intro exI [of _ "us @ a # us'"] exI [of _ vs']) simp
qed

section \<open>Big-endian bytes\<close>

text \<open>
  \<open>be_nat\<close> reads a byte string as a big-endian number, \<open>be_bytes n\<close> writes the low
  \<open>n\<close> bytes of a number, most significant first. \<open>u64::to_be_bytes\<close> is the case of
  eight bytes.
\<close>

definition be_nat :: "bytes \<Rightarrow> nat" where
  "be_nat bs = foldl (\<lambda>acc b. acc * 256 + unat b) 0 bs"

fun be_bytes :: "nat \<Rightarrow> nat \<Rightarrow> bytes" where
  "be_bytes 0 x = []"
| "be_bytes (Suc n) x = be_bytes n (x div 256) @ [word_of_nat x]"

lemma be_nat_Nil [simp]: "be_nat [] = 0"
  by (simp add: be_nat_def)

lemma be_nat_snoc [simp]: "be_nat (bs @ [b]) = be_nat bs * 256 + unat b"
  by (simp add: be_nat_def)

lemma unat_byte_less: "unat (b :: u8) < 256"
  using unsigned_less [of b, where ?'a = nat] by simp

lemma be_nat_bound: "be_nat bs < 256 ^ length bs"
proof (induction bs rule: rev_induct)
  case Nil
  then show ?case by simp
next
  case (snoc b bs)
  have "Suc (be_nat bs) * 256 \<le> 256 ^ length bs * 256"
    using snoc by (intro mult_le_mono) auto
  then show ?case using unat_byte_less [of b] by simp
qed

lemma length_be_bytes [simp]: "length (be_bytes n x) = n"
  by (induction n x rule: be_bytes.induct) auto

lemma be_nat_be_bytes: "be_nat (be_bytes n x) = x mod 256 ^ n"
proof (induction n x rule: be_bytes.induct)
  case (1 x)
  then show ?case by simp
next
  case (2 n x)
  have "unat (word_of_nat x :: u8) = x mod 256"
    by (simp add: unat_of_nat take_bit_eq_mod)
  with 2 have "be_nat (be_bytes (Suc n) x) = (x div 256 mod 256 ^ n) * 256 + x mod 256"
    by simp
  also have "\<dots> = x mod 256 ^ Suc n"
    by (simp add: mod_mult2_eq)
  finally show ?case .
qed

lemma be_bytes_be_nat: "be_bytes (length bs) (be_nat bs) = bs"
proof (induction bs rule: rev_induct)
  case Nil
  then show ?case by simp
next
  case (snoc b bs)
  have "(be_nat bs * 256 + unat b) div 256 = be_nat bs"
    using unat_byte_less [of b] by simp
  moreover have "(word_of_nat (be_nat bs * 256 + unat b) :: u8) = b"
  proof (rule word_unat_eq_iff [THEN iffD2])
    show "unat (word_of_nat (be_nat bs * 256 + unat b) :: u8) = unat b"
      using unat_byte_less [of b] by (simp only: unat_of_nat) simp
  qed
  ultimately show ?case using snoc by simp
qed

definition u64_to_be_bytes :: "u64 \<Rightarrow> bytes" where
  "u64_to_be_bytes w = be_bytes 8 (unat w)"

definition u64_from_be_bytes :: "bytes \<Rightarrow> u64" where
  "u64_from_be_bytes bs = word_of_nat (be_nat bs)"

lemma length_u64_to_be_bytes [simp]: "length (u64_to_be_bytes w) = 8"
  by (simp add: u64_to_be_bytes_def)

lemma u64_be_roundtrip: "u64_from_be_bytes (u64_to_be_bytes w) = w"
  using unsigned_less [of w, where ?'a = nat]
  by (simp add: u64_from_be_bytes_def u64_to_be_bytes_def be_nat_be_bytes)

lemma u64_to_be_bytes_inject [simp]: "u64_to_be_bytes v = u64_to_be_bytes w \<longleftrightarrow> v = w"
  by (metis u64_be_roundtrip)

section \<open>Decimal numbers and bytes of strings\<close>

text \<open>\<open>format!("{n}")\<close> of an unsigned integer.\<close>

fun show_nat :: "nat \<Rightarrow> string" where
  "show_nat n = (if n < 10 then [char_of (48 + n)] else show_nat (n div 10) @ [char_of (48 + n mod 10)])"

declare show_nat.simps [simp del]

text \<open>Reading the digits back gives the number.\<close>

definition digits_value :: "string \<Rightarrow> nat" where
  "digits_value s = foldl (\<lambda>v c. 10 * v + (of_char c - 48)) 0 s"

lemma digits_value_show_nat: "digits_value (show_nat n) = n"
proof (induction n rule: show_nat.induct)
  case (1 n)
  show ?case
  proof (cases "n < 10")
    case False
    then have "digits_value (show_nat (n div 10)) = n div 10" using 1 by blast
    then show ?thesis using False by (subst show_nat.simps) (simp add: digits_value_def)
  qed (subst show_nat.simps, simp add: digits_value_def)
qed

lemma show_nat_inject [simp]: "show_nat a = show_nat b \<longleftrightarrow> a = b"
  by (metis digits_value_show_nat)

text \<open>\<open>str::as_bytes\<close>: a string is already the list of its bytes.\<close>

definition bytes_of :: "string \<Rightarrow> bytes" where
  "bytes_of s = map (\<lambda>c. word_of_nat (of_char c)) s"

lemma length_bytes_of [simp]: "length (bytes_of s) = length s"
  by (simp add: bytes_of_def)

lemma byte_of_char_inject: "(word_of_nat (of_char c) :: u8) = word_of_nat (of_char d) \<longleftrightarrow> c = d"
proof
  assume "(word_of_nat (of_char c) :: u8) = word_of_nat (of_char d)"
  then have "unat (word_of_nat (of_char c) :: u8) = unat (word_of_nat (of_char d) :: u8)" by simp
  then have "of_char c mod 256 = (of_char d mod 256 :: nat)" by (simp add: unat_of_nat take_bit_eq_mod)
  then show "c = d" by (simp add: of_char_mod_256)
qed simp

lemma bytes_of_inject [simp]: "bytes_of s = bytes_of t \<longleftrightarrow> s = t"
  by (simp add: bytes_of_def inj_map_eq_map inj_def byte_of_char_inject)

text \<open>Introduction of several existentials at once.\<close>

lemma ex2I: "P a b \<Longrightarrow> \<exists>x y. P x y"
  by blast

lemma ex3I: "P a b c \<Longrightarrow> \<exists>x y z. P x y z"
  by blast

lemma list_choice: "\<forall>x\<in>set xs. \<exists>y. P x y \<Longrightarrow> \<exists>ys. list_all2 P xs ys"
  by (induction xs) (auto simp: list_all2_Cons1)

lemma ex4I: "P a b c d \<Longrightarrow> \<exists>w x y z. P w x y z"
  by blast

lemma ex5I: "P a b c d e \<Longrightarrow> \<exists>u v x y z. P u v x y z"
  by blast

end
