(* ===== verification/Tokenizer.thy ===== *)
theory Tokenizer
  imports Prelude
begin

text \<open>
  Stage 1 of the symbolic engine, \<open>tokenize\<close> of \<open>rag_engine/src/lib.rs\<close>: the byte
  classes, the token record, the scan of one token (the body of the loop) and the loop
  over the document. The document is the list of its UTF-8 bytes; offsets are byte
  offsets, as in the code. Every byte is classified or it is the error position, the
  lexemes are exactly the slices at their offsets, and they concatenate to the input.
\<close>

section \<open>Errors, token kinds, tokens\<close>

datatype indexer_error =
    Tokenize (te_offset: nat) (te_message: string)
  | Parse (pe_index: nat) (pe_message: string)
  | InvalidPattern string
  | EmptyGraph string

datatype token_kind = Word | Number | Punctuation | Symbol | Whitespace

definition is_significant :: "token_kind \<Rightarrow> bool" where
  "is_significant k \<longleftrightarrow> k \<noteq> Whitespace"

record token =
  kind :: token_kind
  lexeme :: string
  start :: nat
  stop :: nat

section \<open>Byte classes of \<open>u8\<close>\<close>

definition byte :: "char \<Rightarrow> nat" where
  "byte c = of_char c"

definition is_ascii_digit :: "char \<Rightarrow> bool" where
  "is_ascii_digit c \<longleftrightarrow> 48 \<le> byte c \<and> byte c \<le> 57"

definition is_ascii_alphabetic :: "char \<Rightarrow> bool" where
  "is_ascii_alphabetic c \<longleftrightarrow> 65 \<le> byte c \<and> byte c \<le> 90 \<or> 97 \<le> byte c \<and> byte c \<le> 122"

definition is_ascii_alphanumeric :: "char \<Rightarrow> bool" where
  "is_ascii_alphanumeric c \<longleftrightarrow> is_ascii_alphabetic c \<or> is_ascii_digit c"

text \<open>\<open>u8::is_ascii_whitespace\<close>: space, tab, line feed, form feed, carriage return.\<close>

definition is_ascii_whitespace :: "char \<Rightarrow> bool" where
  "is_ascii_whitespace c \<longleftrightarrow> byte c \<in> {32, 9, 10, 12, 13}"

definition is_word_start :: "char \<Rightarrow> bool" where
  "is_word_start c \<longleftrightarrow> is_ascii_alphabetic c \<or> c = CHR ''_''"

definition is_word_byte :: "char \<Rightarrow> bool" where
  "is_word_byte c \<longleftrightarrow> is_ascii_alphanumeric c \<or> c = CHR ''_''"

definition is_punctuation :: "char \<Rightarrow> bool" where
  "is_punctuation c \<longleftrightarrow> c \<in> set ''.,;:!?'' \<or> byte c \<in> {34, 39} \<or> c \<in> set ''()[]{}''"

definition is_symbol :: "char \<Rightarrow> bool" where
  "is_symbol c \<longleftrightarrow> c \<in> set ''=+-*/><&|%^~#''"

definition classifiable :: "char \<Rightarrow> bool" where
  "classifiable c \<longleftrightarrow> is_word_start c \<or> is_ascii_digit c \<or> is_ascii_whitespace c
     \<or> is_punctuation c \<or> is_symbol c"

section \<open>The scan of one token\<close>

text \<open>
  The number branch: a run of digits, then one decimal point and another run when the
  byte after the point is a digit.
\<close>

definition number_length :: "string \<Rightarrow> nat" where
  "number_length s =
     (let i = length (takeWhile is_ascii_digit s) in
      if i + 1 < length s \<and> s ! i = CHR ''.'' \<and> is_ascii_digit (s ! (i + 1))
      then i + 1 + length (takeWhile is_ascii_digit (drop (i + 1) s))
      else i)"

text \<open>The \<open>if\<close> chain of the loop body: the kind of the token that starts at the first
  byte of a non-empty rest of the document, and its length in bytes.\<close>

fun scan :: "string \<Rightarrow> (token_kind \<times> nat) option" where
  "scan [] = None"
| "scan (b # s) =
     (if is_word_start b then Some (Word, length (takeWhile is_word_byte (b # s)))
      else if is_ascii_digit b then Some (Number, number_length (b # s))
      else if is_ascii_whitespace b
        then Some (Whitespace, length (takeWhile is_ascii_whitespace (b # s)))
      else if is_punctuation b then Some (Punctuation, 1)
      else if is_symbol b then Some (Symbol, 1)
      else None)"

text \<open>The message of the error names the byte with two lower-case hexadecimal digits.\<close>

definition hex_digit :: "nat \<Rightarrow> char" where
  "hex_digit n = char_of (if n < 10 then 48 + n else 87 + n)"

definition unclassifiable :: "char \<Rightarrow> string" where
  "unclassifiable b = ''byte 0x'' @ [hex_digit (byte b div 16), hex_digit (byte b mod 16)]
     @ '' is not classifiable''"

lemma number_length_pos: "is_ascii_digit b \<Longrightarrow> 0 < number_length (b # s)"
  by (simp add: number_length_def Let_def)

lemma is_word_start_byte: "is_word_start b \<Longrightarrow> is_word_byte b"
  by (auto simp: is_word_start_def is_word_byte_def is_ascii_alphanumeric_def)

lemma scan_pos: "scan s = Some (k, n) \<Longrightarrow> 0 < n"
  by (cases s) (auto simp: number_length_pos is_word_start_byte split: if_splits)

lemma number_length_le: "number_length s \<le> length s"
proof -
  let ?i = "length (takeWhile is_ascii_digit s)"
  have "length (takeWhile is_ascii_digit (drop (?i + 1) s)) \<le> length s - (?i + 1)"
    using length_takeWhile_le [of is_ascii_digit "drop (?i + 1) s"] by simp
  moreover have "?i \<le> length s" by (rule length_takeWhile_le)
  ultimately show ?thesis by (auto simp: number_length_def Let_def)
qed

lemma scan_le: "scan s = Some (k, n) \<Longrightarrow> n \<le> length s"
  using length_takeWhile_le [of is_word_byte s] length_takeWhile_le [of is_ascii_whitespace s]
    number_length_le [of s]
  by (cases s) (auto split: if_splits)

section \<open>The loop\<close>

text \<open>\<open>tokenize_from i rest\<close>: the loop at byte offset \<open>i\<close> with \<open>rest\<close> still to read.\<close>

function tokenize_from :: "nat \<Rightarrow> string \<Rightarrow> indexer_error + token list" where
  "tokenize_from i rest =
     (if rest = [] then Ok []
      else case scan rest of
        None \<Rightarrow> Err (Tokenize i (unclassifiable (hd rest)))
      | Some (k, n) \<Rightarrow>
          res_bind (tokenize_from (i + n) (drop n rest))
            (\<lambda>ts. Ok (\<lparr>kind = k, lexeme = take n rest, start = i, stop = i + n\<rparr> # ts)))"
  by pat_completeness auto
termination
  by (relation "measure (\<lambda>(i, rest). length rest)") (auto dest: scan_pos)

declare tokenize_from.simps [simp del]

definition tokenize :: "string \<Rightarrow> indexer_error + token list" where
  "tokenize input = tokenize_from 0 input"

lemma tokenize_from_Nil [simp]: "tokenize_from i [] = Ok []"
  by (simp add: tokenize_from.simps)

lemma tokenize_from_step:
  "scan rest = Some (k, n) \<Longrightarrow> tokenize_from i rest =
     res_bind (tokenize_from (i + n) (drop n rest))
       (\<lambda>ts. Ok (\<lparr>kind = k, lexeme = take n rest, start = i, stop = i + n\<rparr> # ts))"
  by (subst tokenize_from.simps) (cases rest, auto)

lemma tokenize_from_stop:
  "rest \<noteq> [] \<Longrightarrow> scan rest = None \<Longrightarrow>
     tokenize_from i rest = Err (Tokenize i (unclassifiable (hd rest)))"
  by (subst tokenize_from.simps) auto

text \<open>Induction over a successful run: the empty rest, or one token and the run behind it.\<close>

lemma tokenize_from_ok_induct [consumes 1, case_names Nil Step]:
  assumes "tokenize_from i rest = Ok ts"
    and "\<And>i. P i [] []"
    and "\<And>i rest k n ts. rest \<noteq> [] \<Longrightarrow> scan rest = Some (k, n) \<Longrightarrow>
      tokenize_from (i + n) (drop n rest) = Ok ts \<Longrightarrow> P (i + n) (drop n rest) ts \<Longrightarrow>
      P i rest (\<lparr>kind = k, lexeme = take n rest, start = i, stop = i + n\<rparr> # ts)"
  shows "P i rest ts"
  using assms(1)
proof (induction i rest arbitrary: ts rule: tokenize_from.induct)
  case (1 i rest)
  show ?case
  proof (cases "rest = []")
    case True
    with "1.prems" assms(2) show ?thesis by simp
  next
    case False
    then obtain k n where sc: "scan rest = Some (k, n)"
      using "1.prems" by (cases "scan rest") (auto simp: tokenize_from_stop)
    with "1.prems" obtain us where us: "tokenize_from (i + n) (drop n rest) = Ok us"
      and ts: "ts = \<lparr>kind = k, lexeme = take n rest, start = i, stop = i + n\<rparr> # us"
      by (auto simp: tokenize_from_step res_simps)
    have "P (i + n) (drop n rest) us"
      using "1.IH" [OF False sc] us by simp
    with assms(3) [OF False sc us] ts show ?thesis by simp
  qed
qed

section \<open>What the scan consumes\<close>

text \<open>The lexical shape each kind of token has.\<close>

definition number_lexeme :: "string \<Rightarrow> bool" where
  "number_lexeme l \<longleftrightarrow> l \<noteq> [] \<and> (list_all is_ascii_digit l \<or>
     (\<exists>a b. l = a @ CHR ''.'' # b \<and> a \<noteq> [] \<and> b \<noteq> [] \<and>
        list_all is_ascii_digit a \<and> list_all is_ascii_digit b))"

definition token_shape :: "token_kind \<Rightarrow> string \<Rightarrow> bool" where
  "token_shape k l = (case k of
     Word \<Rightarrow> l \<noteq> [] \<and> is_word_start (hd l) \<and> list_all is_word_byte l
   | Number \<Rightarrow> number_lexeme l
   | Whitespace \<Rightarrow> l \<noteq> [] \<and> list_all is_ascii_whitespace l
   | Punctuation \<Rightarrow> (\<exists>b. l = [b] \<and> is_punctuation b)
   | Symbol \<Rightarrow> (\<exists>b. l = [b] \<and> is_symbol b))"

lemma list_all_takeWhile: "list_all P (takeWhile P s)"
  by (metis list_all_iff set_takeWhileD)

lemma number_lexemeI:
  "a \<noteq> [] \<Longrightarrow> b \<noteq> [] \<Longrightarrow> list_all is_ascii_digit a \<Longrightarrow> list_all is_ascii_digit b \<Longrightarrow>
     number_lexeme (a @ CHR ''.'' # b)"
  unfolding number_lexeme_def by blast

lemma take_number_length:
  assumes "is_ascii_digit (hd s)" "s \<noteq> []"
  shows "number_lexeme (take (number_length s) s)"
proof -
  let ?a = "takeWhile is_ascii_digit s"
  let ?i = "length ?a"
  have a: "?a \<noteq> []" "list_all is_ascii_digit ?a" "take ?i s = ?a"
    using assms by (cases s, auto simp: list_all_takeWhile take_length_takeWhile)
  show ?thesis
  proof (cases "?i + 1 < length s \<and> s ! ?i = CHR ''.'' \<and> is_ascii_digit (s ! (?i + 1))")
    case True
    let ?b = "takeWhile is_ascii_digit (drop (?i + 1) s)"
    have len: "number_length s = ?i + 1 + length ?b"
      using True by (simp only: number_length_def Let_def if_True simp_thms)
    have dr: "drop (?i + 1) s = (s ! (?i + 1)) # drop (?i + 2) s"
      using True Cons_nth_drop_Suc [of "?i + 1" s] by simp
    then have b: "?b \<noteq> []" "list_all is_ascii_digit ?b"
      using True list_all_takeWhile [of is_ascii_digit "drop (?i + 1) s"] by simp_all
    have "take (?i + 1) s = ?a @ [CHR ''.'']"
      using True a(3) by (simp add: take_Suc_conv_app_nth)
    then have tk: "take (number_length s) s = ?a @ CHR ''.'' # ?b"
      by (simp only: len take_add take_length_takeWhile append_assoc append_Cons append_Nil)
    show ?thesis unfolding tk by (rule number_lexemeI [OF a(1) b(1) a(2) b(2)])
  next
    case False
    then have "number_length s = ?i" by (auto simp: number_length_def Let_def)
    with a show ?thesis by (simp add: number_lexeme_def)
  qed
qed

lemma scan_shape: "scan s = Some (k, n) \<Longrightarrow> token_shape k (take n s)"
proof (cases s)
  case (Cons b r)
  assume sc: "scan s = Some (k, n)"
  have tw: "take (length (takeWhile P s)) s = takeWhile P s" for P
    by (rule take_length_takeWhile)
  show ?thesis
    using sc tw [of is_word_byte] tw [of is_ascii_whitespace] take_number_length [of s]
    unfolding Cons
    by (auto simp: token_shape_def is_word_start_byte list_all_iff
        split: if_splits dest!: set_takeWhileD)
qed simp

text \<open>A scan is defined exactly at a classifiable byte, and consumes classifiable bytes only.\<close>

lemma scan_None_iff: "scan (b # s) = None \<longleftrightarrow> \<not> classifiable b"
  by (auto simp: classifiable_def)

lemma digit_classifiable: "is_ascii_digit b \<Longrightarrow> classifiable b"
  by (simp add: classifiable_def)

lemma word_byte_classifiable: "is_word_byte b \<Longrightarrow> classifiable b"
  by (auto simp: classifiable_def is_word_byte_def is_word_start_def is_ascii_alphanumeric_def)

lemma dot_classifiable: "classifiable (CHR ''.'')"
  by (simp add: classifiable_def is_punctuation_def)

lemma token_shape_classifiable: "token_shape k l \<Longrightarrow> list_all classifiable l"
  by (cases k) (auto simp: token_shape_def number_lexeme_def list_all_iff dot_classifiable
      digit_classifiable word_byte_classifiable, auto simp: classifiable_def)

lemma scan_classifiable: "scan s = Some (k, n) \<Longrightarrow> list_all classifiable (take n s)"
  by (blast intro: scan_shape token_shape_classifiable)

text \<open>After a run of whitespace or word bytes the next byte is of another class.\<close>

lemma scan_maximal_whitespace:
  assumes "scan s = Some (Whitespace, n)" "drop n s = b # r"
  shows "\<not> is_ascii_whitespace b"
proof -
  have "n = length (takeWhile is_ascii_whitespace s)"
    using assms(1) by (cases s) (auto split: if_splits)
  then have "dropWhile is_ascii_whitespace s = b # r"
    using assms(2) by (simp add: drop_length_takeWhile)
  then show ?thesis by (metis dropWhile_eq_Cons_conv)
qed

lemma scan_maximal_word:
  assumes "scan s = Some (Word, n)" "drop n s = b # r"
  shows "\<not> is_word_byte b"
proof -
  have "n = length (takeWhile is_word_byte s)"
    using assms(1) by (cases s) (auto split: if_splits)
  then have "dropWhile is_word_byte s = b # r"
    using assms(2) by (simp add: drop_length_takeWhile)
  then show ?thesis by (metis dropWhile_eq_Cons_conv)
qed

section \<open>Properties of the tokenizer\<close>

text \<open>What the tokens of a run say about the bytes they came from.\<close>

fun contiguous :: "nat \<Rightarrow> token list \<Rightarrow> nat \<Rightarrow> bool" where
  "contiguous i [] j \<longleftrightarrow> i = j"
| "contiguous i (t # ts) j \<longleftrightarrow> start t = i \<and> i < stop t \<and> contiguous (stop t) ts j"

definition sliced :: "string \<Rightarrow> token \<Rightarrow> bool" where
  "sliced s t \<longleftrightarrow> start t < stop t \<and> stop t \<le> length s
     \<and> lexeme t = take (stop t - start t) (drop (start t) s)"

lemma tokenize_from_concat:
  "tokenize_from i rest = Ok ts \<Longrightarrow> concat (map lexeme ts) = rest"
  by (induction rule: tokenize_from_ok_induct) auto

lemma tokenize_from_contiguous:
  "tokenize_from i rest = Ok ts \<Longrightarrow> contiguous i ts (i + length rest)"
proof (induction rule: tokenize_from_ok_induct)
  case (Step i rest k n ts)
  then show ?case using scan_pos [of rest k n] scan_le [of rest k n] by simp
qed simp

lemma tokenize_from_sliced:
  "tokenize_from i rest = Ok ts \<Longrightarrow> length pre = i \<Longrightarrow> t \<in> set ts \<Longrightarrow> sliced (pre @ rest) t"
proof (induction arbitrary: pre rule: tokenize_from_ok_induct)
  case (Step i rest k n ts)
  have n: "0 < n" "n \<le> length rest"
    using scan_pos scan_le Step.hyps(2) by blast+
  show ?case
  proof (cases "t \<in> set ts")
    case True
    have "length (pre @ take n rest) = i + n" using Step.prems(1) n by simp
    from Step.IH [OF this True] show ?thesis by simp
  next
    case False
    with Step.prems n show ?thesis by (auto simp: sliced_def)
  qed
qed simp

lemma tokenize_from_shape:
  "tokenize_from i rest = Ok ts \<Longrightarrow> t \<in> set ts \<Longrightarrow> token_shape (kind t) (lexeme t)"
  by (induction rule: tokenize_from_ok_induct) (auto dest: scan_shape)

lemma tokenize_from_ok: "list_all classifiable rest \<Longrightarrow> \<exists>ts. tokenize_from i rest = Ok ts"
proof (induction i rest rule: tokenize_from.induct)
  case (1 i rest)
  show ?case
  proof (cases "scan rest")
    case None
    with "1.prems" have "rest = []" by (cases rest) (auto simp: scan_None_iff simp del: scan.simps)
    then show ?thesis by simp
  next
    case (Some kn)
    then obtain k n where kn: "scan rest = Some (k, n)" by (cases kn) auto
    then have "rest \<noteq> []" by auto
    moreover have "list_all classifiable (drop n rest)"
      using "1.prems" by (meson in_set_dropD list_all_iff)
    ultimately obtain us where "tokenize_from (i + n) (drop n rest) = Ok us"
      using "1.IH" [of "(k, n)" k n] kn by auto
    with kn show ?thesis by (simp add: tokenize_from_step)
  qed
qed

lemma tokenize_from_err:
  "list_all classifiable pre \<Longrightarrow> \<not> classifiable b \<Longrightarrow>
     tokenize_from i (pre @ b # post) = Err (Tokenize (i + length pre) (unclassifiable b))"
proof (induction "length pre" arbitrary: i pre rule: less_induct)
  case less
  show ?case
  proof (cases pre)
    case Nil
    with less.prems show ?thesis
      by (simp add: tokenize_from_stop scan_None_iff del: scan.simps)
  next
    case (Cons c pre')
    then obtain k n where kn: "scan (pre @ b # post) = Some (k, n)"
      using less.prems by (cases "scan (pre @ b # post)") (auto simp: scan_None_iff simp del: scan.simps)
    have n: "0 < n" using scan_pos kn by blast
    have "n \<le> length pre"
    proof (rule ccontr)
      assume "\<not> n \<le> length pre"
      then have "b \<in> set (take n (pre @ b # post))"
        by (cases "n - length pre") auto
      then show False
        using scan_classifiable [OF kn] less.prems(2) by (auto simp: list_all_iff)
    qed
    then have dr: "drop n (pre @ b # post) = drop n pre @ b # post" by simp
    have "list_all classifiable (drop n pre)"
      using less.prems(1) by (meson in_set_dropD list_all_iff)
    with less.hyps [of "drop n pre" "i + n"] less.prems(2) n Cons \<open>n \<le> length pre\<close>
    have "tokenize_from (i + n) (drop n pre @ b # post)
        = Err (Tokenize (i + length pre) (unclassifiable b))" by simp
    with kn dr show ?thesis by (simp add: tokenize_from_step)
  qed
qed

lemma tokenize_ok_or_err:
  obtains ts where "list_all classifiable s" "tokenize s = Ok ts"
  | pre b post where "s = pre @ b # post" "list_all classifiable pre" "\<not> classifiable b"
      "tokenize s = Err (Tokenize (length pre) (unclassifiable b))"
proof (cases "list_all classifiable s")
  case True
  then show ?thesis using that(1) tokenize_from_ok [of s 0] by (auto simp: tokenize_def)
next
  case False
  then obtain pre b post where s: "s = pre @ b # post" "\<not> classifiable b" "list_all classifiable pre"
    using split_list_first_propE [of s "\<lambda>b. \<not> classifiable b"] by (auto simp: list_all_iff)
  then have "tokenize s = Err (Tokenize (length pre) (unclassifiable b))"
    using tokenize_from_err [of pre b 0 post] by (simp add: tokenize_def)
  with s show ?thesis using that(2) by blast
qed

lemma tokenize_classifiable: "tokenize s = Ok ts \<Longrightarrow> list_all classifiable s"
  by (rule tokenize_ok_or_err [of s]) auto

lemma tokenize_lexeme_classifiable:
  "tokenize s = Ok ts \<Longrightarrow> t \<in> set ts \<Longrightarrow> list_all classifiable (lexeme t)"
  by (auto simp: tokenize_def intro: token_shape_classifiable tokenize_from_shape)

text \<open>A whitespace token is never followed by another one.\<close>

definition no_adjacent_ws :: "token list \<Rightarrow> bool" where
  "no_adjacent_ws ts \<longleftrightarrow>
     (\<forall>n. Suc n < length ts \<longrightarrow> kind (ts ! n) = Whitespace \<longrightarrow> kind (ts ! Suc n) \<noteq> Whitespace)"

lemma no_adjacent_ws_Cons:
  "no_adjacent_ws (t # ts) \<longleftrightarrow> no_adjacent_ws ts
     \<and> (kind t = Whitespace \<longrightarrow> ts \<noteq> [] \<longrightarrow> kind (hd ts) \<noteq> Whitespace)"
  unfolding no_adjacent_ws_def by (cases ts) (auto simp: nth_Cons split: nat.splits)

lemma no_adjacent_ws_Nil [simp]: "no_adjacent_ws []"
  by (simp add: no_adjacent_ws_def)

lemma tokenize_from_no_adjacent_ws: "tokenize_from i rest = Ok ts \<Longrightarrow> no_adjacent_ws ts"
proof (induction rule: tokenize_from_ok_induct)
  case (Step i rest k n ts)
  have "kind (hd ts) \<noteq> Whitespace" if ws: "k = Whitespace" and ne: "ts \<noteq> []"
  proof -
    obtain b r where br: "drop n rest = b # r"
      using Step.hyps(3) ne by (cases "drop n rest") auto
    with Step.hyps(2) ws have "\<not> is_ascii_whitespace b"
      by (blast dest: scan_maximal_whitespace)
    moreover obtain k' n' where "scan (b # r) = Some (k', n')"
      using Step.hyps(3) br by (cases "scan (b # r)") (auto simp: tokenize_from_stop simp del: scan.simps)
    moreover from this have "kind (hd ts) = k'"
      using Step.hyps(3) br by (auto simp: tokenize_from_step res_simps simp del: scan.simps)
    ultimately show ?thesis by (auto split: if_splits)
  qed
  with Step.IH show ?case by (simp add: no_adjacent_ws_Cons)
qed simp

lemma tokenize_no_adjacent_ws: "tokenize s = Ok ts \<Longrightarrow> no_adjacent_ws ts"
  by (simp add: tokenize_def tokenize_from_no_adjacent_ws)

section \<open>Longest match\<close>

text \<open>
  The reference the scan is measured against: a token takes the longest prefix of the rest of the
  document that has the shape of a token of any kind.
\<close>

definition longest :: "token_kind \<Rightarrow> string \<Rightarrow> string \<Rightarrow> bool" where
  "longest k l rest \<longleftrightarrow> token_shape k l \<and> (\<exists>z. rest = l @ z)
     \<and> (\<forall>k' l' z. rest = l' @ z \<longrightarrow> token_shape k' l' \<longrightarrow> length l' \<le> length l)"

fun longest_matches :: "token list \<Rightarrow> bool" where
  "longest_matches [] \<longleftrightarrow> True"
| "longest_matches (t # ts) \<longleftrightarrow> longest (kind t) (lexeme t) (lexeme t @ concat (map lexeme ts)) \<and> longest_matches ts"

lemma classes_disjoint:
  "is_ascii_digit c \<Longrightarrow> \<not> is_word_start c"
  "is_ascii_whitespace c \<Longrightarrow> \<not> is_word_start c \<and> \<not> is_ascii_digit c"
  "is_punctuation c \<Longrightarrow> \<not> is_word_start c \<and> \<not> is_ascii_digit c \<and> \<not> is_ascii_whitespace c"
  "is_symbol c \<Longrightarrow> \<not> is_word_start c \<and> \<not> is_ascii_digit c \<and> \<not> is_ascii_whitespace c \<and> \<not> is_punctuation c"
  by (auto simp: is_ascii_digit_def is_ascii_whitespace_def is_word_start_def is_ascii_alphabetic_def
      is_punctuation_def is_symbol_def byte_def)

lemma takeWhile_all_append: "list_all P l \<Longrightarrow> takeWhile P (l @ z) = l @ takeWhile P z"
  by (induction l) auto

lemma number_length_extends:
  assumes "number_lexeme l"
  shows "length l \<le> number_length (l @ z)"
proof (cases "list_all is_ascii_digit l")
  case True
  then show ?thesis by (simp add: number_length_def Let_def takeWhile_all_append)
next
  case False
  then obtain a b where l: "l = a @ CHR ''.'' # b" "a \<noteq> []" "b \<noteq> []" "list_all is_ascii_digit a" "list_all is_ascii_digit b"
    using assms unfolding number_lexeme_def by blast
  have dot: "\<not> is_ascii_digit (CHR ''.'')" by (simp add: is_ascii_digit_def byte_def)
  have tw: "takeWhile is_ascii_digit (l @ z) = a" using l(4) dot by (simp add: l(1) takeWhile_all_append)
  have "is_ascii_digit (hd b)" using l(3,5) by (cases b) simp_all
  then have "number_length (l @ z) = length a + 1 + length (takeWhile is_ascii_digit (b @ z))"
    using l(3) by (cases b) (simp_all add: number_length_def Let_def tw, simp_all add: l(1) nth_append)
  then show ?thesis using l(5) by (simp add: l(1) takeWhile_all_append)
qed

text \<open>Whatever has the shape of a token fixes the kind of the scan, which takes at least as much.\<close>

lemma shape_scan:
  assumes "token_shape k l"
  obtains n where "scan (l @ z) = Some (k, n)" "length l \<le> n"
proof -
  obtain b r where l: "l = b # r" using assms by (cases l) (cases k; simp add: token_shape_def number_lexeme_def)+
  have first: "(k = Word \<longrightarrow> is_word_start b) \<and> (k = Number \<longrightarrow> is_ascii_digit b) \<and> (k = Whitespace \<longrightarrow> is_ascii_whitespace b)
      \<and> (k = Punctuation \<longrightarrow> is_punctuation b \<and> r = []) \<and> (k = Symbol \<longrightarrow> is_symbol b \<and> r = [])"
    using assms unfolding l
    by (cases k) (auto simp: token_shape_def number_lexeme_def Cons_eq_append_conv)
  show ?thesis
  proof (cases k)
    case Word
    then show ?thesis
      using assms first that [of "length (takeWhile is_word_byte (l @ z))"]
      by (simp add: l token_shape_def takeWhile_all_append is_word_start_byte)
  next
    case Number
    then have "length l \<le> number_length (l @ z)" using assms by (simp add: token_shape_def number_length_extends)
    then show ?thesis
      using first Number that [of "number_length (l @ z)"] by (simp add: l classes_disjoint(1))
  next
    case Whitespace
    then show ?thesis
      using assms first that [of "length (takeWhile is_ascii_whitespace (l @ z))"]
      by (simp add: l token_shape_def takeWhile_all_append classes_disjoint(2))
  next
    case Punctuation
    then show ?thesis using first that [of 1] by (simp add: l classes_disjoint(3))
  next
    case Symbol
    then show ?thesis using first that [of 1] by (simp add: l classes_disjoint(4))
  qed
qed

lemma scan_longest: "scan rest = Some (k, n) \<longleftrightarrow> (\<exists>l. longest k l rest \<and> n = length l)"
proof
  assume sc: "scan rest = Some (k, n)"
  have "length l' \<le> n" if e: "rest = l' @ z" and s: "token_shape k' l'" for k' l' z
    using shape_scan [OF s, of z] sc unfolding e by auto
  moreover have "rest = take n rest @ drop n rest" by simp
  ultimately show "\<exists>l. longest k l rest \<and> n = length l"
    using scan_shape [OF sc] scan_le [OF sc] unfolding longest_def
    by (intro exI [of _ "take n rest"]) (metis length_take min.absorb2)
next
  assume "\<exists>l. longest k l rest \<and> n = length l"
  then obtain l z where l: "token_shape k l" "rest = l @ z" "n = length l"
    "\<And>k' l' z. rest = l' @ z \<Longrightarrow> token_shape k' l' \<Longrightarrow> length l' \<le> length l"
    unfolding longest_def by blast
  from shape_scan [OF l(1), of z] obtain m where m: "scan rest = Some (k, m)" "length l \<le> m"
    unfolding l(2) by metis
  have "length (take m rest) \<le> length l"
    using l(4) [OF append_take_drop_id [symmetric] scan_shape [OF m(1)]] .
  then show "scan rest = Some (k, n)" using m scan_le [OF m(1)] by (simp add: l(3))
qed

text \<open>The spans of the tokens lie one behind the other, each as long as its lexeme.\<close>

fun tiles :: "nat \<Rightarrow> token list \<Rightarrow> bool" where
  "tiles i [] \<longleftrightarrow> True"
| "tiles i (t # ts) \<longleftrightarrow> start t = i \<and> stop t = i + length (lexeme t) \<and> tiles (stop t) ts"

lemma tokenize_from_longest:
  "tokenize_from i rest = Ok ts \<longleftrightarrow> concat (map lexeme ts) = rest \<and> tiles i ts \<and> longest_matches ts"
proof
  assume "tokenize_from i rest = Ok ts"
  then show "concat (map lexeme ts) = rest \<and> tiles i ts \<and> longest_matches ts"
  proof (induction rule: tokenize_from_ok_induct)
    case (Step i rest k n ts)
    obtain l where l: "longest k l rest" "n = length l" using Step.hyps(2) scan_longest by blast
    then have "l = take n rest" by (auto simp: longest_def)
    then show ?case using l(1) Step.IH scan_le [OF Step.hyps(2)] by simp
  qed simp
next
  assume "concat (map lexeme ts) = rest \<and> tiles i ts \<and> longest_matches ts"
  then show "tokenize_from i rest = Ok ts"
  proof (induction ts arbitrary: i rest)
    case (Cons t ts)
    have sc: "scan rest = Some (kind t, length (lexeme t))"
      using Cons.prems scan_longest by auto
    show ?case unfolding tokenize_from_step [OF sc] using Cons.prems Cons.IH [of "drop (length (lexeme t)) rest" "stop t"]
      by (cases t) auto
  qed simp
qed

section \<open>Properties\<close>

text \<open>Every lexeme is the slice of the document at its span.\<close>

lemma tokenize_slices:
  assumes "tokenize s = Ok ts"
  shows "contiguous 0 ts (length s) \<and> (\<forall>t \<in> set ts. sliced s t \<and> token_shape (kind t) (lexeme t))"
  using assms tokenize_from_contiguous [of 0 s ts] tokenize_from_sliced [of 0 s ts "[]"] tokenize_from_shape [of 0 s ts]
  by (simp add: tokenize_def)

text \<open>The outcome of \<open>tokenize\<close> on every input: it succeeds exactly when every byte
  of the document is classifiable, and otherwise the error names the offset and the value of
  the first byte that is not.\<close>

lemma tokenize_outcome:
  "((\<exists>ts. tokenize s = Ok ts) = list_all classifiable s) \<and>
   ((tokenize s = Err e) =
     (\<exists>pre b post. s = pre @ b # post \<and> list_all classifiable pre \<and> \<not> classifiable b
        \<and> e = Tokenize (length pre) (unclassifiable b)))"
proof (rule tokenize_ok_or_err [of s])
  fix ts assume "list_all classifiable s" "tokenize s = Ok ts"
  then show ?thesis by auto
next
  fix pre b post
  assume s: "s = pre @ b # post" "list_all classifiable pre" "\<not> classifiable b"
    and r: "tokenize s = Err (Tokenize (length pre) (unclassifiable b))"
  have unique: "e' = Tokenize (length pre) (unclassifiable b)"
    if "s = pre' @ b' # post'" "list_all classifiable pre'" "\<not> classifiable b'"
      "e' = Tokenize (length pre') (unclassifiable b')" for pre' b' post' e'
    using tokenize_from_err [OF that(2,3), of 0 post'] r that(1,4) by (simp add: tokenize_def)
  have "(\<exists>ts. tokenize s = Ok ts) = list_all classifiable s"
    using r s by simp
  moreover have "(tokenize s = Err e) = (\<exists>pre b post. s = pre @ b # post
      \<and> list_all classifiable pre \<and> \<not> classifiable b
      \<and> e = Tokenize (length pre) (unclassifiable b))"
    using unique r s by (metis Inl_inject)
  ultimately show ?thesis by blast
qed

text \<open>C5: the tokenizer is the longest-match lexer of its token shapes, on every document: a token
  list is its result exactly when the lexemes concatenate to the document, the byte spans lie one
  behind the other from 0, each as long as its lexeme, and every lexeme has the shape of its
  kind and is the longest prefix of the rest of the document with the shape of a token of any
  kind; and an error is its result exactly when it names the offset and the value of the first
  byte that no class holds, of which everything before is classified.\<close>

theorem tokenize_exact:
  "(tokenize s = Ok ts \<longleftrightarrow> concat (map lexeme ts) = s \<and> tiles 0 ts \<and> longest_matches ts)
    \<and> (tokenize s = Err e \<longleftrightarrow> (\<exists>pre b post. s = pre @ b # post \<and> list_all classifiable pre
         \<and> \<not> classifiable b \<and> e = Tokenize (length pre) (unclassifiable b)))"
  using tokenize_from_longest [of 0 s ts] conjunct2 [OF tokenize_outcome [of s e]]
  by (simp add: tokenize_def)

theorem tokenize_exact_witness:
  "longest_matches
     [\<lparr>kind = Word, lexeme = ''is'', start = 0, stop = 2\<rparr>,
      \<lparr>kind = Whitespace, lexeme = '' '', start = 2, stop = 3\<rparr>,
      \<lparr>kind = Number, lexeme = ''4.5'', start = 3, stop = 6\<rparr>,
      \<lparr>kind = Punctuation, lexeme = ''.'', start = 6, stop = 7\<rparr>]
    \<and> tokenize [CHR ''a'', CHR 0x07] = Err (Tokenize 1 ''byte 0x07 is not classifiable'')"
proof
  have "tokenize ''is 4.5.'' = Ok
     [\<lparr>kind = Word, lexeme = ''is'', start = 0, stop = 2\<rparr>,
      \<lparr>kind = Whitespace, lexeme = '' '', start = 2, stop = 3\<rparr>,
      \<lparr>kind = Number, lexeme = ''4.5'', start = 3, stop = 6\<rparr>,
      \<lparr>kind = Punctuation, lexeme = ''.'', start = 6, stop = 7\<rparr>]"
    by code_simp
  from this [unfolded tokenize_exact [THEN conjunct1]] show "longest_matches
     [\<lparr>kind = Word, lexeme = ''is'', start = 0, stop = 2\<rparr>,
      \<lparr>kind = Whitespace, lexeme = '' '', start = 2, stop = 3\<rparr>,
      \<lparr>kind = Number, lexeme = ''4.5'', start = 3, stop = 6\<rparr>,
      \<lparr>kind = Punctuation, lexeme = ''.'', start = 6, stop = 7\<rparr>]" by blast
  have c: "classifiable (CHR ''a'')" "\<not> classifiable (CHR 0x07)"
    "unclassifiable (CHR 0x07) = ''byte 0x07 is not classifiable''" by code_simp+
  show "tokenize [CHR ''a'', CHR 0x07] = Err (Tokenize 1 ''byte 0x07 is not classifiable'')"
    by (rule tokenize_exact [THEN conjunct2, THEN iffD2], rule exI [of _ "''a''"], rule exI [of _ "CHR 0x07"], rule exI [of _ "[]"])
      (simp add: c)
qed

text \<open>Two documents that tokenize to the same token stream are the same document (the
  direction of the documented equivalence that the engine's hashing relies on).\<close>

lemma tokenize_injective:
  assumes "tokenize a = Ok ts" "tokenize b = Ok ts"
  shows "a = b"
  using assms by (metis tokenize_def tokenize_from_concat)

lemma tokenize_injective_witness:
  "{b. tokenize b = Ok
      [\<lparr>kind = Word, lexeme = ''x'', start = 0, stop = 1\<rparr>,
       \<lparr>kind = Symbol, lexeme = ''='', start = 1, stop = 2\<rparr>]} = {''x=''}"
proof -
  have x: "tokenize ''x='' = Ok
      [\<lparr>kind = Word, lexeme = ''x'', start = 0, stop = 1\<rparr>,
       \<lparr>kind = Symbol, lexeme = ''='', start = 1, stop = 2\<rparr>]"
    by code_simp
  show ?thesis using x by (auto intro: tokenize_injective [OF _ x])
qed

text \<open>On the error side the equivalence stated in the doc comment fails: two different
  documents give equal results.\<close>

lemma tokenize_errors_collide: "tokenize ''a$'' = tokenize ''b$''"
  by code_simp

end
