(* ===== verification/Parser.thy ===== *)
theory Parser
  imports Tokenizer
begin

text \<open>
  Stage 2 of the symbolic engine, \<open>parse\<close> of \<open>rag_engine/src/lib.rs\<close>: spans, the
  document tree, the two flush closures and the loop over the tokens, each with its
  \<open>unreachable!\<close> branch as \<open>None\<close>. The abstract specification splits the stream at
  blank lines into sections and each section at \<open>.\<close>, \<open>!\<close> and \<open>?\<close> into sentences, and
  the refinement theorem says the single pass computes it.
\<close>

section \<open>Spans and the document tree\<close>

record span =
  span_start :: nat
  span_end :: nat

definition span_new :: "nat \<Rightarrow> nat \<Rightarrow> span" where
  "span_new a b = \<lparr>span_start = a, span_end = b\<rparr>"

text \<open>\<open>end - start\<close> on \<open>usize\<close> underflows, and panics, when the span is inverted.\<close>

definition span_len :: "span \<Rightarrow> nat option" where
  "span_len s = (if span_start s \<le> span_end s then Some (span_end s - span_start s) else None)"

definition span_is_empty :: "span \<Rightarrow> bool" where
  "span_is_empty s \<longleftrightarrow> span_start s = span_end s"

definition span_union :: "span \<Rightarrow> span \<Rightarrow> span" where
  "span_union a b = span_new (min (span_start a) (span_start b)) (max (span_end a) (span_end b))"

datatype ast_node =
    Document "ast_node list"
  | Section span "ast_node list"
  | Sentence span "ast_node list"
  | Term token

text \<open>\<open>AstNode::sentences\<close> and \<open>AstNode::terms\<close>.\<close>

fun sentences :: "ast_node \<Rightarrow> ast_node list" where
  "sentences (Document secs) = concat (map sentences secs)"
| "sentences (Section _ sents) = sents"
| "sentences (Sentence _ _) = []"
| "sentences (Term _) = []"

fun terms :: "ast_node \<Rightarrow> token list" where
  "terms (Sentence _ ts) = List.map_filter (\<lambda>n. case n of Term t \<Rightarrow> Some t | _ \<Rightarrow> None) ts"
| "terms _ = []"

section \<open>The parser\<close>

record parse_state =
  sections :: "ast_node list"
  current_sentence :: "ast_node list"
  current_sentences :: "ast_node list"
  newline_run :: nat

definition flush_sentence :: "parse_state \<Rightarrow> parse_state option" where
  "flush_sentence st =
     (if current_sentence st = [] then Some st
      else case hd (current_sentence st) of
        Term t \<Rightarrow>
          (let start_off = start t;
               end_off = (case last (current_sentence st) of Term u \<Rightarrow> stop u | _ \<Rightarrow> start_off)
           in Some (st\<lparr>current_sentences := current_sentences st @
                   [Sentence (span_new start_off end_off) (current_sentence st)],
                 current_sentence := []\<rparr>))
      | _ \<Rightarrow> None)"

definition flush_section :: "parse_state \<Rightarrow> parse_state option" where
  "flush_section st =
     (if current_sentences st = [] then Some st
      else case hd (current_sentences st) of
        Sentence sp _ \<Rightarrow>
          (let start_off = span_start sp;
               end_off = (case last (current_sentences st) of
                            Sentence sp' _ \<Rightarrow> span_end sp' | _ \<Rightarrow> start_off)
           in Some (st\<lparr>sections := sections st @
                   [Section (span_new start_off end_off) (current_sentences st)],
                 current_sentences := []\<rparr>))
      | _ \<Rightarrow> None)"

definition is_terminator :: "token \<Rightarrow> bool" where
  "is_terminator t \<longleftrightarrow> kind t = Punctuation \<and> lexeme t \<in> {''.'', ''!'', ''?''}"

definition newlines :: "string \<Rightarrow> nat" where
  "newlines l = count_list l (char_of (10 :: nat))"

text \<open>The body of the loop over the tokens.\<close>

definition parse_step :: "token \<Rightarrow> parse_state \<Rightarrow> parse_state option" where
  "parse_step t st =
     (case kind t of
        Word \<Rightarrow> Some (st\<lparr>newline_run := 0, current_sentence := current_sentence st @ [Term t]\<rparr>)
      | Number \<Rightarrow> Some (st\<lparr>newline_run := 0, current_sentence := current_sentence st @ [Term t]\<rparr>)
      | Punctuation \<Rightarrow>
          (if is_terminator t
           then Option.bind (flush_sentence st) (\<lambda>st'. Some (st'\<lparr>newline_run := 0\<rparr>))
           else Some (st\<lparr>newline_run := 0\<rparr>))
      | Symbol \<Rightarrow> Some (st\<lparr>newline_run := 0\<rparr>)
      | Whitespace \<Rightarrow>
          (let run = newline_run st + newlines (lexeme t) in
           if 2 \<le> run
           then Option.bind (flush_sentence (st\<lparr>newline_run := run\<rparr>)) (\<lambda>st'.
                Option.bind (flush_section st') (\<lambda>st''. Some (st''\<lparr>newline_run := 0\<rparr>)))
           else Some (st\<lparr>newline_run := run\<rparr>)))"

fun parse_loop :: "token list \<Rightarrow> parse_state \<Rightarrow> parse_state option" where
  "parse_loop [] st = Some st"
| "parse_loop (t # ts) st = Option.bind (parse_step t st) (parse_loop ts)"

definition no_tokens_msg :: string where
  "no_tokens_msg = ''document contains no significant tokens''"

definition no_sentences_msg :: string where
  "no_sentences_msg = ''no sentences could be derived from the token stream''"

definition parse_init :: parse_state where
  "parse_init = \<lparr>sections = [], current_sentence = [], current_sentences = [], newline_run = 0\<rparr>"

definition parse :: "token list \<Rightarrow> (indexer_error + ast_node) option" where
  "parse tokens =
     (if tokens = [] then Some (Err (Parse 0 no_tokens_msg))
      else Option.bind (parse_loop tokens parse_init) (\<lambda>st.
           Option.bind (flush_sentence st) (\<lambda>st.
           Option.bind (flush_section st) (\<lambda>st.
             if sections st = [] then Some (Err (Parse 0 no_sentences_msg))
             else Some (Ok (Document (sections st)))))))"

section \<open>The specification: split at blank lines, then at terminators\<close>

fun split_by :: "('a \<Rightarrow> bool) \<Rightarrow> 'a list \<Rightarrow> 'a list list" where
  "split_by P [] = [[]]"
| "split_by P (x # xs) =
     (if P x then [] # split_by P xs
      else (x # hd (split_by P xs)) # tl (split_by P xs))"

definition is_term :: "token \<Rightarrow> bool" where
  "is_term t \<longleftrightarrow> kind t = Word \<or> kind t = Number"

definition is_blank_line :: "token \<Rightarrow> bool" where
  "is_blank_line t \<longleftrightarrow> kind t = Whitespace \<and> 2 \<le> newlines (lexeme t)"

definition nonempty :: "'a list list \<Rightarrow> 'a list list" where
  "nonempty xss = filter (\<lambda>xs. xs \<noteq> []) xss"

definition sentences_of :: "token list \<Rightarrow> token list list" where
  "sentences_of ts = nonempty (map (filter is_term) (split_by is_terminator ts))"

definition sections_of :: "token list \<Rightarrow> token list list list" where
  "sections_of ts = nonempty (map sentences_of (split_by is_blank_line ts))"

definition mk_sentence :: "token list \<Rightarrow> ast_node" where
  "mk_sentence ts = Sentence (span_new (start (hd ts)) (stop (last ts))) (map Term ts)"

definition mk_section :: "token list list \<Rightarrow> ast_node" where
  "mk_section sents =
     Section (span_new (start (hd (hd sents))) (stop (last (last sents)))) (map mk_sentence sents)"

definition parse_spec :: "token list \<Rightarrow> indexer_error + ast_node" where
  "parse_spec ts =
     (if ts = [] then Err (Parse 0 no_tokens_msg)
      else if sections_of ts = [] then Err (Parse 0 no_sentences_msg)
      else Ok (Document (map mk_section (sections_of ts))))"

lemma nonempty_simps [simp]:
  "nonempty [] = []" "nonempty ([] # xss) = nonempty xss"
  "nonempty ((x # xs) # xss) = (x # xs) # nonempty xss"
  "nonempty (xss @ yss) = nonempty xss @ nonempty yss"
  by (simp_all add: nonempty_def)

lemma split_by_neq_Nil [simp]: "split_by P xs \<noteq> []"
  by (cases xs) auto

lemma concat_nonempty [simp]: "concat (nonempty xss) = concat xss"
  by (induction xss) (auto simp: nonempty_def)

section \<open>The single pass computes the specification\<close>

text \<open>The loop over plain token lists; \<open>conc\<close> adds the spans and constructors.\<close>

type_synonym abs_state = "token list list list \<times> token list list \<times> token list"

definition aflush_sentence :: "abs_state \<Rightarrow> abs_state" where
  "aflush_sentence a = (case a of (secs, sents, cur) \<Rightarrow> (secs, sents @ nonempty [cur], []))"

definition aflush_section :: "abs_state \<Rightarrow> abs_state" where
  "aflush_section a = (case a of (secs, sents, cur) \<Rightarrow> (secs @ nonempty [sents], [], cur))"

definition conc :: "abs_state \<Rightarrow> nat \<Rightarrow> parse_state" where
  "conc a n = (case a of (secs, sents, cur) \<Rightarrow>
     \<lparr>sections = map mk_section secs, current_sentence = map Term cur,
      current_sentences = map mk_sentence sents, newline_run = n\<rparr>)"

lemma flush_sentence_conc: "flush_sentence (conc a n) = Some (conc (aflush_sentence a) n)"
proof (cases a)
  case (fields secs sents cur)
  show ?thesis
  proof (cases cur)
    case (Cons x xs)
    have "last (map Term cur) = Term (last cur)"
      using Cons by (simp add: last_map del: list.map)
    then show ?thesis
      by (simp add: fields Cons flush_sentence_def conc_def aflush_sentence_def mk_sentence_def
          Let_def del: last.simps)
  qed (simp add: fields flush_sentence_def conc_def aflush_sentence_def)
qed

lemma flush_section_conc: "flush_section (conc a n) = Some (conc (aflush_section a) n)"
proof (cases a)
  case (fields secs sents cur)
  show ?thesis
  proof (cases sents)
    case (Cons x xs)
    have "last (map mk_sentence sents) = mk_sentence (last sents)"
      using Cons by (simp add: last_map del: list.map)
    then show ?thesis
      by (simp add: fields Cons flush_section_def conc_def aflush_section_def mk_section_def
          mk_sentence_def span_new_def del: last.simps)
  qed (simp add: fields flush_section_def conc_def aflush_section_def)
qed

lemma conc_newline_run: "conc a n\<lparr>newline_run := m\<rparr> = conc a m"
  by (cases a) (simp add: conc_def)

lemma newline_run_conc [simp]: "newline_run (conc a n) = n"
  by (cases a) (simp add: conc_def)

text \<open>What a state and the remaining tokens give: the finished sections, then the open
  section, which starts with the finished sentences and the open sentence.\<close>

definition rest_sections :: "abs_state \<Rightarrow> token list \<Rightarrow> token list list list" where
  "rest_sections a ts = (case a of (secs, sents, cur) \<Rightarrow>
     (let blocks = split_by is_blank_line ts;
          chunks = split_by is_terminator (hd blocks)
      in secs @ nonempty [sents @ nonempty [cur @ filter is_term (hd chunks)]
                 @ nonempty (map (filter is_term) (tl chunks))]
           @ nonempty (map sentences_of (tl blocks))))"

definition astep :: "token \<Rightarrow> abs_state \<Rightarrow> abs_state" where
  "astep t a = (case a of (secs, sents, cur) \<Rightarrow>
     if is_term t then (secs, sents, cur @ [t])
     else if is_terminator t then aflush_sentence a
     else if is_blank_line t then aflush_section (aflush_sentence a)
     else a)"

lemma nonempty_map_split:
  "nonempty (map f (split_by P ts))
     = nonempty [f (hd (split_by P ts))] @ nonempty (map f (tl (split_by P ts)))"
  by (cases "split_by P ts") (auto simp: nonempty_def)

lemmas sentences_of_eq = sentences_of_def [unfolded nonempty_map_split]
lemmas sections_of_eq = sections_of_def [unfolded nonempty_map_split]

lemma rest_sections_init: "rest_sections ([], [], []) ts = sections_of ts"
  by (simp add: rest_sections_def Let_def sections_of_eq [of ts]
      sentences_of_eq [of "hd (split_by is_blank_line ts)"])

lemma rest_sections_step: "rest_sections a (t # ts) = rest_sections (astep t a) ts"
proof (cases a)
  case (fields secs sents cur)
  have kinds: "is_term t \<Longrightarrow> \<not> is_terminator t \<and> \<not> is_blank_line t"
    "is_terminator t \<Longrightarrow> \<not> is_blank_line t"
    by (auto simp: is_term_def is_terminator_def is_blank_line_def)
  consider (T) "is_term t" | (E) "\<not> is_term t" "is_terminator t"
    | (B) "\<not> is_term t" "\<not> is_terminator t" "is_blank_line t"
    | (N) "\<not> is_term t" "\<not> is_terminator t" "\<not> is_blank_line t" by blast
  then show ?thesis
  proof cases
    case E
    then show ?thesis using kinds
      by (simp add: fields rest_sections_def astep_def aflush_sentence_def Let_def
          nonempty_map_split [of _ is_terminator])
  next
    case B
    then show ?thesis using kinds
      by (simp add: fields rest_sections_def astep_def aflush_sentence_def aflush_section_def
          Let_def nonempty_map_split [of _ is_blank_line] sentences_of_eq)
  qed (use kinds in \<open>simp_all add: fields rest_sections_def astep_def Let_def\<close>)
qed

lemma rest_sections_end:
  "rest_sections a [] = fst (aflush_section (aflush_sentence a))"
  by (cases a) (simp add: rest_sections_def aflush_sentence_def aflush_section_def nonempty_def)

lemma parse_step_conc:
  assumes "kind t = Whitespace \<longrightarrow> n = 0"
  shows "\<exists>m. parse_step t (conc a n) = Some (conc (astep t a) m)
    \<and> (kind t \<noteq> Whitespace \<longrightarrow> m = 0)"
proof (cases a)
  case (fields secs sents cur)
  show ?thesis
  proof (cases "kind t")
    case Whitespace
    then show ?thesis using assms
      by (auto simp: parse_step_def fields astep_def is_term_def is_terminator_def
          is_blank_line_def flush_sentence_conc flush_section_conc conc_newline_run Let_def)
  next
    case Punctuation
    then show ?thesis
      by (auto simp: parse_step_def fields astep_def is_term_def is_blank_line_def
          flush_sentence_conc conc_newline_run)
  qed (auto simp: parse_step_def fields astep_def is_term_def is_terminator_def
      is_blank_line_def conc_def)
qed

lemma parse_loop_conc:
  assumes "no_adjacent_ws ts" "ts \<noteq> [] \<longrightarrow> kind (hd ts) = Whitespace \<longrightarrow> n = 0"
  shows "\<exists>b m. parse_loop ts (conc a n) = Some (conc b m) \<and> rest_sections a ts = rest_sections b []"
  using assms
proof (induction ts arbitrary: a n)
  case Nil
  show ?case by (intro exI [of _ a] exI [of _ n]) simp
next
  case (Cons t ts)
  obtain m where m: "parse_step t (conc a n) = Some (conc (astep t a) m)"
    "kind t \<noteq> Whitespace \<longrightarrow> m = 0"
    using parse_step_conc [of t n a] Cons.prems(2) by auto
  have "ts \<noteq> [] \<longrightarrow> kind (hd ts) = Whitespace \<longrightarrow> m = 0"
    using Cons.prems(1) m(2) by (auto simp: no_adjacent_ws_Cons)
  with Cons.IH [of m "astep t a"] Cons.prems(1) m(1) show ?case
    by (auto simp: no_adjacent_ws_Cons rest_sections_step)
qed

lemma parse_refines_spec: "no_adjacent_ws ts \<Longrightarrow> parse ts = Some (parse_spec ts)"
proof (cases "ts = []")
  case False
  assume "no_adjacent_ws ts"
  then obtain b m where b: "parse_loop ts (conc ([], [], []) 0) = Some (conc b m)"
    "rest_sections ([], [], []) ts = rest_sections b []"
    using parse_loop_conc [of ts 0 "([], [], [])"] by auto
  have "parse_init = conc ([], [], []) 0" by (simp add: parse_init_def conc_def)
  moreover have "sections (conc c k) = map mk_section (fst c)" for c k
    by (cases c) (simp add: conc_def)
  moreover have "sections_of ts = fst (aflush_section (aflush_sentence b))"
    using b(2) by (simp add: rest_sections_init rest_sections_end)
  ultimately show ?thesis
    using False b(1) by (simp add: parse_def parse_spec_def flush_sentence_conc flush_section_conc)
qed (simp add: parse_def parse_spec_def)

section \<open>What the document holds\<close>

lemma filter_split_by:
  "(\<And>x. P x \<Longrightarrow> \<not> Q x) \<Longrightarrow> concat (map (filter Q) (split_by P xs)) = filter Q xs"
proof (induction xs)
  case (Cons x xs)
  then show ?case by (cases "split_by P xs") (auto simp: dest: sym)
qed simp

lemma concat_sentences_of: "concat (sentences_of ts) = filter is_term ts"
  unfolding sentences_of_def concat_nonempty
  by (rule filter_split_by) (auto simp: is_terminator_def is_term_def)

lemma concat_sections_of: "concat (concat (sections_of ts)) = filter is_term ts"
proof -
  have "concat (concat (map sentences_of xss)) = concat (map (filter is_term) xss)" for xss
    by (induction xss) (auto simp: concat_sentences_of)
  moreover have "concat (map (filter is_term) (split_by is_blank_line ts)) = filter is_term ts"
    by (rule filter_split_by) (auto simp: is_blank_line_def is_term_def)
  ultimately show ?thesis by (simp add: sections_of_def)
qed

lemma sections_of_parts:
  assumes "sec \<in> set (sections_of ts)"
  shows "sec \<noteq> [] \<and> (\<forall>sent \<in> set sec. sent \<noteq> [] \<and> (\<forall>t \<in> set sent. is_term t))"
  using assms by (auto simp: sections_of_def sentences_of_def nonempty_def)

lemma sections_of_Nil_iff: "sections_of ts = [] \<longleftrightarrow> filter is_term ts = []"
proof
  assume n: "filter is_term ts = []"
  have "sec = []" if "sec \<in> set (sections_of ts)" for sec
    using sections_of_parts [OF that] concat_sections_of [of ts] n that
    by (cases sec) (fastforce simp: filter_empty_conv)+
  then show "sections_of ts = []"
    using sections_of_parts [of "hd (sections_of ts)" ts] hd_in_set by blast
next
  assume "sections_of ts = []"
  then show "filter is_term ts = []" using concat_sections_of [of ts] by simp
qed

lemma terms_mk_sentence [simp]: "terms (mk_sentence ts) = ts"
  by (induction ts) (auto simp: mk_sentence_def List.map_filter_simps)

lemma sentences_document: "sentences (Document (map mk_section secs)) = map mk_sentence (concat secs)"
  by (induction secs) (auto simp: mk_section_def)

text \<open>The shape of a parsed tree: sections of sentences of terms, none empty, every span
  from the first byte of its first term to the last byte of its last term.\<close>

definition wf_sentence :: "ast_node \<Rightarrow> bool" where
  "wf_sentence n \<longleftrightarrow> (\<exists>ts. ts \<noteq> [] \<and> (\<forall>t \<in> set ts. is_term t) \<and> n = mk_sentence ts)"

definition wf_section :: "ast_node \<Rightarrow> bool" where
  "wf_section n \<longleftrightarrow> (\<exists>sents. sents \<noteq> [] \<and> n = mk_section sents
     \<and> (\<forall>ts \<in> set sents. wf_sentence (mk_sentence ts)))"

definition wf_document :: "ast_node \<Rightarrow> bool" where
  "wf_document d \<longleftrightarrow> (\<exists>secs. secs \<noteq> [] \<and> d = Document secs \<and> (\<forall>n \<in> set secs. wf_section n))"

lemma parse_ok_spec:
  assumes "no_adjacent_ws ts" "parse ts = Some (Ok d)"
  shows "d = Document (map mk_section (sections_of ts)) \<and> sections_of ts \<noteq> []"
  using assms by (auto simp: parse_refines_spec parse_spec_def split: if_splits)

lemma parse_wf_document:
  assumes "no_adjacent_ws ts" "parse ts = Some (Ok d)"
  shows "wf_document d"
proof -
  have "wf_section (mk_section sec)" if "sec \<in> set (sections_of ts)" for sec
    unfolding wf_section_def using sections_of_parts [OF that]
    by (intro exI [of _ sec]) (auto simp: wf_sentence_def)
  with parse_ok_spec [OF assms] show ?thesis by (auto simp: wf_document_def)
qed

lemma parse_terms:
  assumes "no_adjacent_ws ts" "parse ts = Some (Ok d)"
  shows "concat (map terms (sentences d)) = filter is_term ts"
proof -
  have "map (\<lambda>x. terms (mk_sentence x)) xss = xss" for xss by (induction xss) auto
  then show ?thesis
    using parse_ok_spec [OF assms]
    by (simp add: sentences_document concat_sections_of comp_def del: sentences.simps)
qed

text \<open>No panic: every state the loop reaches has terms in its sentence and sentences in
  its section, whatever the tokens are.\<close>

lemma parse_step_total: "\<exists>b m. parse_step t (conc a n) = Some (conc b m)"
proof -
  have Wd: "\<exists>b. conc a k\<lparr>newline_run := 0, current_sentence := current_sentence (conc a k) @ [Term t]\<rparr>
      = conc b 0" for k
    by (cases a, rule exI [of _ "(fst a, fst (snd a), snd (snd a) @ [t])"]) (simp add: conc_def)
  show ?thesis
    using Wd [of n]
    by (cases "kind t") (auto simp: parse_step_def Let_def flush_sentence_conc flush_section_conc
        conc_newline_run simp del: split_paired_Ex)
qed

lemma parse_loop_total: "\<exists>b m. parse_loop ts (conc a n) = Some (conc b m)"
proof (induction ts arbitrary: a n)
  case Nil
  show ?case by (intro exI [of _ a] exI [of _ n]) simp
next
  case (Cons t ts)
  obtain b m where "parse_step t (conc a n) = Some (conc b m)"
    using parse_step_total by blast
  with Cons.IH [of b m] show ?case by simp
qed

section \<open>Properties of the parser\<close>

text \<open>The parser cannot panic: on every token slice, the output of \<open>tokenize\<close> or
  not, the \<open>unreachable!\<close> branches of both flush closures are never taken.\<close>

lemma parse_never_panics: "parse ts \<noteq> None"
proof -
  have "parse_init = conc ([], [], []) 0" by (simp add: parse_init_def conc_def)
  moreover obtain b m where "parse_loop ts (conc ([], [], []) 0) = Some (conc b m)"
    using parse_loop_total by blast
  ultimately show ?thesis
    by (simp add: parse_def flush_sentence_conc flush_section_conc)
qed

text \<open>C6: on the tokens of any document the single pass of \<open>parse\<close> computes the
  declarative specification: split the stream at whitespace tokens with two newlines into
  sections, split each section at \<open>.\<close>, \<open>!\<close> and \<open>?\<close> into sentences, keep the word and number
  tokens, drop what is empty, and give every node the span of its terms.\<close>

theorem parse_is_split:
  assumes "tokenize s = Ok ts"
  shows "parse ts = Some (parse_spec ts)"
  by (rule parse_refines_spec [OF tokenize_no_adjacent_ws [OF assms]])

definition w_tok :: "string \<Rightarrow> nat \<Rightarrow> token" where
  "w_tok l i = \<lparr>kind = Word, lexeme = l, start = i, stop = i + length l\<rparr>"

theorem parse_is_split_witness:
  "parse [w_tok ''a'' 0, \<lparr>kind = Punctuation, lexeme = ''.'', start = 1, stop = 2\<rparr>, w_tok ''b'' 2]
     = Some (Ok (Document [mk_section [[w_tok ''a'' 0], [w_tok ''b'' 2]]]))"
proof -
  have t: "tokenize ''a.b'' = Ok [w_tok ''a'' 0,
      \<lparr>kind = Punctuation, lexeme = ''.'', start = 1, stop = 2\<rparr>, w_tok ''b'' 2]"
    by code_simp
  show ?thesis unfolding parse_is_split [OF t]
    by (simp add: parse_spec_def sections_of_def sentences_of_def nonempty_def w_tok_def
        is_term_def is_terminator_def is_blank_line_def mk_section_def)
qed

text \<open>Parsing keeps the significant content: the tree is well formed and its terms, read
  sentence by sentence, are exactly the word and number tokens of the document in order, so
  no term is lost, duplicated or reordered.\<close>

lemma parse_preserves_terms:
  assumes "tokenize s = Ok ts" "parse ts = Some (Ok d)"
  shows "wf_document d \<and> concat (map terms (sentences d)) = filter is_term ts"
  using parse_wf_document parse_terms tokenize_no_adjacent_ws assms by blast

lemma parse_preserves_terms_witness:
  "concat (map terms (sentences (Document [mk_section [[w_tok ''a'' 0], [w_tok ''b'' 2]]])))
     = [w_tok ''a'' 0, w_tok ''b'' 2]"
proof -
  have t: "tokenize ''a.b'' = Ok [w_tok ''a'' 0,
      \<lparr>kind = Punctuation, lexeme = ''.'', start = 1, stop = 2\<rparr>, w_tok ''b'' 2]"
    by code_simp
  have p: "parse [w_tok ''a'' 0, \<lparr>kind = Punctuation, lexeme = ''.'', start = 1, stop = 2\<rparr>,
      w_tok ''b'' 2] = Some (Ok (Document [mk_section [[w_tok ''a'' 0], [w_tok ''b'' 2]]]))"
    by (subst parse_refines_spec [OF tokenize_no_adjacent_ws [OF t]])
      (simp add: parse_spec_def sections_of_def sentences_of_def nonempty_def w_tok_def
        is_term_def is_terminator_def is_blank_line_def mk_section_def)
  from parse_preserves_terms [OF t p] show ?thesis
    by (simp add: w_tok_def is_term_def)
qed

text \<open>When a tokenized document is rejected: exactly when it has no word and no number
  token, with one message for the empty stream and another for a stream of separators.\<close>

lemma parse_error_iff:
  assumes "tokenize s = Ok ts"
  shows "parse ts = Some (Err e) \<longleftrightarrow>
    filter is_term ts = [] \<and>
    e = Parse 0 (if ts = [] then no_tokens_msg else no_sentences_msg)"
  using parse_refines_spec [OF tokenize_no_adjacent_ws [OF assms]]
  by (auto simp: parse_spec_def sections_of_Nil_iff)

lemma parse_error_iff_witness:
  "parse [\<lparr>kind = Whitespace, lexeme = '' '', start = 0, stop = 1\<rparr>]
     = Some (Err (Parse 0 no_sentences_msg))"
proof -
  have t: "tokenize '' '' = Ok [\<lparr>kind = Whitespace, lexeme = '' '', start = 0, stop = 1\<rparr>]"
    by code_simp
  show ?thesis by (subst parse_error_iff [OF t]) (simp add: is_term_def)
qed

end
