(* ===== verification/OrdMap.thy ===== *)
theory OrdMap
  imports Prelude
begin

text \<open>
  \<open>BTreeMap\<close> and \<open>BTreeSet\<close> of the Rust standard library, as the crate uses them: an
  association list with strictly ascending keys, so that iterating the list is iterating
  the map. \<open>om_put\<close> is \<open>insert\<close>, \<open>map_of\<close> is \<open>get\<close>, \<open>om_update\<close> is
  \<open>entry(k).or_default()\<close> followed by a change of the value, \<open>insort_insert\<close> is
  \<open>BTreeSet::insert\<close>. The interface \<open>btree_map\<close> states what the crate's determinism
  contract rests on: the iteration order depends on the contents only.
\<close>

section \<open>The interface\<close>

locale btree_map =
  fixes get :: "'m \<Rightarrow> 'k :: linorder \<Rightarrow> 'v option"
    and put :: "'k \<Rightarrow> 'v \<Rightarrow> 'm \<Rightarrow> 'm"
    and entries :: "'m \<Rightarrow> ('k \<times> 'v) list"
    and wf :: "'m \<Rightarrow> bool"
  assumes get_put: "get (put k v m) = (get m)(k \<mapsto> v)"
    and wf_put: "wf m \<Longrightarrow> wf (put k v m)"
    and entries_sorted: "wf m \<Longrightarrow> sorted_wrt (<) (map fst (entries m))"
    and get_entries: "wf m \<Longrightarrow> get m = map_of (entries m)"
begin

lemma set_entries: "wf m \<Longrightarrow> set (entries m) = {(k, v). get m k = Some v}"
  by (auto simp: get_entries map_of_eq_Some_iff entries_sorted sorted_wrt_less_distinct)

text \<open>Iteration is a function of the contents: the order of the insertions is invisible.\<close>

lemma entries_unique:
  assumes wf: "wf m" "wf m'" and get: "get m = get m'"
  shows "entries m = entries m'"
proof -
  have set: "set (entries m) = set (entries m')"
    using wf get by (simp add: set_entries)
  have keys: "map fst (entries m) = map fst (entries m')"
    using wf set by (intro sorted_wrt_less_unique) (auto intro: entries_sorted)
  have "inj_on fst (set (entries m) \<union> set (entries m'))"
    using wf set by (simp add: entries_sorted sorted_wrt_less_distinct
        flip: distinct_map [THEN iffD1, THEN conjunct2])
      (metis distinct_map entries_sorted sorted_wrt_less_distinct)
  then show ?thesis using keys by (metis map_inj_on)
qed

lemma put_commute:
  assumes "wf m" "k \<noteq> k'"
  shows "entries (put k v (put k' v' m)) = entries (put k' v' (put k v m))"
  using assms by (intro entries_unique) (auto simp: get_put wf_put fun_upd_twist)

end

section \<open>Ordered maps as association lists\<close>

fun om_put :: "'k :: linorder \<Rightarrow> 'v \<Rightarrow> ('k \<times> 'v) list \<Rightarrow> ('k \<times> 'v) list" where
  "om_put k v [] = [(k, v)]"
| "om_put k v ((k', v') # m) =
     (if k < k' then (k, v) # (k', v') # m
      else if k = k' then (k, v) # m
      else (k', v') # om_put k v m)"

definition om_wf :: "('k :: linorder \<times> 'v) list \<Rightarrow> bool" where
  "om_wf m \<longleftrightarrow> sorted_wrt (<) (map fst m)"

text \<open>\<open>*entry(k).or_insert(d)\<close> with the value then replaced by \<open>f\<close> of it.\<close>

definition om_update ::
    "'k :: linorder \<Rightarrow> 'v \<Rightarrow> ('v \<Rightarrow> 'v) \<Rightarrow> ('k \<times> 'v) list \<Rightarrow> ('k \<times> 'v) list" where
  "om_update k d f m = om_put k (f (case map_of m k of None \<Rightarrow> d | Some v \<Rightarrow> v)) m"

lemma map_of_om_put [simp]: "map_of (om_put k v m) = (map_of m)(k \<mapsto> v)"
  by (induction k v m rule: om_put.induct) (auto simp: fun_eq_iff)

lemma keys_om_put [simp]: "fst ` set (om_put k v m) = insert k (fst ` set m)"
  by (induction k v m rule: om_put.induct) auto

lemma om_wf_Nil [simp]: "om_wf []"
  by (simp add: om_wf_def)

lemma om_wf_Cons: "om_wf (x # m) \<longleftrightarrow> (\<forall>y \<in> set m. fst x < fst y) \<and> om_wf m"
  by (auto simp: om_wf_def)

lemma om_wf_put [intro]: "om_wf m \<Longrightarrow> om_wf (om_put k v m)"
proof (induction k v m rule: om_put.induct)
  case (1 k v)
  then show ?case by (simp add: om_wf_Cons)
next
  case (2 k v k' v' m)
  have keys: "\<And>y. y \<in> set (om_put k v m) \<Longrightarrow> fst y = k \<or> fst y \<in> fst ` set m"
    using keys_om_put [of k v m] by (metis image_eqI insertE)
  show ?case
    using 2 keys by (auto simp: om_wf_Cons dest!: keys) (force+)?
qed

lemma om_distinct: "om_wf m \<Longrightarrow> distinct (map fst m)"
  by (simp add: om_wf_def sorted_wrt_less_distinct)

interpretation om: btree_map map_of om_put "\<lambda>m. m" om_wf
  by unfold_locales (auto simp: om_wf_def [symmetric])

lemma om_ext: "om_wf x \<Longrightarrow> om_wf y \<Longrightarrow> map_of x = map_of y \<Longrightarrow> x = y"
  using om.entries_unique [of x y] by simp

lemma om_set_ext:
  assumes "om_wf x" "om_wf y" "set x = set y"
  shows "x = y"
proof (rule om_ext [OF assms(1,2)], rule ext)
  fix k
  have "map_of x k = Some v \<longleftrightarrow> map_of y k = Some v" for v
    using om_distinct [OF assms(1)] om_distinct [OF assms(2)] assms(3) by simp
  then show "map_of x k = map_of y k" by (metis option.exhaust)
qed

lemma map_of_om_update [simp]:
  "map_of (om_update k d f m) =
     (map_of m)(k \<mapsto> f (case map_of m k of None \<Rightarrow> d | Some v \<Rightarrow> v))"
  by (simp add: om_update_def)

lemma om_wf_update [intro]: "om_wf m \<Longrightarrow> om_wf (om_update k d f m)"
  by (auto simp: om_update_def)

lemma keys_om_update [simp]: "fst ` set (om_update k d f m) = insert k (fst ` set m)"
  by (simp add: om_update_def)

lemma om_get_iff: "om_wf m \<Longrightarrow> map_of m k = Some v \<longleftrightarrow> (k, v) \<in> set m"
  by (simp add: om_distinct)

text \<open>Inserting a key above every other appends it.\<close>

lemma om_put_above: "\<forall>x \<in> set m. fst x < k \<Longrightarrow> om_put k v m = m @ [(k, v)]"
  by (induction k v m rule: om_put.induct) auto

section \<open>Ordered sets\<close>

definition os_wf :: "'a :: linorder list \<Rightarrow> bool" where
  "os_wf xs \<longleftrightarrow> sorted_wrt (<) xs"

definition os_insert :: "'a :: linorder \<Rightarrow> 'a list \<Rightarrow> 'a list" where
  "os_insert x xs = insort_insert x xs"

lemma set_os_insert [simp]: "set (os_insert x xs) = insert x (set xs)"
  by (simp add: os_insert_def set_insort_insert)

lemma os_wf_Nil [simp]: "os_wf []"
  by (simp add: os_wf_def)

lemma os_wf_sorted_distinct: "os_wf xs \<longleftrightarrow> sorted xs \<and> distinct xs"
  by (simp add: os_wf_def strict_sorted_iff)

lemma os_wf_insert [intro]: "os_wf xs \<Longrightarrow> os_wf (os_insert x xs)"
  by (simp add: os_wf_sorted_distinct os_insert_def sorted_insort_insert distinct_insort_insert)

lemma os_insert_neq_Nil [simp]: "os_insert x xs \<noteq> []"
  using set_os_insert [of x xs] by (metis empty_iff insertI1 list.set(1))

lemma os_unique: "os_wf xs \<Longrightarrow> os_wf ys \<Longrightarrow> set xs = set ys \<Longrightarrow> xs = ys"
  unfolding os_wf_def by (rule sorted_wrt_less_unique)

lemma os_insert_commute: "os_wf xs \<Longrightarrow> os_insert x (os_insert y xs) = os_insert y (os_insert x xs)"
  by (rule os_unique) auto

end
