(* ===== verification/TokenGraph.thy ===== *)
theory TokenGraph
  imports Parser OrdMap
begin

text \<open>
  Stage 3 of the symbolic engine: the token graph of \<open>rag_engine/src/ast.rs\<close>
  (\<open>SymbolType\<close>, \<open>Node\<close>, \<open>Edge\<close>, \<open>DocumentAST\<close>, \<open>lex\<close>) and its extraction and
  matching in \<open>rag_engine/src/lib.rs\<close> (\<open>DocumentAST::from_ast\<close>, \<open>Pattern\<close>,
  \<open>match_graph\<close>). The extraction is refined to a declarative description of its
  nodes (first occurrences) and edges (ordered pairs of each sentence).

  \<open>str::to_lowercase\<close> is modelled on ASCII bytes. The lexemes of a tokenized document
  are ASCII (\<open>lexemes_are_ascii\<close>), which is all the pipeline applies it to.
\<close>

section \<open>The data model\<close>

datatype symbol_type = SymWord | SymNumber | SymSymbol | SymPunctuation

fun from_token_kind :: "token_kind \<Rightarrow> symbol_type option" where
  "from_token_kind Word = Some SymWord"
| "from_token_kind Number = Some SymNumber"
| "from_token_kind Symbol = Some SymSymbol"
| "from_token_kind Punctuation = Some SymPunctuation"
| "from_token_kind Whitespace = None"

record tnode =
  node_id :: nat
  node_text :: string
  node_type :: symbol_type
  node_span :: span

record edge =
  e_predicate :: string
  e_subject :: nat
  e_object :: nat
  e_span :: span

record document_ast =
  nodes :: "tnode list"
  edges :: "edge list"

definition doc_empty :: document_ast where
  "doc_empty = \<lparr>nodes = [], edges = []\<rparr>"

definition doc_len :: "document_ast \<Rightarrow> nat" where
  "doc_len g = length (nodes g)"

definition doc_is_empty :: "document_ast \<Rightarrow> bool" where
  "doc_is_empty g \<longleftrightarrow> nodes g = []"

definition doc_node :: "document_ast \<Rightarrow> nat \<Rightarrow> tnode option" where
  "doc_node g i = (if i < length (nodes g) then Some (nodes g ! i) else None)"

section \<open>Extraction: \<open>DocumentAST::from_ast\<close>\<close>

definition ascii_lower :: "char \<Rightarrow> char" where
  "ascii_lower c = (if 65 \<le> byte c \<and> byte c \<le> 90 then char_of (byte c + 32) else c)"

definition to_lowercase :: "string \<Rightarrow> string" where
  "to_lowercase s = map ascii_lower s"

type_synonym node_index = "(string \<times> nat) list"

definition ensure_node ::
    "token \<Rightarrow> tnode list \<times> node_index \<Rightarrow> nat \<times> (tnode list \<times> node_index)" where
  "ensure_node t b = (case b of (ns, index) \<Rightarrow>
     (let key = to_lowercase (lexeme t) in
      case map_of index key of
        Some idx \<Rightarrow> (idx, (ns, index))
      | None \<Rightarrow>
          (let idx = length ns;
               n = \<lparr>node_id = idx, node_text = key,
                    node_type = (case from_token_kind (kind t) of Some s \<Rightarrow> s | None \<Rightarrow> SymWord),
                    node_span = span_new (start t) (stop t)\<rparr>
           in (idx, (ns @ [n], om_put key idx index)))))"

definition edge_predicate :: "token list \<Rightarrow> nat \<Rightarrow> nat \<Rightarrow> string" where
  "edge_predicate ts i j =
     (if j = i + 2 then to_lowercase (lexeme (ts ! (i + 1))) else ''related_to'')"

type_synonym builder = "(tnode list \<times> node_index) \<times> edge list"

text \<open>The inner loop over \<open>j\<close>, the middle loop over \<open>i\<close>, the outer loop over sentences.\<close>

fun object_loop :: "token list \<Rightarrow> nat \<Rightarrow> nat \<Rightarrow> nat list \<Rightarrow> builder \<Rightarrow> builder" where
  "object_loop ts i subj [] b = b"
| "object_loop ts i subj (j # js) b =
     (let (obj, ni) = ensure_node (ts ! j) (fst b);
          es = (if subj = obj then snd b
                else snd b @ [\<lparr>e_predicate = edge_predicate ts i j, e_subject = subj,
                               e_object = obj, e_span = node_span (fst ni ! subj)\<rparr>])
      in object_loop ts i subj js (ni, es))"

fun subject_loop :: "token list \<Rightarrow> nat list \<Rightarrow> builder \<Rightarrow> builder" where
  "subject_loop ts [] b = b"
| "subject_loop ts (i # is) b =
     (let (subj, ni) = ensure_node (ts ! i) (fst b)
      in subject_loop ts is (object_loop ts i subj [i + 1..<length ts] (ni, snd b)))"

fun sentence_loop :: "ast_node list \<Rightarrow> builder \<Rightarrow> builder" where
  "sentence_loop [] b = b"
| "sentence_loop (s # ss) b =
     sentence_loop ss (subject_loop (terms s) [0..<length (terms s)] b)"

definition from_ast :: "ast_node \<Rightarrow> document_ast" where
  "from_ast ast = (case sentence_loop (sentences ast) (([], []), []) of
     ((ns, _), es) \<Rightarrow> \<lparr>nodes = ns, edges = es\<rparr>)"

text \<open>\<open>ast::lex\<close>: the composition of the three stages.\<close>

definition lex :: "string \<Rightarrow> (indexer_error + document_ast) option" where
  "lex input = (case tokenize input of
     Err e \<Rightarrow> Some (Err e)
   | Ok ts \<Rightarrow> (case parse ts of
       None \<Rightarrow> None
     | Some (Err e) \<Rightarrow> Some (Err e)
     | Some (Ok ast) \<Rightarrow> Some (Ok (from_ast ast))))"

section \<open>Matching: \<open>Pattern\<close> and \<open>match_graph\<close>\<close>

type_synonym triple = "string \<times> string \<times> string"

record pattern =
  triples :: "triple list"

definition pattern_new :: "triple list \<Rightarrow> pattern" where
  "pattern_new ts = \<lparr>triples = ts\<rparr>"

definition pattern_single :: "string \<Rightarrow> string \<Rightarrow> string \<Rightarrow> pattern" where
  "pattern_single s p ob = pattern_new [(s, p, ob)]"

record graph_match =
  gm_subject :: nat
  gm_object :: nat
  gm_predicate :: string
  gm_span :: span

definition match_edge :: "document_ast \<Rightarrow> triple \<Rightarrow> edge \<Rightarrow> graph_match option" where
  "match_edge g q e = (case q of (subj_text, pred_text, obj_text) \<Rightarrow>
     (case (doc_node g (e_subject e), doc_node g (e_object e)) of
        (Some subj, Some obj) \<Rightarrow>
          (if (subj_text = ''*'' \<or> node_text subj = subj_text)
              \<and> (pred_text = ''*'' \<or> e_predicate e = pred_text)
              \<and> (obj_text = ''*'' \<or> node_text obj = obj_text)
           then Some \<lparr>gm_subject = e_subject e, gm_object = e_object e,
                      gm_predicate = e_predicate e, gm_span = node_span subj\<rparr>
           else None)
      | _ \<Rightarrow> None))"

fun match_edges :: "document_ast \<Rightarrow> triple \<Rightarrow> edge list \<Rightarrow> graph_match list" where
  "match_edges g q [] = []"
| "match_edges g q (e # es) =
     (case match_edge g q e of
        None \<Rightarrow> match_edges g q es
      | Some m \<Rightarrow> m # match_edges g q es)"

fun match_triples :: "document_ast \<Rightarrow> triple list \<Rightarrow> graph_match list" where
  "match_triples g [] = []"
| "match_triples g (q # qs) = match_edges g q (edges g) @ match_triples g qs"

definition match_graph :: "document_ast \<Rightarrow> pattern \<Rightarrow> indexer_error + graph_match list" where
  "match_graph g p =
     (if doc_is_empty g then Err (EmptyGraph ''cannot match a pattern against an empty graph'')
      else Ok (match_triples g (triples p)))"

section \<open>The nodes are the first occurrences\<close>

definition tok_key :: "token \<Rightarrow> string" where
  "tok_key t = to_lowercase (lexeme t)"

fun first_tokens :: "string list \<Rightarrow> token list \<Rightarrow> token list" where
  "first_tokens seen [] = []"
| "first_tokens seen (t # ts) =
     (if tok_key t \<in> set seen then first_tokens seen ts
      else t # first_tokens (tok_key t # seen) ts)"

definition mk_node :: "nat \<Rightarrow> token \<Rightarrow> tnode" where
  "mk_node i t = \<lparr>node_id = i, node_text = tok_key t,
     node_type = (case from_token_kind (kind t) of Some s \<Rightarrow> s | None \<Rightarrow> SymWord),
     node_span = span_new (start t) (stop t)\<rparr>"

fun number_nodes :: "nat \<Rightarrow> token list \<Rightarrow> tnode list" where
  "number_nodes i [] = []"
| "number_nodes i (t # ts) = mk_node i t # number_nodes (Suc i) ts"

definition nodes_of :: "token list \<Rightarrow> tnode list" where
  "nodes_of ts = number_nodes 0 (first_tokens [] ts)"

text \<open>The index of a builder holds exactly the positions of the node texts.\<close>

definition index_ok :: "tnode list \<times> node_index \<Rightarrow> bool" where
  "index_ok b \<longleftrightarrow> (case b of (ns, index) \<Rightarrow>
     om_wf index \<and> (\<forall>i < length ns. node_id (ns ! i) = i)
     \<and> (\<forall>k i. map_of index k = Some i \<longleftrightarrow> i < length ns \<and> node_text (ns ! i) = k))"

definition idx_of :: "tnode list \<times> node_index \<Rightarrow> token \<Rightarrow> nat" where
  "idx_of b t = the (map_of (snd b) (tok_key t))"

fun ensure_all :: "token list \<Rightarrow> tnode list \<times> node_index \<Rightarrow> tnode list \<times> node_index" where
  "ensure_all [] b = b"
| "ensure_all (t # ts) b = ensure_all ts (snd (ensure_node t b))"

definition known :: "tnode list \<times> node_index \<Rightarrow> token \<Rightarrow> bool" where
  "known b t \<longleftrightarrow> map_of (snd b) (tok_key t) \<noteq> None"

lemma ensure_known: "known b t \<Longrightarrow> ensure_node t b = (idx_of b t, b)"
  by (cases b) (auto simp: known_def idx_of_def ensure_node_def tok_key_def Let_def split: option.splits)

lemma ensure_new:
  "\<not> known (ns, index) t \<Longrightarrow> ensure_node t (ns, index)
     = (length ns, (ns @ [mk_node (length ns) t], om_put (tok_key t) (length ns) index))"
  by (auto simp: known_def ensure_node_def tok_key_def mk_node_def Let_def)

lemma known_ensure [simp]: "known (snd (ensure_node t b)) t"
  by (cases "known b t"; cases b) (auto simp: ensure_known ensure_new, simp add: known_def)

lemma known_mono: "known b u \<Longrightarrow> known (snd (ensure_node t b)) u"
  by (cases "known b t"; cases b) (auto simp: ensure_known ensure_new, simp add: known_def)

lemma fst_ensure: "fst (ensure_node t b) = idx_of (snd (ensure_node t b)) t"
  by (cases "known b t"; cases b) (auto simp: ensure_known ensure_new, simp add: idx_of_def)

lemma known_ensure_all: "known b u \<or> u \<in> set ts \<Longrightarrow> known (ensure_all ts b) u"
proof (induction ts arbitrary: b)
  case (Cons t ts)
  then have "known (snd (ensure_node t b)) u \<or> u \<in> set ts"
    by (auto intro: known_mono)
  then show ?case using Cons.IH by simp
qed simp

lemma ensure_all_known: "(\<forall>u \<in> set ts. known b u) \<Longrightarrow> ensure_all ts b = b"
  by (induction ts) (auto simp: ensure_known)

lemma ensure_all_append: "ensure_all (xs @ ys) b = ensure_all ys (ensure_all xs b)"
  by (induction xs arbitrary: b) auto

text \<open>Later insertions change neither the index of a known token nor its node.\<close>

lemma idx_of_mono: "known b u \<Longrightarrow> idx_of (snd (ensure_node t b)) u = idx_of b u"
  by (cases "known b t"; cases b)
    (auto simp: ensure_known ensure_new, auto simp: idx_of_def known_def)

lemma idx_of_ensure_all: "known b u \<Longrightarrow> idx_of (ensure_all ts b) u = idx_of b u"
  by (induction ts arbitrary: b) (auto simp: known_mono idx_of_mono)

lemma index_ok_ensure: "index_ok b \<Longrightarrow> index_ok (snd (ensure_node t b))"
proof (cases "known b t")
  case False
  assume ok: "index_ok b"
  obtain ns index where b: "b = (ns, index)" by (cases b)
  have new: "\<And>i. i < length ns \<Longrightarrow> node_text (ns ! i) \<noteq> tok_key t"
    using ok False by (auto simp: index_ok_def known_def b)
  show ?thesis
    using ok False new
    by (auto simp: b ensure_new index_ok_def nth_append mk_node_def less_Suc_eq)
qed (simp add: ensure_known)

lemma index_ok_ensure_all: "index_ok b \<Longrightarrow> index_ok (ensure_all ts b)"
proof (induction ts arbitrary: b)
  case (Cons t ts)
  then show ?case using index_ok_ensure [OF Cons.prems, of t] by simp
qed simp

lemma idx_of_less: "index_ok b \<Longrightarrow> known b t \<Longrightarrow>
    idx_of b t < length (fst b) \<and> node_text (fst b ! idx_of b t) = tok_key t"
proof -
  assume ok: "index_ok b" and "known b t"
  then obtain i where i: "map_of (snd b) (tok_key t) = Some i"
    by (auto simp: known_def)
  with ok show ?thesis by (auto simp: index_ok_def idx_of_def split: prod.splits)
qed

lemma nodes_prefix: "\<exists>xs. fst (snd (ensure_node t b)) = fst b @ xs"
  by (cases "known b t"; cases b) (auto simp: ensure_known ensure_new)

lemma nodes_prefix_all: "\<exists>xs. fst (ensure_all ts b) = fst b @ xs"
proof (induction ts arbitrary: b)
  case (Cons t ts)
  obtain xs where "fst (snd (ensure_node t b)) = fst b @ xs" using nodes_prefix by blast
  with Cons.IH [of "snd (ensure_node t b)"] show ?case by auto
qed simp

text \<open>The nodes a run of insertions adds are the tokens whose text is new, numbered on.\<close>

lemma ensure_all_nodes:
  "(\<And>k. map_of index k \<noteq> None \<longleftrightarrow> k \<in> set seen) \<Longrightarrow>
     fst (ensure_all ts (ns, index)) = ns @ number_nodes (length ns) (first_tokens seen ts)"
proof (induction ts arbitrary: ns index seen)
  case (Cons t ts)
  show ?case
  proof (cases "known (ns, index) t")
    case True
    then have "tok_key t \<in> set seen" using Cons.prems unfolding known_def by simp
    with Cons.IH [OF Cons.prems] True show ?thesis by (simp add: ensure_known)
  next
    case False
    then have new: "tok_key t \<notin> set seen"
      using Cons.prems [of "tok_key t"] unfolding known_def by simp
    have "\<And>k. map_of (om_put (tok_key t) (length ns) index) k \<noteq> None
        \<longleftrightarrow> k \<in> set (tok_key t # seen)"
      using Cons.prems by auto
    from Cons.IH [OF this, of "ns @ [mk_node (length ns) t]"] False new show ?thesis
      by (simp add: ensure_new)
  qed
qed simp

lemma nodes_ensure_all: "fst (ensure_all ts ([], [])) = nodes_of ts"
  using ensure_all_nodes [of "[]" "[]" ts "[]"] by (simp add: nodes_of_def)

lemma index_ok_empty [simp]: "index_ok ([], [])"
  by (simp add: index_ok_def)

section \<open>The edges are the ordered pairs\<close>

text \<open>The edge the loops emit for the terms \<open>i < j\<close> of one sentence, none when both are
  the same symbol; the row of one subject; the edges of one sentence.\<close>

definition pair_edge :: "tnode list \<times> node_index \<Rightarrow> token list \<Rightarrow> nat \<Rightarrow> nat \<Rightarrow> edge list" where
  "pair_edge b ts i j =
     (let s = idx_of b (ts ! i); ob = idx_of b (ts ! j) in
      if s = ob then []
      else [\<lparr>e_predicate = edge_predicate ts i j, e_subject = s, e_object = ob,
             e_span = node_span (fst b ! s)\<rparr>])"

definition row :: "tnode list \<times> node_index \<Rightarrow> token list \<Rightarrow> nat \<Rightarrow> edge list" where
  "row b ts i = concat (map (pair_edge b ts i) [i + 1..<length ts])"

definition rows :: "tnode list \<times> node_index \<Rightarrow> token list \<Rightarrow> edge list" where
  "rows b ts = concat (map (row b ts) [0..<length ts])"

lemma pair_edge_stable:
  assumes "index_ok b" "known b (ts ! i)" "known b (ts ! j)"
  shows "pair_edge (ensure_all xs b) ts i j = pair_edge b ts i j"
proof -
  obtain ys where "fst (ensure_all xs b) = fst b @ ys" using nodes_prefix_all by blast
  moreover have "idx_of b (ts ! i) < length (fst b)" using idx_of_less assms by blast
  ultimately show ?thesis
    using assms by (simp add: pair_edge_def idx_of_ensure_all nth_append Let_def)
qed

lemma object_loop_eq:
  assumes "index_ok b" "known b (ts ! i)"
  shows "object_loop ts i (idx_of b (ts ! i)) js (b, es)
    = (ensure_all (map ((!) ts) js) b,
       es @ concat (map (pair_edge (ensure_all (map ((!) ts) js) b) ts i) js))"
  using assms
proof (induction js arbitrary: b es)
  case (Cons j js)
  let ?c = "snd (ensure_node (ts ! j) b)"
  have c: "index_ok ?c" "known ?c (ts ! i)" "known ?c (ts ! j)"
    "idx_of ?c (ts ! i) = idx_of b (ts ! i)"
    using Cons.prems index_ok_ensure known_mono idx_of_mono by (blast, blast, simp, blast)
  note IH = Cons.IH [OF c(1,2), unfolded c(4)]
  have "object_loop ts i (idx_of b (ts ! i)) (j # js) (b, es)
      = object_loop ts i (idx_of b (ts ! i)) js (?c, es @ pair_edge ?c ts i j)"
    by (simp add: pair_edge_def fst_ensure c(4) Let_def split_beta)
  then show ?case
    using c by (simp add: IH pair_edge_stable)
qed simp

lemma subject_loop_known:
  assumes "index_ok b" "\<forall>t \<in> set ts. known b t" "\<forall>i \<in> set is. i < length ts"
  shows "subject_loop ts is (b, es) = (b, es @ concat (map (row b ts) is))"
  using assms
proof (induction "is" arbitrary: es)
  case (Cons i "is")
  have k: "known b (ts ! i)" using Cons.prems by simp
  have "ensure_all (map ((!) ts) [i + 1..<length ts]) b = b"
    using Cons.prems(2) by (intro ensure_all_known) auto
  then show ?case
    using Cons.IH [of "es @ row b ts i"] Cons.prems k object_loop_eq [of b ts i "[i + 1..<length ts]" es]
    by (simp add: ensure_known row_def)
qed simp

lemma subject_loop_eq:
  assumes "index_ok b"
  shows "subject_loop ts [0..<length ts] (b, es)
    = (ensure_all ts b, es @ rows (ensure_all ts b) ts)"
proof (cases ts)
  case (Cons t us)
  let ?b0 = "snd (ensure_node t b)" and ?B = "ensure_all ts b"
  have B: "index_ok ?B" "\<forall>u \<in> set ts. known ?B u"
    using assms index_ok_ensure_all known_ensure_all by blast+
  have "map ((!) ts) [Suc 0..<length ts] = us"
    using Cons by (intro nth_equalityI) (simp_all del: upt_Suc)
  then have ts: "ts ! 0 = t" "map ((!) ts) [Suc 0..<length ts] = us"
    "[0..<length ts] = 0 # [Suc 0..<length ts]"
    using Cons by (simp_all add: upt_conv_Cons del: upt_Suc)
  have b0: "index_ok ?b0" "known ?b0 (ts ! 0)" "fst (ensure_node t b) = idx_of ?b0 (ts ! 0)"
    using assms index_ok_ensure ts(1) by (auto simp: fst_ensure)
  have "ensure_all us ?b0 = ?B" using Cons by simp
  with object_loop_eq [OF b0(1,2), of "[Suc 0..<length ts]" es]
  have first: "object_loop ts 0 (fst (ensure_node t b)) [Suc 0..<length ts] (?b0, es)
      = (?B, es @ row ?B ts 0)"
    by (simp add: ts(2) b0(3) row_def)
  have "subject_loop ts [0..<length ts] (b, es)
      = subject_loop ts [Suc 0..<length ts] (?B, es @ row ?B ts 0)"
    using first by (simp add: ts(3) ts(1) split_beta)
  also have "\<dots> = (?B, (es @ row ?B ts 0) @ concat (map (row ?B ts) [Suc 0..<length ts]))"
    by (rule subject_loop_known [OF B]) auto
  finally show ?thesis by (simp add: rows_def ts(3))
qed (simp add: rows_def)

lemma rows_stable:
  assumes "index_ok b" "\<forall>t \<in> set ts. known b t"
  shows "rows (ensure_all xs b) ts = rows b ts"
  unfolding rows_def row_def using assms
  by (intro arg_cong [where f = concat] map_cong refl pair_edge_stable) auto

lemma sentence_loop_eq:
  assumes "index_ok b"
  shows "sentence_loop ss (b, es)
    = (ensure_all (concat (map terms ss)) b,
       es @ concat (map (\<lambda>s. rows (ensure_all (concat (map terms ss)) b) (terms s)) ss))"
  using assms
proof (induction ss arbitrary: b es)
  case (Cons s ss)
  let ?c = "ensure_all (terms s) b"
  have c: "index_ok ?c" "\<forall>t \<in> set (terms s). known ?c t"
    using Cons.prems index_ok_ensure_all known_ensure_all by blast+
  show ?case
    using Cons.IH [OF c(1), of "es @ rows ?c (terms s)"] rows_stable [OF c]
    by (simp add: subject_loop_eq [OF Cons.prems] ensure_all_append)
qed simp

section \<open>The declarative graph\<close>

text \<open>The position of a term's node, the edges of one sentence, the graph of a document:
  what the loops compute, without a builder.\<close>

definition node_pos :: "tnode list \<Rightarrow> token \<Rightarrow> nat" where
  "node_pos ns t = length (takeWhile (\<lambda>n. node_text n \<noteq> tok_key t) ns)"

definition sentence_edges :: "tnode list \<Rightarrow> token list \<Rightarrow> edge list" where
  "sentence_edges ns ts = concat (map (\<lambda>i. concat (map (\<lambda>j.
     (let s = node_pos ns (ts ! i); ob = node_pos ns (ts ! j) in
      if s = ob then []
      else [\<lparr>e_predicate = edge_predicate ts i j, e_subject = s, e_object = ob,
             e_span = node_span (ns ! s)\<rparr>])) [i + 1..<length ts])) [0..<length ts])"

definition graph_spec :: "token list list \<Rightarrow> document_ast" where
  "graph_spec sents = (let ns = nodes_of (concat sents) in
     \<lparr>nodes = ns, edges = concat (map (sentence_edges ns) sents)\<rparr>)"

lemma takeWhile_length_first:
  assumes "i < length xs" "P (xs ! i)" "\<And>j. j < i \<Longrightarrow> \<not> P (xs ! j)"
  shows "length (takeWhile (\<lambda>x. \<not> P x) xs) = i"
proof -
  have "takeWhile (\<lambda>x. \<not> P x) xs = take i xs"
    using assms by (intro takeWhile_eq_take_P_nth) auto
  with assms(1) show ?thesis by simp
qed

lemma index_ok_distinct:
  "index_ok (ns, index) \<Longrightarrow> i < length ns \<Longrightarrow> j < length ns \<Longrightarrow>
     node_text (ns ! i) = node_text (ns ! j) \<Longrightarrow> i = j"
  unfolding index_ok_def by (auto, metis option.inject)

lemma idx_of_node_pos:
  assumes "index_ok b" "known b t"
  shows "idx_of b t = node_pos (fst b) t"
proof -
  obtain ns index where b: "b = (ns, index)" by (cases b)
  have i: "idx_of b t < length ns" "node_text (ns ! idx_of b t) = tok_key t"
    using idx_of_less [OF assms] by (auto simp: b)
  have "node_text (ns ! j) \<noteq> tok_key t" if "j < idx_of b t" for j
    using index_ok_distinct [of ns index j "idx_of b t"] assms(1) i that by (auto simp: b)
  with i show ?thesis
    unfolding node_pos_def b fst_conv
    by (intro takeWhile_length_first [symmetric, where P = "\<lambda>n. node_text n = tok_key t"])
qed

lemma rows_sentence_edges:
  assumes "index_ok b" "\<forall>t \<in> set ts. known b t"
  shows "rows b ts = sentence_edges (fst b) ts"
  unfolding rows_def row_def sentence_edges_def pair_edge_def Let_def using assms
  by (intro arg_cong [where f = concat] map_cong refl) (auto simp: idx_of_node_pos)

lemma from_ast_graph_spec: "from_ast ast = graph_spec (map terms (sentences ast))"
proof -
  let ?ts = "concat (map terms (sentences ast))" and ?ss = "sentences ast"
  let ?B = "ensure_all ?ts ([], [])"
  have B: "index_ok ?B" by (intro index_ok_ensure_all index_ok_empty)
  have "rows ?B (terms s) = sentence_edges (fst ?B) (terms s)" if "s \<in> set ?ss" for s
    using that by (intro rows_sentence_edges [OF B]) (auto intro!: known_ensure_all)
  then have rws: "map (\<lambda>s. rows ?B (terms s)) ?ss = map (\<lambda>s. sentence_edges (fst ?B) (terms s)) ?ss"
    by simp
  show ?thesis
    using sentence_loop_eq [OF index_ok_empty, of ?ss "[]"]
    unfolding from_ast_def graph_spec_def rws
    by (auto simp: nodes_ensure_all Let_def split_beta comp_def simp del: sentences.simps)
qed

text \<open>What the builder's index gives about the nodes of a token list.\<close>

lemma nodes_of_index:
  obtains index where "index_ok (nodes_of ts, index)"
    "\<And>t. t \<in> set ts \<Longrightarrow> known (nodes_of ts, index) t"
proof -
  let ?B = "ensure_all ts ([], [])"
  have "?B = (nodes_of ts, snd ?B)" by (simp flip: nodes_ensure_all)
  moreover have "index_ok ?B" by (intro index_ok_ensure_all index_ok_empty)
  moreover have "known ?B t" if "t \<in> set ts" for t using that known_ensure_all by blast
  ultimately show ?thesis using that by metis
qed

lemma node_pos_nodes_of:
  assumes "t \<in> set ts"
  shows "node_pos (nodes_of ts) t < length (nodes_of ts)
    \<and> node_text (nodes_of ts ! node_pos (nodes_of ts) t) = tok_key t"
proof -
  obtain index where "index_ok (nodes_of ts, index)" "known (nodes_of ts, index) t"
    using nodes_of_index assms by metis
  then show ?thesis using idx_of_less idx_of_node_pos by fastforce
qed

text \<open>The invariant of a graph: identifiers are positions, no text occurs twice, edges join
  two different nodes of the graph and carry the span of their subject.\<close>

definition wf_graph :: "document_ast \<Rightarrow> bool" where
  "wf_graph g \<longleftrightarrow>
     (\<forall>i < length (nodes g). node_id (nodes g ! i) = i) \<and> distinct (map node_text (nodes g))
     \<and> (\<forall>e \<in> set (edges g). e_subject e < length (nodes g) \<and> e_object e < length (nodes g)
          \<and> e_subject e \<noteq> e_object e \<and> e_span e = node_span (nodes g ! e_subject e))"

lemma wf_graph_spec: "wf_graph (graph_spec sents)"
proof -
  let ?ns = "nodes_of (concat sents)"
  obtain index where ok: "index_ok (?ns, index)" using nodes_of_index by metis
  have "distinct (map node_text ?ns)"
    by (auto simp: distinct_conv_nth dest: index_ok_distinct [OF ok])
  moreover have "\<forall>i < length ?ns. node_id (?ns ! i) = i" using ok by (auto simp: index_ok_def)
  moreover have "e_subject e < length ?ns \<and> e_object e < length ?ns
      \<and> e_subject e \<noteq> e_object e \<and> e_span e = node_span (?ns ! e_subject e)"
    if e: "e \<in> set (sentence_edges ?ns ts)" and ts: "ts \<in> set sents" for e ts
  proof -
    have "t \<in> set (concat sents)" if "t \<in> set ts" for t using that ts by auto
    then have "node_pos ?ns (ts ! i) < length ?ns" if "i < length ts" for i
      using that node_pos_nodes_of nth_mem by blast
    with e show ?thesis
      by (auto simp: sentence_edges_def Let_def split: if_splits)
  qed
  ultimately show ?thesis by (auto simp: wf_graph_def graph_spec_def Let_def)
qed

text \<open>Where a node comes from: it is made of the first token with its text.\<close>

lemma first_tokens_first:
  "t \<in> set (first_tokens seen ts) \<Longrightarrow>
     \<exists>pre post. ts = pre @ t # post \<and> tok_key t \<notin> set seen \<and> (\<forall>u \<in> set pre. tok_key u \<noteq> tok_key t)"
proof (induction ts arbitrary: seen)
  case (Cons u ts)
  have front: "\<exists>pre post. u # ts = pre @ t # post \<and> tok_key t \<notin> set seen
      \<and> (\<forall>v \<in> set pre. tok_key v \<noteq> tok_key t)"
    if "ts = pre @ t # post" "tok_key t \<notin> set seen" "tok_key u \<noteq> tok_key t"
      "\<forall>v \<in> set pre. tok_key v \<noteq> tok_key t" for pre post
    using that by (intro exI [of _ "u # pre"] exI [of _ post]) auto
  consider (S) "tok_key u \<in> set seen" | (H) "tok_key u \<notin> set seen" "t = u"
    | (T) "tok_key u \<notin> set seen" "t \<in> set (first_tokens (tok_key u # seen) ts)"
    using Cons.prems by (auto split: if_splits)
  then show ?case
  proof cases
    case S
    then show ?thesis using Cons.IH [of seen] Cons.prems front by (metis first_tokens.simps(2))
  next
    case H
    then show ?thesis by (intro exI [of _ "[]"] exI [of _ ts]) auto
  next
    case T
    then show ?thesis using Cons.IH [of "tok_key u # seen"] front by (metis list.set_intros)
  qed
qed simp

lemma number_nodes_mem: "n \<in> set (number_nodes i ts) \<Longrightarrow> \<exists>k. \<exists>t \<in> set ts. n = mk_node k t"
  by (induction i ts rule: number_nodes.induct) auto

lemma nodes_of_first:
  assumes "n \<in> set (nodes_of ts)"
  shows "\<exists>pre t post k. ts = pre @ t # post \<and> n = mk_node k t
    \<and> (\<forall>u \<in> set pre. tok_key u \<noteq> tok_key t)"
  using assms number_nodes_mem [of n 0 "first_tokens [] ts"] first_tokens_first
  unfolding nodes_of_def by blast

section \<open>Properties of the token graph\<close>

text \<open>C21: extraction is the declarative graph: the nodes are the first occurrences of the
  case-folded terms in document order, and the edges are, sentence by sentence, the ordered
  pairs of terms with different texts, each with the predicate the code derives from the
  term between and the span of its subject's first occurrence.\<close>

theorem from_ast_spec:
  "from_ast ast = graph_spec (map terms (sentences ast))"
  by (rule from_ast_graph_spec)

text \<open>The graph invariant of every extracted graph, also of a hand-built tree: node
  identifiers equal positions, no text occurs twice, and both ends of every edge are nodes
  of the graph, different ones, so that \<open>nodes[subj]\<close> cannot be out of bounds.\<close>

lemma from_ast_wf: "wf_graph (from_ast ast)"
  unfolding from_ast_graph_spec by (rule wf_graph_spec)

lemma lex_Ok:
  assumes "lex s = Some (Ok g)"
  obtains ts d where "tokenize s = Ok ts" "parse ts = Some (Ok d)"
    "g = graph_spec (map terms (sentences d))" "concat (map terms (sentences d)) = filter is_term ts"
  using assms parse_terms tokenize_no_adjacent_ws
  by (auto simp: lex_def from_ast_graph_spec split: sum.splits option.splits)

lemma contiguous_le: "contiguous i ts j \<Longrightarrow> t \<in> set ts \<Longrightarrow> i \<le> start t"
  by (induction i ts j rule: contiguous.induct) auto

lemma contiguous_split:
  "contiguous i (pre @ t # post) j \<Longrightarrow> u \<in> set (t # post) \<Longrightarrow> start t \<le> start u"
  by (induction pre arbitrary: i) (auto dest: contiguous_le)

text \<open>C7: end-to-end provenance: every node of the graph of a document carries a non-empty
  span inside the document whose bytes, case-folded, are the node's text, and no word or
  number of the document with that text starts earlier.\<close>

theorem lex_provenance:
  assumes "lex s = Some (Ok g)" "n \<in> set (nodes g)" "tokenize s = Ok ts"
  shows "span_start (node_span n) < span_end (node_span n) \<and> span_end (node_span n) \<le> length s
    \<and> to_lowercase (take (span_end (node_span n) - span_start (node_span n))
         (drop (span_start (node_span n)) s)) = node_text n
    \<and> (\<forall>u \<in> set ts. is_term u \<longrightarrow> tok_key u = node_text n \<longrightarrow> span_start (node_span n) \<le> start u)"
proof -
  from assms(1,3) obtain d where g: "g = graph_spec (map terms (sentences d))"
    and d: "concat (map terms (sentences d)) = filter is_term ts"
    by (auto elim!: lex_Ok)
  then have "n \<in> set (nodes_of (filter is_term ts))"
    using assms(2) by (simp add: graph_spec_def Let_def)
  then obtain pre t post k where split: "filter is_term ts = pre @ t # post"
    and n: "n = mk_node k t" and first: "\<forall>u \<in> set pre. tok_key u \<noteq> tok_key t"
    using nodes_of_first by metis
  from split obtain us vs where ts: "ts = us @ t # vs" "filter is_term us = pre"
    using filter_eq_append_ConsD by metis
  have sl: "sliced s t" using tokenize_from_sliced [of 0 s ts "[]" t] assms(3) ts
    by (simp add: tokenize_def)
  have "start t \<le> start u" if "u \<in> set ts" "is_term u" "tok_key u = tok_key t" for u
  proof -
    have "u \<notin> set us" using that first ts(2) by auto
    then have "u \<in> set (t # vs)" using that(1) ts(1) by auto
    moreover have "contiguous 0 (us @ t # vs) (length s)"
      using tokenize_from_contiguous [of 0 s ts] assms(3) ts(1) by (simp add: tokenize_def)
    ultimately show ?thesis by (rule contiguous_split [rotated])
  qed
  with sl show ?thesis
    by (auto simp: n mk_node_def span_new_def sliced_def tok_key_def)
qed

lemma nodes_of_Nil_iff: "nodes_of ts = [] \<longleftrightarrow> ts = []"
  by (cases ts) (auto simp: nodes_of_def)

text \<open>\<open>lex\<close> on every input: it never panics; it yields a graph exactly when every byte is
  classifiable and the document has a word or a number, and then the graph is not empty, so
  \<open>match_graph\<close> accepts it.\<close>

lemma lex_outcome:
  "lex s \<noteq> None
   \<and> ((\<exists>g. lex s = Some (Ok g)) =
        (\<exists>ts. tokenize s = Ok ts \<and> list_all classifiable s \<and> (\<exists>t \<in> set ts. is_term t)))
   \<and> lex s \<noteq> Some (Ok \<lparr>nodes = [], edges = es\<rparr>)"
proof (cases "tokenize s")
  case (Inr ts)
  have p: "parse ts = Some (parse_spec ts)"
    by (rule parse_refines_spec [OF tokenize_no_adjacent_ws [OF Inr]])
  have "lex s \<noteq> Some (Ok \<lparr>nodes = [], edges = es\<rparr>)"
  proof
    assume "lex s = Some (Ok \<lparr>nodes = [], edges = es\<rparr>)"
    then obtain d where d: "parse ts = Some (Ok d)" "\<lparr>nodes = [], edges = es\<rparr>
        = graph_spec (map terms (sentences d))" "concat (map terms (sentences d)) = filter is_term ts"
      using Inr by (auto elim!: lex_Ok)
    then have "nodes_of (filter is_term ts) = []"
      by (simp add: graph_spec_def Let_def)
    then have "filter is_term ts = []" unfolding nodes_of_Nil_iff .
    with p d(1) show False by (simp add: parse_spec_def sections_of_Nil_iff split: if_splits)
  qed
  moreover have "(\<exists>g. lex s = Some (Ok g)) \<longleftrightarrow> (\<exists>t \<in> set ts. is_term t)"
    by (auto simp: lex_def Inr p parse_spec_def sections_of_Nil_iff filter_empty_conv)
  ultimately show ?thesis
    using Inr p tokenize_classifiable [OF Inr] by (auto simp: lex_def split: sum.splits)
qed (simp add: lex_def)

section \<open>Properties of matching\<close>

lemma nodes_from_ast: "nodes (from_ast ast) = nodes_of (concat (map terms (sentences ast)))"
  by (simp add: from_ast_graph_spec graph_spec_def Let_def)

lemma from_ast_pos:
  assumes "sent \<in> set (sentences ast)" "i < length (terms sent)"
  shows "node_pos (nodes (from_ast ast)) (terms sent ! i) < length (nodes (from_ast ast))
    \<and> node_text (nodes (from_ast ast) ! node_pos (nodes (from_ast ast)) (terms sent ! i))
        = tok_key (terms sent ! i)"
  unfolding nodes_from_ast using assms
  by (intro node_pos_nodes_of) (auto intro: bexI [of _ sent])

lemma from_ast_pos_eq:
  assumes "sent \<in> set (sentences ast)" "i < length (terms sent)" "j < length (terms sent)"
  shows "node_pos (nodes (from_ast ast)) (terms sent ! i)
      = node_pos (nodes (from_ast ast)) (terms sent ! j)
    \<longleftrightarrow> tok_key (terms sent ! i) = tok_key (terms sent ! j)"
proof
  assume "node_pos (nodes (from_ast ast)) (terms sent ! i)
      = node_pos (nodes (from_ast ast)) (terms sent ! j)"
  then show "tok_key (terms sent ! i) = tok_key (terms sent ! j)"
    using from_ast_pos [OF assms(1,2)] from_ast_pos [OF assms(1,3)] by metis
qed (simp add: node_pos_def)

lemma from_ast_text_unique:
  assumes "a < length (nodes (from_ast ast))" "b < length (nodes (from_ast ast))"
    "node_text (nodes (from_ast ast) ! a) = node_text (nodes (from_ast ast) ! b)"
  shows "a = b"
  using assms wf_graph_spec [of "map terms (sentences ast)"]
  by (auto simp: wf_graph_def from_ast_graph_spec distinct_conv_nth)

lemma match_edges_set:
  "m \<in> set (match_edges g q es) \<longleftrightarrow> (\<exists>e \<in> set es. match_edge g q e = Some m)"
  by (induction es) (auto split: option.splits)

lemma match_edge_Some:
  "match_edge g (s, p, ob) e = Some m \<longleftrightarrow>
     e_subject e < length (nodes g) \<and> e_object e < length (nodes g)
     \<and> (s = ''*'' \<or> node_text (nodes g ! e_subject e) = s)
     \<and> (p = ''*'' \<or> e_predicate e = p)
     \<and> (ob = ''*'' \<or> node_text (nodes g ! e_object e) = ob)
     \<and> \<lparr>gm_subject = e_subject e, gm_object = e_object e, gm_predicate = e_predicate e,
          gm_span = node_span (nodes g ! e_subject e)\<rparr> = m"
  by (simp add: match_edge_def doc_node_def)

lemma sentence_edges_mem:
  "e \<in> set (sentence_edges ns ts) \<longleftrightarrow> (\<exists>i j. i < j \<and> j < length ts
     \<and> node_pos ns (ts ! i) \<noteq> node_pos ns (ts ! j)
     \<and> e = \<lparr>e_predicate = edge_predicate ts i j, e_subject = node_pos ns (ts ! i),
             e_object = node_pos ns (ts ! j), e_span = node_span (ns ! node_pos ns (ts ! i))\<rparr>)"
proof -
  have upt: "(\<exists>i \<in> set [0..<n]. \<exists>j \<in> set [i + 1..<n]. P i j)
      \<longleftrightarrow> (\<exists>i j. i < j \<and> j < n \<and> P i j)" for n :: nat and P
    unfolding Bex_def set_upt atLeastLessThan_iff Suc_eq_plus1 [symmetric] Suc_le_eq
    using less_trans by blast
  show ?thesis
    unfolding sentence_edges_def Let_def set_concat set_map UN_iff bex_simps(7) UN_simps upt
    by auto
qed

text \<open>The edge of the terms \<open>i\<close> and \<open>j\<close> of a sentence, and that these are all the edges.\<close>

definition edge_at :: "ast_node \<Rightarrow> ast_node \<Rightarrow> nat \<Rightarrow> nat \<Rightarrow> edge" where
  "edge_at ast sent i j = (let ns = nodes (from_ast ast); ts = terms sent in
     \<lparr>e_predicate = edge_predicate ts i j, e_subject = node_pos ns (ts ! i),
      e_object = node_pos ns (ts ! j), e_span = node_span (ns ! node_pos ns (ts ! i))\<rparr>)"

lemma from_ast_edges:
  "e \<in> set (edges (from_ast ast)) \<longleftrightarrow> (\<exists>sent \<in> set (sentences ast). \<exists>i j. i < j \<and> j < length (terms sent)
     \<and> tok_key (terms sent ! i) \<noteq> tok_key (terms sent ! j) \<and> e = edge_at ast sent i j)"
proof -
  have "e \<in> set (edges (from_ast ast)) \<longleftrightarrow> (\<exists>sent \<in> set (sentences ast).
      e \<in> set (sentence_edges (nodes (from_ast ast)) (terms sent)))"
    by (auto simp: from_ast_graph_spec graph_spec_def Let_def)
  also have "\<dots> \<longleftrightarrow> (\<exists>sent \<in> set (sentences ast). \<exists>i j. i < j \<and> j < length (terms sent)
     \<and> tok_key (terms sent ! i) \<noteq> tok_key (terms sent ! j) \<and> e = edge_at ast sent i j)"
    unfolding sentence_edges_mem edge_at_def Let_def
    by (intro bex_cong refl ex_cong1 conj_cong) (simp_all add: from_ast_pos_eq)
  finally show ?thesis .
qed

text \<open>When the pair \<open>i < j\<close> of a sentence answers a triple, and with which match.\<close>

definition answers :: "ast_node \<Rightarrow> triple \<Rightarrow> ast_node \<Rightarrow> nat \<Rightarrow> nat \<Rightarrow> graph_match \<Rightarrow> bool" where
  "answers ast q sent i j m \<longleftrightarrow> (case q of (s, p, ob) \<Rightarrow>
     (s = ''*'' \<or> tok_key (terms sent ! i) = s)
     \<and> (p = ''*'' \<or> edge_predicate (terms sent) i j = p)
     \<and> (ob = ''*'' \<or> tok_key (terms sent ! j) = ob)
     \<and> node_text (nodes (from_ast ast) ! gm_subject m) = tok_key (terms sent ! i)
     \<and> node_text (nodes (from_ast ast) ! gm_object m) = tok_key (terms sent ! j)
     \<and> gm_subject m < length (nodes (from_ast ast)) \<and> gm_object m < length (nodes (from_ast ast))
     \<and> gm_predicate m = edge_predicate (terms sent) i j
     \<and> gm_span m = node_span (nodes (from_ast ast) ! gm_subject m))"

lemma match_edge_at:
  assumes "sent \<in> set (sentences ast)" "i < j" "j < length (terms sent)"
  shows "match_edge (from_ast ast) (s, p, ob) (edge_at ast sent i j) = Some m
    \<longleftrightarrow> answers ast (s, p, ob) sent i j m"
proof -
  have i: "i < length (terms sent)" using assms by simp
  note pi = from_ast_pos [OF assms(1) i] and pj = from_ast_pos [OF assms(1,3)]
  show ?thesis
    unfolding match_edge_Some answers_def
    using pi pj from_ast_text_unique [of "gm_subject m" ast "node_pos (nodes (from_ast ast)) (terms sent ! i)"]
      from_ast_text_unique [of "gm_object m" ast "node_pos (nodes (from_ast ast)) (terms sent ! j)"]
    by (cases m) (auto simp: edge_at_def Let_def)
qed

text \<open>C22: what a query answers, in terms of the document: a match of the single pattern
  \<open>(s, p, o)\<close> is exactly a pair of terms of one sentence, the subject before the object,
  with different texts that equal \<open>s\<close> and \<open>o\<close> and whose derived predicate equals \<open>p\<close>, up to
  wildcards; nothing else is returned and nothing is missed.\<close>

theorem match_single_answers:
  assumes "nodes (from_ast ast) \<noteq> []"
  shows "\<exists>ms. match_graph (from_ast ast) (pattern_single s p ob) = Ok ms \<and>
    (\<forall>m. m \<in> set ms \<longleftrightarrow> (\<exists>sent \<in> set (sentences ast). \<exists>i j. i < j \<and> j < length (terms sent)
       \<and> tok_key (terms sent ! i) \<noteq> tok_key (terms sent ! j)
       \<and> answers ast (s, p, ob) sent i j m))"
proof -
  let ?ms = "match_edges (from_ast ast) (s, p, ob) (edges (from_ast ast))"
  have "match_graph (from_ast ast) (pattern_single s p ob) = Ok ?ms"
    using assms by (simp add: match_graph_def doc_is_empty_def pattern_single_def pattern_new_def)
  moreover have "m \<in> set ?ms \<longleftrightarrow> (\<exists>sent \<in> set (sentences ast). \<exists>i j. i < j \<and> j < length (terms sent)
      \<and> tok_key (terms sent ! i) \<noteq> tok_key (terms sent ! j)
      \<and> answers ast (s, p, ob) sent i j m)"
    (is "?L \<longleftrightarrow> ?R") for m
  proof
    assume ?L
    then obtain e where e: "e \<in> set (edges (from_ast ast))" "match_edge (from_ast ast) (s, p, ob) e = Some m"
      unfolding match_edges_set by blast
    from e(1) obtain sent i j where *: "sent \<in> set (sentences ast)" "i < j" "j < length (terms sent)"
      "tok_key (terms sent ! i) \<noteq> tok_key (terms sent ! j)"
      "e = edge_at ast sent i j"
      unfolding from_ast_edges by blast
    have "answers ast (s, p, ob) sent i j m"
      using match_edge_at [OF *(1-3), of s p ob m] e(2) *(5) by simp
    with * show ?R by blast
  next
    assume ?R
    then obtain sent i j where *: "sent \<in> set (sentences ast)" "i < j" "j < length (terms sent)"
      "tok_key (terms sent ! i) \<noteq> tok_key (terms sent ! j)" "answers ast (s, p, ob) sent i j m"
      by blast
    have "edge_at ast sent i j \<in> set (edges (from_ast ast))"
      unfolding from_ast_edges using * by blast
    moreover have "match_edge (from_ast ast) (s, p, ob) (edge_at ast sent i j) = Some m"
      by (rule match_edge_at [OF *(1-3), THEN iffD2, OF *(5)])
    ultimately show ?L unfolding match_edges_set by blast
  qed
  ultimately show ?thesis by blast
qed

definition w_doc :: ast_node where
  "w_doc = Document [mk_section [[w_tok ''Gold'' 0, w_tok ''is'' 5, w_tok ''GOLD'' 8, w_tok ''up'' 13]]]"

definition w_match :: graph_match where
  "w_match = \<lparr>gm_subject = 1, gm_object = 2, gm_predicate = ''gold'',
     gm_span = \<lparr>span_start = 5, span_end = 7\<rparr>\<rparr>"

theorem match_single_answers_witness:
  "\<exists>sent \<in> set (sentences w_doc). \<exists>i j. i < j \<and> answers w_doc (''is'', ''gold'', ''*'') sent i j w_match"
proof -
  have ne: "nodes (from_ast w_doc) \<noteq> []" by code_simp
  have m: "match_graph (from_ast w_doc) (pattern_single ''is'' ''gold'' ''*'') = Ok [w_match]"
    by code_simp
  obtain ms where "Ok ms = (Ok [w_match] :: indexer_error + graph_match list)"
    "\<forall>m. m \<in> set ms \<longleftrightarrow> (\<exists>sent \<in> set (sentences w_doc). \<exists>i j. i < j \<and> j < length (terms sent)
       \<and> tok_key (terms sent ! i) \<noteq> tok_key (terms sent ! j)
       \<and> answers w_doc (''is'', ''gold'', ''*'') sent i j m)"
    using match_single_answers [OF ne, of "''is''" "''gold''" "''*''"] unfolding m by metis
  moreover from this(1) have "w_match \<in> set ms" by simp
  ultimately have "\<exists>sent \<in> set (sentences w_doc). \<exists>i j. i < j \<and> j < length (terms sent)
       \<and> tok_key (terms sent ! i) \<noteq> tok_key (terms sent ! j)
       \<and> answers w_doc (''is'', ''gold'', ''*'') sent i j w_match" by (simp only:)
  then show ?thesis by blast
qed

theorem lex_provenance_witness:
  "to_lowercase (take 4 (drop 0 ''Gold up'')) = ''gold''"
proof -
  have t: "tokenize ''Gold up'' = Ok [w_tok ''Gold'' 0,
      \<lparr>kind = Whitespace, lexeme = '' '', start = 4, stop = 5\<rparr>, w_tok ''up'' 5]"
    by code_simp
  let ?g = "from_ast (Document [mk_section [[w_tok ''Gold'' 0, w_tok ''up'' 5]]])"
  have l: "lex ''Gold up'' = Some (Ok ?g)" by code_simp
  have n: "\<lparr>node_id = 0, node_text = ''gold'', node_type = SymWord,
      node_span = \<lparr>span_start = 0, span_end = 4\<rparr>\<rparr> \<in> set (nodes ?g)" by code_simp
  from lex_provenance [OF l n t] show ?thesis by simp
qed

end
