(* ===== verification/Digraph.thy ===== *)
theory Digraph
  imports Prelude
begin

text \<open>
  Breadth-first traversal of a finite directed graph whose vertices are indices, as the
  knowledge graph of \<open>rag_engine/src/graph.rs\<close> performs it four times. The interface
  \<open>digraph_view\<close> is what a traversal needs of the graph it walks: successors of a vertex
  are vertices, and are listed once. \<open>bfs_inv\<close> is the invariant of the loops, with the
  depth of every vertex, and its step and final lemmas are shared by all loops.
\<close>

section \<open>Distances\<close>

definition edge_rel :: "nat \<Rightarrow> (nat \<Rightarrow> nat list) \<Rightarrow> (nat \<times> nat) set" where
  "edge_rel n succ = {(v, w). v < n \<and> w \<in> set (succ v)}"

text \<open>\<open>w\<close> is at distance \<open>k\<close>: reached by \<open>k\<close> edges and not by fewer.\<close>

definition at_dist :: "('a \<times> 'a) set \<Rightarrow> 'a \<Rightarrow> 'a \<Rightarrow> nat \<Rightarrow> bool" where
  "at_dist E s w k \<longleftrightarrow> (s, w) \<in> E ^^ k \<and> (\<forall>j < k. (s, w) \<notin> E ^^ j)"

lemma at_dist_unique: "at_dist E s w k \<Longrightarrow> at_dist E s w l \<Longrightarrow> k = l"
  unfolding at_dist_def by (metis linorder_neqE_nat)

lemma at_dist_self [simp]: "at_dist E s s k \<longleftrightarrow> k = 0"
  by (auto simp: at_dist_def intro: gr0I)

lemma at_dist_ex: "(s, w) \<in> E\<^sup>* \<Longrightarrow> \<exists>k. at_dist E s w k"
proof -
  assume "(s, w) \<in> E\<^sup>*"
  then have "\<exists>k. (s, w) \<in> E ^^ k" by (simp add: rtrancl_power)
  then show ?thesis unfolding at_dist_def by (meson LeastI_ex not_less_Least)
qed

lemma at_dist_reach: "at_dist E s w k \<Longrightarrow> (s, w) \<in> E\<^sup>*"
  by (auto simp: at_dist_def rtrancl_power)

section \<open>The invariant of a traversal\<close>

text \<open>\<open>found\<close> are the vertices taken off the queue, \<open>q\<close> is the queue, both with depths;
  \<open>vis\<close> is the vector of marks.\<close>

definition bfs_inv ::
    "nat \<Rightarrow> (nat \<Rightarrow> nat list) \<Rightarrow> nat \<Rightarrow> bool list \<Rightarrow> (nat \<times> nat) list \<Rightarrow> (nat \<times> nat) list \<Rightarrow> bool" where
  "bfs_inv n succ s vis q found \<longleftrightarrow>
     length vis = n \<and> distinct (map fst (found @ q))
     \<and> (\<forall>w. w \<in> fst ` set (found @ q) \<longleftrightarrow> w < n \<and> vis ! w)
     \<and> (\<forall>x \<in> set (found @ q). at_dist (edge_rel n succ) s (fst x) (snd x))
     \<and> sorted (map snd (found @ q))
     \<and> (\<forall>x \<in> set q. snd x \<le> Suc (snd (hd q)))
     \<and> (\<forall>v \<in> fst ` set found. \<forall>w \<in> set (succ v). w \<in> fst ` set (found @ q))
     \<and> s \<in> fst ` set (found @ q)"

lemma bfs_invD:
  assumes "bfs_inv n succ s vis q found"
  shows "length vis = n" "distinct (map fst (found @ q))"
    "\<And>w. w \<in> fst ` set (found @ q) \<longleftrightarrow> w < n \<and> vis ! w"
    "\<And>x. x \<in> set (found @ q) \<Longrightarrow> at_dist (edge_rel n succ) s (fst x) (snd x)"
    "sorted (map snd (found @ q))"
    "\<And>x. x \<in> set q \<Longrightarrow> snd x \<le> Suc (snd (hd q))"
    "\<And>v w. v \<in> fst ` set found \<Longrightarrow> w \<in> set (succ v) \<Longrightarrow> w \<in> fst ` set (found @ q)"
    "s \<in> fst ` set (found @ q)"
  using assms unfolding bfs_inv_def by blast+

text \<open>Marking the unmarked successors.\<close>

definition mark :: "nat list \<Rightarrow> bool list \<Rightarrow> bool list" where
  "mark ws vis = map (\<lambda>i. vis ! i \<or> i \<in> set ws) [0..<length vis]"

lemma length_mark [simp]: "length (mark ws vis) = length vis"
  by (simp add: mark_def)

lemma nth_mark [simp]: "w < length vis \<Longrightarrow> mark ws vis ! w \<longleftrightarrow> vis ! w \<or> w \<in> set ws"
  by (simp add: mark_def)

lemma mark_Nil [simp]: "mark [] vis = vis"
  by (simp add: mark_def map_nth)

lemma mark_update: "w < length vis \<Longrightarrow> mark ws (vis[w := True]) = mark (w # ws) vis"
  by (intro nth_equalityI) (auto simp: nth_list_update)

definition fresh :: "bool list \<Rightarrow> nat list \<Rightarrow> nat list" where
  "fresh vis ws = filter (\<lambda>w. \<not> vis ! w) ws"

lemma fresh_Nil [simp]: "fresh vis [] = []"
  by (simp add: fresh_def)

lemma fresh_Cons: "fresh vis (w # ws) = (if vis ! w then fresh vis ws else w # fresh vis ws)"
  by (simp add: fresh_def)

lemma fresh_update: "w \<notin> set ws \<Longrightarrow> fresh (vis[w := True]) ws = fresh vis ws"
  unfolding fresh_def by (intro filter_cong refl) (metis nth_list_update_neq)

lemma bfs_inv_init:
  assumes "s < n"
  shows "bfs_inv n succ s ((replicate n False)[s := True]) [(s, 0)] []"
  using assms by (auto simp: bfs_inv_def nth_list_update)

text \<open>All vertices nearer than the head of the queue have been taken off it.\<close>

lemma bfs_inv_far:
  assumes inv: "bfs_inv n succ s vis ((v, d) # q) found"
    and w: "w \<in> fst ` set (found @ (v, d) # q)" "(s, w) \<in> edge_rel n succ ^^ j" "j < d"
  shows "w \<in> fst ` set found"
proof (rule ccontr)
  assume "w \<notin> fst ` set found"
  with w(1) obtain x where x: "x \<in> set ((v, d) # q)" "fst x = w" by force
  then have "d \<le> snd x" using bfs_invD(5) [OF inv] by (auto simp: sorted_append)
  moreover have "at_dist (edge_rel n succ) s w (snd x)"
    using bfs_invD(4) [OF inv, of x] x by auto
  ultimately show False using w(2,3) unfolding at_dist_def by auto
qed

lemma bfs_inv_near:
  assumes inv: "bfs_inv n succ s vis ((v, d) # q) found"
  shows "(s, w) \<in> edge_rel n succ ^^ i \<Longrightarrow> i < d \<Longrightarrow> w \<in> fst ` set found"
proof (induction i arbitrary: w)
  case 0
  then show ?case using bfs_inv_far [OF inv, of s 0] bfs_invD(8) [OF inv] by simp
next
  case (Suc i)
  then obtain u where u: "(s, u) \<in> edge_rel n succ ^^ i" "(u, w) \<in> edge_rel n succ" by auto
  then have "u \<in> fst ` set found" using Suc by simp
  then have "w \<in> fst ` set (found @ (v, d) # q)"
    using bfs_invD(7) [OF inv] u(2) by (auto simp: edge_rel_def)
  then show ?case using bfs_inv_far [OF inv] Suc.prems by blast
qed

lemma bfs_inv_step:
  assumes inv: "bfs_inv n succ s vis ((v, d) # q) found"
    and bound: "\<And>w. w \<in> set (succ v) \<Longrightarrow> w < n" and dist: "distinct (succ v)"
  shows "bfs_inv n succ s (mark (fresh vis (succ v)) vis)
    (q @ map (\<lambda>w. (w, Suc d)) (fresh vis (succ v))) (found @ [(v, d)])"
proof -
  let ?E = "edge_rel n succ" and ?new = "fresh vis (succ v)"
  let ?old = "found @ (v, d) # q"
  note D = bfs_invD [OF inv]
  have v: "v < n" using D(3) [of v] by auto
  have new: "w < n" "\<not> vis ! w" "w \<in> set (succ v)" if "w \<in> set ?new" for w
    using that bound by (auto simp: fresh_def)
  have dist_v: "at_dist ?E s v d" using D(4) [of "(v, d)"] by auto
  have new_dist: "at_dist ?E s w (Suc d)" if w: "w \<in> set ?new" for w
    unfolding at_dist_def
  proof (intro conjI allI impI notI)
    show "(s, w) \<in> ?E ^^ Suc d"
      using dist_v new(3) [OF w] v by (auto simp: at_dist_def edge_rel_def)
    fix j assume j: "j < Suc d" "(s, w) \<in> ?E ^^ j"
    have "w \<in> fst ` set ?old"
    proof (cases j)
      case 0
      then show ?thesis using j D(8) by auto
    next
      case (Suc i)
      then obtain u where u: "(s, u) \<in> ?E ^^ i" "(u, w) \<in> ?E" using j by auto
      with bfs_inv_near [OF inv u(1)] Suc j have "u \<in> fst ` set found" by simp
      with D(7) u(2) show ?thesis by (auto simp: edge_rel_def)
    qed
    with D(3) [of w] new(2) [OF w] show False by simp
  qed
  have lens: "length (mark ?new vis) = n" using D(1) by simp
  have split: "(found @ [(v, d)]) @ q @ map (\<lambda>w. (w, Suc d)) ?new
      = ?old @ map (\<lambda>w. (w, Suc d)) ?new" by simp
  have fsts: "fst ` set (?old @ map (\<lambda>w. (w, Suc d)) ?new) = fst ` set ?old \<union> set ?new"
    unfolding set_append image_Un set_map image_image by simp
  have disj: "fst ` set ?old \<inter> set ?new = {}"
    using D(3) new(2) by blast
  have le: "snd x \<le> Suc d" if "x \<in> set ?old" for x
  proof -
    from that have "snd x \<le> d \<or> x \<in> set q"
      using D(5) by (auto simp: sorted_append)
    then show ?thesis using D(6) [of x] by auto
  qed
  show ?thesis
    unfolding bfs_inv_def split fsts
  proof (intro conjI allI ballI)
    show "length (mark ?new vis) = n" by (rule lens)
    show "distinct (map fst (?old @ map (\<lambda>w. (w, Suc d)) ?new))"
      using D(2) disj dist by (auto simp: fresh_def comp_def)
    show "w \<in> fst ` set ?old \<union> set ?new \<longleftrightarrow> w < n \<and> mark ?new vis ! w" for w
      using D(3) [of w] new(1) D(1) by (cases "w < n") auto
    show "at_dist ?E s (fst x) (snd x)" if "x \<in> set (?old @ map (\<lambda>w. (w, Suc d)) ?new)" for x
      using that D(4) [of x] new_dist by auto
    show "sorted (map snd (?old @ map (\<lambda>w. (w, Suc d)) ?new))"
    proof -
      have const: "sorted (map (\<lambda>w. Suc d) ws)" for ws :: "nat list" by (induction ws) auto
      have old: "sorted (map snd ?old)" "\<forall>x \<in> set (map snd ?old). x \<le> Suc d"
        using D(5) le by auto
      show ?thesis
        unfolding map_append [of snd ?old] sorted_append [of "map snd ?old"]
        using old const by (auto simp: comp_def)
    qed
    show "snd x \<le> Suc (snd (hd (q @ map (\<lambda>w. (w, Suc d)) ?new)))"
      if "x \<in> set (q @ map (\<lambda>w. (w, Suc d)) ?new)" for x
    proof -
      have "snd x \<le> Suc d" using that le [of x] by auto
      moreover have "d \<le> snd (hd (q @ map (\<lambda>w. (w, Suc d)) ?new))"
        using that D(5) by (cases q; cases ?new) (auto simp: sorted_append)
      ultimately show ?thesis by simp
    qed
    show "w \<in> fst ` set ?old \<union> set ?new"
      if "u \<in> fst ` set (found @ [(v, d)])" "w \<in> set (succ u)" for u w
    proof (cases "u \<in> fst ` set found")
      case True
      then show ?thesis using D(7) that(2) by blast
    next
      case False
      then have "w \<in> set (succ v)" using that by auto
      then show ?thesis using D(3) [of w] bound [of w] by (auto simp: fresh_def)
    qed
    show "s \<in> fst ` set ?old \<union> set ?new" using D(8) by blast
  qed
qed

text \<open>With an empty queue the vertices found are the reachable ones, each with its distance.\<close>

lemma bfs_inv_final:
  assumes inv: "bfs_inv n succ s vis [] found"
  shows "set found = {(w, k). at_dist (edge_rel n succ) s w k}"
    "fst ` set found = {w. (s, w) \<in> (edge_rel n succ)\<^sup>*}"
proof -
  note D = bfs_invD [OF inv, simplified]
  have reach: "w \<in> fst ` set found" if "(s, w) \<in> (edge_rel n succ)\<^sup>*" for w
    using that
  proof (induction rule: rtrancl_induct)
    case base
    then show ?case using D(8) by simp
  next
    case (step u w)
    then show ?case using D(7) by (auto simp: edge_rel_def)
  qed
  show "fst ` set found = {w. (s, w) \<in> (edge_rel n succ)\<^sup>*}"
    using reach D(4) by (fastforce dest: at_dist_reach)
  have "(w, k) \<in> set found" if "at_dist (edge_rel n succ) s w k" for w k
  proof -
    have "w \<in> fst ` set found" using that by (intro reach at_dist_reach)
    then obtain l where "(w, l) \<in> set found" by auto
    with D(4) [of "(w, l)"] that show ?thesis by (auto dest: at_dist_unique)
  qed
  then show "set found = {(w, k). at_dist (edge_rel n succ) s w k}"
    using D(4) by fastforce
qed

section \<open>The loops of the code\<close>

text \<open>
  The inner \<open>for\<close> loop and the \<open>while let Some(v) = queue.pop_front()\<close> loop of
  \<open>reachable_from\<close> and \<open>ancestors_of\<close>, which differ only in the adjacency map the
  successors come from. An index outside the vector of marks panics.
\<close>

fun bfs_visit :: "nat list \<Rightarrow> bool list \<times> nat list \<times> nat list
    \<Rightarrow> (bool list \<times> nat list \<times> nat list) option" where
  "bfs_visit [] st = Some st"
| "bfs_visit (w # ws) (vis, queue, out) =
     (if w < length vis
      then if \<not> vis ! w
           then bfs_visit ws (vis[w := True], queue @ [w], out @ [w])
           else bfs_visit ws (vis, queue, out)
      else None)"

definition unmarked :: "bool list \<Rightarrow> nat" where
  "unmarked vis = length (filter Not vis)"

lemma unmarked_update:
  "w < length vis \<Longrightarrow> \<not> vis ! w \<Longrightarrow> Suc (unmarked (vis[w := True]) + k) = unmarked vis + k"
proof (induction vis arbitrary: w)
  case (Cons b vis)
  then show ?case by (cases w) (auto simp: unmarked_def)
qed simp

lemma bfs_visit_measure:
  "bfs_visit ws (vis, q, out) = Some (vis', q', out') \<Longrightarrow>
     unmarked vis' + length q' = unmarked vis + length q"
  by (induction ws "(vis, q, out)" arbitrary: vis q out rule: bfs_visit.induct)
    (auto simp: unmarked_update split: if_splits)

function bfs_loop :: "(nat \<Rightarrow> nat list) \<Rightarrow> bool list \<times> nat list \<times> nat list \<Rightarrow> nat list option" where
  "bfs_loop succ (vis, queue, out) =
     (case queue of
        [] \<Rightarrow> Some out
      | v # rest \<Rightarrow>
          (case bfs_visit (succ v) (vis, rest, out) of
             None \<Rightarrow> None
           | Some st \<Rightarrow> bfs_loop succ st))"
  by pat_completeness auto
termination
proof (relation "measure (\<lambda>(succ, vis, q, out). unmarked vis + length q)")
  fix succ :: "nat \<Rightarrow> nat list" and vis queue out v rest st
  assume "queue = v # rest" "bfs_visit (succ v) (vis, rest, out) = Some st"
  then show "((succ, st), (succ, vis, queue, out))
      \<in> measure (\<lambda>(succ, vis, q, out). unmarked vis + length q)"
    using bfs_visit_measure [of "succ v" vis rest out] by (cases st) simp
qed simp

text \<open>The loops of \<open>can_reach\<close>: no list of discoveries, an early return at the target.\<close>

fun reach_visit :: "nat list \<Rightarrow> bool list \<times> nat list \<Rightarrow> (bool list \<times> nat list) option" where
  "reach_visit [] st = Some st"
| "reach_visit (w # ws) (vis, queue) =
     (if w < length vis
      then if \<not> vis ! w
           then reach_visit ws (vis[w := True], queue @ [w])
           else reach_visit ws (vis, queue)
      else None)"

lemma reach_visit_measure:
  "reach_visit ws (vis, q) = Some (vis', q') \<Longrightarrow>
     unmarked vis' + length q' = unmarked vis + length q"
  by (induction ws "(vis, q)" arbitrary: vis q rule: reach_visit.induct)
    (auto simp: unmarked_update split: if_splits)

function reach_loop :: "(nat \<Rightarrow> nat list) \<Rightarrow> nat \<Rightarrow> bool list \<times> nat list \<Rightarrow> bool option" where
  "reach_loop succ goal (vis, queue) =
     (case queue of
        [] \<Rightarrow> Some False
      | v # rest \<Rightarrow>
          (if v = goal then Some True
           else case reach_visit (succ v) (vis, rest) of
                  None \<Rightarrow> None
                | Some st \<Rightarrow> reach_loop succ goal st))"
  by pat_completeness auto
termination
proof (relation "measure (\<lambda>(succ, goal, vis, q). unmarked vis + length q)")
  fix succ :: "nat \<Rightarrow> nat list" and goal vis queue v rest st
  assume "queue = v # rest" "reach_visit (succ v) (vis, rest) = Some st"
  then show "((succ, goal, st), (succ, goal, vis, queue))
      \<in> measure (\<lambda>(succ, goal, vis, q). unmarked vis + length q)"
    using reach_visit_measure [of "succ v" vis rest] by (cases st) simp
qed simp

declare bfs_loop.simps [simp del] reach_loop.simps [simp del]

lemma bfs_visit_eq:
  "distinct ws \<Longrightarrow> \<forall>w \<in> set ws. w < length vis \<Longrightarrow>
     bfs_visit ws (vis, q, out) = Some (mark (fresh vis ws) vis, q @ fresh vis ws, out @ fresh vis ws)"
  by (induction ws "(vis, q, out)" arbitrary: vis q out rule: bfs_visit.induct)
    (auto simp: fresh_Cons fresh_update mark_update)

lemma reach_visit_eq:
  "distinct ws \<Longrightarrow> \<forall>w \<in> set ws. w < length vis \<Longrightarrow>
     reach_visit ws (vis, q) = Some (mark (fresh vis ws) vis, q @ fresh vis ws)"
  by (induction ws "(vis, q)" arbitrary: vis q rule: reach_visit.induct)
    (auto simp: fresh_Cons fresh_update mark_update)

section \<open>The interface and its traversals\<close>

locale digraph_view =
  fixes vertices :: "'g \<Rightarrow> nat" and succ :: "'g \<Rightarrow> nat \<Rightarrow> nat list" and wf :: "'g \<Rightarrow> bool"
  assumes succ_bound: "wf g \<Longrightarrow> w \<in> set (succ g v) \<Longrightarrow> w < vertices g"
    and succ_distinct: "wf g \<Longrightarrow> distinct (succ g v)"
begin

lemma bfs_loop_inv:
  "wf g \<Longrightarrow> bfs_inv (vertices g) (succ g) s vis qd found \<Longrightarrow> map fst qd = q \<Longrightarrow>
     s # out = map fst (found @ qd) \<Longrightarrow>
     \<exists>all vis'. bfs_loop (succ g) (vis, q, out) = Some (tl (map fst all))
       \<and> bfs_inv (vertices g) (succ g) s vis' [] all \<and> hd (map fst all) = s"
proof (induction "succ g" "(vis, q, out)" arbitrary: vis q out qd found rule: bfs_loop.induct)
  case (1 vis q out)
  show ?case
  proof (cases qd)
    case Nil
    then have "map fst found = s # out" using "1.prems"(4) by simp
    then have "bfs_loop (succ g) (vis, q, out) = Some (tl (map fst found))"
      "hd (map fst found) = s"
      using "1.prems"(3) Nil by (simp_all add: bfs_loop.simps)
    with "1.prems"(2) Nil show ?thesis by blast
  next
    case (Cons x qd')
    obtain v d where x: "x = (v, d)" by (cases x)
    let ?new = "fresh vis (succ g v)"
    have q: "q = v # map fst qd'" using 1 Cons x by simp
    have len: "length vis = vertices g" using bfs_invD(1) 1 by blast
    have visit: "bfs_visit (succ g v) (vis, map fst qd', out)
        = Some (mark ?new vis, map fst qd' @ ?new, out @ ?new)"
      using succ_bound [OF \<open>wf g\<close>] succ_distinct [OF \<open>wf g\<close>] len by (intro bfs_visit_eq) auto
    have step: "bfs_inv (vertices g) (succ g) s (mark ?new vis)
        (qd' @ map (\<lambda>w. (w, Suc d)) ?new) (found @ [(v, d)])"
      using "1.prems" Cons x succ_bound succ_distinct by (intro bfs_inv_step) auto
    have news: "map fst (qd' @ map (\<lambda>w. (w, Suc d)) ?new) = map fst qd' @ ?new"
      "s # out @ ?new = map fst ((found @ [(v, d)]) @ qd' @ map (\<lambda>w. (w, Suc d)) ?new)"
      using "1.prems"(4) Cons x by (simp_all add: comp_def)
    have "bfs_loop (succ g) (vis, q, out)
        = bfs_loop (succ g) (mark ?new vis, map fst qd' @ ?new, out @ ?new)"
      unfolding q by (subst bfs_loop.simps) (simp add: visit)
    with "1.hyps" [OF q visit \<open>wf g\<close> step news] show ?thesis by simp
  qed
qed

text \<open>Every vertex the traversal discovers is reachable, each is discovered once, the start
  is left out, and discovery is in the order of the distance.\<close>

lemma bfs_loop_correct:
  assumes "wf g" "s < vertices g"
  shows "\<exists>out ds. bfs_loop (succ g) ((replicate (vertices g) False)[s := True], [s], []) = Some out
    \<and> distinct out \<and> s \<notin> set out
    \<and> (\<forall>w. w \<in> set out \<longleftrightarrow> w \<noteq> s \<and> (s, w) \<in> (edge_rel (vertices g) (succ g))\<^sup>*)
    \<and> sorted ds \<and> list_all2 (at_dist (edge_rel (vertices g) (succ g)) s) out ds"
proof -
  let ?E = "edge_rel (vertices g) (succ g)"
  have init: "s # [] = map fst ([] @ [(s, 0 :: nat)])" by simp
  obtain all vis where run: "bfs_loop (succ g) ((replicate (vertices g) False)[s := True], [s], [])
      = Some (tl (map fst all))" and inv: "bfs_inv (vertices g) (succ g) s vis [] all"
    and hd: "hd (map fst all) = s"
    using bfs_loop_inv [OF assms(1) bfs_inv_init [OF assms(2)] refl init] by (simp only: list.map fst_conv) blast
  note D = bfs_invD [OF inv, simplified]
  have "all \<noteq> []" using D(8) by auto
  then obtain d rest where all: "all = (s, d) # rest" using hd by (cases all) auto
  have reach: "w \<in> fst ` set all \<longleftrightarrow> (s, w) \<in> ?E\<^sup>*" for w
    unfolding bfs_inv_final(2) [OF inv] by simp
  have dist: "distinct (s # map fst rest)" using D(2) all by simp
  have "list_all2 (at_dist ?E s) (map fst rest) (map snd rest)"
    using D(4) all by (auto simp: list_all2_conv_all_nth)
  moreover have "sorted (map snd rest)" using D(5) all by simp
  moreover have "w \<in> set (map fst rest) \<longleftrightarrow> w \<noteq> s \<and> (s, w) \<in> ?E\<^sup>*" for w
    using reach [of w] dist all by (cases "w = s") auto
  moreover have "bfs_loop (succ g) ((replicate (vertices g) False)[s := True], [s], [])
      = Some (map fst rest)" using run all by simp
  ultimately show ?thesis
    using dist by (intro exI [of _ "map fst rest"] exI [of _ "map snd rest"] conjI allI) simp_all
qed

lemma reach_loop_inv:
  "wf g \<Longrightarrow> bfs_inv (vertices g) (succ g) s vis qd found \<Longrightarrow> map fst qd = q \<Longrightarrow>
     goal \<notin> fst ` set found \<Longrightarrow>
     reach_loop (succ g) goal (vis, q) = Some ((s, goal) \<in> (edge_rel (vertices g) (succ g))\<^sup>*)"
proof (induction "succ g" goal "(vis, q)" arbitrary: vis q qd found rule: reach_loop.induct)
  case (1 goal vis q)
  show ?case
  proof (cases qd)
    case Nil
    then have "(s, goal) \<notin> (edge_rel (vertices g) (succ g))\<^sup>*"
      using "1.prems" bfs_inv_final(2) [of "vertices g" "succ g" s vis found] by blast
    then show ?thesis using "1.prems"(3) Nil by (simp add: reach_loop.simps)
  next
    case (Cons x qd')
    obtain v d where x: "x = (v, d)" by (cases x)
    let ?new = "fresh vis (succ g v)"
    have q: "q = v # map fst qd'" using 1 Cons x by simp
    have len: "length vis = vertices g" using bfs_invD(1) 1 by blast
    have visit: "reach_visit (succ g v) (vis, map fst qd')
        = Some (mark ?new vis, map fst qd' @ ?new)"
      using succ_bound [OF \<open>wf g\<close>] succ_distinct [OF \<open>wf g\<close>] len by (intro reach_visit_eq) auto
    have step: "bfs_inv (vertices g) (succ g) s (mark ?new vis)
        (qd' @ map (\<lambda>w. (w, Suc d)) ?new) (found @ [(v, d)])"
      using "1.prems" Cons x succ_bound succ_distinct by (intro bfs_inv_step) auto
    have news: "map fst (qd' @ map (\<lambda>w. (w, Suc d)) ?new) = map fst qd' @ ?new"
      by (simp add: comp_def)
    show ?thesis
    proof (cases "v = goal")
      case True
      have "at_dist (edge_rel (vertices g) (succ g)) s v d"
        using bfs_invD(4) [OF "1.prems"(2), of "(v, d)"] Cons x by auto
      then show ?thesis using True q by (simp add: reach_loop.simps at_dist_reach)
    next
      case False
      then have "goal \<notin> fst ` set (found @ [(v, d)])" using "1.prems"(4) by auto
      moreover have "reach_loop (succ g) goal (vis, q)
          = reach_loop (succ g) goal (mark ?new vis, map fst qd' @ ?new)"
        unfolding q using False by (subst reach_loop.simps) (simp add: visit)
      ultimately show ?thesis
        using "1.hyps" [OF q False visit \<open>wf g\<close> step news] by simp
    qed
  qed
qed

lemma reach_loop_correct:
  assumes "wf g" "s < vertices g"
  shows "reach_loop (succ g) goal ((replicate (vertices g) False)[s := True], [s])
    = Some ((s, goal) \<in> (edge_rel (vertices g) (succ g))\<^sup>*)"
  using reach_loop_inv [OF assms(1) bfs_inv_init [OF assms(2)]] by simp

end

end
