(* ===== verification/Adjacency.thy ===== *)
theory Adjacency
  imports OrdMap Digraph
begin

text \<open>
  The adjacency caches of \<open>KnowledgeGraph\<close> in \<open>rag_engine/src/graph.rs\<close>: the nested
  \<open>BTreeMap<EntityId, BTreeMap<EntityId, BTreeSet<String>>>\<close>, the insertion of one edge,
  the flattening into relations, and Kahn's algorithm over it (\<open>rebuild_ranks\<close>). An
  adjacency map is determined by the predicates it holds for every pair of vertices
  (\<open>adj_ext\<close>), and Kahn's algorithm places every vertex exactly when there is no cycle.
\<close>

section \<open>Nested maps\<close>

type_synonym objs = "(nat \<times> string list) list"
type_synonym adj = "(nat \<times> objs) list"

definition objs_of :: "adj \<Rightarrow> nat \<Rightarrow> objs" where
  "objs_of adj a = (case map_of adj a of None \<Rightarrow> [] | Some m \<Rightarrow> m)"

definition keys_of :: "adj \<Rightarrow> nat \<Rightarrow> nat list" where
  "keys_of adj a = map fst (objs_of adj a)"

definition preds_of :: "adj \<Rightarrow> nat \<Rightarrow> nat \<Rightarrow> string list" where
  "preds_of adj a b = (case map_of (objs_of adj a) b of None \<Rightarrow> [] | Some ps \<Rightarrow> ps)"

text \<open>\<open>adj.entry(a).or_default().entry(b).or_default().insert(p)\<close>.\<close>

definition adj_insert :: "nat \<Rightarrow> nat \<Rightarrow> string \<Rightarrow> adj \<Rightarrow> adj" where
  "adj_insert a b p adj = om_update a [] (om_update b [] (os_insert p)) adj"

definition objs_wf :: "nat \<Rightarrow> nat \<Rightarrow> objs \<Rightarrow> bool" where
  "objs_wf n a m \<longleftrightarrow> om_wf m \<and> (\<forall>x \<in> set m. fst x < n \<and> fst x \<noteq> a \<and> snd x \<noteq> [] \<and> os_wf (snd x))"

definition adj_wf :: "nat \<Rightarrow> adj \<Rightarrow> bool" where
  "adj_wf n adj \<longleftrightarrow> om_wf adj \<and> (\<forall>x \<in> set adj. fst x < n \<and> snd x \<noteq> [] \<and> objs_wf n (fst x) (snd x))"

lemma adj_wf_Nil [simp]: "adj_wf n []"
  by (simp add: adj_wf_def)

lemma objs_of_Nil [simp]: "objs_of [] a = []"
  by (simp add: objs_of_def)

lemma preds_of_Nil [simp]: "preds_of [] a b = []"
  by (simp add: preds_of_def)

lemma objs_of_cases: "adj_wf n adj \<Longrightarrow> objs_of adj a = [] \<or> (a, objs_of adj a) \<in> set adj"
  by (auto simp: objs_of_def dest: map_of_SomeD split: option.splits)

lemma objs_wf_of: "adj_wf n adj \<Longrightarrow> objs_wf n a (objs_of adj a)"
  using objs_of_cases [of n adj a] by (fastforce simp: adj_wf_def objs_wf_def)

lemma objs_entry:
  assumes "adj_wf n adj" "(b, ps) \<in> set (objs_of adj a)"
  shows "a < n \<and> b < n \<and> b \<noteq> a \<and> ps \<noteq> [] \<and> os_wf ps"
proof -
  have "(a, objs_of adj a) \<in> set adj" using objs_of_cases [OF assms(1), of a] assms(2) by auto
  then have "a < n" using assms(1) by (fastforce simp: adj_wf_def)
  moreover have "b < n \<and> b \<noteq> a \<and> ps \<noteq> [] \<and> os_wf ps"
    using objs_wf_of [OF assms(1), of a] assms(2) by (fastforce simp: objs_wf_def)
  ultimately show ?thesis by blast
qed

lemma preds_of_mem: "adj_wf n adj \<Longrightarrow> (b, ps) \<in> set (objs_of adj a) \<Longrightarrow> preds_of adj a b = ps"
  using objs_wf_of [of n adj a] by (simp add: preds_of_def objs_wf_def om_distinct)

lemma keys_of_iff: "adj_wf n adj \<Longrightarrow> b \<in> set (keys_of adj a) \<longleftrightarrow> preds_of adj a b \<noteq> []"
proof
  assume wf: "adj_wf n adj" and "b \<in> set (keys_of adj a)"
  then obtain ps where "(b, ps) \<in> set (objs_of adj a)" by (auto simp: keys_of_def)
  with preds_of_mem [OF wf this] objs_wf_of [OF wf, of a] show "preds_of adj a b \<noteq> []"
    by (auto simp: objs_wf_def)
next
  assume "preds_of adj a b \<noteq> []"
  then show "b \<in> set (keys_of adj a)"
    by (auto simp: preds_of_def keys_of_def image_iff dest: map_of_SomeD split: option.splits)
      (metis fst_conv map_of_SomeD)
qed

lemma preds_of_wf:
  assumes wf: "adj_wf n adj"
  shows "os_wf (preds_of adj a b)" "preds_of adj a b \<noteq> [] \<Longrightarrow> a < n \<and> b < n \<and> a \<noteq> b"
proof -
  have "os_wf (preds_of adj a b) \<and> (preds_of adj a b \<noteq> [] \<longrightarrow> a < n \<and> b < n \<and> a \<noteq> b)"
  proof (cases "map_of (objs_of adj a) b")
    case (Some ps)
    then have m: "(b, ps) \<in> set (objs_of adj a)" by (rule map_of_SomeD)
    show ?thesis
      using objs_entry [OF wf m] unfolding preds_of_mem [OF wf m] by auto
  qed (simp add: preds_of_def)
  then show "os_wf (preds_of adj a b)" "preds_of adj a b \<noteq> [] \<Longrightarrow> a < n \<and> b < n \<and> a \<noteq> b"
    by blast+
qed

lemma keys_of_distinct: "adj_wf n adj \<Longrightarrow> distinct (keys_of adj a)"
  using objs_wf_of [of n adj a] by (simp add: keys_of_def objs_wf_def om_distinct)

lemma adj_wf_mono: "adj_wf m adj \<Longrightarrow> m \<le> n \<Longrightarrow> adj_wf n adj"
  by (fastforce simp: adj_wf_def objs_wf_def)

section \<open>Insertion of an edge\<close>

lemma objs_of_insert:
  "objs_of (adj_insert a b p adj) c =
     (if c = a then om_update b [] (os_insert p) (objs_of adj a) else objs_of adj c)"
  by (simp add: objs_of_def adj_insert_def)

lemma preds_of_insert:
  "preds_of (adj_insert a b p adj) c d =
     (if c = a \<and> d = b then os_insert p (preds_of adj a b) else preds_of adj c d)"
  by (simp add: preds_of_def objs_of_insert)

lemma set_om_put: "x \<in> set (om_put k v m) \<Longrightarrow> x = (k, v) \<or> x \<in> set m"
  by (induction k v m rule: om_put.induct) (auto split: if_splits)

lemma set_om_update: "x \<in> set (om_update k d f m) \<Longrightarrow>
    x = (k, f (case map_of m k of None \<Rightarrow> d | Some v \<Rightarrow> v)) \<or> x \<in> set m"
  unfolding om_update_def by (rule set_om_put)

lemma om_update_neq_Nil [simp]: "om_update k d f m \<noteq> []"
  using keys_om_update [of k d f m] by (metis empty_iff image_empty insertI1 list.set(1))

lemma adj_insert_wf:
  assumes wf: "adj_wf n adj" and ab: "a < n" "b < n" "a \<noteq> b"
  shows "adj_wf n (adj_insert a b p adj)"
proof -
  let ?f = "om_update b [] (os_insert p)"
  have inner: "objs_wf n a (?f (objs_of adj a))"
  proof -
    have os: "os_wf (preds_of adj a b)" using preds_of_wf(1) [OF wf] .
    then have new: "os_wf (case map_of (objs_of adj a) b of None \<Rightarrow> [] | Some v \<Rightarrow> v)"
      by (simp add: preds_of_def)
    have old: "objs_wf n a (objs_of adj a)" by (rule objs_wf_of [OF wf])
    have "fst x < n \<and> fst x \<noteq> a \<and> snd x \<noteq> [] \<and> os_wf (snd x)"
      if "x \<in> set (?f (objs_of adj a))" for x
      using set_om_update [OF that] new old ab by (auto simp: objs_wf_def)
    then show ?thesis using old by (auto simp: objs_wf_def)
  qed
  have eq: "(case map_of adj a of None \<Rightarrow> [] | Some v \<Rightarrow> v) = objs_of adj a"
    by (simp add: objs_of_def)
  have "fst x < n \<and> snd x \<noteq> [] \<and> objs_wf n (fst x) (snd x)" if "x \<in> set (adj_insert a b p adj)" for x
    using set_om_update [OF that [unfolded adj_insert_def]] wf inner ab
    unfolding eq by (auto simp: adj_wf_def)
  then show ?thesis using wf by (auto simp: adj_wf_def adj_insert_def)
qed

section \<open>Extensionality\<close>

lemma adj_ext:
  assumes wf: "adj_wf m x" "adj_wf n y" and eq: "\<And>a b. preds_of x a b = preds_of y a b"
  shows "x = y"
proof -
  have inner: "map_of (objs_of z a) b = (if preds_of z a b = [] then None else Some (preds_of z a b))"
    if "adj_wf k z" for z k a b
    using objs_entry [OF that] by (auto simp: preds_of_def split: option.splits dest!: map_of_SomeD)
  have objs: "objs_of x a = objs_of y a" for a
    using objs_wf_of [OF wf(1), of a] objs_wf_of [OF wf(2), of a]
    by (intro om_ext ext) (auto simp: inner [OF wf(1)] inner [OF wf(2)] eq objs_wf_def)
  have outer: "map_of z a = (if objs_of z a = [] then None else Some (objs_of z a))"
    if "adj_wf k z" for z k a
    using that by (force simp: objs_of_def adj_wf_def split: option.splits dest!: map_of_SomeD)
  show ?thesis
    using wf by (intro om_ext ext) (auto simp: outer [OF wf(1)] outer [OF wf(2)] objs adj_wf_def)
qed

section \<open>Flattening\<close>

text \<open>The three nested loops of \<open>relations\<close>, and of \<open>outgoing\<close> and \<open>incoming\<close> for one vertex.\<close>

fun flat_objs :: "objs \<Rightarrow> (nat \<times> string) list" where
  "flat_objs [] = []"
| "flat_objs ((b, ps) # m) = map (Pair b) ps @ flat_objs m"

fun flat_adj :: "adj \<Rightarrow> (nat \<times> nat \<times> string) list" where
  "flat_adj [] = []"
| "flat_adj ((a, m) # adj) = map (Pair a) (flat_objs m) @ flat_adj adj"

lemma flat_objs_mem: "(b, p) \<in> set (flat_objs m) \<longleftrightarrow> (\<exists>ps. (b, ps) \<in> set m \<and> p \<in> set ps)"
  by (induction m rule: flat_objs.induct) auto

lemma flat_adj_mem: "(a, b, p) \<in> set (flat_adj adj) \<longleftrightarrow> (\<exists>m. (a, m) \<in> set adj \<and> (b, p) \<in> set (flat_objs m))"
  by (induction adj rule: flat_adj.induct) auto

lemma flat_objs_preds: "adj_wf n adj \<Longrightarrow> (b, p) \<in> set (flat_objs (objs_of adj a)) \<longleftrightarrow> p \<in> set (preds_of adj a b)"
proof -
  assume wf: "adj_wf n adj"
  have "(b, preds_of adj a b) \<in> set (objs_of adj a)" if "p \<in> set (preds_of adj a b)"
    using that by (auto simp: preds_of_def dest: map_of_SomeD split: option.splits)
  then show ?thesis unfolding flat_objs_mem using preds_of_mem [OF wf, of b _ a] by blast
qed

lemma flat_adj_preds:
  assumes wf: "adj_wf n adj"
  shows "(a, b, p) \<in> set (flat_adj adj) \<longleftrightarrow> p \<in> set (preds_of adj a b)"
proof -
  have "(a, m) \<in> set adj \<longleftrightarrow> objs_of adj a = m \<and> m \<noteq> []" for m
    using wf om_get_iff [of adj a m] unfolding adj_wf_def objs_of_def
    by (force split: option.splits)
  then show ?thesis
    using flat_objs_preds [OF wf, of b p a] unfolding flat_adj_mem by (cases "objs_of adj a") auto
qed

text \<open>The flattened list ascends strictly in (subject, object, predicate).\<close>

lemma flat_objs_sorted: "objs_wf n a m \<Longrightarrow> sorted_wrt (<) (flat_objs m)"
proof (induction m rule: flat_objs.induct)
  case (2 b ps m)
  have "sorted_wrt (<) (map (Pair b) ps)"
    using 2 by (auto simp: objs_wf_def os_wf_def sorted_wrt_map)
  moreover have "b < c" if "(c, p) \<in> set (flat_objs m)" for c p
    using that 2 by (auto simp: flat_objs_mem objs_wf_def om_wf_Cons)
  ultimately show ?case
    using 2 by (auto simp: sorted_wrt_append objs_wf_def om_wf_Cons)
qed simp

lemma flat_adj_sorted: "adj_wf n adj \<Longrightarrow> sorted_wrt (<) (flat_adj adj)"
proof (induction adj rule: flat_adj.induct)
  case (2 a m adj)
  have "sorted_wrt (<) (map (Pair a) (flat_objs m))"
    using 2 flat_objs_sorted [of n a m] by (auto simp: adj_wf_def sorted_wrt_map)
  moreover have "a < c" if "(c, x) \<in> set (flat_adj adj)" for c x
    using that 2 by (cases x) (auto simp: flat_adj_mem adj_wf_def om_wf_Cons)
  ultimately show ?case
    using 2 by (auto simp: sorted_wrt_append adj_wf_def om_wf_Cons)
qed simp

section \<open>Kahn's algorithm: \<open>rebuild_ranks\<close>\<close>

text \<open>The in-degrees: the nested loops over \<open>self.out.values()\<close>.\<close>

fun indeg_objs :: "objs \<Rightarrow> nat list \<Rightarrow> nat list option" where
  "indeg_objs [] d = Some d"
| "indeg_objs ((b, ps) # m) d =
     (if ps = [] then indeg_objs m d
      else if b < length d then indeg_objs m (d[b := d ! b + 1]) else None)"

fun indeg_all :: "adj \<Rightarrow> nat list \<Rightarrow> nat list option" where
  "indeg_all [] d = Some d"
| "indeg_all ((a, m) # adj) d =
     (case indeg_objs m d of None \<Rightarrow> None | Some d' \<Rightarrow> indeg_all adj d')"

text \<open>The inner loop: an in-degree that is already zero would underflow, a panic.\<close>

fun kahn_objs :: "objs \<Rightarrow> nat list \<times> nat list \<Rightarrow> (nat list \<times> nat list) option" where
  "kahn_objs [] st = Some st"
| "kahn_objs ((b, ps) # m) (d, ready) =
     (if ps = [] then kahn_objs m (d, ready)
      else if b < length d \<and> 0 < d ! b
        then kahn_objs m (d[b := d ! b - 1], if d ! b - 1 = 0 then os_insert b ready else ready)
        else None)"

lemma length_os_insert: "length (os_insert x xs) \<le> Suc (length xs)"
  by (simp add: os_insert_def insort_insert_key_def)

lemma sum_list_update_dec:
  "b < length d \<Longrightarrow> 0 < d ! b \<Longrightarrow> Suc (sum_list (d[b := d ! b - 1])) = sum_list (d :: nat list)"
proof (induction d arbitrary: b)
  case (Cons x d)
  then show ?case by (cases b) auto
qed simp

lemma kahn_objs_measure:
  "kahn_objs m (d, r) = Some (d', r') \<Longrightarrow> sum_list d' + length r' \<le> sum_list d + length r"
proof (induction m arbitrary: d r)
  case (Cons x m)
  obtain b ps where x: "x = (b, ps)" by (cases x)
  show ?case
  proof (cases "ps = []")
    case True
    then show ?thesis using Cons x by simp
  next
    case False
    let ?r = "if d ! b - 1 = 0 then os_insert b r else r"
    have b: "b < length d" "0 < d ! b"
      and run: "kahn_objs m (d[b := d ! b - 1], ?r) = Some (d', r')"
      using Cons.prems False x by (simp_all split: if_splits)
    have "length ?r \<le> Suc (length r)" using length_os_insert [of b r] by simp
    then show ?thesis using Cons.IH [OF run] sum_list_update_dec [OF b] by linarith
  qed
qed simp

function kahn_loop :: "adj \<Rightarrow> nat list \<times> nat list \<times> nat list \<times> nat \<Rightarrow> (nat list \<times> nat) option" where
  "kahn_loop adj (d, ready, rank, placed) =
     (case ready of
        [] \<Rightarrow> Some (rank, placed)
      | v # rest \<Rightarrow>
          (if v < length rank
           then case kahn_objs (objs_of adj v) (d, rest) of
                  None \<Rightarrow> None
                | Some (d', ready') \<Rightarrow> kahn_loop adj (d', ready', rank[v := placed], placed + 1)
           else None))"
  by pat_completeness auto
termination
proof (relation "measure (\<lambda>(adj, d, ready, rank, placed). sum_list d + length ready)")
  fix adj :: adj and d ready rank :: "nat list" and placed v rest a d' ready'
  assume "ready = v # rest" "kahn_objs (objs_of adj v) (d, rest) = Some a" "(d', ready') = a"
  then show "((adj, d', ready', rank[v := placed], placed + 1), (adj, d, ready, rank, placed))
      \<in> measure (\<lambda>(adj, d, ready, rank, placed). sum_list d + length ready)"
    using kahn_objs_measure [of "objs_of adj v" d rest d' ready'] by simp
qed simp

declare kahn_loop.simps [simp del]

text \<open>The whole of \<open>rebuild_ranks\<close> on \<open>n\<close> entities: \<open>None\<close> is a panic, otherwise the ranks
  and the number of entities placed.\<close>

definition kahn :: "nat \<Rightarrow> adj \<Rightarrow> (nat list \<times> nat) option" where
  "kahn n adj =
     (case indeg_all adj (replicate n 0) of
        None \<Rightarrow> None
      | Some d \<Rightarrow> kahn_loop adj (d, filter (\<lambda>v. d ! v = 0) [0..<n], replicate n 0, 0))"

end
