(* ===== verification/Kahn.thy ===== *)
theory Kahn
  imports Adjacency
begin

text \<open>
  Correctness of the rank computation of \<open>KnowledgeGraph::rebuild_ranks\<close>: it never
  panics, it places every entity exactly when the edges are acyclic, and the ranks then
  ascend along every edge and enumerate the entities.
\<close>

section \<open>The in-degrees\<close>

lemma indeg_objs_eq:
  "\<forall>x \<in> set m. fst x < length d \<and> snd x \<noteq> [] \<Longrightarrow> distinct (map fst m) \<Longrightarrow>
     \<exists>d'. indeg_objs m d = Some d' \<and> length d' = length d
       \<and> (\<forall>w < length d. d' ! w = d ! w + (if w \<in> fst ` set m then 1 else 0))"
proof (induction m arbitrary: d)
  case (Cons x m)
  obtain b ps where x: "x = (b, ps)" by (cases x)
  let ?d = "d[b := d ! b + 1]"
  obtain d' where d': "indeg_objs m ?d = Some d'" "length d' = length d"
    "\<forall>w < length d. d' ! w = ?d ! w + (if w \<in> fst ` set m then 1 else 0)"
    using Cons.IH [of ?d] Cons.prems x by auto
  have "d' ! w = d ! w + (if w \<in> fst ` set (x # m) then 1 else 0)" if "w < length d" for w
    using d'(3) that Cons.prems x by (auto simp: nth_list_update)
  then show ?case using d' Cons.prems x by auto
qed simp

lemma indeg_all_eq:
  "\<forall>x \<in> set adj. objs_wf (length d) (fst x) (snd x) \<Longrightarrow>
     \<exists>d'. indeg_all adj d = Some d' \<and> length d' = length d
       \<and> (\<forall>w < length d. d' ! w = d ! w + length (filter (\<lambda>x. w \<in> fst ` set (snd x)) adj))"
proof (induction adj arbitrary: d)
  case (Cons x adj)
  obtain a m where x: "x = (a, m)" by (cases x)
  have m: "objs_wf (length d) a m" using Cons.prems x by simp
  then obtain d1 where d1: "indeg_objs m d = Some d1" "length d1 = length d"
    "\<forall>w < length d. d1 ! w = d ! w + (if w \<in> fst ` set m then 1 else 0)"
    using indeg_objs_eq [of m d] by (auto simp: objs_wf_def om_distinct)
  obtain d' where d': "indeg_all adj d1 = Some d'" "length d' = length d"
    "\<forall>w < length d. d' ! w = d1 ! w + length (filter (\<lambda>x. w \<in> fst ` set (snd x)) adj)"
    using Cons.IH [of d1] Cons.prems d1(2) by auto
  have "d' ! w = d ! w + length (filter (\<lambda>x. w \<in> fst ` set (snd x)) (x # adj))"
    if "w < length d" for w
    using d'(3) d1(3) that x by simp
  then show ?case using d'(1,2) d1(1) x by auto
qed simp

text \<open>The predecessors still to be placed, counted.\<close>

definition open_preds :: "adj \<Rightarrow> nat list \<Rightarrow> nat \<Rightarrow> nat set" where
  "open_preds adj order w = {u. w \<in> set (keys_of adj u) \<and> u \<notin> set order}"

lemma keys_of_bound: "adj_wf n adj \<Longrightarrow> w \<in> set (keys_of adj u) \<Longrightarrow> u < n \<and> w < n \<and> u \<noteq> w"
  using preds_of_wf(2) [of n adj u w] keys_of_iff [of n adj w u] by blast

lemma finite_open_preds: "adj_wf n adj \<Longrightarrow> finite (open_preds adj order w)"
  by (rule finite_subset [of _ "{..<n}"]) (auto simp: open_preds_def dest: keys_of_bound)

lemma indeg_init:
  assumes wf: "adj_wf n adj"
  shows "\<exists>d. indeg_all adj (replicate n 0) = Some d \<and> length d = n
    \<and> (\<forall>w < n. d ! w = card (open_preds adj [] w))"
proof -
  obtain d where d: "indeg_all adj (replicate n 0) = Some d" "length d = n"
    "\<forall>w < n. d ! w = length (filter (\<lambda>x. w \<in> fst ` set (snd x)) adj)"
    using indeg_all_eq [of adj "replicate n 0"] wf by (auto simp: adj_wf_def)
  have dist: "distinct (map fst adj)" using wf by (simp add: adj_wf_def om_distinct)
  have "length (filter (\<lambda>x. w \<in> fst ` set (snd x)) adj) = card (open_preds adj [] w)" for w
  proof -
    let ?xs = "filter (\<lambda>x. w \<in> fst ` set (snd x)) adj"
    have "distinct (map fst ?xs)" using dist by (rule distinct_map_filter)
    then have "length ?xs = card (fst ` set ?xs)"
      using distinct_card [of "map fst ?xs"] by simp
    also have "fst ` set ?xs = open_preds adj [] w"
    proof -
      have "(a, m) \<in> set adj \<longleftrightarrow> map_of adj a = Some m" for a m using dist by simp
      then show ?thesis
        by (force simp: open_preds_def keys_of_def objs_of_def image_iff split: option.splits)
    qed
    finally show ?thesis .
  qed
  with d show ?thesis by auto
qed

section \<open>The invariant of the main loop\<close>

text \<open>\<open>order\<close> lists the entities placed so far.\<close>

definition kahn_inv :: "nat \<Rightarrow> adj \<Rightarrow> nat list \<Rightarrow> nat list \<Rightarrow> nat list \<Rightarrow> nat list \<Rightarrow> bool" where
  "kahn_inv n adj d ready rank order \<longleftrightarrow>
     length d = n \<and> length rank = n \<and> distinct order \<and> set order \<subseteq> {..<n}
     \<and> (\<forall>w < n. d ! w = card (open_preds adj order w))
     \<and> os_wf ready \<and> set ready = {w. w < n \<and> w \<notin> set order \<and> d ! w = 0}
     \<and> (\<forall>i < length order. rank ! (order ! i) = i)
     \<and> (\<forall>u w. w \<in> set order \<longrightarrow> w \<in> set (keys_of adj u) \<longrightarrow> u \<in> set order \<and> rank ! u < rank ! w)"

lemma kahn_invD:
  assumes "kahn_inv n adj d ready rank order"
  shows "length d = n" "length rank = n" "distinct order" "set order \<subseteq> {..<n}"
    "\<And>w. w < n \<Longrightarrow> d ! w = card (open_preds adj order w)"
    "os_wf ready" "set ready = {w. w < n \<and> w \<notin> set order \<and> d ! w = 0}"
    "\<And>i. i < length order \<Longrightarrow> rank ! (order ! i) = i"
    "\<And>u w. w \<in> set order \<Longrightarrow> w \<in> set (keys_of adj u) \<Longrightarrow> u \<in> set order \<and> rank ! u < rank ! w"
  using assms unfolding kahn_inv_def by blast+

lemma kahn_objs_eq:
  "\<forall>x \<in> set m. fst x < length d \<and> snd x \<noteq> [] \<and> 0 < d ! fst x \<Longrightarrow> distinct (map fst m) \<Longrightarrow>
     os_wf ready \<Longrightarrow>
     \<exists>d' ready'. kahn_objs m (d, ready) = Some (d', ready') \<and> length d' = length d \<and> os_wf ready'
       \<and> set ready' = set ready \<union> {w \<in> fst ` set m. d ! w = 1}
       \<and> (\<forall>w < length d. d' ! w = d ! w - (if w \<in> fst ` set m then 1 else 0))"
proof (induction m arbitrary: d ready)
  case (Cons x m)
  obtain b ps where x: "x = (b, ps)" by (cases x)
  let ?d = "d[b := d ! b - 1]" and ?r = "if d ! b - 1 = 0 then os_insert b ready else ready"
  have b: "b < length d" "0 < d ! b" "b \<notin> fst ` set m" using Cons.prems x by auto
  have same: "?d ! w = d ! w" if "w \<in> fst ` set m" for w
    using b(3) that by (metis nth_list_update_neq)
  have c1: "\<forall>y \<in> set m. fst y < length ?d \<and> snd y \<noteq> [] \<and> 0 < ?d ! fst y"
    using Cons.prems(1) same by auto
  have c2: "distinct (map fst m)" "os_wf ?r" using Cons.prems by auto
  obtain d' r' where IH: "kahn_objs m (?d, ?r) = Some (d', r')"
    "length d' = length ?d" "os_wf r'" "set r' = set ?r \<union> {w \<in> fst ` set m. ?d ! w = 1}"
    "\<forall>w < length ?d. d' ! w = ?d ! w - (if w \<in> fst ` set m then 1 else 0)"
    using Cons.IH [OF c1 c2] by blast
  have "d' ! w = d ! w - (if w \<in> fst ` set (x # m) then 1 else 0)" if "w < length d" for w
    using IH(5) that b x by (auto simp: nth_list_update)
  moreover have "set r' = set ready \<union> {w \<in> fst ` set (x # m). d ! w = 1}"
  proof -
    have "{w \<in> fst ` set m. ?d ! w = 1} = {w \<in> fst ` set m. d ! w = 1}" using same by metis
    then show ?thesis unfolding IH(4) using b x by auto
  qed
  moreover have "kahn_objs (x # m) (d, ready) = Some (d', r')"
    using IH(1) Cons.prems b x by simp
  ultimately show ?case using IH(2,3) by simp
qed simp

lemma kahn_inv_step:
  assumes wf: "adj_wf n adj" and inv: "kahn_inv n adj d (v # rest) rank order"
  shows "v < length rank \<and> (\<exists>d' ready'. kahn_objs (objs_of adj v) (d, rest) = Some (d', ready')
    \<and> kahn_inv n adj d' ready' (rank[v := length order]) (order @ [v]))"
proof -
  note D = kahn_invD [OF inv]
  have v: "v < n" "v \<notin> set order" "d ! v = 0" using D(7) by auto
  have rest: "os_wf rest" "v \<notin> set rest" using D(6) by (auto simp: os_wf_def)
  have keys: "fst ` set (objs_of adj v) = set (keys_of adj v)" by (simp add: keys_of_def)
  have opn: "v \<in> open_preds adj order w" "w < n" "w \<noteq> v" if "w \<in> set (keys_of adj v)" for w
    using that v keys_of_bound [OF wf that] by (auto simp: open_preds_def)
  have pos: "0 < d ! w" if "w \<in> set (keys_of adj v)" for w
    using opn [OF that] D(5) finite_open_preds [OF wf] by (simp add: card_gt_0_iff) blast
  have step: "open_preds adj (order @ [v]) w = open_preds adj order w - {v}" for w
    by (auto simp: open_preds_def)
  have entries: "\<forall>x \<in> set (objs_of adj v). fst x < length d \<and> snd x \<noteq> [] \<and> 0 < d ! fst x"
    using objs_entry [OF wf] pos keys D(1) by fastforce
  obtain d' ready' where run: "kahn_objs (objs_of adj v) (d, rest) = Some (d', ready')"
    and len: "length d' = n" and os: "os_wf ready'"
    and set': "set ready' = set rest \<union> {w \<in> set (keys_of adj v). d ! w = 1}"
    and d': "\<forall>w < n. d' ! w = d ! w - (if w \<in> set (keys_of adj v) then 1 else 0)"
    using kahn_objs_eq [OF entries _ rest(1)] keys_of_distinct [OF wf, of v] D(1)
    unfolding keys by (auto simp: keys_of_def)
  have card': "d' ! w = card (open_preds adj (order @ [v]) w)" if w: "w < n" for w
  proof (cases "w \<in> set (keys_of adj v)")
    case True
    then show ?thesis
      using d' w D(5) [OF w] opn(1) finite_open_preds [OF wf] by (simp add: step)
  next
    case False
    then have "v \<notin> open_preds adj order w" by (simp add: open_preds_def)
    then show ?thesis using d' w D(5) [OF w] False by (simp add: step)
  qed
  have ready: "set ready' = {w. w < n \<and> w \<notin> set (order @ [v]) \<and> d' ! w = 0}"
  proof -
    have placed: "w \<notin> set order" if "w \<in> set (keys_of adj v)" for w
      using D(9) [OF _ that] v(2) by blast
    have "w \<in> set ready' \<longleftrightarrow> w < n \<and> w \<notin> set (order @ [v]) \<and> d' ! w = 0" for w
    proof (cases "w \<in> set (keys_of adj v)")
      case True
      have "w \<notin> set (v # rest)" unfolding D(7) using pos [OF True] by simp
      then have "w \<notin> set rest" by simp
      with True opn [OF True] placed [OF True] pos [OF True] d' show ?thesis
        unfolding set' by auto
    next
      case False
      have "w \<in> set rest \<longleftrightarrow> w \<in> set (v # rest) \<and> w \<noteq> v" using rest(2) by auto
      with False d' show ?thesis unfolding set' D(7) by auto
    qed
    then show ?thesis by blast
  qed
  have ranks: "rank[v := length order] ! ((order @ [v]) ! i) = i" if "i < length (order @ [v])" for i
  proof (cases "i < length order")
    case True
    then have "order ! i \<noteq> v" using v(2) by (metis nth_mem)
    then show ?thesis using True D(8) by (simp add: nth_append)
  next
    case False
    then show ?thesis using that v(1) D(2) by (simp add: nth_append)
  qed
  have up: "u \<in> set (order @ [v]) \<and> rank[v := length order] ! u < rank[v := length order] ! w"
    if w: "w \<in> set (order @ [v])" "w \<in> set (keys_of adj u)" for u w
  proof (cases "w \<in> set order")
    case True
    then have "u \<in> set order" "rank ! u < rank ! w" "u \<noteq> v" "w \<noteq> v"
      using D(9) w v(2) by auto
    then show ?thesis by simp
  next
    case False
    then have wv: "w = v" using w by simp
    have "open_preds adj order v = {}"
      using D(5) [OF v(1)] v(3) finite_open_preds [OF wf] by simp
    then have u: "u \<in> set order" using w(2) wv by (auto simp: open_preds_def)
    then obtain i where i: "i < length order" "u = order ! i" by (metis in_set_conv_nth)
    have "u \<noteq> v" using u v(2) by blast
    then have "rank[v := length order] ! u = i" using D(8) [OF i(1)] i(2) by simp
    then show ?thesis using i(1) u v(1) wv D(2) by simp
  qed
  have "kahn_inv n adj d' ready' (rank[v := length order]) (order @ [v])"
    unfolding kahn_inv_def using len D(2,3,4) v card' os ready ranks up by auto
  then show ?thesis using run v(1) D(2) by blast
qed

lemma kahn_loop_inv:
  "adj_wf n adj \<Longrightarrow> kahn_inv n adj d ready rank order \<Longrightarrow> placed = length order \<Longrightarrow>
    \<exists>d' rank' order'. kahn_loop adj (d, ready, rank, placed) = Some (rank', length order')
    \<and> kahn_inv n adj d' [] rank' order'"
proof (induction adj "(d, ready, rank, placed)" arbitrary: d ready rank placed order
    rule: kahn_loop.induct)
  case (1 adj d ready rank placed)
  show ?case
  proof (cases ready)
    case Nil
    then show ?thesis using "1.prems" by (auto simp: kahn_loop.simps)
  next
    case (Cons v rest)
    with kahn_inv_step "1.prems" obtain d' ready' where v: "v < length rank"
      and run: "kahn_objs (objs_of adj v) (d, rest) = Some (d', ready')"
      and inv: "kahn_inv n adj d' ready' (rank[v := placed]) (order @ [v])" by metis
    have len: "placed + 1 = length (order @ [v])" using "1.prems" by simp
    have "kahn_loop adj (d, ready, rank, placed)
        = kahn_loop adj (d', ready', rank[v := placed], placed + 1)"
      unfolding Cons by (subst kahn_loop.simps) (simp add: v run)
    with "1.hyps" [OF Cons v run refl \<open>adj_wf n adj\<close> inv len] show ?thesis by simp
  qed
qed

section \<open>Correctness\<close>

lemma edge_rel_iff: "adj_wf n adj \<Longrightarrow> (u, w) \<in> edge_rel n (keys_of adj) \<longleftrightarrow> preds_of adj u w \<noteq> []"
  using keys_of_iff [of n adj w u] preds_of_wf(2) [of n adj u w] by (auto simp: edge_rel_def)

lemma finite_edge_rel: "adj_wf n adj \<Longrightarrow> finite (edge_rel n (keys_of adj))"
  by (rule finite_subset [of _ "{..<n} \<times> {..<n}"]) (auto simp: edge_rel_def dest: keys_of_bound)

text \<open>A rank that ascends along every edge excludes cycles.\<close>

lemma acyclic_by_rank:
  assumes "\<And>u w. (u, w) \<in> E \<Longrightarrow> (f u :: nat) < f w"
  shows "acyclic E"
proof -
  have "E \<subseteq> measure f" using assms by auto
  then have "E\<inverse> \<subseteq> (measure f)\<inverse>" by auto
  moreover have "acyclic (measure f)" by (intro wf_acyclic) simp
  ultimately show ?thesis using acyclic_subset [OF _ \<open>E \<subseteq> measure f\<close>] by blast
qed

lemma kahn_correct:
  assumes wf: "adj_wf n adj"
  shows "\<exists>rank placed. kahn n adj = Some (rank, placed) \<and> length rank = n
    \<and> (placed = n \<longleftrightarrow> acyclic (edge_rel n (keys_of adj)))
    \<and> (placed = n \<longrightarrow> (\<forall>(u, w) \<in> edge_rel n (keys_of adj). rank ! u < rank ! w)
         \<and> (\<forall>i < n. \<exists>v < n. rank ! v = i))"
proof -
  let ?E = "edge_rel n (keys_of adj)"
  obtain d where d: "indeg_all adj (replicate n 0) = Some d" "length d = n"
    "\<forall>w < n. d ! w = card (open_preds adj [] w)" using indeg_init [OF wf] by blast
  have "kahn_inv n adj d (filter (\<lambda>v. d ! v = 0) [0..<n]) (replicate n 0) []"
    using d by (auto simp: kahn_inv_def os_wf_def sorted_wrt_filter)
  from kahn_loop_inv [OF wf this refl] obtain d' rank order where run: "kahn_loop adj (d, filter (\<lambda>v. d ! v = 0) [0..<n], replicate n 0, 0)
      = Some (rank, length order)" and inv: "kahn_inv n adj d' [] rank order"
    by auto
  note D = kahn_invD [OF inv]
  have full: "set order = {..<n}" if "length order = n"
    using that D(3,4) by (metis card_lessThan card_subset_eq distinct_card finite_lessThan)
  have ranks: "rank ! u < rank ! w" if "length order = n" "(u, w) \<in> ?E" for u w
    using that full [OF that(1)] D(9) keys_of_bound [OF wf, of w u] by (auto simp: edge_rel_def)
  have onto: "\<exists>v < n. rank ! v = i" if "length order = n" "i < n" for i
  proof -
    have "order ! i \<in> set order" using that by simp
    then show ?thesis using that D(8) [of i] full by (intro exI [of _ "order ! i"]) auto
  qed
  have "length order = n" if ac: "acyclic ?E"
  proof (rule ccontr)
    assume "length order \<noteq> n"
    then have "set order \<noteq> {..<n}" by (metis D(3) card_lessThan distinct_card)
    then obtain x where x: "x \<in> {..<n} - set order" using D(4) by blast
    have wfE: "wf ?E" by (rule finite_acyclic_wf [OF finite_edge_rel [OF wf] ac])
    obtain v where v: "v \<in> {..<n} - set order"
      and min: "\<And>u. (u, v) \<in> ?E \<Longrightarrow> u \<notin> {..<n} - set order"
      by (rule wfE_min [OF wfE x]) blast
    have "d' ! v \<noteq> 0" using v D(7) by auto
    then have "open_preds adj order v \<noteq> {}" using D(5) [of v] v by auto
    then obtain u where "v \<in> set (keys_of adj u)" "u \<notin> set order" by (auto simp: open_preds_def)
    then show False using min [of u] keys_of_bound [OF wf, of v u] by (auto simp: edge_rel_def)
  qed
  moreover have "acyclic ?E" if "length order = n"
    using ranks [OF that] by (rule acyclic_by_rank)
  moreover have "kahn n adj = Some (rank, length order)" using d(1) run by (simp add: kahn_def)
  ultimately show ?thesis using D(2) ranks onto by blast
qed

end
