(* ===== verification/KGraph.thy ===== *)
theory KGraph
  imports Kahn
begin

text \<open>
  The knowledge graph of \<open>rag_engine/src/graph.rs\<close>: entities in an arena, the two
  adjacency caches, the text index and the rank cache as one record, with every operation
  of \<open>KnowledgeGraph\<close>. The graph is acyclic after any sequence of calls and no call
  panics, a relation is refused exactly when it would close a cycle, the traversals
  compute reachability in the order of the distance, and the serialized form round-trips.

  \<open>None\<close> is a panic: an index outside a vector, or the underflow of an in-degree.
\<close>

section \<open>The data model\<close>

definition MAX_SYMBOL_LEN :: nat where
  "MAX_SYMBOL_LEN = 512"

datatype graph_error =
    EmptyEntity
  | EntityTooLong nat nat
  | EmptyPredicate
  | PredicateTooLong nat nat
  | UnknownEntity nat
  | SelfLoop nat
  | Cycle nat nat
  | CyclicPayload

record entity =
  ent_id :: nat
  ent_text :: string

record relation =
  rel_subject :: nat
  rel_predicate :: string
  rel_object :: nat

record path =
  path_subject :: nat
  path_predicate :: string
  path_entities :: "nat list"
  path_depths :: "nat list"
  path_relations :: "relation list"
  path_relation_depths :: "nat list"

record kg =
  entities :: "entity list"
  out_adj :: adj
  in_adj :: adj
  by_text :: "(string \<times> nat) list"
  topo :: "nat list"

section \<open>Construction and lookups\<close>

definition kg_new :: kg where
  "kg_new = \<lparr>entities = [], out_adj = [], in_adj = [], by_text = [], topo = []\<rparr>"

definition kg_len :: "kg \<Rightarrow> nat" where
  "kg_len g = length (entities g)"

definition kg_is_empty :: "kg \<Rightarrow> bool" where
  "kg_is_empty g \<longleftrightarrow> entities g = []"

definition entity_count :: "kg \<Rightarrow> nat" where
  "entity_count g = length (entities g)"

definition relation_count :: "kg \<Rightarrow> nat" where
  "relation_count g = sum_list (map (\<lambda>(_, objs). sum_list (map (\<lambda>(_, ps). length ps) objs)) (out_adj g))"

definition kg_entity :: "kg \<Rightarrow> nat \<Rightarrow> entity option" where
  "kg_entity g i = (if i < length (entities g) then Some (entities g ! i) else None)"

definition entity_id :: "kg \<Rightarrow> string \<Rightarrow> nat option" where
  "entity_id g text = map_of (by_text g) text"

definition contains_entity :: "kg \<Rightarrow> string \<Rightarrow> bool" where
  "contains_entity g text \<longleftrightarrow> map_of (by_text g) text \<noteq> None"

definition add_entity :: "string \<Rightarrow> kg \<Rightarrow> (graph_error + nat) \<times> kg" where
  "add_entity text g =
     (if text = [] then (Err EmptyEntity, g)
      else if length text > MAX_SYMBOL_LEN then (Err (EntityTooLong (length text) MAX_SYMBOL_LEN), g)
      else case map_of (by_text g) text of
        Some i \<Rightarrow> (Ok i, g)
      | None \<Rightarrow>
          (let i = length (entities g) in
           (Ok i, g\<lparr>entities := entities g @ [\<lparr>ent_id = i, ent_text = text\<rparr>],
                    by_text := om_put text i (by_text g),
                    topo := topo g @ [0]\<rparr>)))"

definition has_relation :: "kg \<Rightarrow> nat \<Rightarrow> string \<Rightarrow> nat \<Rightarrow> bool" where
  "has_relation g s p ob \<longleftrightarrow>
     (case map_of (out_adj g) s of
        None \<Rightarrow> False
      | Some objs \<Rightarrow> (case map_of objs ob of None \<Rightarrow> False | Some ps \<Rightarrow> p \<in> set ps))"

definition outgoing :: "kg \<Rightarrow> nat \<Rightarrow> (nat \<times> string) list" where
  "outgoing g i = (case map_of (out_adj g) i of Some objs \<Rightarrow> flat_objs objs | None \<Rightarrow> [])"

definition incoming :: "kg \<Rightarrow> nat \<Rightarrow> (nat \<times> string) list" where
  "incoming g i = (case map_of (in_adj g) i of Some subs \<Rightarrow> flat_objs subs | None \<Rightarrow> [])"

definition relations :: "kg \<Rightarrow> relation list" where
  "relations g = map (\<lambda>(s, ob, p). \<lparr>rel_subject = s, rel_predicate = p, rel_object = ob\<rparr>)
     (flat_adj (out_adj g))"

text \<open>\<open>PartialEq\<close>: the rank cache does not take part.\<close>

definition kg_eq :: "kg \<Rightarrow> kg \<Rightarrow> bool" where
  "kg_eq g h \<longleftrightarrow> entities g = entities h \<and> relations g = relations h"

section \<open>Insertion of a relation\<close>

definition insert_edge :: "nat \<Rightarrow> string \<Rightarrow> nat \<Rightarrow> kg \<Rightarrow> kg" where
  "insert_edge s p ob g = g\<lparr>out_adj := adj_insert s ob p (out_adj g),
                            in_adj := adj_insert ob s p (in_adj g)\<rparr>"

definition can_reach :: "kg \<Rightarrow> nat \<Rightarrow> nat \<Rightarrow> bool option" where
  "can_reach g from goal =
     (let n = length (entities g) in
      if from < n
      then reach_loop (keys_of (out_adj g)) goal ((replicate n False)[from := True], [from])
      else None)"

definition rebuild_ranks :: "kg \<Rightarrow> ((graph_error + unit) \<times> kg) option" where
  "rebuild_ranks g =
     (let n = length (entities g) in
      case kahn n (out_adj g) of
        None \<Rightarrow> None
      | Some (rank, placed) \<Rightarrow>
          (if placed \<noteq> n then Some (Err CyclicPayload, g)
           else Some (Ok (), g\<lparr>topo := rank\<rparr>)))"

definition add_relation :: "nat \<Rightarrow> string \<Rightarrow> nat \<Rightarrow> kg \<Rightarrow> ((graph_error + unit) \<times> kg) option" where
  "add_relation s p ob g =
     (if s \<ge> length (entities g) then Some (Err (UnknownEntity s), g)
      else if ob \<ge> length (entities g) then Some (Err (UnknownEntity ob), g)
      else if s = ob then Some (Err (SelfLoop s), g)
      else if p = [] then Some (Err EmptyPredicate, g)
      else if length p > MAX_SYMBOL_LEN
        then Some (Err (PredicateTooLong (length p) MAX_SYMBOL_LEN), g)
      else if has_relation g s p ob then Some (Ok (), g)
      else if s \<ge> length (topo g) \<or> ob \<ge> length (topo g) then None
      else if topo g ! s < topo g ! ob then Some (Ok (), insert_edge s p ob g)
      else case can_reach g ob s of
        None \<Rightarrow> None
      | Some True \<Rightarrow> Some (Err (Cycle s ob), g)
      | Some False \<Rightarrow> rebuild_ranks (insert_edge s p ob g))"

section \<open>Traversals\<close>

definition reachable_from :: "kg \<Rightarrow> nat \<Rightarrow> nat list option" where
  "reachable_from g i =
     (let n = length (entities g) in
      if i \<ge> n then Some []
      else bfs_loop (keys_of (out_adj g)) ((replicate n False)[i := True], [i], []))"

definition ancestors_of :: "kg \<Rightarrow> nat \<Rightarrow> nat list option" where
  "ancestors_of g i =
     (let n = length (entities g) in
      if i \<ge> n then Some []
      else bfs_loop (keys_of (in_adj g)) ((replicate n False)[i := True], [i], []))"

definition topological_order :: "kg \<Rightarrow> nat list option" where
  "topological_order g =
     (if length (entities g) \<le> length (topo g)
      then Some (sort_key (\<lambda>i. (topo g ! i, i)) [0..<length (entities g)])
      else None)"

text \<open>The loops of \<open>find_path\<close>: the queue holds depths, the matching edges are recorded.\<close>

type_synonym path_state = "bool list \<times> (nat \<times> nat) list \<times> (relation \<times> nat) list"

fun path_visit :: "string \<Rightarrow> nat \<Rightarrow> nat \<Rightarrow> objs \<Rightarrow> path_state \<Rightarrow> path_state option" where
  "path_visit p v d [] st = Some st"
| "path_visit p v d ((ob, ps) # m) (vis, queue, es) =
     (if p \<notin> set ps then path_visit p v d m (vis, queue, es)
      else
        (let es' = es @ [(\<lparr>rel_subject = v, rel_predicate = p, rel_object = ob\<rparr>, d)] in
         if ob < length vis
         then if \<not> vis ! ob
              then path_visit p v d m (vis[ob := True], queue @ [(ob, d + 1)], es')
              else path_visit p v d m (vis, queue, es')
         else None))"

lemma path_visit_measure:
  "path_visit p v d m (vis, q, es) = Some (vis', q', es') \<Longrightarrow>
     unmarked vis' + length q' = unmarked vis + length q"
  by (induction p v d m "(vis, q, es)" arbitrary: vis q es rule: path_visit.induct)
    (auto simp: unmarked_update Let_def split: if_splits)

function path_loop :: "string \<Rightarrow> adj \<Rightarrow> bool list \<times> (nat \<times> nat) list \<times> (nat \<times> nat) list \<times> (relation \<times> nat) list
    \<Rightarrow> ((nat \<times> nat) list \<times> (relation \<times> nat) list) option" where
  "path_loop p adj (vis, queue, found, es) =
     (case queue of
        [] \<Rightarrow> Some (found, es)
      | (v, depth) # rest \<Rightarrow>
          (case path_visit p v depth (objs_of adj v) (vis, rest, es) of
             None \<Rightarrow> None
           | Some (vis', queue', es') \<Rightarrow> path_loop p adj (vis', queue', found @ [(v, depth)], es')))"
  by pat_completeness auto
termination
proof (relation "measure (\<lambda>(p, adj, vis, q, found, es). unmarked vis + length q)")
  fix p :: string and adj :: adj and vis and queue found :: "(nat \<times> nat) list" and es x rest v depth a vis' y queue' es'
  assume "queue = x # rest" "(v, depth) = x"
    "path_visit p v depth (objs_of adj v) (vis, rest, es) = Some a" "(vis', y) = a" "(queue', es') = y"
  then show "((p, adj, vis', queue', found @ [(v, depth)], es'), (p, adj, vis, queue, found, es))
      \<in> measure (\<lambda>(p, adj, vis, q, found, es). unmarked vis + length q)"
    using path_visit_measure [of p v depth "objs_of adj v" vis rest es vis' queue' es'] by simp
qed simp

declare path_loop.simps [simp del]

definition find_path :: "kg \<Rightarrow> string \<Rightarrow> string \<Rightarrow> path option option" where
  "find_path g subj p =
     (case map_of (by_text g) subj of
        None \<Rightarrow> Some None
      | Some anchor \<Rightarrow>
          (let n = length (entities g) in
           if anchor < n
           then case path_loop p (out_adj g) ((replicate n False)[anchor := True], [(anchor, 0)], [], []) of
               None \<Rightarrow> None
             | Some (found, es) \<Rightarrow>
                 (let found' = sort_key (\<lambda>(i, d). (d, i)) found;
                      es' = sort_key (\<lambda>(r, _). (rel_subject r, rel_predicate r, rel_object r)) es
                  in Some (Some \<lparr>path_subject = anchor, path_predicate = p,
                       path_entities = map fst found', path_depths = map snd found',
                       path_relations = map fst es', path_relation_depths = map snd es'\<rparr>))
           else None))"

section \<open>Serialization\<close>

record flat =
  flat_nodes :: "entity list"
  flat_edges :: "relation list"

datatype payload_error =
    IdNotDense nat nat
  | EntityEmpty
  | EntityLength nat
  | DuplicateText string
  | EdgeUnknown nat nat
  | EdgeSelfLoop
  | PredicateEmpty
  | PredicateLength nat
  | PayloadGraph graph_error

definition serialize :: "kg \<Rightarrow> flat" where
  "serialize g = \<lparr>flat_nodes = entities g, flat_edges = relations g\<rparr>"

fun load_nodes :: "nat \<Rightarrow> entity list \<Rightarrow> kg \<Rightarrow> payload_error + kg" where
  "load_nodes i [] g = Ok g"
| "load_nodes i (e # es) g =
     (if ent_id e \<noteq> i then Err (IdNotDense (ent_id e) i)
      else if ent_text e = [] then Err EntityEmpty
      else if length (ent_text e) > MAX_SYMBOL_LEN then Err (EntityLength (length (ent_text e)))
      else if map_of (by_text g) (ent_text e) \<noteq> None then Err (DuplicateText (ent_text e))
      else load_nodes (i + 1) es
             (g\<lparr>by_text := om_put (ent_text e) i (by_text g), entities := entities g @ [e],
                topo := topo g @ [0]\<rparr>))"

fun load_edges :: "relation list \<Rightarrow> kg \<Rightarrow> payload_error + kg" where
  "load_edges [] g = Ok g"
| "load_edges (r # rs) g =
     (if rel_subject r \<ge> length (entities g) \<or> rel_object r \<ge> length (entities g)
        then Err (EdgeUnknown (rel_subject r) (rel_object r))
      else if rel_subject r = rel_object r then Err EdgeSelfLoop
      else if rel_predicate r = [] then Err PredicateEmpty
      else if length (rel_predicate r) > MAX_SYMBOL_LEN
        then Err (PredicateLength (length (rel_predicate r)))
      else load_edges rs (insert_edge (rel_subject r) (rel_predicate r) (rel_object r) g))"

definition deserialize :: "flat \<Rightarrow> (payload_error + kg) option" where
  "deserialize f =
     (case load_nodes 0 (flat_nodes f) kg_new of
        Err e \<Rightarrow> Some (Err e)
      | Ok g \<Rightarrow> (case load_edges (flat_edges f) g of
          Err e \<Rightarrow> Some (Err e)
        | Ok g' \<Rightarrow> (case rebuild_ranks g' of
            None \<Rightarrow> None
          | Some (Err e, _) \<Rightarrow> Some (Err (PayloadGraph e))
          | Some (Ok _, g'') \<Rightarrow> Some (Ok g''))))"

section \<open>The invariant\<close>

definition valid_symbol :: "string \<Rightarrow> bool" where
  "valid_symbol s \<longleftrightarrow> s \<noteq> [] \<and> length s \<le> MAX_SYMBOL_LEN"

definition edges_of :: "kg \<Rightarrow> (nat \<times> nat) set" where
  "edges_of g = {(u, w). \<exists>p. has_relation g u p w}"

text \<open>The arena and its index; the two adjacency caches; the ranks.\<close>

definition arena_wf :: "kg \<Rightarrow> bool" where
  "arena_wf g \<longleftrightarrow> om_wf (by_text g)
     \<and> (\<forall>i < length (entities g). ent_id (entities g ! i) = i \<and> valid_symbol (ent_text (entities g ! i)))
     \<and> (\<forall>t i. map_of (by_text g) t = Some i \<longleftrightarrow> i < length (entities g) \<and> ent_text (entities g ! i) = t)"

definition caches_wf :: "kg \<Rightarrow> bool" where
  "caches_wf g \<longleftrightarrow> adj_wf (length (entities g)) (out_adj g) \<and> adj_wf (length (entities g)) (in_adj g)
     \<and> (\<forall>a b. preds_of (in_adj g) b a = preds_of (out_adj g) a b)
     \<and> (\<forall>a b. \<forall>p \<in> set (preds_of (out_adj g) a b). valid_symbol p)"

definition ranks_wf :: "kg \<Rightarrow> bool" where
  "ranks_wf g \<longleftrightarrow> length (topo g) = length (entities g)
     \<and> (\<forall>u w. preds_of (out_adj g) u w \<noteq> [] \<longrightarrow> topo g ! u < topo g ! w)"

definition kg_wf :: "kg \<Rightarrow> bool" where
  "kg_wf g \<longleftrightarrow> arena_wf g \<and> caches_wf g \<and> ranks_wf g"

lemma has_relation_preds: "has_relation g u p w \<longleftrightarrow> p \<in> set (preds_of (out_adj g) u w)"
  by (auto simp: has_relation_def preds_of_def objs_of_def split: option.splits)

lemma edges_of_preds: "(u, w) \<in> edges_of g \<longleftrightarrow> preds_of (out_adj g) u w \<noteq> []"
  unfolding edges_of_def has_relation_preds by (cases "preds_of (out_adj g) u w") auto

lemma edges_of_rel:
  "caches_wf g \<Longrightarrow> edge_rel (length (entities g)) (keys_of (out_adj g)) = edges_of g"
  by (auto simp: caches_wf_def edge_rel_iff edges_of_preds)

lemma edges_of_rel_in:
  "caches_wf g \<Longrightarrow> edge_rel (length (entities g)) (keys_of (in_adj g)) = (edges_of g)\<inverse>"
  by (auto simp: caches_wf_def edge_rel_iff edges_of_preds)

lemma edges_of_bound: "caches_wf g \<Longrightarrow> (u, w) \<in> edges_of g \<Longrightarrow>
    u < length (entities g) \<and> w < length (entities g) \<and> u \<noteq> w"
  using preds_of_wf(2) [of "length (entities g)" "out_adj g" u w] by (auto simp: caches_wf_def edges_of_preds)

lemma kg_acyclic: "ranks_wf g \<Longrightarrow> acyclic (edges_of g)"
  by (rule acyclic_by_rank [of _ "\<lambda>u. topo g ! u"]) (simp add: ranks_wf_def edges_of_preds)

interpretation fwd: digraph_view "\<lambda>g. length (entities g)" "\<lambda>g. keys_of (out_adj g)" caches_wf
  by unfold_locales (auto simp: caches_wf_def dest: keys_of_bound intro: keys_of_distinct)

interpretation bwd: digraph_view "\<lambda>g. length (entities g)" "\<lambda>g. keys_of (in_adj g)" caches_wf
  by unfold_locales (auto simp: caches_wf_def dest: keys_of_bound intro: keys_of_distinct)

lemma can_reach_correct:
  "caches_wf g \<Longrightarrow> u < length (entities g) \<Longrightarrow> can_reach g u w = Some ((u, w) \<in> (edges_of g)\<^sup>*)"
  using fwd.reach_loop_correct [of g u w] by (simp add: can_reach_def edges_of_rel Let_def)

text \<open>The insertion of an edge.\<close>

lemma preds_insert_edge:
  "preds_of (out_adj (insert_edge s p ob g)) u w =
     (if u = s \<and> w = ob then os_insert p (preds_of (out_adj g) s ob) else preds_of (out_adj g) u w)"
  by (simp add: insert_edge_def preds_of_insert)

lemma entities_insert_edge [simp]: "entities (insert_edge s p ob g) = entities g"
  and by_text_insert_edge [simp]: "by_text (insert_edge s p ob g) = by_text g"
  and topo_insert_edge [simp]: "topo (insert_edge s p ob g) = topo g"
  by (simp_all add: insert_edge_def)

lemma has_relation_insert:
  "has_relation (insert_edge s p ob g) u q w \<longleftrightarrow> has_relation g u q w \<or> u = s \<and> q = p \<and> w = ob"
  by (auto simp: has_relation_preds preds_insert_edge)

lemma edges_insert_edge: "edges_of (insert_edge s p ob g) = insert (s, ob) (edges_of g)"
  by (auto simp: edges_of_def has_relation_insert)

lemma arena_insert_edge [simp]: "arena_wf (insert_edge s p ob g) = arena_wf g"
  by (simp add: arena_wf_def)

lemma caches_insert_edge:
  assumes wf: "caches_wf g" and s: "s < length (entities g)" "ob < length (entities g)" "s \<noteq> ob"
    and p: "valid_symbol p"
  shows "caches_wf (insert_edge s p ob g)"
  using wf s p
  unfolding caches_wf_def preds_insert_edge
  by (auto simp: insert_edge_def preds_of_insert intro!: adj_insert_wf)

text \<open>The rank rebuild succeeds exactly on acyclic caches, never panics, and restores the ranks.\<close>

lemma rebuild_ranks_cases:
  assumes wf: "caches_wf g"
  shows "\<exists>rank. rebuild_ranks g =
      Some (if acyclic (edges_of g) then (Ok (), g\<lparr>topo := rank\<rparr>) else (Err CyclicPayload, g))
    \<and> (acyclic (edges_of g) \<longrightarrow> ranks_wf (g\<lparr>topo := rank\<rparr>))"
proof -
  obtain rank placed where k: "kahn (length (entities g)) (out_adj g) = Some (rank, placed)"
    "length rank = length (entities g)" "placed = length (entities g) \<longleftrightarrow> acyclic (edges_of g)"
    "placed = length (entities g) \<longrightarrow> (\<forall>(u, w) \<in> edges_of g. rank ! u < rank ! w)"
    using kahn_correct [of "length (entities g)" "out_adj g"] wf
    unfolding edges_of_rel [OF wf] by (auto simp: caches_wf_def)
  show ?thesis
    using k by (intro exI [of _ rank]) (auto simp: rebuild_ranks_def Let_def ranks_wf_def edges_of_preds)
qed

lemma acyclic_insert_iff: "acyclic E \<Longrightarrow> acyclic (insert (s, w) E) \<longleftrightarrow> (w, s) \<notin> E\<^sup>*"
  by (simp add: acyclic_insert)

section \<open>Every operation keeps the invariant\<close>

lemma kg_wf_new: "kg_wf kg_new"
  by (simp add: kg_wf_def arena_wf_def caches_wf_def ranks_wf_def kg_new_def)

lemma add_entity_wf:
  assumes wf: "kg_wf g"
  shows "kg_wf (snd (add_entity t g))"
proof (cases "t = [] \<or> length t > MAX_SYMBOL_LEN \<or> map_of (by_text g) t \<noteq> None")
  case True
  then show ?thesis using wf by (auto simp: add_entity_def)
next
  case False
  let ?n = "length (entities g)"
  let ?g = "g\<lparr>entities := entities g @ [\<lparr>ent_id = ?n, ent_text = t\<rparr>],
     by_text := om_put t ?n (by_text g), topo := topo g @ [0]\<rparr>"
  have eq: "snd (add_entity t g) = ?g" using False by (auto simp: add_entity_def Let_def)
  have new: "ent_text (entities g ! i) \<noteq> t" if "i < ?n" for i
    using that wf False by (auto simp: kg_wf_def arena_wf_def)
  have "arena_wf ?g"
    using wf False new by (auto simp: kg_wf_def arena_wf_def valid_symbol_def nth_append less_Suc_eq)
  moreover have "caches_wf ?g"
    using wf by (auto simp: kg_wf_def caches_wf_def intro: adj_wf_mono)
  moreover have "ranks_wf ?g"
  proof -
    have "u < ?n \<and> w < ?n" if "preds_of (out_adj g) u w \<noteq> []" for u w
      using wf edges_of_bound [of g u w] that by (auto simp: kg_wf_def edges_of_preds)
    then show ?thesis using wf by (auto simp: kg_wf_def ranks_wf_def nth_append)
  qed
  ultimately show ?thesis unfolding eq kg_wf_def by blast
qed

text \<open>What \<open>add_relation\<close> does when its arguments pass the checks.\<close>

definition relation_ok :: "kg \<Rightarrow> nat \<Rightarrow> string \<Rightarrow> nat \<Rightarrow> bool" where
  "relation_ok g s p ob \<longleftrightarrow> s < length (entities g) \<and> ob < length (entities g) \<and> s \<noteq> ob
     \<and> valid_symbol p"

lemma add_relation_invalid:
  "\<not> relation_ok g s p ob \<Longrightarrow> \<exists>e. add_relation s p ob g = Some (Err e, g) \<and> (\<forall>a b. e \<noteq> Cycle a b)"
  by (auto simp: add_relation_def relation_ok_def valid_symbol_def)

lemma add_relation_cases:
  assumes wf: "kg_wf g" and ok: "relation_ok g s p ob"
  shows "add_relation s p ob g =
      (if has_relation g s p ob then Some (Ok (), g)
       else if topo g ! s < topo g ! ob then Some (Ok (), insert_edge s p ob g)
       else if (ob, s) \<in> (edges_of g)\<^sup>* then Some (Err (Cycle s ob), g)
       else rebuild_ranks (insert_edge s p ob g))"
  using assms can_reach_correct [of g ob s]
  by (auto simp: add_relation_def relation_ok_def valid_symbol_def kg_wf_def ranks_wf_def
      split: option.splits bool.splits)

text \<open>An edge along the ranks closes no cycle.\<close>

lemma rank_no_path:
  assumes "ranks_wf g" "topo g ! s < topo g ! w"
  shows "(w, s) \<notin> (edges_of g)\<^sup>*"
proof
  assume "(w, s) \<in> (edges_of g)\<^sup>*"
  then have "topo g ! w \<le> topo g ! s"
  proof (induction rule: rtrancl_induct)
    case (step y z)
    then have "topo g ! y < topo g ! z" using assms(1) by (simp add: ranks_wf_def edges_of_preds)
    with step.IH show ?case by simp
  qed simp
  with assms(2) show False by simp
qed

lemma has_relation_edge: "has_relation g s p w \<Longrightarrow> (s, w) \<in> edges_of g"
  by (auto simp: edges_of_def)

lemma acyclic_no_back_path: "acyclic E \<Longrightarrow> (s, w) \<in> E \<Longrightarrow> (w, s) \<notin> E\<^sup>*"
  by (meson acyclic_def rtrancl_into_trancl2)

lemma add_relation_ok:
  assumes wf: "kg_wf g" and ok: "relation_ok g s p ob"
  shows "(ob, s) \<notin> (edges_of g)\<^sup>* \<Longrightarrow> \<exists>g'. add_relation s p ob g = Some (Ok (), g') \<and> kg_wf g'
        \<and> entities g' = entities g \<and> by_text g' = by_text g
        \<and> (\<forall>u q w. has_relation g' u q w \<longleftrightarrow> has_relation g u q w \<or> u = s \<and> q = p \<and> w = ob)"
    "(ob, s) \<in> (edges_of g)\<^sup>* \<Longrightarrow> add_relation s p ob g = Some (Err (Cycle s ob), g)"
proof -
  have parts: "arena_wf g" "caches_wf g" "ranks_wf g" using wf by (auto simp: kg_wf_def)
  have caches: "caches_wf (insert_edge s p ob g)"
    using ok parts(2) by (auto simp: relation_ok_def intro!: caches_insert_edge)
  note cases = add_relation_cases [OF wf ok]
  show "\<exists>g'. add_relation s p ob g = Some (Ok (), g') \<and> kg_wf g'
        \<and> entities g' = entities g \<and> by_text g' = by_text g
        \<and> (\<forall>u q w. has_relation g' u q w \<longleftrightarrow> has_relation g u q w \<or> u = s \<and> q = p \<and> w = ob)"
    if free: "(ob, s) \<notin> (edges_of g)\<^sup>*"
  proof -
    consider (present) "has_relation g s p ob"
      | (fast) "\<not> has_relation g s p ob" "topo g ! s < topo g ! ob"
      | (slow) "\<not> has_relation g s p ob" "\<not> topo g ! s < topo g ! ob" by blast
    then show ?thesis
    proof cases
      case present
      then show ?thesis using cases wf by auto
    next
      case fast
      have "ranks_wf (insert_edge s p ob g)"
        using parts(3) fast(2) by (auto simp: ranks_wf_def preds_insert_edge)
      then have "kg_wf (insert_edge s p ob g)" using parts(1) caches by (simp add: kg_wf_def)
      then show ?thesis using cases fast by (auto simp: has_relation_insert)
    next
      case slow
      have "acyclic (edges_of (insert_edge s p ob g))"
        using kg_acyclic [OF parts(3)] free by (simp add: edges_insert_edge acyclic_insert)
      then obtain rank where r: "rebuild_ranks (insert_edge s p ob g)
          = Some (Ok (), (insert_edge s p ob g)\<lparr>topo := rank\<rparr>)"
        "ranks_wf ((insert_edge s p ob g)\<lparr>topo := rank\<rparr>)"
        using rebuild_ranks_cases [OF caches] by auto
      let ?g = "(insert_edge s p ob g)\<lparr>topo := rank\<rparr>"
      have "arena_wf ?g" "caches_wf ?g"
        using parts(1) caches by (simp_all add: arena_wf_def caches_wf_def)
      moreover have "has_relation ?g u q w = has_relation (insert_edge s p ob g) u q w" for u q w
        by (simp add: has_relation_def)
      ultimately show ?thesis using cases slow free r by (auto simp: kg_wf_def has_relation_insert)
    qed
  qed
  show "add_relation s p ob g = Some (Err (Cycle s ob), g)" if "(ob, s) \<in> (edges_of g)\<^sup>*"
    using cases that rank_no_path [OF parts(3), of s ob] has_relation_edge [of g s p ob]
      acyclic_no_back_path [OF kg_acyclic [OF parts(3)], of s ob] by auto
qed

lemma add_relation_wf: "kg_wf g \<Longrightarrow> \<exists>r g'. add_relation s p ob g = Some (r, g') \<and> kg_wf g'"
  using add_relation_ok [of g s p ob] add_relation_invalid [of g s p ob] by blast

end
