(* ===== verification/KGraphProps.thy ===== *)
theory KGraphProps
  imports KGraph
begin

text \<open>
  What the knowledge graph of \<open>rag_engine/src/graph.rs\<close> promises its callers, proved of
  the model of \<open>KGraph\<close>: acyclicity and absence of panics over all call sequences, the
  exact conditions of \<open>add_relation\<close>, the traversals, \<open>find_path\<close>, the deterministic
  order of \<open>relations\<close>, and the round trip of the flat serialized form.
\<close>

section \<open>Evidence retrieval\<close>

definition psucc :: "string \<Rightarrow> adj \<Rightarrow> nat \<Rightarrow> nat list" where
  "psucc p adj v = map fst (filter (\<lambda>x. p \<in> set (snd x)) (objs_of adj v))"

definition pred_edges :: "kg \<Rightarrow> string \<Rightarrow> (nat \<times> nat) set" where
  "pred_edges g p = {(u, w). has_relation g u p w}"

lemma psucc_mem: "adj_wf n adj \<Longrightarrow> w \<in> set (psucc p adj v) \<longleftrightarrow> p \<in> set (preds_of adj v w)"
proof
  assume wf: "adj_wf n adj" and "w \<in> set (psucc p adj v)"
  then obtain ps where "(w, ps) \<in> set (objs_of adj v)" "p \<in> set ps" by (auto simp: psucc_def)
  then show "p \<in> set (preds_of adj v w)" using preds_of_mem [OF wf] by simp
next
  assume "p \<in> set (preds_of adj v w)"
  then obtain ps where "map_of (objs_of adj v) w = Some ps" "p \<in> set ps"
    by (cases "map_of (objs_of adj v) w") (auto simp: preds_of_def)
  then show "w \<in> set (psucc p adj v)"
    unfolding psucc_def by (auto intro!: image_eqI [of _ _ "(w, ps)"] dest: map_of_SomeD)
qed

lemma psucc_distinct: "adj_wf n adj \<Longrightarrow> distinct (psucc p adj v)"
  using keys_of_distinct [of n adj v] by (simp add: psucc_def keys_of_def distinct_map_filter)

lemma psucc_rel: "caches_wf g \<Longrightarrow> edge_rel (length (entities g)) (psucc p (out_adj g)) = pred_edges g p"
proof -
  assume "caches_wf g"
  then have wf: "adj_wf (length (entities g)) (out_adj g)" by (simp add: caches_wf_def)
  have "u < length (entities g)" if "p \<in> set (preds_of (out_adj g) u w)" for u w
  proof -
    have "preds_of (out_adj g) u w \<noteq> []" using that by auto
    then show ?thesis using preds_of_wf(2) [OF wf] by blast
  qed
  then show ?thesis
    by (auto simp: edge_rel_def pred_edges_def has_relation_preds psucc_mem [OF wf])
qed

interpretation pth: digraph_view "\<lambda>x. length (entities (fst x))"
    "\<lambda>x. psucc (snd x) (out_adj (fst x))" "\<lambda>x. caches_wf (fst x)"
proof
  fix x :: "kg \<times> string" and v w
  assume "caches_wf (fst x)"
  then have wf: "adj_wf (length (entities (fst x))) (out_adj (fst x))" by (simp add: caches_wf_def)
  show "distinct (psucc (snd x) (out_adj (fst x)) v)" by (rule psucc_distinct [OF wf])
  assume "w \<in> set (psucc (snd x) (out_adj (fst x)) v)"
  then have "preds_of (out_adj (fst x)) v w \<noteq> []" using psucc_mem [OF wf] by force
  then show "w < length (entities (fst x))" using preds_of_wf(2) [OF wf] by blast
qed

text \<open>The edges one dequeued vertex contributes.\<close>

definition evidence :: "string \<Rightarrow> adj \<Rightarrow> nat \<times> nat \<Rightarrow> (relation \<times> nat) list" where
  "evidence p adj x = map (\<lambda>w. (\<lparr>rel_subject = fst x, rel_predicate = p, rel_object = w\<rparr>, snd x))
     (psucc p adj (fst x))"

lemma path_visit_eq:
  "distinct (map fst m) \<Longrightarrow> \<forall>x \<in> set m. fst x < length vis \<Longrightarrow>
     ws = map fst (filter (\<lambda>x. p \<in> set (snd x)) m) \<Longrightarrow>
     path_visit p v d m (vis, q, es) = Some (mark (fresh vis ws) vis,
       q @ map (\<lambda>w. (w, Suc d)) (fresh vis ws),
       es @ map (\<lambda>w. (\<lparr>rel_subject = v, rel_predicate = p, rel_object = w\<rparr>, d)) ws)"
proof (induction m arbitrary: vis q es ws)
  case (Cons x m)
  obtain b ps where x: "x = (b, ps)" by (cases x)
  let ?ws = "map fst (filter (\<lambda>x. p \<in> set (snd x)) m)"
  have b: "b < length vis" "b \<notin> set ?ws" "distinct (map fst m)" "\<forall>x \<in> set m. fst x < length vis"
    using Cons.prems x by auto
  have upd: "mark (b # fresh vis ?ws) vis = mark (fresh vis ?ws) (vis[b := True])"
    using b by (simp add: mark_update)
  show ?case
    using Cons.IH [of vis ?ws] Cons.IH [of "vis[b := True]" ?ws] b Cons.prems(3) x
    by (auto simp: fresh_Cons fresh_update upd Let_def)
qed simp

lemma path_loop_inv:
  "caches_wf g \<Longrightarrow> adj = out_adj g \<Longrightarrow>
     bfs_inv (length (entities g)) (psucc p adj) s vis q found \<Longrightarrow>
     es = concat (map (evidence p adj) found) \<Longrightarrow>
     \<exists>all vis'. path_loop p adj (vis, q, found, es) = Some (all, concat (map (evidence p adj) all))
       \<and> bfs_inv (length (entities g)) (psucc p adj) s vis' [] all"
proof (induction p adj "(vis, q, found, es)" arbitrary: vis q found es rule: path_loop.induct)
  case (1 p adj vis q found es)
  show ?case
  proof (cases q)
    case Nil
    then show ?thesis using "1.prems" by (auto simp: path_loop.simps)
  next
    case (Cons x rest)
    obtain v d where x: "x = (v, d)" by (cases x)
    let ?new = "fresh vis (psucc p adj v)"
    let ?es = "es @ map (\<lambda>w. (\<lparr>rel_subject = v, rel_predicate = p, rel_object = w\<rparr>, d)) (psucc p adj v)"
    have wf: "adj_wf (length (entities g)) adj" using "1.prems" by (simp add: caches_wf_def)
    have len: "length vis = length (entities g)" using bfs_invD(1) "1.prems"(3) by blast
    have visit: "path_visit p v d (objs_of adj v) (vis, rest, es)
        = Some (mark ?new vis, rest @ map (\<lambda>w. (w, Suc d)) ?new, ?es)"
      using keys_of_distinct [OF wf, of v] objs_entry [OF wf] len
      by (intro path_visit_eq) (auto simp: keys_of_def psucc_def)
    have step: "bfs_inv (length (entities g)) (psucc p adj) s (mark ?new vis)
        (rest @ map (\<lambda>w. (w, Suc d)) ?new) (found @ [(v, d)])"
      using "1.prems" Cons x pth.succ_bound [of "(g, p)"] pth.succ_distinct [of "(g, p)"]
      by (intro bfs_inv_step) auto
    have es: "?es = concat (map (evidence p adj) (found @ [(v, d)]))"
      using "1.prems"(4) by (simp add: evidence_def)
    have "path_loop p adj (vis, q, found, es)
        = path_loop p adj (mark ?new vis, rest @ map (\<lambda>w. (w, Suc d)) ?new, found @ [(v, d)], ?es)"
      unfolding Cons x by (subst path_loop.simps) (simp add: visit)
    with "1.hyps" [OF Cons x [symmetric] visit refl refl "1.prems"(1,2) step es] show ?thesis by simp
  qed
qed

text \<open>What an exact evidence subgraph is.\<close>

definition path_exact :: "kg \<Rightarrow> nat \<Rightarrow> string \<Rightarrow> path \<Rightarrow> bool" where
  "path_exact g a p P \<longleftrightarrow> path_subject P = a \<and> path_predicate P = p
     \<and> distinct (path_entities P)
     \<and> set (path_entities P) = {w. (a, w) \<in> (pred_edges g p)\<^sup>*}
     \<and> list_all2 (at_dist (pred_edges g p) a) (path_entities P) (path_depths P)
     \<and> sorted (zip (path_depths P) (path_entities P))
     \<and> distinct (path_relations P)
     \<and> set (path_relations P) = {\<lparr>rel_subject = u, rel_predicate = p, rel_object = w\<rparr> | u w.
          (a, u) \<in> (pred_edges g p)\<^sup>* \<and> (u, w) \<in> pred_edges g p}
     \<and> sorted (map (\<lambda>r. (rel_subject r, rel_predicate r, rel_object r)) (path_relations P))
     \<and> list_all2 (\<lambda>r d. at_dist (pred_edges g p) a (rel_subject r) d)
          (path_relations P) (path_relation_depths P)"

text \<open>Sorting keeps what the traversal found.\<close>

lemma sorted_map_key: "sorted (map f (sort_key f xs))"
  by simp

lemma find_path_found:
  assumes wf: "kg_wf g" and a: "map_of (by_text g) s = Some a"
  obtains found vis where
    "bfs_inv (length (entities g)) (psucc p (out_adj g)) a vis [] found"
    "find_path g s p = Some (Some
      (let found' = sort_key (\<lambda>(i, d). (d, i)) found;
           es' = sort_key (\<lambda>(r, _). (rel_subject r, rel_predicate r, rel_object r))
             (concat (map (evidence p (out_adj g)) found))
       in \<lparr>path_subject = a, path_predicate = p,
           path_entities = map fst found', path_depths = map snd found',
           path_relations = map fst es', path_relation_depths = map snd es'\<rparr>))"
proof -
  have parts: "arena_wf g" "caches_wf g" using wf by (simp_all add: kg_wf_def)
  have an: "a < length (entities g)" using parts(1) a by (simp add: arena_wf_def)
  obtain found vis where run: "path_loop p (out_adj g)
      ((replicate (length (entities g)) False)[a := True], [(a, 0)], [], [])
      = Some (found, concat (map (evidence p (out_adj g)) found))"
    and inv: "bfs_inv (length (entities g)) (psucc p (out_adj g)) a vis [] found"
    using path_loop_inv [OF parts(2) refl bfs_inv_init [OF an], of "[]" p] by auto
  show ?thesis
    by (rule that [OF inv]) (simp add: find_path_def a an run Let_def)
qed

lemma evidence_mem:
  "(r, d) \<in> set (concat (map (evidence p adj) found)) \<longleftrightarrow>
     (\<exists>v w. (v, d) \<in> set found \<and> w \<in> set (psucc p adj v)
        \<and> r = \<lparr>rel_subject = v, rel_predicate = p, rel_object = w\<rparr>)"
  by (force simp: evidence_def)

lemma evidence_distinct:
  "distinct (map fst found) \<Longrightarrow> (\<And>v. distinct (psucc p adj v)) \<Longrightarrow>
     distinct (map fst (concat (map (evidence p adj) found)))"
proof (induction found)
  case (Cons x found)
  have "distinct (map fst (evidence p adj x))"
    using Cons.prems(2) by (auto simp: evidence_def comp_def distinct_map inj_on_def)
  moreover have "set (map fst (evidence p adj x)) \<inter> set (map fst (concat (map (evidence p adj) found))) = {}"
  proof -
    have "rel_subject r = fst x" if "r \<in> set (map fst (evidence p adj x))" for r
      using that by (auto simp: evidence_def)
    moreover have "rel_subject r \<in> fst ` set found"
      if "r \<in> set (map fst (concat (map (evidence p adj) found)))" for r
    proof -
      from that obtain x where "x \<in> set (concat (map (evidence p adj) found))" "fst x = r"
        unfolding set_map by blast
      then obtain d where "(r, d) \<in> set (concat (map (evidence p adj) found))"
        using prod.collapse [of x] by metis
      then obtain v w where "(v, d) \<in> set found"
        "r = \<lparr>rel_subject = v, rel_predicate = p, rel_object = w\<rparr>" unfolding evidence_mem by blast
      then show ?thesis by force
    qed
    moreover have "fst x \<notin> fst ` set found" using Cons.prems(1) by simp
    ultimately show ?thesis unfolding disjoint_iff by metis
  qed
  moreover have "distinct (map fst (concat (map (evidence p adj) found)))"
    using Cons by simp
  ultimately show ?case by (simp only: list.map concat.simps map_append distinct_append)
qed simp

text \<open>What the two sorted lists of the result hold.\<close>

lemma found_all:
  assumes "caches_wf g" "bfs_inv (length (entities g)) (psucc p (out_adj g)) a vis [] found"
  shows "set found = {(w, k). at_dist (pred_edges g p) a w k}" "fst ` set found = {w. (a, w) \<in> (pred_edges g p)\<^sup>*}"
  using bfs_inv_final [OF assms(2)] unfolding psucc_rel [OF assms(1), of p] by auto

lemma found_entities:
  assumes "caches_wf g" "bfs_inv (length (entities g)) (psucc p (out_adj g)) a vis [] found"
  defines "f \<equiv> sort_key (\<lambda>(i, d). (d, i)) found"
  shows "distinct (map fst f)" "set (map fst f) = {w. (a, w) \<in> (pred_edges g p)\<^sup>*}"
    "list_all2 (at_dist (pred_edges g p) a) (map fst f) (map snd f)" "sorted (zip (map snd f) (map fst f))"
proof -
  note all = found_all [OF assms(1,2)]
  show "distinct (map fst f)" using bfs_invD(2) [OF assms(2)] by (simp add: f_def distinct_map)
  show "set (map fst f) = {w. (a, w) \<in> (pred_edges g p)\<^sup>*}" using all(2) by (simp add: f_def)
  show "list_all2 (at_dist (pred_edges g p) a) (map fst f) (map snd f)"
    using all(1) by (auto simp: f_def list_all2_map1 list_all2_map2 intro!: list_all2_same [THEN iffD2])
  have z: "zip (map snd f) (map fst f) = map (\<lambda>(i, d). (d, i)) f"
    by (simp add: zip_map_map zip_same_conv_map comp_def split_beta)
  show "sorted (zip (map snd f) (map fst f))" unfolding z by (simp add: f_def)
qed

lemma found_relations:
  assumes "kg_wf g" "bfs_inv (length (entities g)) (psucc p (out_adj g)) a vis [] found"
  defines "e \<equiv> sort_key (\<lambda>(r, _ :: nat). (rel_subject r, rel_predicate r, rel_object r)) (concat (map (evidence p (out_adj g)) found))"
  shows "distinct (map fst e)" "sorted (map (\<lambda>r. (rel_subject r, rel_predicate r, rel_object r)) (map fst e))"
    "set (map fst e) = {\<lparr>rel_subject = u, rel_predicate = p, rel_object = w\<rparr> | u w.
      (a, u) \<in> (pred_edges g p)\<^sup>* \<and> (u, w) \<in> pred_edges g p}"
    "list_all2 (\<lambda>r d. at_dist (pred_edges g p) a (rel_subject r) d) (map fst e) (map snd e)"
proof -
  have caches: "caches_wf g" and wf: "adj_wf (length (entities g)) (out_adj g)"
    using assms(1) by (simp_all add: kg_wf_def caches_wf_def)
  let ?ev = "concat (map (evidence p (out_adj g)) found)"
  let ?k = "\<lambda>(r, _ :: nat). (rel_subject r, rel_predicate r, rel_object r)"
  note all = found_all [OF caches assms(2)]
  have set_e: "set e = set ?ev" by (simp only: e_def set_sort)
  have "distinct (map fst ?ev)"
    by (rule evidence_distinct [OF _ psucc_distinct [OF wf]]) (use bfs_invD(2) [OF assms(2)] in simp)
  then show "distinct (map fst e)" unfolding e_def distinct_map set_sort distinct_sort .
  have "map ?k e = map (\<lambda>r. (rel_subject r, rel_predicate r, rel_object r)) (map fst e)" by auto
  then show "sorted (map (\<lambda>r. (rel_subject r, rel_predicate r, rel_object r)) (map fst e))"
    using sorted_map_key [of ?k ?ev] unfolding e_def [symmetric] by (simp only:)
  have "r \<in> set (map fst e) \<longleftrightarrow> (\<exists>u w. u \<in> fst ` set found \<and> w \<in> set (psucc p (out_adj g) u)
      \<and> r = \<lparr>rel_subject = u, rel_predicate = p, rel_object = w\<rparr>)" for r
  proof -
    have "r \<in> set (map fst e) \<longleftrightarrow> (\<exists>d. (r, d) \<in> set ?ev)" unfolding set_map set_e by force
    then show ?thesis unfolding evidence_mem by force
  qed
  moreover have "w \<in> set (psucc p (out_adj g) u) \<longleftrightarrow> (u, w) \<in> pred_edges g p" for u w
    by (simp add: pred_edges_def has_relation_preds psucc_mem [OF wf])
  ultimately show "set (map fst e) = {\<lparr>rel_subject = u, rel_predicate = p, rel_object = w\<rparr> | u w.
      (a, u) \<in> (pred_edges g p)\<^sup>* \<and> (u, w) \<in> pred_edges g p}"
    unfolding all(2) by (intro set_eqI) (simp, blast)
  have "at_dist (pred_edges g p) a (rel_subject (fst x)) (snd x)" if x: "x \<in> set e" for x
  proof -
    obtain v w where "(v, snd x) \<in> set found" "fst x = \<lparr>rel_subject = v, rel_predicate = p, rel_object = w\<rparr>"
      using x evidence_mem [of "fst x" "snd x" p "out_adj g" found] unfolding prod.collapse set_e by blast
    then show ?thesis using all(1) by simp
  qed
  then show "list_all2 (\<lambda>r d. at_dist (pred_edges g p) a (rel_subject r) d) (map fst e) (map snd e)"
    by (auto simp: list_all2_map1 list_all2_map2 intro!: list_all2_same [THEN iffD2])
qed

text \<open>C3: \<open>find_path\<close> returns the exact evidence subgraph: nothing for an unknown subject;
  otherwise the entities reachable from the anchor over edges labelled \<open>p\<close>, each once and with its
  distance, ascending in (distance, id), and all and only the \<open>p\<close>-edges that leave a reachable
  entity, each once, ascending in (subject, predicate, object), with the distance of the subject.\<close>

theorem find_path_exact:
  assumes "kg_wf g"
  shows "(map_of (by_text g) s = None \<longrightarrow> find_path g s p = Some None)
    \<and> (\<forall>a. map_of (by_text g) s = Some a \<longrightarrow>
         (\<exists>P. find_path g s p = Some (Some P) \<and> path_exact g a p P))"
proof (intro conjI impI allI)
  fix a assume a: "map_of (by_text g) s = Some a"
  have caches: "caches_wf g" using assms by (simp add: kg_wf_def)
  obtain found vis where inv: "bfs_inv (length (entities g)) (psucc p (out_adj g)) a vis [] found"
    and run: "find_path g s p = Some (Some
      (let found' = sort_key (\<lambda>(i, d). (d, i)) found;
           es' = sort_key (\<lambda>(r, _). (rel_subject r, rel_predicate r, rel_object r))
             (concat (map (evidence p (out_adj g)) found))
       in \<lparr>path_subject = a, path_predicate = p,
           path_entities = map fst found', path_depths = map snd found',
           path_relations = map fst es', path_relation_depths = map snd es'\<rparr>))"
    by (rule find_path_found [OF assms a])
  show "\<exists>P. find_path g s p = Some (Some P) \<and> path_exact g a p P"
    unfolding run path_exact_def Let_def using found_entities [OF caches inv] found_relations [OF assms inv]
    by (intro exI conjI) (rule refl, simp_all only: path.simps)
qed (simp add: find_path_def)

section \<open>The graph as a machine\<close>

text \<open>One call of a mutating operation; \<open>None\<close> is the state after a panic.\<close>

datatype kg_op = AddEntity string | AddRelation nat string nat

fun kg_step :: "kg_op \<Rightarrow> kg option \<Rightarrow> kg option" where
  "kg_step c None = None"
| "kg_step (AddEntity t) (Some g) = Some (snd (add_entity t g))"
| "kg_step (AddRelation s p ob) (Some g) = map_option snd (add_relation s p ob g)"

definition kg_live :: "kg option \<Rightarrow> bool" where
  "kg_live s \<longleftrightarrow> (\<exists>g. s = Some g \<and> kg_wf g)"

interpretation kgm: machine kg_step "Some kg_new" kg_live
proof
  show "kg_live (Some kg_new)" by (simp add: kg_live_def kg_wf_new)
  fix s and c :: kg_op assume "kg_live s"
  then obtain g where g: "s = Some g" "kg_wf g" by (auto simp: kg_live_def)
  show "kg_live (kg_step c s)"
    by (cases c) (use g add_entity_wf add_relation_wf [OF g(2)] in \<open>force simp: kg_live_def\<close>)+
qed

text \<open>C1: whatever sequence of \<open>add_entity\<close> and \<open>add_relation\<close> calls builds a graph, no call
  panics, the caches stay consistent with each other and with the arena, and the relations
  are acyclic.\<close>

theorem kg_always_dag:
  "\<exists>g. run_ops kg_step calls (Some kg_new) = Some g \<and> kg_wf g \<and> acyclic (edges_of g)"
  using kgm.inv_run [of calls] kg_acyclic by (auto simp: kg_live_def kg_wf_def)

text \<open>C2: \<open>add_relation\<close> on every branch: it accepts exactly a relation whose arguments are
  valid and whose object does not already reach its subject, whatever the ranks are, so the
  fast path never lets a cycle in and the slow path never fails after the insertion; a cycle
  is reported exactly when the new edge would close one; an error leaves the graph as it was,
  and a success adds that triple and nothing else.\<close>

theorem add_relation_exact:
  assumes "kg_wf g"
  shows "\<exists>r g'. add_relation s p ob g = Some (r, g') \<and> kg_wf g'
    \<and> (r = Ok () \<longleftrightarrow> relation_ok g s p ob \<and> (ob, s) \<notin> (edges_of g)\<^sup>*)
    \<and> (r = Err (Cycle s ob) \<longleftrightarrow> relation_ok g s p ob \<and> (ob, s) \<in> (edges_of g)\<^sup>*)
    \<and> (r \<noteq> Ok () \<longrightarrow> g' = g)
    \<and> (r = Ok () \<longrightarrow> entities g' = entities g
         \<and> (\<forall>u q w. has_relation g' u q w \<longleftrightarrow> has_relation g u q w \<or> u = s \<and> q = p \<and> w = ob))"
proof (cases "relation_ok g s p ob")
  case True
  show ?thesis
  proof (cases "(ob, s) \<in> (edges_of g)\<^sup>*")
    case True
    with \<open>relation_ok g s p ob\<close> show ?thesis using add_relation_ok(2) [OF assms] assms by simp
  next
    case False
    then obtain g' where g': "add_relation s p ob g = Some (Ok (), g')" "kg_wf g'"
      "entities g' = entities g"
      "\<forall>u q w. has_relation g' u q w \<longleftrightarrow> has_relation g u q w \<or> u = s \<and> q = p \<and> w = ob"
      using add_relation_ok(1) [OF assms \<open>relation_ok g s p ob\<close>] by blast
    then show ?thesis using False \<open>relation_ok g s p ob\<close>
      by (intro exI [of _ "Ok ()"] exI [of _ g']) simp
  qed
next
  case False
  then obtain e where "add_relation s p ob g = Some (Err e, g)" "\<forall>a b. e \<noteq> Cycle a b"
    using add_relation_invalid by blast
  with False assms show ?thesis by (intro exI [of _ "Err e"] exI [of _ g]) simp
qed

section \<open>Traversals\<close>

text \<open>\<open>reachable_from\<close> and \<open>ancestors_of\<close> list exactly the entities that can be reached
  from, or can reach, the given one, each once and never the entity itself, in the order of
  their distance; an unknown identifier gives an empty list, not a panic.\<close>

lemma traversals_correct:
  assumes "kg_wf g"
  shows "\<exists>fs fd bs bd. reachable_from g i = Some fs \<and> ancestors_of g i = Some bs
    \<and> distinct fs \<and> distinct bs \<and> i \<notin> set fs \<and> i \<notin> set bs
    \<and> (\<forall>w. w \<in> set fs \<longleftrightarrow> (i, w) \<in> (edges_of g)\<^sup>+) \<and> (\<forall>w. w \<in> set bs \<longleftrightarrow> (w, i) \<in> (edges_of g)\<^sup>+)
    \<and> sorted fd \<and> list_all2 (at_dist (edges_of g) i) fs fd
    \<and> sorted bd \<and> list_all2 (at_dist ((edges_of g)\<inverse>) i) bs bd"
proof -
  have caches: "caches_wf g" and ac: "acyclic (edges_of g)"
    using assms kg_acyclic by (simp_all add: kg_wf_def)
  have plus: "(u, w) \<in> (edges_of g)\<^sup>+ \<longleftrightarrow> w \<noteq> u \<and> (u, w) \<in> (edges_of g)\<^sup>*" for u w
    using ac by (auto simp: acyclic_def rtrancl_eq_or_trancl)
  show ?thesis
  proof (cases "i < length (entities g)")
    case True
    obtain fs fd where "reachable_from g i = Some fs" "distinct fs" "i \<notin> set fs"
      "\<forall>w. w \<in> set fs \<longleftrightarrow> w \<noteq> i \<and> (i, w) \<in> (edges_of g)\<^sup>*" "sorted fd"
      "list_all2 (at_dist (edges_of g) i) fs fd"
      using fwd.bfs_loop_correct [OF caches True] True
      unfolding edges_of_rel [OF caches] by (auto simp: reachable_from_def Let_def)
    moreover obtain bs bd where "ancestors_of g i = Some bs" "distinct bs" "i \<notin> set bs"
      "\<forall>w. w \<in> set bs \<longleftrightarrow> w \<noteq> i \<and> (i, w) \<in> ((edges_of g)\<inverse>)\<^sup>*" "sorted bd"
      "list_all2 (at_dist ((edges_of g)\<inverse>) i) bs bd"
      using bwd.bfs_loop_correct [OF caches True] True
      unfolding edges_of_rel_in [OF caches] by (auto simp: ancestors_of_def Let_def)
    moreover have "w \<noteq> i \<and> (i, w) \<in> ((edges_of g)\<inverse>)\<^sup>* \<longleftrightarrow> (w, i) \<in> (edges_of g)\<^sup>+" for w
      unfolding rtrancl_converse plus by auto
    ultimately show ?thesis unfolding plus [of i] by auto
  next
    case False
    have none: "(i, w) \<notin> edges_of g \<and> (w, i) \<notin> edges_of g" for w
      using edges_of_bound [OF caches] False by blast
    then have "(i, w) \<notin> (edges_of g)\<^sup>+ \<and> (w, i) \<notin> (edges_of g)\<^sup>+" for w
      by (meson tranclD tranclD2)
    with False show ?thesis
      by (intro exI [of _ "[]"]) (simp add: reachable_from_def ancestors_of_def)
  qed
qed

text \<open>C23: \<open>topological_order\<close> lists every entity once, and every relation goes from an earlier
  to a later position.\<close>

theorem topological_order_correct:
  assumes "kg_wf g"
  shows "\<exists>xs. topological_order g = Some xs \<and> distinct xs \<and> set xs = {..<length (entities g)}
    \<and> (\<forall>i j. i < length xs \<longrightarrow> j < length xs \<longrightarrow> (xs ! i, xs ! j) \<in> edges_of g \<longrightarrow> i < j)"
proof -
  let ?k = "\<lambda>i. (topo g ! i, i)" and ?n = "length (entities g)"
  let ?xs = "sort_key ?k [0..<?n]"
  have ranks: "ranks_wf g" using assms by (simp add: kg_wf_def)
  have "i < j" if ij: "i < length ?xs" "j < length ?xs" and e: "(?xs ! i, ?xs ! j) \<in> edges_of g" for i j
  proof (rule ccontr)
    assume "\<not> i < j"
    then have "map ?k ?xs ! j \<le> map ?k ?xs ! i"
      using ij by (intro sorted_nth_mono sorted_map_key) simp_all
    then have "topo g ! (?xs ! j) \<le> topo g ! (?xs ! i)" using ij by (auto simp: less_eq_prod_def)
    with e ranks show False by (force simp: ranks_wf_def edges_of_preds)
  qed
  then show ?thesis
    using ranks by (intro exI [of _ ?xs]) (auto simp: topological_order_def ranks_wf_def)
qed

section \<open>Determinism and the serialized form\<close>

lemma relations_mem:
  "caches_wf g \<Longrightarrow> \<lparr>rel_subject = s, rel_predicate = p, rel_object = ob\<rparr> \<in> set (relations g)
     \<longleftrightarrow> has_relation g s p ob"
  using flat_adj_preds [of "length (entities g)" "out_adj g" s ob p]
  by (force simp: relations_def caches_wf_def has_relation_preds)

lemma relation_collapse: "\<lparr>rel_subject = rel_subject r, rel_predicate = rel_predicate r,
    rel_object = rel_object r\<rparr> = (r :: relation)"
  by (cases r) simp

lemma relations_mem': "caches_wf g \<Longrightarrow> r \<in> set (relations g) \<longleftrightarrow>
    has_relation g (rel_subject r) (rel_predicate r) (rel_object r)"
  using relations_mem [of g "rel_subject r" "rel_predicate r" "rel_object r"]
  unfolding relation_collapse .

text \<open>Two graphs with the same entities and the same triples differ in the rank cache only.\<close>

lemma kg_ext:
  assumes g: "arena_wf g" "caches_wf g" and h: "arena_wf h" "caches_wf h"
    and ents: "entities g = entities h"
    and rels: "\<And>s p ob. has_relation g s p ob = has_relation h s p ob"
  shows "g\<lparr>topo := topo h\<rparr> = h"
proof -
  have "map_of (by_text g) t = Some i \<longleftrightarrow> map_of (by_text h) t = Some i" for t i
    using g(1) h(1) ents by (simp add: arena_wf_def)
  then have "map_of (by_text g) t = map_of (by_text h) t" for t
    by (metis option.exhaust)
  then have bt: "by_text g = by_text h"
    using g(1) h(1) by (intro om_ext ext) (simp_all add: arena_wf_def)
  have preds: "preds_of (out_adj g) a b = preds_of (out_adj h) a b" for a b
    using g(2) h(2) rels preds_of_wf(1)
    by (intro os_unique set_eqI) (auto simp: caches_wf_def has_relation_preds)
  have "out_adj g = out_adj h"
    using g(2) h(2) preds by (intro adj_ext) (auto simp: caches_wf_def)
  moreover have "in_adj g = in_adj h"
    using g(2) h(2) preds by (intro adj_ext) (auto simp: caches_wf_def)
  ultimately show ?thesis using bt ents by simp
qed

text \<open>Equality and iteration depend on the contents only, not on the order of the calls
  that built a graph: two graphs are equal exactly when they hold the same entities in the
  same order and the same triples, and then all their caches but the ranks are identical.\<close>

lemma kg_eq_semantic:
  assumes "kg_wf g" "kg_wf h"
  shows "(kg_eq g h \<longleftrightarrow> entities g = entities h
      \<and> (\<forall>s p ob. has_relation g s p ob = has_relation h s p ob))
    \<and> (kg_eq g h \<longrightarrow> g\<lparr>topo := topo h\<rparr> = h)"
proof -
  have parts: "arena_wf g" "caches_wf g" "arena_wf h" "caches_wf h"
    using assms by (simp_all add: kg_wf_def)
  have "has_relation g s p ob = has_relation h s p ob" if "kg_eq g h" for s p ob
    using that relations_mem [OF parts(2)] relations_mem [OF parts(4)] by (metis kg_eq_def)
  moreover have "kg_eq g h" if "entities g = entities h"
    "\<forall>s p ob. has_relation g s p ob = has_relation h s p ob"
  proof -
    have "out_adj g = out_adj h" using kg_ext [OF parts that(1)] that(2) by (cases g, cases h) simp
    then show ?thesis using that(1) by (simp add: kg_eq_def relations_def)
  qed
  moreover have "entities g = entities h" if "kg_eq g h" using that by (simp add: kg_eq_def)
  ultimately show ?thesis using kg_ext [OF parts] by blast
qed

text \<open>What a payload has to satisfy.\<close>

definition nodes_ok :: "entity list \<Rightarrow> bool" where
  "nodes_ok es \<longleftrightarrow> (\<forall>i < length es. ent_id (es ! i) = i \<and> valid_symbol (ent_text (es ! i)))
     \<and> distinct (map ent_text es)"

definition edge_ok :: "nat \<Rightarrow> relation \<Rightarrow> bool" where
  "edge_ok n r \<longleftrightarrow> rel_subject r < n \<and> rel_object r < n \<and> rel_subject r \<noteq> rel_object r
     \<and> valid_symbol (rel_predicate r)"

definition flat_rel :: "flat \<Rightarrow> (nat \<times> nat) set" where
  "flat_rel f = (\<lambda>r. (rel_subject r, rel_object r)) ` set (flat_edges f)"

definition bare :: "kg \<Rightarrow> bool" where
  "bare g \<longleftrightarrow> out_adj g = [] \<and> in_adj g = []"

lemma load_nodes_ok:
  "arena_wf g \<Longrightarrow> bare g \<Longrightarrow> i = length (entities g) \<Longrightarrow>
    (\<exists>g'. load_nodes i es g = Ok g' \<and> arena_wf g' \<and> bare g' \<and> entities g' = entities g @ es
       \<and> nodes_ok (entities g @ es))
    \<or> (\<exists>e. load_nodes i es g = Err e \<and> \<not> nodes_ok (entities g @ es))"
proof (induction es arbitrary: i g)
  case Nil
  then have "nodes_ok (entities g)"
    by (auto simp: arena_wf_def nodes_ok_def distinct_conv_nth) (metis option.inject)
  with Nil show ?case by simp
next
  case (Cons e es)
  let ?t = "ent_text e"
  let ?g = "g\<lparr>by_text := om_put ?t i (by_text g), entities := entities g @ [e], topo := topo g @ [0]\<rparr>"
  have known: "map_of (by_text g) ?t \<noteq> None \<longleftrightarrow> ?t \<in> set (map ent_text (entities g))"
  proof -
    have "map_of (by_text g) ?t \<noteq> None \<longleftrightarrow> (\<exists>j. map_of (by_text g) ?t = Some j)" by simp
    also have "\<dots> \<longleftrightarrow> (\<exists>j < length (entities g). ent_text (entities g ! j) = ?t)"
      using Cons.prems(1) unfolding arena_wf_def by blast
    also have "\<dots> \<longleftrightarrow> ?t \<in> set (map ent_text (entities g))"
      unfolding in_set_conv_nth length_map by (metis nth_map)
    finally show ?thesis .
  qed
  show ?case
  proof (cases "ent_id e = i \<and> valid_symbol ?t \<and> map_of (by_text g) ?t = None")
    case True
    have new: "ent_text (entities g ! j) \<noteq> ?t" if "j < length (entities g)" for j
      using that True known by (metis image_eqI list.set_map nth_mem)
    have "arena_wf ?g" unfolding arena_wf_def
    proof (intro conjI allI impI)
      show "om_wf (by_text ?g)" using Cons.prems(1) by (auto simp: arena_wf_def)
      show "ent_id (entities ?g ! j) = j" "valid_symbol (ent_text (entities ?g ! j))"
        if "j < length (entities ?g)" for j
        using that Cons.prems True by (auto simp: arena_wf_def nth_append less_Suc_eq)
      show "map_of (by_text ?g) t = Some j
          \<longleftrightarrow> j < length (entities ?g) \<and> ent_text (entities ?g ! j) = t" for t j
        using Cons.prems True new by (auto simp: arena_wf_def nth_append less_Suc_eq)
    qed
    moreover have "bare ?g" "i + 1 = length (entities ?g)" using Cons.prems by (auto simp: bare_def)
    ultimately show ?thesis
      using Cons.IH [of ?g "i + 1"] True by (auto simp: valid_symbol_def)
  next
    case False
    have "\<not> nodes_ok (entities g @ e # es)"
    proof
      assume ok: "nodes_ok (entities g @ e # es)"
      have "i < length (entities g @ e # es)" using Cons.prems(3) by simp
      with ok have "ent_id ((entities g @ e # es) ! i) = i
          \<and> valid_symbol (ent_text ((entities g @ e # es) ! i))"
        unfolding nodes_ok_def by blast
      moreover have "?t \<notin> set (map ent_text (entities g))" using ok by (auto simp: nodes_ok_def)
      ultimately show False using False known Cons.prems(3) by simp
    qed
    moreover have "\<exists>x. load_nodes i (e # es) g = Err x" using False by (auto simp: valid_symbol_def)
    ultimately show ?thesis by blast
  qed
qed

lemma load_edges_ok:
  "arena_wf g \<Longrightarrow> caches_wf g \<Longrightarrow> n = length (entities g) \<Longrightarrow>
    (\<exists>g'. load_edges rs g = Ok g' \<and> arena_wf g' \<and> caches_wf g' \<and> entities g' = entities g
       \<and> (\<forall>r \<in> set rs. edge_ok n r)
       \<and> (\<forall>s p ob. has_relation g' s p ob \<longleftrightarrow> has_relation g s p ob
            \<or> \<lparr>rel_subject = s, rel_predicate = p, rel_object = ob\<rparr> \<in> set rs))
    \<or> (\<exists>e. load_edges rs g = Err e \<and> \<not> (\<forall>r \<in> set rs. edge_ok n r))"
proof (induction rs arbitrary: g)
  case (Cons r rs)
  let ?g = "insert_edge (rel_subject r) (rel_predicate r) (rel_object r) g"
  show ?case
  proof (cases "edge_ok n r")
    case True
    have "caches_wf ?g" using True Cons.prems by (intro caches_insert_edge) (auto simp: edge_ok_def)
    then have IH: "(\<exists>g'. load_edges rs ?g = Ok g' \<and> arena_wf g' \<and> caches_wf g' \<and> entities g' = entities g
       \<and> (\<forall>r \<in> set rs. edge_ok n r)
       \<and> (\<forall>s p ob. has_relation g' s p ob \<longleftrightarrow> has_relation ?g s p ob
            \<or> \<lparr>rel_subject = s, rel_predicate = p, rel_object = ob\<rparr> \<in> set rs))
      \<or> (\<exists>e. load_edges rs ?g = Err e \<and> \<not> (\<forall>r \<in> set rs. edge_ok n r))"
      using Cons.IH [of ?g] Cons.prems by simp
    have step: "load_edges (r # rs) g = load_edges rs ?g"
      using True Cons.prems(3) by (auto simp: edge_ok_def valid_symbol_def)
    have eq: "s = rel_subject r \<and> p = rel_predicate r \<and> ob = rel_object r
        \<longleftrightarrow> \<lparr>rel_subject = s, rel_predicate = p, rel_object = ob\<rparr> = r" for s p ob
      by (cases r) auto
    show ?thesis using IH True unfolding step has_relation_insert eq by auto
  next
    case False
    then have "\<exists>e. load_edges (r # rs) g = Err e"
      using Cons.prems(3) by (auto simp: edge_ok_def valid_symbol_def)
    with False show ?thesis by auto
  qed
qed simp

lemma has_relation_new [simp]: "out_adj g = [] \<Longrightarrow> \<not> has_relation g s p ob"
  by (simp add: has_relation_def)

definition payload_ok :: "flat \<Rightarrow> bool" where
  "payload_ok f \<longleftrightarrow> nodes_ok (flat_nodes f)
     \<and> (\<forall>r \<in> set (flat_edges f). edge_ok (length (flat_nodes f)) r)"

lemma load_nodes_error: "load_nodes i es g \<noteq> Err (PayloadGraph e)"
  by (induction i es g rule: load_nodes.induct) auto

lemma load_edges_error: "load_edges rs g \<noteq> Err (PayloadGraph e)"
  by (induction rs g rule: load_edges.induct) auto

lemma flat_rel_edges:
  "(\<And>s p ob. has_relation g s p ob
      \<longleftrightarrow> \<lparr>rel_subject = s, rel_predicate = p, rel_object = ob\<rparr> \<in> set (flat_edges f))
    \<Longrightarrow> flat_rel f = edges_of g"
  unfolding flat_rel_def edges_of_def image_def
  by (auto, metis relation_collapse) (metis relation.select_convs(1,3))

lemma deserialize_cases:
  "(\<not> payload_ok f \<and> (\<exists>e. deserialize f = Some (Err e) \<and> e \<noteq> PayloadGraph CyclicPayload))
   \<or> (payload_ok f \<and> \<not> acyclic (flat_rel f) \<and> deserialize f = Some (Err (PayloadGraph CyclicPayload)))
   \<or> (payload_ok f \<and> acyclic (flat_rel f) \<and> (\<exists>g. deserialize f = Some (Ok g) \<and> kg_wf g
        \<and> entities g = flat_nodes f
        \<and> (\<forall>s p ob. has_relation g s p ob
             \<longleftrightarrow> \<lparr>rel_subject = s, rel_predicate = p, rel_object = ob\<rparr> \<in> set (flat_edges f))))"
proof -
  have new: "arena_wf kg_new" "bare kg_new" "0 = length (entities kg_new)" "entities kg_new = []"
    using kg_wf_new by (simp_all add: kg_wf_def kg_new_def bare_def)
  consider (bad_nodes) e where "load_nodes 0 (flat_nodes f) kg_new = Err e" "\<not> nodes_ok (flat_nodes f)"
    | (nodes) g where "load_nodes 0 (flat_nodes f) kg_new = Ok g" "arena_wf g" "bare g"
        "entities g = flat_nodes f" "nodes_ok (flat_nodes f)"
    using load_nodes_ok [OF new(1-3), of "flat_nodes f"] unfolding new(4) by auto
  then show ?thesis
  proof cases
    case bad_nodes
    then show ?thesis using load_nodes_error [of 0 "flat_nodes f" kg_new CyclicPayload]
      by (auto simp: deserialize_def payload_ok_def)
  next
    case nodes
    have caches: "caches_wf g" using nodes(3) by (simp add: bare_def caches_wf_def)
    have none: "\<not> has_relation g s p ob" for s p ob using nodes(3) by (simp add: bare_def)
    consider (bad_edges) e where "load_edges (flat_edges f) g = Err e" "\<not> payload_ok f"
      | (edges) h where "load_edges (flat_edges f) g = Ok h" "arena_wf h" "caches_wf h"
          "entities h = flat_nodes f" "payload_ok f"
          "\<And>s p ob. has_relation h s p ob
             \<longleftrightarrow> \<lparr>rel_subject = s, rel_predicate = p, rel_object = ob\<rparr> \<in> set (flat_edges f)"
      using load_edges_ok [OF nodes(2) caches refl, of "flat_edges f"] none nodes(4,5)
      by (auto simp: payload_ok_def)
    then show ?thesis
    proof cases
      case bad_edges
      then show ?thesis using nodes load_edges_error [of "flat_edges f" g CyclicPayload]
        by (auto simp: deserialize_def)
    next
      case edges
      have rel: "flat_rel f = edges_of h" by (rule flat_rel_edges [OF edges(6)])
      obtain rank where r: "rebuild_ranks h =
          Some (if acyclic (edges_of h) then (Ok (), h\<lparr>topo := rank\<rparr>) else (Err CyclicPayload, h))"
        "acyclic (edges_of h) \<longrightarrow> ranks_wf (h\<lparr>topo := rank\<rparr>)"
        using rebuild_ranks_cases [OF edges(3)] by blast
      show ?thesis
      proof (cases "acyclic (edges_of h)")
        case False
        then show ?thesis using nodes(1) edges(1,5) r(1) rel by (simp add: deserialize_def)
      next
        case True
        have "arena_wf (h\<lparr>topo := rank\<rparr>)" "caches_wf (h\<lparr>topo := rank\<rparr>)"
          using edges(2,3) by (simp_all add: arena_wf_def caches_wf_def)
        then have "kg_wf (h\<lparr>topo := rank\<rparr>)" using r(2) True by (simp add: kg_wf_def)
        moreover have "deserialize f = Some (Ok (h\<lparr>topo := rank\<rparr>))"
          using nodes(1) edges(1) r(1) True by (simp add: deserialize_def)
        moreover have "has_relation (h\<lparr>topo := rank\<rparr>) s p ob = has_relation h s p ob" for s p ob
          by (simp add: has_relation_def)
        ultimately show ?thesis using edges(4,5,6) rel True by auto
      qed
    qed
  qed
qed

text \<open>C4: \<open>deserialize\<close> on every payload: it never panics; it accepts exactly the payloads with
  dense identifiers, distinct non-empty texts, valid edges and no directed cycle; a payload that is
  only cyclic is refused as such; and an accepted one yields a well-formed graph with
  those entities and those triples.\<close>

theorem deserialize_exact:
  "deserialize f \<noteq> None
   \<and> ((\<exists>g. deserialize f = Some (Ok g)) = (payload_ok f \<and> acyclic (flat_rel f)))
   \<and> ((deserialize f = Some (Err (PayloadGraph CyclicPayload))) = (payload_ok f \<and> \<not> acyclic (flat_rel f)))
   \<and> (deserialize f = Some (Ok g) \<longrightarrow> kg_wf g \<and> entities g = flat_nodes f
        \<and> (\<forall>s p ob. has_relation g s p ob
             \<longleftrightarrow> \<lparr>rel_subject = s, rel_predicate = p, rel_object = ob\<rparr> \<in> set (flat_edges f)))"
  using deserialize_cases [of f] by auto

text \<open>C20: the flat form round-trips: deserializing the serialized form of a graph gives a
  graph equal to it, with every cache but the ranks identical, and well formed again.\<close>

theorem serialize_roundtrip:
  assumes "kg_wf g"
  shows "\<exists>h. deserialize (serialize g) = Some (Ok h) \<and> kg_wf h \<and> kg_eq h g
    \<and> h\<lparr>topo := topo g\<rparr> = g"
proof -
  let ?f = "serialize g"
  have parts: "arena_wf g" "caches_wf g" "ranks_wf g" using assms by (simp_all add: kg_wf_def)
  have mem: "\<lparr>rel_subject = s, rel_predicate = p, rel_object = ob\<rparr> \<in> set (flat_edges ?f)
      \<longleftrightarrow> has_relation g s p ob" for s p ob
    using relations_mem [OF parts(2)] by (simp add: serialize_def)
  have "nodes_ok (entities g)"
    using parts(1) by (auto simp: arena_wf_def nodes_ok_def distinct_conv_nth) (metis option.inject)
  moreover have "edge_ok (length (entities g)) r" if "r \<in> set (relations g)" for r
  proof -
    have r: "has_relation g (rel_subject r) (rel_predicate r) (rel_object r)"
      using that relations_mem' [OF parts(2)] by simp
    then have "valid_symbol (rel_predicate r)"
      using parts(2) by (auto simp: has_relation_preds caches_wf_def)
    with edges_of_bound [OF parts(2) has_relation_edge [OF r]] show ?thesis by (simp add: edge_ok_def)
  qed
  ultimately have ok: "payload_ok ?f" by (simp add: payload_ok_def serialize_def)
  have "flat_rel ?f = edges_of g" by (rule flat_rel_edges) (simp add: mem)
  with ok kg_acyclic [OF parts(3)] obtain h where h: "deserialize ?f = Some (Ok h)" "kg_wf h"
    "entities h = entities g" "\<And>s p ob. has_relation h s p ob = has_relation g s p ob"
    using deserialize_cases [of ?f] unfolding mem by (auto simp: serialize_def)
  have hp: "arena_wf h" "caches_wf h" using h(2) by (simp_all add: kg_wf_def)
  have eq: "h\<lparr>topo := topo g\<rparr> = g" by (rule kg_ext [OF hp parts(1,2) h(3,4)])
  then have "out_adj h = out_adj g" by (cases g, cases h) simp
  then have "kg_eq h g" using h(3) by (simp add: kg_eq_def relations_def)
  with h eq show ?thesis by blast
qed

section \<open>A concrete graph\<close>

text \<open>Three entities, and two relations against the order of insertion, so that both take the
  slow path; a third takes the fast path; the last call would close a cycle.\<close>

definition w_calls :: "kg_op list" where
  "w_calls = [AddEntity ''a'', AddEntity ''b'', AddEntity ''c'', AddRelation 1 ''r'' 0,
     AddRelation 2 ''r'' 1, AddRelation 2 ''q'' 0, AddRelation 0 ''r'' 2]"

definition w_kg :: kg where
  "w_kg = the (run_ops kg_step w_calls (Some kg_new))"

lemma w_kg_wf: "kg_wf w_kg"
  using kgm.inv_run [of w_calls] by (auto simp: kg_live_def w_kg_def)

lemma w_kg_eval:
  "w_kg = \<lparr>entities = [\<lparr>ent_id = 0, ent_text = ''a''\<rparr>, \<lparr>ent_id = 1, ent_text = ''b''\<rparr>,
       \<lparr>ent_id = 2, ent_text = ''c''\<rparr>],
     out_adj = [(1, [(0, [''r''])]), (2, [(0, [''q'']), (1, [''r''])])],
     in_adj = [(0, [(1, [''r'']), (2, [''q''])]), (1, [(2, [''r''])])],
     by_text = [(''a'', 0), (''b'', 1), (''c'', 2)], topo = [2, 1, 0]\<rparr>"
  by code_simp

theorem find_path_exact_witness:
  "find_path w_kg ''c'' ''r'' = Some (Some \<lparr>path_subject = 2, path_predicate = ''r'',
     path_entities = [2, 1, 0], path_depths = [0, 1, 2],
     path_relations = [\<lparr>rel_subject = 1, rel_predicate = ''r'', rel_object = 0\<rparr>,
       \<lparr>rel_subject = 2, rel_predicate = ''r'', rel_object = 1\<rparr>],
     path_relation_depths = [1, 0]\<rparr>) \<and> (2, 0) \<in> (pred_edges w_kg ''r'')\<^sup>*"
proof -
  let ?P = "\<lparr>path_subject = 2, path_predicate = ''r'',
     path_entities = [2, 1, 0], path_depths = [0, 1, 2],
     path_relations = [\<lparr>rel_subject = 1, rel_predicate = ''r'', rel_object = 0\<rparr>,
       \<lparr>rel_subject = 2, rel_predicate = ''r'', rel_object = 1\<rparr>],
     path_relation_depths = [1, 0]\<rparr>"
  have r: "find_path w_kg ''c'' ''r'' = Some (Some ?P)" by code_simp
  have a: "map_of (by_text w_kg) ''c'' = Some 2" by (simp add: w_kg_eval)
  have "path_exact w_kg 2 ''r'' ?P" using find_path_exact [OF w_kg_wf, of "''c''" "''r''"] a r by auto
  then show ?thesis using r by (auto simp: path_exact_def)
qed

theorem add_relation_exact_witness:
  "add_relation 0 ''r'' 2 w_kg = Some (Err (Cycle 0 2), w_kg) \<and> (2, 0) \<in> (edges_of w_kg)\<^sup>*"
proof -
  have r: "add_relation 0 ''r'' 2 w_kg = Some (Err (Cycle 0 2), w_kg)" by code_simp
  with add_relation_exact [OF w_kg_wf, of 0 "''r''" 2] show ?thesis by auto
qed

lemma traversals_correct_witness:
  "reachable_from w_kg 2 = Some [0, 1] \<and> (2, 1) \<in> (edges_of w_kg)\<^sup>+"
proof -
  have r: "reachable_from w_kg 2 = Some [0, 1]" by code_simp
  with traversals_correct [OF w_kg_wf, of 2] show ?thesis by auto
qed

theorem topological_order_correct_witness:
  "topological_order w_kg = Some [2, 1, 0]"
proof -
  have "topological_order w_kg = Some [2, 1, 0]" by code_simp
  with topological_order_correct [OF w_kg_wf] show ?thesis by auto
qed

text \<open>The same contents from calls in another order, on the fast path in part.\<close>

definition w_calls' :: "kg_op list" where
  "w_calls' = [AddEntity ''a'', AddEntity ''b'', AddEntity ''c'', AddRelation 2 ''q'' 0,
     AddRelation 2 ''r'' 1, AddRelation 1 ''r'' 0]"

definition w_kg' :: kg where
  "w_kg' = the (run_ops kg_step w_calls' (Some kg_new))"

lemma w_kg'_wf: "kg_wf w_kg'"
  using kgm.inv_run [of w_calls'] by (auto simp: kg_live_def w_kg'_def)

lemma kg_eq_semantic_witness:
  "has_relation w_kg' 2 ''q'' 0 \<and> w_kg'\<lparr>topo := topo w_kg\<rparr> = w_kg"
proof -
  have "kg_eq w_kg' w_kg" by code_simp
  moreover have "has_relation w_kg 2 ''q'' 0" by code_simp
  ultimately show ?thesis using kg_eq_semantic [OF w_kg'_wf w_kg_wf] by simp
qed

theorem deserialize_exact_witness:
  "payload_ok (serialize w_kg) \<and> \<not> acyclic (flat_rel \<lparr>flat_nodes = entities w_kg,
     flat_edges = relations w_kg @ [\<lparr>rel_subject = 0, rel_predicate = ''p'', rel_object = 2\<rparr>]\<rparr>)"
proof -
  let ?bad = "\<lparr>flat_nodes = entities w_kg,
     flat_edges = relations w_kg @ [\<lparr>rel_subject = 0, rel_predicate = ''p'', rel_object = 2\<rparr>]\<rparr>"
  have "deserialize (serialize w_kg) = Some (Ok w_kg)" by code_simp
  moreover have "deserialize ?bad = Some (Err (PayloadGraph CyclicPayload))" by code_simp
  ultimately show ?thesis
    using deserialize_exact [of "serialize w_kg" w_kg] deserialize_exact [of ?bad w_kg] by simp
qed

theorem serialize_roundtrip_witness:
  "\<exists>h. deserialize (serialize w_kg) = Some (Ok h) \<and> kg_eq h w_kg"
  using serialize_roundtrip [OF w_kg_wf] by blast

end
