(* ===== verification/SymTrie.thy ===== *)
theory SymTrie
  imports OrdMap "HOL-Library.Sublist"
begin

text \<open>
  The prefix tree of \<open>rag_engine/src/trie.rs\<close>: nodes with an ordered map of children and
  an optional value, the clamped \<open>insert\<close>, \<open>lookup\<close>, \<open>prefix_matches\<close> with its explicit
  stack, and the two-pass iterative \<open>clone\<close> and the iterative \<open>drop\<close>. A key is the list
  of its Unicode scalar values (\<open>key.chars()\<close>); the clamp counts UTF-8 bytes.

  A trie is a \<open>btree_map\<close> of keys to values: lookups after an insertion, entries in
  ascending order, and an order of iteration that no history of insertions shows.
\<close>

section \<open>The data model\<close>

type_synonym key = "nat list"

definition utf8_len :: "nat \<Rightarrow> nat" where
  "utf8_len c = (if c < 128 then 1 else if c < 2048 then 2 else if c < 65536 then 3 else 4)"

definition key_len :: "key \<Rightarrow> nat" where
  "key_len k = sum_list (map utf8_len k)"

definition MAX_KEY_LEN :: nat where
  "MAX_KEY_LEN = 512"

datatype trie_error = KeyTooLong nat nat

datatype 'v trie_node = TrieNode (children: "(nat \<times> 'v trie_node) list") (tvalue: "'v option")

definition node_new :: "'v trie_node" where
  "node_new = TrieNode [] None"

record 'v symbolic_trie =
  root :: "'v trie_node"
  trie_len :: nat

definition trie_new :: "'v symbolic_trie" where
  "trie_new = \<lparr>root = node_new, trie_len = 0\<rparr>"

section \<open>Insertion and lookup\<close>

text \<open>The descent of \<open>insert\<close> with the replacement of the value at its end: the previous
  value and the changed node.\<close>

fun node_insert :: "key \<Rightarrow> 'v \<Rightarrow> 'v trie_node \<Rightarrow> 'v option \<times> 'v trie_node" where
  "node_insert [] v (TrieNode cs old) = (old, TrieNode cs (Some v))"
| "node_insert (c # k) v (TrieNode cs old) =
     (let child = (case map_of cs c of None \<Rightarrow> node_new | Some n \<Rightarrow> n);
          (previous, child') = node_insert k v child
      in (previous, TrieNode (om_put c child' cs) old))"

definition trie_insert :: "key \<Rightarrow> 'v \<Rightarrow> 'v symbolic_trie
    \<Rightarrow> (trie_error + 'v option) \<times> 'v symbolic_trie" where
  "trie_insert k v t =
     (if key_len k > MAX_KEY_LEN then (Err (KeyTooLong (key_len k) MAX_KEY_LEN), t)
      else let (previous, r) = node_insert k v (root t) in
        (Ok previous, \<lparr>root = r, trie_len = (if previous = None then trie_len t + 1 else trie_len t)\<rparr>))"

fun node_lookup :: "'v trie_node \<Rightarrow> key \<Rightarrow> 'v option" where
  "node_lookup n [] = tvalue n"
| "node_lookup n (c # k) =
     (case map_of (children n) c of None \<Rightarrow> None | Some m \<Rightarrow> node_lookup m k)"

definition trie_lookup :: "'v symbolic_trie \<Rightarrow> key \<Rightarrow> 'v option" where
  "trie_lookup t k = node_lookup (root t) k"

definition trie_contains :: "'v symbolic_trie \<Rightarrow> key \<Rightarrow> bool" where
  "trie_contains t k \<longleftrightarrow> trie_lookup t k \<noteq> None"

definition trie_size :: "'v symbolic_trie \<Rightarrow> nat" where
  "trie_size t = trie_len t"

definition trie_is_empty :: "'v symbolic_trie \<Rightarrow> bool" where
  "trie_is_empty t \<longleftrightarrow> trie_len t = 0"

section \<open>Loops with an explicit stack\<close>

fun node_count :: "'v trie_node \<Rightarrow> nat" where
  "node_count (TrieNode cs v) = Suc (sum_list (map (\<lambda>(c, n). node_count n) cs))"

definition stack_size :: "'v trie_node list \<Rightarrow> nat" where
  "stack_size st = sum_list (map node_count st)"

text \<open>Pushing one by one; the top of the stack is the head of the list.\<close>

definition push_all :: "'a list \<Rightarrow> 'a list \<Rightarrow> 'a list" where
  "push_all xs st = fold (#) xs st"

lemma push_all_eq: "push_all xs st = rev xs @ st"
  by (induction xs arbitrary: st) (auto simp: push_all_def)

lemma node_count_children:
  "node_count n = Suc (stack_size (map snd (children n)))"
  by (cases n) (simp add: stack_size_def comp_def split_def)

lemma stack_size_append [simp]: "stack_size (xs @ ys) = stack_size xs + stack_size ys"
  and stack_size_Cons [simp]: "stack_size (x # xs) = node_count x + stack_size xs"
  and stack_size_Nil [simp]: "stack_size [] = 0"
  by (simp_all add: stack_size_def)

lemma stack_size_rev [simp]: "stack_size (rev xs) = stack_size xs"
  by (simp add: stack_size_def rev_map [symmetric])

function collect_loop :: "'v trie_node list \<Rightarrow> 'v list \<Rightarrow> 'v list" where
  "collect_loop [] out = out"
| "collect_loop (n # st) out =
     collect_loop (push_all (map snd (rev (children n))) st)
       (case tvalue n of None \<Rightarrow> out | Some v \<Rightarrow> out @ [v])"
  by pat_completeness auto
termination
  by (relation "measure (\<lambda>(st, out). stack_size st)")
    (simp_all add: push_all_eq node_count_children rev_map)

definition collect_values :: "'v trie_node \<Rightarrow> 'v list" where
  "collect_values n = collect_loop [n] []"

fun descend :: "'v trie_node \<Rightarrow> key \<Rightarrow> 'v trie_node option" where
  "descend n [] = Some n"
| "descend n (c # k) = (case map_of (children n) c of Some m \<Rightarrow> descend m k | None \<Rightarrow> None)"

definition prefix_matches :: "'v symbolic_trie \<Rightarrow> key \<Rightarrow> 'v list" where
  "prefix_matches t p = (case descend (root t) p of None \<Rightarrow> [] | Some n \<Rightarrow> collect_values n)"

text \<open>The drop loop: every node is popped once, its children moved to the stack first. The
  result is the number of nodes dropped.\<close>

function drop_loop :: "'v trie_node list \<Rightarrow> nat" where
  "drop_loop [] = 0"
| "drop_loop (n # st) = Suc (drop_loop (push_all (map snd (children n)) st))"
  by pat_completeness auto
termination
  by (relation "measure stack_size") (simp_all add: push_all_eq node_count_children)

definition trie_drop :: "'v symbolic_trie \<Rightarrow> nat" where
  "trie_drop t = drop_loop (push_all (map snd (children (root t))) [])"

section \<open>The iterative clone\<close>

text \<open>
  The address of a source node is represented by the path of characters that leads to it:
  the source is only borrowed, so that addresses are stable and distinct. Pass 1 is the
  two-visit loop; pass 2 moves finished copies out of \<open>built\<close> by index. \<open>None\<close> is the
  panic of \<open>addr[..]\<close> or \<open>built[..]\<close>.
\<close>

type_synonym 'v located = "key \<times> 'v trie_node"

definition located_children :: "'v located \<Rightarrow> 'v located list" where
  "located_children x = map (\<lambda>(c, n). (fst x @ [c], n)) (children (snd x))"

definition visit_weight :: "('v located \<times> bool) list \<Rightarrow> nat" where
  "visit_weight st = sum_list (map (\<lambda>(x, visited). if visited then 1 else 2 * node_count (snd x)) st)"

function post_loop :: "('v located \<times> bool) list \<Rightarrow> 'v located list \<Rightarrow> 'v located list" where
  "post_loop [] post = post"
| "post_loop ((x, visited) # st) post =
     (if visited then post_loop st (post @ [x])
      else post_loop (push_all (map (\<lambda>y. (y, False)) (rev (located_children x))) ((x, True) # st)) post)"
  by pat_completeness auto
termination
proof (relation "measure (\<lambda>(st, post). visit_weight st)")
  fix x :: "'v located" and visited :: bool and st :: "('v located \<times> bool) list"
    and post :: "'v located list"
  assume "\<not> visited"
  have "sum_list (map (\<lambda>(x, visited). if visited then 1 else 2 * node_count (snd x))
      (map (\<lambda>y. (y, False)) (located_children x))) = 2 * stack_size (map snd (children (snd x)))"
    by (simp add: located_children_def stack_size_def comp_def case_prod_beta sum_list_const_mult)
  then show "((push_all (map (\<lambda>y. (y, False)) (rev (located_children x))) ((x, True) # st), post),
      ((x, visited) # st, post)) \<in> measure (\<lambda>(st, post). visit_weight st)"
    using \<open>\<not> visited\<close> node_count_children [of "snd x"]
    by (simp add: push_all_eq rev_map visit_weight_def)
qed (simp_all add: visit_weight_def)

fun move_children :: "key \<Rightarrow> (nat \<times> 'v trie_node) list \<Rightarrow> (key \<Rightarrow> nat option)
    \<Rightarrow> (nat \<times> 'v trie_node) list \<times> 'v trie_node list
    \<Rightarrow> ((nat \<times> 'v trie_node) list \<times> 'v trie_node list) option" where
  "move_children p [] addr st = Some st"
| "move_children p ((c, n) # cs) addr (dst, built) =
     (case addr (p @ [c]) of
        None \<Rightarrow> None
      | Some i \<Rightarrow>
          (if i < length built
           then move_children p cs addr (om_put c (built ! i) dst, built[i := node_new])
           else None))"

fun build_loop :: "'v located list \<Rightarrow> 'v trie_node list \<times> (key \<Rightarrow> nat option)
    \<Rightarrow> ('v trie_node list \<times> (key \<Rightarrow> nat option)) option" where
  "build_loop [] st = Some st"
| "build_loop ((p, src) # post) (built, addr) =
     (case move_children p (children src) addr ([], built) of
        None \<Rightarrow> None
      | Some (dst, built') \<Rightarrow>
          build_loop post (built' @ [TrieNode dst (tvalue src)], addr(p \<mapsto> length built')))"

definition trie_clone :: "'v symbolic_trie \<Rightarrow> 'v symbolic_trie option" where
  "trie_clone t =
     (case build_loop (post_loop [(([], root t), False)] []) ([], Map.empty) of
        None \<Rightarrow> None
      | Some (built, _) \<Rightarrow>
          (if built = [] then None else Some \<lparr>root = last built, trie_len = trie_len t\<rparr>))"

section \<open>Tries as ordered maps\<close>

fun node_entries :: "'v trie_node \<Rightarrow> (key \<times> 'v) list" where
  "node_entries (TrieNode cs v) = (case v of None \<Rightarrow> [] | Some x \<Rightarrow> [([], x)])
     @ concat (map (\<lambda>(c, n). map (\<lambda>(k, x). (c # k, x)) (node_entries n)) cs)"

fun node_wf :: "'v trie_node \<Rightarrow> bool" where
  "node_wf (TrieNode cs v) \<longleftrightarrow> om_wf cs \<and> (\<forall>(c, n) \<in> set cs. node_wf n)"

text \<open>No branch without a value: every node below the root leads to a complete key.\<close>

fun node_live :: "'v trie_node \<Rightarrow> bool" where
  "node_live (TrieNode cs v) \<longleftrightarrow> (\<forall>(c, n) \<in> set cs. node_entries n \<noteq> [] \<and> node_live n)"

lemma node_new_facts [simp]: "node_wf node_new" "node_live node_new" "node_lookup node_new k = None"
  "node_entries node_new = []"
  by (simp_all add: node_new_def) (cases k; simp)

lemma child_wf: "node_wf n \<Longrightarrow> map_of (children n) c = Some m \<Longrightarrow> node_wf m"
  by (cases n) (auto dest!: map_of_SomeD)

lemma set_om_put_sub: "x \<in> set (om_put k v m) \<Longrightarrow> x = (k, v) \<or> x \<in> set m"
  by (induction k v m rule: om_put.induct) (auto split: if_splits)

lemma node_insert_wf: "node_wf n \<Longrightarrow> node_wf (snd (node_insert k v n))"
proof (induction k v n rule: node_insert.induct)
  case (2 c k v cs old)
  let ?child = "case map_of cs c of None \<Rightarrow> node_new | Some n \<Rightarrow> n"
  have "node_wf ?child"
    using "2.prems" by (auto split: option.splits dest!: map_of_SomeD)
  then have "node_wf (snd (node_insert k v ?child))"
    using "2.IH" [OF refl] by (metis prod.collapse)
  moreover have "om_wf cs" "\<forall>x \<in> set cs. node_wf (snd x)" using "2.prems" by auto
  ultimately have "om_wf (om_put c (snd (node_insert k v ?child)) cs)"
    "\<forall>x \<in> set (om_put c (snd (node_insert k v ?child)) cs). node_wf (snd x)"
    using set_om_put_sub by fastforce+
  then show ?case by (simp add: Let_def case_prod_beta)
qed simp

lemma node_insert_lookup:
  "node_lookup (snd (node_insert k v n)) k' = (if k' = k then Some v else node_lookup n k')"
proof (induction k v n arbitrary: k' rule: node_insert.induct)
  case (1 v cs old)
  then show ?case by (cases k') auto
next
  case (2 c k v cs old)
  let ?child = "case map_of cs c of None \<Rightarrow> node_new | Some n \<Rightarrow> n"
  have IH: "node_lookup (snd (node_insert k v ?child)) j = (if j = k then Some v else node_lookup ?child j)" for j
    using "2.IH" [OF refl] by simp
  show ?case
  proof (cases k')
    case (Cons d j)
    then show ?thesis
      using IH [of j] by (auto simp: Let_def case_prod_beta split: option.splits)
  qed (simp add: Let_def case_prod_beta)
qed

lemma node_insert_previous: "fst (node_insert k v n) = node_lookup n k"
proof (induction k v n rule: node_insert.induct)
  case (2 c k v cs old)
  then show ?case by (auto simp: Let_def case_prod_beta split: option.splits)
qed simp

lemma entries_mem: "node_wf n \<Longrightarrow> (k, x) \<in> set (node_entries n) \<longleftrightarrow> node_lookup n k = Some x"
proof (induction k arbitrary: n)
  case Nil
  then show ?case by (cases n) (auto split: option.splits)
next
  case (Cons c k)
  obtain cs v where n: "n = TrieNode cs v" by (cases n)
  have "(c # k, x) \<in> set (node_entries n) \<longleftrightarrow> (\<exists>m. (c, m) \<in> set cs \<and> (k, x) \<in> set (node_entries m))"
    by (force simp: n split: option.splits)
  also have "\<dots> \<longleftrightarrow> (\<exists>m. map_of cs c = Some m \<and> node_lookup m k = Some x)"
    using Cons n by (metis (no_types, lifting) case_prodD node_wf.simps om_get_iff)
  also have "\<dots> \<longleftrightarrow> node_lookup n (c # k) = Some x" by (auto simp: n split: option.splits)
  finally show ?case .
qed

lemma entries_sorted: "node_wf n \<Longrightarrow> sorted_wrt (<) (map fst (node_entries n))"
proof (induction n)
  case (TrieNode cs v)
  have sub: "sorted_wrt (<) (map fst (map (\<lambda>(k, x). (c # k, x)) (node_entries m)))"
    if "(c, m) \<in> set cs" for c m
    using TrieNode that by (force simp: sorted_wrt_map case_prod_beta)
  have "sorted_wrt (<) (map fst (concat (map (\<lambda>(c, n). map (\<lambda>(k, x). (c # k, x)) (node_entries n)) ds)))"
    if "om_wf ds" "set ds \<subseteq> set cs" for ds
    using that
  proof (induction ds)
    case (Cons y ds)
    obtain c m where y: "y = (c, m)" by (cases y)
    have "sorted_wrt (<) (map fst (map (\<lambda>(k, x). (c # k, x)) (node_entries m)))"
      using sub Cons.prems(2) y by simp
    moreover have "\<forall>z \<in> set ds. c < fst z" using Cons.prems(1) y by (simp add: om_wf_Cons)
    ultimately show ?case
      using Cons y by (auto simp: om_wf_Cons sorted_wrt_append sorted_wrt_map)
  qed simp
  then have "sorted_wrt (<) (map fst (concat (map (\<lambda>(c, n). map (\<lambda>(k, x). (c # k, x)) (node_entries n)) cs)))"
    using TrieNode.prems by simp
  then show ?case by (auto simp: sorted_wrt_append split: option.splits)
qed

interpretation tm: btree_map node_lookup "\<lambda>k v n. snd (node_insert k v n)" node_entries node_wf
proof
  fix m :: "'v trie_node" and k v
  show "node_lookup (snd (node_insert k v m)) = (node_lookup m)(k \<mapsto> v)"
    by (rule ext) (simp add: node_insert_lookup)
  assume wf: "node_wf m"
  then show "node_wf (snd (node_insert k v m))" by (rule node_insert_wf)
  show s: "sorted_wrt (<) (map fst (node_entries m))" by (rule entries_sorted [OF wf])
  show "node_lookup m = map_of (node_entries m)"
  proof
    fix k
    have "map_of (node_entries m) k = Some x \<longleftrightarrow> node_lookup m k = Some x" for x
      using sorted_wrt_less_distinct [OF s] entries_mem [OF wf, of k x] by simp
    then show "node_lookup m k = map_of (node_entries m) k" by (metis option.exhaust)
  qed
qed

section \<open>The invariant\<close>

lemma entries_Nil_iff: "node_wf n \<Longrightarrow> node_entries n = [] \<longleftrightarrow> (\<forall>k. node_lookup n k = None)"
  using tm.get_entries [of n] by (auto simp: fun_eq_iff) (metis list.set_intros(1) map_of_eq_None_iff
      image_eqI empty_iff neq_Nil_conv option.distinct(1))

lemma node_live_iff: "node_live n \<longleftrightarrow> (\<forall>x \<in> set (children n). node_entries (snd x) \<noteq> [] \<and> node_live (snd x))"
  by (cases n) auto

lemma node_insert_entries: "node_wf n \<Longrightarrow> node_entries (snd (node_insert k v n)) \<noteq> []"
  using node_insert_lookup [of k v n k] entries_Nil_iff [OF node_insert_wf, of n k v] by fastforce

lemma node_insert_live: "node_wf n \<Longrightarrow> node_live n \<Longrightarrow> node_live (snd (node_insert k v n))"
proof (induction k v n rule: node_insert.induct)
  case (2 c k v cs old)
  let ?child = "case map_of cs c of None \<Rightarrow> node_new | Some n \<Rightarrow> n"
  have child: "node_wf ?child" "node_live ?child"
    using "2.prems" by (auto split: option.splits dest!: map_of_SomeD)
  then have "node_live (snd (node_insert k v ?child))" using "2.IH" [OF refl] by blast
  moreover have "node_entries (snd (node_insert k v ?child)) \<noteq> []"
    by (rule node_insert_entries [OF child(1)])
  moreover have "\<forall>x \<in> set cs. node_entries (snd x) \<noteq> [] \<and> node_live (snd x)" using "2.prems" by auto
  ultimately have "\<forall>x \<in> set (om_put c (snd (node_insert k v ?child)) cs).
      node_entries (snd x) \<noteq> [] \<and> node_live (snd x)"
    using set_om_put_sub by fastforce
  then show ?case by (simp add: Let_def case_prod_beta)
qed simp

lemma length_entries: "node_wf n \<Longrightarrow> length (node_entries n) = card (dom (node_lookup n))"
proof -
  assume wf: "node_wf n"
  have "dom (node_lookup n) = set (map fst (node_entries n))"
    by (simp add: tm.get_entries [OF wf] dom_map_of_conv_image_fst)
  then show ?thesis
    using distinct_card [of "map fst (node_entries n)"] sorted_wrt_less_distinct [OF entries_sorted [OF wf]]
    by simp
qed

lemma finite_dom_lookup: "node_wf n \<Longrightarrow> finite (dom (node_lookup n))"
  by (simp add: tm.get_entries finite_dom_map_of)

definition trie_wf :: "'v symbolic_trie \<Rightarrow> bool" where
  "trie_wf t \<longleftrightarrow> node_wf (root t) \<and> node_live (root t)
     \<and> trie_len t = length (node_entries (root t))
     \<and> (\<forall>k. trie_lookup t k \<noteq> None \<longrightarrow> key_len k \<le> MAX_KEY_LEN)"

lemma trie_wf_new: "trie_wf trie_new"
  by (simp add: trie_wf_def trie_new_def trie_lookup_def)

lemma trie_insert_Ok:
  assumes "key_len k \<le> MAX_KEY_LEN"
  shows "fst (trie_insert k v t) = Ok (trie_lookup t k)"
    "trie_lookup (snd (trie_insert k v t)) = (trie_lookup t)(k \<mapsto> v)"
  using assms node_insert_previous [of k v "root t"] node_insert_lookup [of k v "root t"]
  by (auto simp: trie_insert_def trie_lookup_def Let_def case_prod_beta fun_eq_iff)

lemma trie_insert_wf:
  assumes wf: "trie_wf t"
  shows "trie_wf (snd (trie_insert k v t))"
proof (cases "key_len k > MAX_KEY_LEN")
  case False
  let ?r = "snd (node_insert k v (root t))"
  have n: "node_wf (root t)" "node_live (root t)" using wf by (simp_all add: trie_wf_def)
  have r: "node_wf ?r" "node_live ?r" using n by (simp_all add: node_insert_wf node_insert_live)
  have "dom (node_lookup ?r) = insert k (dom (node_lookup (root t)))"
    by (auto simp: dom_def node_insert_lookup)
  then have "length (node_entries ?r) = (if node_lookup (root t) k = None
      then length (node_entries (root t)) + 1 else length (node_entries (root t)))"
    using n r finite_dom_lookup [OF n(1)] by (auto simp: length_entries card_insert_if insert_absorb)
  moreover have "snd (trie_insert k v t) = \<lparr>root = ?r, trie_len =
      (if node_lookup (root t) k = None then trie_len t + 1 else trie_len t)\<rparr>"
    using False node_insert_previous [of k v "root t"] by (simp add: trie_insert_def Let_def case_prod_beta)
  ultimately show ?thesis
    using r wf False by (auto simp: trie_wf_def trie_lookup_def node_insert_lookup)
qed (use wf in \<open>simp add: trie_insert_def\<close>)

text \<open>A trie is a function of its contents.\<close>

lemma child_live_iff:
  assumes "node_wf n" "node_live n"
  shows "map_of (children n) c \<noteq> None \<longleftrightarrow> (\<exists>k. node_lookup n (c # k) \<noteq> None)"
proof
  assume "map_of (children n) c \<noteq> None"
  then obtain m where m: "map_of (children n) c = Some m" by blast
  then have "(c, m) \<in> set (children n)" by (rule map_of_SomeD)
  then have "node_entries m \<noteq> []" using node_live_iff [THEN iffD1, OF assms(2)] by fastforce
  then have "\<not> (\<forall>k. node_lookup m k = None)"
    using entries_Nil_iff [OF child_wf [OF assms(1) m]] by simp
  then obtain k where "node_lookup m k \<noteq> None" by blast
  with m show "\<exists>k. node_lookup n (c # k) \<noteq> None" by auto
next
  assume "\<exists>k. node_lookup n (c # k) \<noteq> None"
  then show "map_of (children n) c \<noteq> None" by (cases "map_of (children n) c") auto
qed

lemma node_canonical:
  "node_wf n \<Longrightarrow> node_live n \<Longrightarrow> node_wf m \<Longrightarrow> node_live m \<Longrightarrow>
     (\<And>k. node_lookup n k = node_lookup m k) \<Longrightarrow> n = m"
proof (induction n arbitrary: m)
  case (TrieNode cs v)
  obtain ds w where m: "m = TrieNode ds w" by (cases m)
  have "v = w" using TrieNode.prems(5) [of "[]"] m by simp
  moreover have same: "map_of cs c \<noteq> None \<longleftrightarrow> map_of ds c \<noteq> None" for c
    using child_live_iff [OF TrieNode.prems(1,2), of c] child_live_iff [OF TrieNode.prems(3,4), of c]
    unfolding m trie_node.sel TrieNode.prems(5) [unfolded m] by (simp only:)
  have "map_of cs c = map_of ds c" for c
  proof (cases "map_of cs c")
    case None
    then show ?thesis using same [of c] by simp
  next
    case (Some x)
    then obtain y where y: "map_of ds c = Some y" using same [of c] by auto
    have mem: "(c, x) \<in> set cs" "(c, y) \<in> set ds" using Some y by (auto dest: map_of_SomeD)
    have "node_lookup x k = node_lookup y k" for k
      using TrieNode.prems(5) [of "c # k"] m Some y by simp
    with TrieNode.IH [OF mem(1), of x y] TrieNode.prems mem m have "x = y" by (force simp: snds.simps)
    with Some y show ?thesis by simp
  qed
  then have "cs = ds"
    using TrieNode.prems m by (intro om_ext) auto
  ultimately show ?case using m by simp
qed

section \<open>Enumeration\<close>

lemma entries_values: "map snd (node_entries n) = (case tvalue n of None \<Rightarrow> [] | Some v \<Rightarrow> [v])
    @ concat (map (\<lambda>m. map snd (node_entries m)) (map snd (children n)))"
  by (cases n) (auto simp: map_concat comp_def split_def split: option.splits)

lemma collect_loop_eq:
  "collect_loop st out = out @ concat (map (\<lambda>n. map snd (node_entries n)) st)"
proof (induction st out rule: collect_loop.induct)
  case (2 n st out)
  then show ?case
    by (simp add: push_all_eq rev_map entries_values [of n] split: option.splits)
qed simp

lemma descend_lookup:
  "node_lookup n (p @ k) = (case descend n p of None \<Rightarrow> None | Some m \<Rightarrow> node_lookup m k)"
  by (induction n p rule: descend.induct) (auto split: option.splits)

lemma descend_wf: "node_wf n \<Longrightarrow> descend n p = Some m \<Longrightarrow> node_wf m"
  by (induction n p rule: descend.induct) (auto split: option.splits dest: child_wf)

lemma append_less_append [simp]: "p @ a < p @ b \<longleftrightarrow> a < (b :: key)"
  by (induction p) simp_all

lemma prefix_matches_eq:
  assumes wf: "node_wf (root t)"
  shows "prefix_matches t p = map snd (filter (\<lambda>x. prefix p (fst x)) (node_entries (root t)))"
proof (cases "descend (root t) p")
  case None
  then have "trie_lookup t k = None" if "prefix p k" for k
    using that descend_lookup [of "root t" p] by (auto simp: prefix_def trie_lookup_def)
  then have "filter (\<lambda>x. prefix p (fst x)) (node_entries (root t)) = []"
    using entries_mem [OF wf] by (force simp: filter_empty_conv trie_lookup_def)
  then show ?thesis using None by (simp add: prefix_matches_def)
next
  case (Some m)
  have m: "node_wf m" by (rule descend_wf [OF wf Some])
  let ?xs = "map (\<lambda>x. (p @ fst x, snd x)) (node_entries m)"
  let ?ys = "filter (\<lambda>x. prefix p (fst x)) (node_entries (root t))"
  have "om_wf ?xs" using entries_sorted [OF m] by (simp add: om_wf_def sorted_wrt_map comp_def)
  moreover have "om_wf ?ys"
    using entries_sorted [OF wf] by (simp add: om_wf_def sorted_wrt_map sorted_wrt_filter)
  moreover have "(k, v) \<in> set ?xs \<longleftrightarrow> (k, v) \<in> set ?ys" for k v
  proof -
    have "(k, v) \<in> set ?xs \<longleftrightarrow> (\<exists>j. k = p @ j \<and> (j, v) \<in> set (node_entries m))" by force
    also have "\<dots> \<longleftrightarrow> (\<exists>j. k = p @ j \<and> node_lookup (root t) k = Some v)"
      using descend_lookup [of "root t" p] Some entries_mem [OF m] by auto
    also have "\<dots> \<longleftrightarrow> (k, v) \<in> set ?ys" using entries_mem [OF wf] by (auto simp: prefix_def)
    finally show ?thesis .
  qed
  ultimately have "?xs = ?ys" by (intro om_set_ext) auto
  then have "map snd ?ys = map snd (node_entries m)" by (simp flip: \<open>?xs = ?ys\<close> add: comp_def)
  then show ?thesis using Some by (simp add: prefix_matches_def collect_values_def collect_loop_eq)
qed

lemma drop_loop_eq: "drop_loop st = stack_size st"
proof (induction st rule: drop_loop.induct)
  case (2 n st)
  then show ?case by (simp add: push_all_eq node_count_children [of n])
qed simp

section \<open>The clone is a copy\<close>

fun postorder :: "key \<Rightarrow> 'v trie_node \<Rightarrow> 'v located list" where
  "postorder p (TrieNode cs v) =
     concat (map (\<lambda>(c, n). postorder (p @ [c]) n) cs) @ [(p, TrieNode cs v)]"

lemma post_loop_list:
  "(\<And>y st post. y \<in> set ys \<Longrightarrow>
      post_loop ((y, False) # st) post = post_loop st (post @ postorder (fst y) (snd y))) \<Longrightarrow>
    post_loop (map (\<lambda>y. (y, False)) ys @ st) post
      = post_loop st (post @ concat (map (\<lambda>y. postorder (fst y) (snd y)) ys))"
  by (induction ys arbitrary: post) auto

lemma post_loop_node:
  "post_loop (((p, n), False) # st) post = post_loop st (post @ postorder p n)"
proof (induction n arbitrary: p st post)
  case (TrieNode cs v)
  let ?ys = "located_children (p, TrieNode cs v)"
  have IH: "post_loop ((y, False) # st) post = post_loop st (post @ postorder (fst y) (snd y))"
    if yin: "y \<in> set ?ys" for y st post
  proof -
    obtain c m where y: "(c, m) \<in> set cs" "y = (p @ [c], m)"
      using yin by (auto simp: located_children_def)
    show ?thesis using TrieNode.IH [OF y(1), of m] y(2) by (simp add: snds.simps)
  qed
  have ys: "concat (map (\<lambda>y. postorder (fst y) (snd y)) ?ys)
      = concat (map (\<lambda>(c, n). postorder (p @ [c]) n) cs)"
    by (simp add: located_children_def comp_def split_def)
  have "post_loop (((p, TrieNode cs v), False) # st) post
      = post_loop (map (\<lambda>y. (y, False)) ?ys @ ((p, TrieNode cs v), True) # st) post"
    by (simp add: push_all_eq rev_map)
  also have "\<dots> = post_loop st (post @ postorder p (TrieNode cs v))"
    by (subst post_loop_list [OF IH]) (simp_all add: ys)
  finally show ?case .
qed

lemma move_children_eq:
  assumes "om_wf (dst @ cs)"
    "\<And>c n. (c, n) \<in> set cs \<Longrightarrow> \<exists>i. addr (p @ [c]) = Some i \<and> i < length built \<and> built ! i = n"
    "\<And>c d. c \<in> fst ` set cs \<Longrightarrow> d \<in> fst ` set cs \<Longrightarrow> addr (p @ [c]) = addr (p @ [d]) \<Longrightarrow> c = d"
  shows "\<exists>built'. move_children p cs addr (dst, built) = Some (dst @ cs, built')
    \<and> length built' = length built
    \<and> (\<forall>i. (\<forall>c \<in> fst ` set cs. addr (p @ [c]) \<noteq> Some i) \<longrightarrow> built' ! i = built ! i)"
  using assms
proof (induction cs arbitrary: dst built)
  case (Cons x cs)
  obtain c n where x: "x = (c, n)" by (cases x)
  obtain i where i: "addr (p @ [c]) = Some i" "i < length built" "built ! i = n"
    using Cons.prems(2) [of c n] x by auto
  have c: "c \<notin> fst ` set cs" "\<forall>y \<in> set dst. fst y < c"
    using Cons.prems(1) x by (auto simp: om_wf_def sorted_wrt_append)
  have put: "om_put c n dst = dst @ [(c, n)]" by (rule om_put_above [OF c(2)])
  have other: "addr (p @ [d]) \<noteq> Some i" if "d \<in> fst ` set cs" for d
  proof
    assume "addr (p @ [d]) = Some i"
    then have "c = d" using Cons.prems(3) [of c d] that i(1) x by simp
    with c(1) that show False by simp
  qed
  let ?b = "built[i := node_new]"
  have 1: "om_wf ((dst @ [(c, n)]) @ cs)" using Cons.prems(1) x by simp
  have 2: "\<exists>j. addr (p @ [d]) = Some j \<and> j < length ?b \<and> ?b ! j = m" if dm: "(d, m) \<in> set cs" for d m
  proof -
    obtain j where j: "addr (p @ [d]) = Some j" "j < length built" "built ! j = m"
      using Cons.prems(2) [of d m] dm by auto
    moreover have "j \<noteq> i" using other [of d] j(1) dm by force
    ultimately show ?thesis by simp
  qed
  have 3: "d = e" if "d \<in> fst ` set cs" "e \<in> fst ` set cs" "addr (p @ [d]) = addr (p @ [e])" for d e
    using Cons.prems(3) [of d e] that by simp
  obtain built' where b: "move_children p cs addr (dst @ [(c, n)], ?b) = Some ((dst @ [(c, n)]) @ cs, built')"
    "length built' = length ?b"
    "\<forall>j. (\<forall>c \<in> fst ` set cs. addr (p @ [c]) \<noteq> Some j) \<longrightarrow> built' ! j = ?b ! j"
    using Cons.IH [OF 1 2 3] by blast
  have "built' ! j = built ! j" if "\<forall>c \<in> fst ` set (x # cs). addr (p @ [c]) \<noteq> Some j" for j
    using b(3) that i(1) x by (metis fst_conv image_insert insertCI list.simps(15) nth_list_update_neq)
  with b(1,2) show ?case using i put x by simp
qed simp

lemma not_prefix_snoc: "c \<noteq> d \<Longrightarrow> \<not> prefix (p @ [d]) (p @ [c])"
  by (simp add: prefix_def)

lemma build_children:
  assumes "\<And>c n built addr rest. (c, n) \<in> set cs \<Longrightarrow>
      \<exists>xs addr'. build_loop (postorder (p @ [c]) n @ rest) (built, addr) = build_loop rest (built @ xs @ [n], addr')
        \<and> addr' (p @ [c]) = Some (length built + length xs)
        \<and> (\<forall>q. \<not> prefix (p @ [c]) q \<longrightarrow> addr' q = addr q)"
    and "distinct (map fst cs)"
  shows "\<exists>xs addr'. build_loop (concat (map (\<lambda>(c, n). postorder (p @ [c]) n) cs) @ rest) (built, addr)
      = build_loop rest (built @ xs, addr')
    \<and> (\<forall>(c, n) \<in> set cs. \<exists>i. addr' (p @ [c]) = Some i \<and> length built \<le> i
         \<and> i < length (built @ xs) \<and> (built @ xs) ! i = n)
    \<and> (\<forall>c \<in> fst ` set cs. \<forall>d \<in> fst ` set cs. addr' (p @ [c]) = addr' (p @ [d]) \<longrightarrow> c = d)
    \<and> (\<forall>q. (\<forall>c \<in> fst ` set cs. \<not> prefix (p @ [c]) q) \<longrightarrow> addr' q = addr q)"
  using assms
proof (induction cs arbitrary: built addr)
  case Nil
  show ?case by (intro exI [of _ "[]"] exI [of _ addr]) simp
next
  case (Cons x cs)
  obtain c n where x: "x = (c, n)" by (cases x)
  let ?rest = "concat (map (\<lambda>(c, n). postorder (p @ [c]) n) cs) @ rest"
  obtain xs1 addr1 where h: "build_loop (postorder (p @ [c]) n @ ?rest) (built, addr)
      = build_loop ?rest (built @ xs1 @ [n], addr1)"
    "addr1 (p @ [c]) = Some (length built + length xs1)"
    "\<forall>q. \<not> prefix (p @ [c]) q \<longrightarrow> addr1 q = addr q"
    using Cons.prems(1) [of c n ?rest built addr] x by auto
  let ?b = "built @ xs1 @ [n]"
  obtain xs2 addr2 where t: "build_loop ?rest (?b, addr1) = build_loop rest (?b @ xs2, addr2)"
    "\<forall>(c, n) \<in> set cs. \<exists>i. addr2 (p @ [c]) = Some i \<and> length ?b \<le> i
         \<and> i < length (?b @ xs2) \<and> (?b @ xs2) ! i = n"
    "\<forall>c \<in> fst ` set cs. \<forall>d \<in> fst ` set cs. addr2 (p @ [c]) = addr2 (p @ [d]) \<longrightarrow> c = d"
    "\<forall>q. (\<forall>c \<in> fst ` set cs. \<not> prefix (p @ [c]) q) \<longrightarrow> addr2 q = addr1 q"
    using Cons.IH [of ?b addr1] Cons.prems by (auto simp del: append_assoc)
  have c: "c \<notin> fst ` set cs" using Cons.prems(2) x by simp
  have "\<forall>d \<in> fst ` set cs. \<not> prefix (p @ [d]) (p @ [c])" using c not_prefix_snoc by metis
  then have ac: "addr2 (p @ [c]) = Some (length built + length xs1)" using t(4) h(2) by simp
  have big: "\<exists>i. addr2 (p @ [d]) = Some i \<and> length ?b \<le> i" if "d \<in> fst ` set cs" for d
    using t(2) that by fastforce
  have diff: "addr2 (p @ [d]) \<noteq> addr2 (p @ [c])" if "d \<in> fst ` set cs" for d
    using big [OF that] ac by auto
  show ?case
  proof (intro exI [of _ "xs1 @ [n] @ xs2"] exI [of _ addr2] conjI)
    show "build_loop (concat (map (\<lambda>(c, n). postorder (p @ [c]) n) (x # cs)) @ rest) (built, addr)
        = build_loop rest (built @ xs1 @ [n] @ xs2, addr2)"
      using h(1) t(1) x by simp
    show "\<forall>(d, m) \<in> set (x # cs). \<exists>i. addr2 (p @ [d]) = Some i \<and> length built \<le> i
         \<and> i < length (built @ xs1 @ [n] @ xs2) \<and> (built @ xs1 @ [n] @ xs2) ! i = m"
      using t(2) ac x by (fastforce simp: nth_append)
    show "\<forall>d \<in> fst ` set (x # cs). \<forall>e \<in> fst ` set (x # cs). addr2 (p @ [d]) = addr2 (p @ [e]) \<longrightarrow> d = e"
      using t(3) diff x by (metis fst_conv image_insert insertE list.simps(15))
    show "\<forall>q. (\<forall>d \<in> fst ` set (x # cs). \<not> prefix (p @ [d]) q) \<longrightarrow> addr2 q = addr q"
      using t(4) h(3) x by simp
  qed
qed

lemma build_node:
  "node_wf n \<Longrightarrow> \<exists>xs addr'. build_loop (postorder p n @ rest) (built, addr)
      = build_loop rest (built @ xs @ [n], addr')
    \<and> addr' p = Some (length built + length xs) \<and> (\<forall>q. \<not> prefix p q \<longrightarrow> addr' q = addr q)"
proof (induction n arbitrary: p rest built addr)
  case (TrieNode cs v)
  have wf: "om_wf cs" using TrieNode.prems by simp
  have IH: "\<exists>xs addr'. build_loop (postorder (p @ [c]) n @ rest) (built, addr) = build_loop rest (built @ xs @ [n], addr')
        \<and> addr' (p @ [c]) = Some (length built + length xs)
        \<and> (\<forall>q. \<not> prefix (p @ [c]) q \<longrightarrow> addr' q = addr q)" if "(c, n) \<in> set cs" for c n built addr rest
    using TrieNode.IH [OF that, of n] TrieNode.prems that by (auto simp: snds.simps)
  let ?me = "(p, TrieNode cs v) # rest"
  obtain xs addr1 where k: "build_loop (concat (map (\<lambda>(c, n). postorder (p @ [c]) n) cs) @ ?me) (built, addr)
      = build_loop ?me (built @ xs, addr1)"
    "\<forall>(c, n) \<in> set cs. \<exists>i. addr1 (p @ [c]) = Some i \<and> length built \<le> i
         \<and> i < length (built @ xs) \<and> (built @ xs) ! i = n"
    "\<forall>c \<in> fst ` set cs. \<forall>d \<in> fst ` set cs. addr1 (p @ [c]) = addr1 (p @ [d]) \<longrightarrow> c = d"
    "\<forall>q. (\<forall>c \<in> fst ` set cs. \<not> prefix (p @ [c]) q) \<longrightarrow> addr1 q = addr q"
    using build_children [of cs p ?me built addr, OF IH om_distinct [OF wf]] by blast
  obtain b where b: "move_children p cs addr1 ([], built @ xs) = Some ([] @ cs, b)"
    "length b = length (built @ xs)"
    "\<forall>i. (\<forall>c \<in> fst ` set cs. addr1 (p @ [c]) \<noteq> Some i) \<longrightarrow> b ! i = (built @ xs) ! i"
    using move_children_eq [of "[]" cs addr1 p "built @ xs"] wf k(2,3) by fastforce
  have low: "b ! i = built ! i" if "i < length built" for i
  proof -
    have "\<forall>c \<in> fst ` set cs. addr1 (p @ [c]) \<noteq> Some i" using k(2) that by fastforce
    then show ?thesis using b(3) that by (simp add: nth_append)
  qed
  have "take (length built) b = built"
    using b(2) low by (intro nth_equalityI) auto
  then obtain ys where ys: "b = built @ ys" "length ys = length xs"
    using b(2) by (metis append_take_drop_id length_append add_left_cancel)
  have "build_loop (postorder p (TrieNode cs v) @ rest) (built, addr)
      = build_loop rest (built @ ys @ [TrieNode cs v], addr1(p \<mapsto> length b))"
    using k(1) b(1) ys by simp
  moreover have "(addr1(p \<mapsto> length b)) q = addr q" if "\<not> prefix p q" for q
  proof -
    have "\<forall>c \<in> fst ` set cs. \<not> prefix (p @ [c]) q" using that by (meson append_prefixD)
    then show ?thesis using k(4) that by auto
  qed
  moreover have "(addr1(p \<mapsto> length b)) p = Some (length built + length ys)" using ys b(2) by simp
  ultimately show ?case by blast
qed

lemma trie_clone_copy: "node_wf (root t) \<Longrightarrow> trie_clone t = Some t"
proof -
  assume wf: "node_wf (root t)"
  have post: "post_loop [(([], root t), False)] [] = postorder [] (root t)"
    unfolding post_loop_node by simp
  obtain xs addr' where "build_loop (postorder [] (root t) @ []) ([], Map.empty)
      = build_loop [] ([] @ xs @ [root t], addr')"
    using build_node [OF wf, of "[]" "[]" "[]" Map.empty] by blast
  then show ?thesis unfolding trie_clone_def post by (cases t) simp
qed

section \<open>Properties of the trie\<close>

definition trie_step :: "key \<times> 'v \<Rightarrow> 'v symbolic_trie \<Rightarrow> 'v symbolic_trie" where
  "trie_step x t = snd (trie_insert (fst x) (snd x) t)"

interpretation trm: machine trie_step trie_new trie_wf
  by unfold_locales (simp_all add: trie_wf_new trie_step_def trie_insert_wf)

definition w_trie :: "nat symbolic_trie" where
  "w_trie = run_ops trie_step [([1, 2, 9], 1), ([1, 2], 2), ([1, 5], 3), ([1, 2], 4)] trie_new"

lemma w_trie_wf: "trie_wf w_trie"
  unfolding w_trie_def by (rule trm.inv_run)

text \<open>C24: \<open>insert\<close> on every branch: a key over the clamp is an error that leaves the trie
  untouched; otherwise exactly that key is bound to the value, the previous binding is
  returned, the count of keys grows exactly for a new key, and the trie stays well formed
  (sorted children, no dead branch, count equal to the number of keys, keys clamped).\<close>

theorem trie_insert_exact:
  assumes "trie_wf t"
  shows "trie_wf (snd (trie_insert k v t))
    \<and> (key_len k > MAX_KEY_LEN \<longrightarrow>
         trie_insert k v t = (Err (KeyTooLong (key_len k) MAX_KEY_LEN), t))
    \<and> (key_len k \<le> MAX_KEY_LEN \<longrightarrow> fst (trie_insert k v t) = Ok (trie_lookup t k)
         \<and> trie_lookup (snd (trie_insert k v t)) = (trie_lookup t)(k \<mapsto> v)
         \<and> trie_size (snd (trie_insert k v t)) = trie_size t + (if trie_contains t k then 0 else 1))"
proof (intro conjI impI)
  show "trie_wf (snd (trie_insert k v t))" by (rule trie_insert_wf [OF assms])
  assume "key_len k \<le> MAX_KEY_LEN"
  then show "fst (trie_insert k v t) = Ok (trie_lookup t k)"
    "trie_lookup (snd (trie_insert k v t)) = (trie_lookup t)(k \<mapsto> v)"
    "trie_size (snd (trie_insert k v t)) = trie_size t + (if trie_contains t k then 0 else 1)"
    using trie_insert_Ok [of k v t] node_insert_previous [of k v "root t"]
    by (auto simp: trie_insert_def trie_size_def trie_contains_def trie_lookup_def Let_def case_prod_beta)
qed (simp add: trie_insert_def)

theorem trie_insert_exact_witness:
  "fst (trie_insert [1, 5] 7 w_trie) = Ok (Some 3) \<and> trie_size (snd (trie_insert [1, 5] 7 w_trie)) = 3"
proof -
  have "trie_lookup w_trie [1, 5] = Some 3" "trie_contains w_trie [1, 5]" "trie_size w_trie = 3"
    "key_len [1, 5] \<le> MAX_KEY_LEN" by code_simp+
  with trie_insert_exact [OF w_trie_wf, of "[1, 5]" 7] show ?thesis by simp
qed

text \<open>C8: \<open>prefix_matches\<close> with its explicit stack returns exactly the values of the keys that
  begin with the prefix, each once, in strictly ascending lexicographic order of the keys.\<close>

theorem prefix_matches_exact:
  assumes "trie_wf t"
  shows "\<exists>es. sorted_wrt (<) (map fst es) \<and> prefix_matches t p = map snd es
    \<and> (\<forall>k v. (k, v) \<in> set es \<longleftrightarrow> prefix p k \<and> trie_lookup t k = Some v)"
proof -
  have wf: "node_wf (root t)" using assms by (simp add: trie_wf_def)
  show ?thesis
    using prefix_matches_eq [OF wf, of p] entries_mem [OF wf] entries_sorted [OF wf]
    by (intro exI [of _ "filter (\<lambda>x. prefix p (fst x)) (node_entries (root t))"])
      (auto simp: trie_lookup_def sorted_wrt_map sorted_wrt_filter)
qed

theorem prefix_matches_exact_witness:
  "prefix_matches w_trie [1, 2] = [4, 1] \<and> (\<exists>k. prefix [1, 2] k \<and> trie_lookup w_trie k = Some 1)"
proof -
  have r: "prefix_matches w_trie [1, 2] = [4, 1]" by code_simp
  obtain es where es: "prefix_matches w_trie [1, 2] = map snd es"
    "\<forall>k v. (k, v) \<in> set es \<longleftrightarrow> prefix [1, 2] k \<and> trie_lookup w_trie k = Some v"
    using prefix_matches_exact [OF w_trie_wf, of "[1, 2]"] by blast
  have "1 \<in> set (map snd es)" using es(1) r by (metis list.set_intros)
  then obtain k where "(k, 1) \<in> set es" by auto
  then show ?thesis using es(2) r by blast
qed

text \<open>C25: a trie is a function of its contents: two histories of insertions that end with the
  same bindings end with structurally identical tries, whatever their order, their
  overwrites and their rejected keys.\<close>

theorem trie_canonical:
  assumes "trie_lookup (run_ops trie_step xs trie_new) = trie_lookup (run_ops trie_step ys trie_new)"
  shows "run_ops trie_step xs trie_new = run_ops trie_step ys trie_new"
proof -
  have wf: "trie_wf (run_ops trie_step xs trie_new)" "trie_wf (run_ops trie_step ys trie_new)"
    by (rule trm.inv_run)+
  have "root (run_ops trie_step xs trie_new) = root (run_ops trie_step ys trie_new)"
    using wf assms by (intro node_canonical) (auto simp: trie_wf_def trie_lookup_def fun_eq_iff)
  then show ?thesis using wf by (simp add: trie_wf_def)
qed

theorem trie_canonical_witness:
  "w_trie = run_ops trie_step [([1, 2], 4), ([1, 5], 3), ([1, 2, 9], 1)] trie_new"
proof -
  have keys: "key_len [1, 2, 9] \<le> MAX_KEY_LEN" "key_len [1, 2] \<le> MAX_KEY_LEN"
    "key_len [1, 5] \<le> MAX_KEY_LEN" by code_simp+
  have "trie_lookup (run_ops trie_step [([1, 2, 9], 1), ([1, 2], 2), ([1, 5], 3), ([1, 2], 4 :: nat)] trie_new)
      = trie_lookup (run_ops trie_step [([1, 2], 4), ([1, 5], 3), ([1, 2, 9], 1)] trie_new)"
    unfolding run_ops.simps trie_step_def fst_conv snd_conv trie_insert_Ok(2) [OF keys(1)]
      trie_insert_Ok(2) [OF keys(2)] trie_insert_Ok(2) [OF keys(3)]
    by (rule ext) simp
  from trie_canonical [OF this] show ?thesis unfolding w_trie_def .
qed

text \<open>C26: the two-pass iterative \<open>clone\<close> returns a copy equal to the source, with no index
  outside its tables, and the iterative \<open>drop\<close> visits every node below the root exactly once.\<close>

theorem trie_clone_drop_exact:
  assumes "trie_wf t"
  shows "trie_clone t = Some t \<and> Suc (trie_drop t) = node_count (root t)"
  using assms trie_clone_copy [of t] node_count_children [of "root t"]
  by (simp add: trie_wf_def trie_drop_def drop_loop_eq push_all_eq)

theorem trie_clone_drop_exact_witness: "trie_clone w_trie = Some w_trie \<and> trie_drop w_trie = 4"
proof -
  have "node_count (root w_trie) = 5" by code_simp
  with trie_clone_drop_exact [OF w_trie_wf] show ?thesis by simp
qed

end
