(* ===== verification/Zkp.thy ===== *)
theory Zkp
  imports TokenGraph KGraph
begin

text \<open>
  The zero-knowledge binding layer of \<open>rag_engine/src/zkp.rs\<close>, its one-call entry point
  for the Python enclave \<open>parse_and_prove_core\<close> of \<open>rag_engine/src/ffi.rs\<close>, and
  \<open>content_digest\<close> of \<open>rag_engine/src/lib.rs\<close>.

  SHA-256, JSON serialization and the halo2 library are not under \<open>src/\<close>: they are
  arguments of the definitions (\<open>sha\<close>, \<open>json\<close>, the record \<open>halo2\<close>). A field element of
  the library is a natural number below its modulus \<open>p\<close>.
\<close>

section \<open>Digests as field elements\<close>

type_synonym sha256 = "bytes \<Rightarrow> bytes"

text \<open>Field arithmetic modulo \<open>p\<close>, with \<open>Fp::from\<close>.\<close>

definition fp_from :: "nat \<Rightarrow> nat \<Rightarrow> nat" where
  "fp_from p x = x mod p"

definition fp_add :: "nat \<Rightarrow> nat \<Rightarrow> nat \<Rightarrow> nat" where
  "fp_add p x y = (x + y) mod p"

definition fp_mul :: "nat \<Rightarrow> nat \<Rightarrow> nat \<Rightarrow> nat" where
  "fp_mul p x y = (x * y) mod p"

fun horner :: "nat \<Rightarrow> nat \<Rightarrow> bytes \<Rightarrow> nat" where
  "horner p acc [] = acc"
| "horner p acc (b # bs) = horner p (fp_add p (fp_mul p acc (fp_from p 256)) (fp_from p (unat b))) bs"

definition digest_to_field :: "sha256 \<Rightarrow> nat \<Rightarrow> bytes \<Rightarrow> nat" where
  "digest_to_field sha p bs = horner p 0 (sha bs)"

definition graph_output_to_field :: "sha256 \<Rightarrow> nat \<Rightarrow> (path \<Rightarrow> string) \<Rightarrow> path \<Rightarrow> nat" where
  "graph_output_to_field sha p json q = digest_to_field sha p (bytes_of (json q))"

definition content_digest :: "sha256 \<Rightarrow> (ast_node \<Rightarrow> bytes) \<Rightarrow> ast_node \<Rightarrow> bytes" where
  "content_digest sha to_vec ast = sha (to_vec ast)"

lemma horner_eq: "horner p acc bs mod p = (acc * 256 ^ length bs + be_nat bs) mod p"
proof (induction bs arbitrary: acc)
  case (Cons b bs)
  let ?acc = "fp_add p (fp_mul p acc (fp_from p 256)) (fp_from p (unat b))"
  have split: "be_nat (b # bs) = unat b * 256 ^ length bs + be_nat bs"
  proof (induction bs rule: rev_induct)
    case (snoc c cs)
    have "be_nat (b # cs @ [c]) = be_nat (b # cs) * 256 + unat c"
      using be_nat_snoc [of "b # cs" c] by simp
    with snoc show ?case by (simp add: algebra_simps)
  qed (simp add: be_nat_def)
  have acc: "?acc mod p = (acc * 256 + unat b) mod p"
    by (simp add: fp_add_def fp_mul_def fp_from_def mod_simps)
  have "horner p acc (b # bs) mod p = (?acc * 256 ^ length bs + be_nat bs) mod p"
    using Cons.IH [of ?acc] by simp
  also have "\<dots> = ((acc * 256 + unat b) * 256 ^ length bs + be_nat bs) mod p"
    by (rule mod_add_cong [OF mod_mult_cong [OF acc refl] refl])
  also have "\<dots> = (acc * 256 ^ length (b # bs) + be_nat (b # bs)) mod p"
    unfolding split by (simp add: algebra_simps)
  finally show ?case .
qed simp

lemma horner_reduced: "bs \<noteq> [] \<or> acc < p \<Longrightarrow> 0 < p \<Longrightarrow> horner p acc bs < p"
  by (induction bs arbitrary: acc) (auto simp: fp_add_def)

lemma digest_mod: "0 < p \<Longrightarrow> digest_to_field sha p bs = be_nat (sha bs) mod p"
  using horner_eq [of p 0 "sha bs"] horner_reduced [of "sha bs" 0 p]
  by (cases "sha bs = []") (simp_all add: digest_to_field_def)

text \<open>The field element of evidence bytes is the SHA-256 digest read as one big-endian
  number and reduced once, \<open>uint256(bytes32) mod p\<close>: the byte-wise accumulation in the field
  loses nothing but the multiple of the modulus, for every modulus and every digest function.\<close>

lemma digest_to_field_big_endian:
  assumes "0 < p"
  shows "digest_to_field sha p bs = be_nat (sha bs) mod p"
  using assms by (rule digest_mod)

lemma digest_to_field_big_endian_witness:
  "digest_to_field (\<lambda>_. [1, 2, 3]) 1000 [] = 51 \<and> be_nat [1, 2, 3] mod 1000 = 51"
proof -
  have d: "digest_to_field (\<lambda>_. [1, 2, 3]) 1000 [] = be_nat [1, 2, 3] mod 1000"
    by (rule digest_to_field_big_endian) simp
  have b: "be_nat [1, 2, 3] mod 1000 = 51" by (simp add: be_nat_def)
  show ?thesis unfolding d by (intro conjI b)
qed

section \<open>The circuit\<close>

text \<open>
  \<open>configure\<close> allocates the columns and enables equality on them; \<open>synthesize\<close> assigns the cells of
  a region (a \<open>Value\<close> is an option, \<open>unknown\<close> is \<open>None\<close>) and asks for the copy constraints between
  advice and instance cells. The constraint system and the layout are records of these requests to
  the library, which refuses a constraint on a column without equality; \<open>satisfied\<close> says what they
  mean, and only the hypotheses on the library use it.
\<close>

datatype circuit_column = AdviceCol nat | InstanceCol nat

record constraint_system =
  num_advice :: nat
  num_instance :: nat
  equality_cols :: "circuit_column list"

definition cs_new :: constraint_system where
  "cs_new = \<lparr>num_advice = 0, num_instance = 0, equality_cols = []\<rparr>"

definition advice_column :: "constraint_system \<Rightarrow> circuit_column \<times> constraint_system" where
  "advice_column cs = (AdviceCol (num_advice cs), cs\<lparr>num_advice := num_advice cs + 1\<rparr>)"

definition instance_column :: "constraint_system \<Rightarrow> circuit_column \<times> constraint_system" where
  "instance_column cs = (InstanceCol (num_instance cs), cs\<lparr>num_instance := num_instance cs + 1\<rparr>)"

definition enable_equality :: "circuit_column \<Rightarrow> constraint_system \<Rightarrow> constraint_system" where
  "enable_equality col cs = cs\<lparr>equality_cols := equality_cols cs @ [col]\<rparr>"

record rag_config =
  cfg_advice :: circuit_column
  cfg_instance :: circuit_column

definition configure :: "constraint_system \<Rightarrow> rag_config \<times> constraint_system" where
  "configure meta = (let (advice, meta) = advice_column meta; (inst, meta) = instance_column meta;
     meta = enable_equality advice meta; meta = enable_equality inst meta
     in (\<lparr>cfg_advice = advice, cfg_instance = inst\<rparr>, meta))"

record 'f rag_circuit =
  document_hash :: "'f option"
  prompt_hash :: "'f option"
  graph_output_hash :: "'f option"

definition circuit_unknown :: "'f rag_circuit" where
  "circuit_unknown = \<lparr>document_hash = None, prompt_hash = None, graph_output_hash = None\<rparr>"

definition circuit_new :: "'f option \<Rightarrow> 'f option \<Rightarrow> 'f option \<Rightarrow> 'f rag_circuit" where
  "circuit_new d p r = \<lparr>document_hash = d, prompt_hash = p, graph_output_hash = r\<rparr>"

definition with_values :: "'f \<Rightarrow> 'f \<Rightarrow> 'f \<Rightarrow> 'f rag_circuit" where
  "with_values d p r = circuit_new (Some d) (Some p) (Some r)"

type_synonym cell = "circuit_column \<times> nat"

record 'f layout =
  advice_cells :: "(cell \<times> 'f option) list"
  instance_copies :: "(cell \<times> cell) list"

definition assign_advice :: "circuit_column \<Rightarrow> nat \<Rightarrow> 'f option \<Rightarrow> 'f layout \<Rightarrow> cell \<times> 'f layout" where
  "assign_advice col offset v l = ((col, offset), l\<lparr>advice_cells := advice_cells l @ [((col, offset), v)]\<rparr>)"

definition constrain_instance :: "constraint_system \<Rightarrow> cell \<Rightarrow> circuit_column \<Rightarrow> nat \<Rightarrow> 'f layout \<Rightarrow> 'f layout option" where
  "constrain_instance cs cl col offset l =
     (if fst cl \<in> set (equality_cols cs) \<and> col \<in> set (equality_cols cs)
      then Some (l\<lparr>instance_copies := instance_copies l @ [(cl, (col, offset))]\<rparr>) else None)"

definition without_witnesses :: "'f rag_circuit \<Rightarrow> 'f rag_circuit" where
  "without_witnesses c = circuit_unknown"

definition synthesize :: "constraint_system \<Rightarrow> rag_config \<Rightarrow> 'f rag_circuit \<Rightarrow> 'f layout option" where
  "synthesize cs cfg c =
     (let (doc, l) = assign_advice (cfg_advice cfg) 0 (document_hash c) \<lparr>advice_cells = [], instance_copies = []\<rparr>;
          (prompt, l) = assign_advice (cfg_advice cfg) 1 (prompt_hash c) l;
          (out, l) = assign_advice (cfg_advice cfg) 2 (graph_output_hash c) l;
          cells = [doc, prompt, out]
      in Option.bind (constrain_instance cs (cells ! 0) (cfg_instance cfg) 0 l) (\<lambda>l.
         Option.bind (constrain_instance cs (cells ! 1) (cfg_instance cfg) 1 l) (\<lambda>l.
         constrain_instance cs (cells ! 2) (cfg_instance cfg) 2 l)))"

text \<open>
  The public inputs are given per instance column; the library pads a column with zeros. It
  configures the system first, then synthesizes.
\<close>

fun instance_cell :: "'f::zero list list \<Rightarrow> cell \<Rightarrow> 'f option" where
  "instance_cell insts (InstanceCol i, offset) =
     (if i < length insts then Some (if offset < length (insts ! i) then insts ! i ! offset else 0) else None)"
| "instance_cell insts (AdviceCol i, offset) = None"

definition satisfied :: "'f::zero rag_circuit \<Rightarrow> 'f list list \<Rightarrow> bool" where
  "satisfied c insts = (case configure cs_new of (cfg, cs) \<Rightarrow>
     length insts = num_instance cs \<and>
     (case synthesize cs cfg c of
        None \<Rightarrow> False
      | Some l \<Rightarrow> list_all (\<lambda>(adv, inst). case (map_of (advice_cells l) adv, instance_cell insts inst) of
          (Some (Some v), Some w) \<Rightarrow> v = w | _ \<Rightarrow> False) (instance_copies l)))"

text \<open>The circuit binds all three values and nothing more: public inputs of length three
  satisfy it exactly when they are the witness values in the order document, prompt, output;
  with unknown witnesses it is never satisfied. The length matters: as the library pads with zeros,
  two public inputs satisfy the circuit of an output of zero, which is what the check of the length
  in \<open>prove\<close> and \<open>verify\<close> excludes.\<close>

lemmas circuit_defs = satisfied_def synthesize_def configure_def cs_new_def advice_column_def instance_column_def
  enable_equality_def assign_advice_def constrain_instance_def with_values_def circuit_new_def circuit_unknown_def

lemma circuit_binding:
  assumes "length inst = 3"
  shows "(satisfied (with_values d p r) [inst] \<longleftrightarrow> inst = [d, p, r]) \<and> \<not> satisfied circuit_unknown [inst]"
proof -
  obtain x y z where "inst = [x, y, z]"
    using assms by (auto simp: numeral_3_eq_3 length_Suc_conv)
  then show ?thesis by (auto simp: circuit_defs Let_def)
qed

lemma circuit_binding_padded: "satisfied (with_values d p 0) [[d, p]]"
  by (simp add: circuit_defs Let_def)

lemma circuit_binding_witness:
  "satisfied (with_values (1 :: nat) 2 3) [[1, 2, 3]] \<and> \<not> satisfied (with_values (1 :: nat) 2 3) [[1, 3, 2]]"
  using circuit_binding [of "[1, 2, 3 :: nat]" 1 2 3] circuit_binding [of "[1, 3, 2 :: nat]" 1 2 3] by simp

section \<open>Keys, proofs, verification\<close>

datatype 'e zkp_error = InvalidK nat | InvalidPublicInputs nat | Halo2 'e

text \<open>The halo2 functions the module calls. A proof takes the blinding randomness as an argument.\<close>

record ('params, 'vk, 'pk, 'rnd, 'e) halo2 =
  params_new :: "nat \<Rightarrow> 'params"
  keygen_vk :: "'params \<Rightarrow> nat rag_circuit \<Rightarrow> 'e + 'vk"
  keygen_pk :: "'params \<Rightarrow> 'vk \<Rightarrow> nat rag_circuit \<Rightarrow> 'e + 'pk"
  get_vk :: "'pk \<Rightarrow> 'vk"
  create_proof :: "'params \<Rightarrow> 'pk \<Rightarrow> nat rag_circuit \<Rightarrow> nat list list \<Rightarrow> 'rnd \<Rightarrow> 'e + bytes"
  halo2_verify :: "'params \<Rightarrow> 'vk \<Rightarrow> nat list list \<Rightarrow> bytes \<Rightarrow> 'e + unit"

definition generate_params :: "('params, 'vk, 'pk, 'rnd, 'e) halo2 \<Rightarrow> nat \<Rightarrow> 'e zkp_error + 'params" where
  "generate_params h k = (if \<not> (4 \<le> k \<and> k \<le> 24) then Err (InvalidK k) else Ok (params_new h k))"

definition keygen :: "('params, 'vk, 'pk, 'rnd, 'e) halo2 \<Rightarrow> 'params \<Rightarrow> nat rag_circuit
    \<Rightarrow> 'e zkp_error + 'pk" where
  "keygen h params c =
     res_bind (map_err Halo2 (keygen_vk h params c))
       (\<lambda>vk. map_err Halo2 (keygen_pk h params vk c))"

definition prove :: "('params, 'vk, 'pk, 'rnd, 'e) halo2 \<Rightarrow> 'params \<Rightarrow> 'pk \<Rightarrow> nat rag_circuit
    \<Rightarrow> nat list \<Rightarrow> 'rnd \<Rightarrow> 'e zkp_error + bytes" where
  "prove h params pk c inputs rnd =
     (if length inputs \<noteq> 3 then Err (InvalidPublicInputs (length inputs))
      else map_err Halo2 (create_proof h params pk c [inputs] rnd))"

definition zkp_verify :: "('params, 'vk, 'pk, 'rnd, 'e) halo2 \<Rightarrow> 'params \<Rightarrow> 'vk \<Rightarrow> nat list
    \<Rightarrow> bytes \<Rightarrow> 'e zkp_error + unit" where
  "zkp_verify h params vk inputs prf =
     (if length inputs \<noteq> 3 then Err (InvalidPublicInputs (length inputs))
      else map_err Halo2 (halo2_verify h params vk [inputs] prf))"

definition DEFAULT_K :: nat where
  "DEFAULT_K = 8"

record ('params, 'pk) prover_keys =
  ps_params :: 'params
  ps_pk :: 'pk

text \<open>The process-wide \<open>OnceLock\<close> is an option; \<open>None\<close> as a result is the panic of \<open>expect\<close>.\<close>

definition prover_setup :: "('params, 'vk, 'pk, 'rnd, 'e) halo2 \<Rightarrow> ('params, 'pk) prover_keys option
    \<Rightarrow> (('params, 'pk) prover_keys \<times> ('params, 'pk) prover_keys option) option" where
  "prover_setup h cell =
     (case cell of
        Some s \<Rightarrow> Some (s, cell)
      | None \<Rightarrow> (case generate_params h DEFAULT_K of
          Err _ \<Rightarrow> None
        | Ok params \<Rightarrow> (case keygen h params circuit_unknown of
            Err _ \<Rightarrow> None
          | Ok pk \<Rightarrow> (let s = \<lparr>ps_params = params, ps_pk = pk\<rparr> in Some (s, Some s)))))"

definition generate_proof :: "('params, 'vk, 'pk, 'rnd, 'e) halo2 \<Rightarrow> ('params, 'pk) prover_keys option
    \<Rightarrow> nat \<Rightarrow> nat \<Rightarrow> nat \<Rightarrow> 'rnd
    \<Rightarrow> (('e zkp_error + bytes) \<times> ('params, 'pk) prover_keys option) option" where
  "generate_proof h cell d p r rnd =
     (case prover_setup h cell of
        None \<Rightarrow> None
      | Some (s, cell') \<Rightarrow>
          Some (prove h (ps_params s) (ps_pk s) (with_values d p r) [d, p, r] rnd, cell'))"

definition prover_verifying_key :: "('params, 'vk, 'pk, 'rnd, 'e) halo2 \<Rightarrow> ('params, 'pk) prover_keys option
    \<Rightarrow> ('vk \<times> ('params, 'pk) prover_keys option) option" where
  "prover_verifying_key h cell =
     (case prover_setup h cell of None \<Rightarrow> None | Some (s, cell') \<Rightarrow> Some (get_vk h (ps_pk s), cell'))"

definition verify_proof :: "('params, 'vk, 'pk, 'rnd, 'e) halo2 \<Rightarrow> ('params, 'pk) prover_keys option
    \<Rightarrow> bytes \<Rightarrow> nat list \<Rightarrow> (('e zkp_error + unit) \<times> ('params, 'pk) prover_keys option) option" where
  "verify_proof h cell prf inputs =
     (case prover_setup h cell of
        None \<Rightarrow> None
      | Some (s, cell') \<Rightarrow>
          Some (zkp_verify h (ps_params s) (get_vk h (ps_pk s)) inputs prf, cell'))"

text \<open>
  What the module relies on, of the keys of its own circuit at a size: key generation at the
  default size succeeds; a proof made for a satisfied circuit verifies under the matching key
  (completeness); and a proof verifies only for public inputs that satisfy the circuit it was
  made for (soundness). Nothing is assumed of other bytes or of other keys.
\<close>

definition halo2_complete :: "('params, 'vk, 'pk, 'rnd, 'e) halo2 \<Rightarrow> bool" where
  "halo2_complete h \<longleftrightarrow>
     (\<exists>pk. keygen h (params_new h DEFAULT_K) circuit_unknown = Ok pk)
     \<and> (\<forall>k pk c inputs rnd prf. keygen h (params_new h k) circuit_unknown = Ok pk \<longrightarrow>
          satisfied c [inputs] \<longrightarrow>
          create_proof h (params_new h k) pk c [inputs] rnd = Ok prf \<longrightarrow>
          halo2_verify h (params_new h k) (get_vk h pk) [inputs] prf = Ok ())"

definition halo2_sound :: "('params, 'vk, 'pk, 'rnd, 'e) halo2 \<Rightarrow> bool" where
  "halo2_sound h \<longleftrightarrow>
     (\<forall>k pk c inputs rnd prf inst. keygen h (params_new h k) circuit_unknown = Ok pk \<longrightarrow>
          create_proof h (params_new h k) pk c [inputs] rnd = Ok prf \<longrightarrow>
          halo2_verify h (params_new h k) (get_vk h pk) [inst] prf = Ok () \<longrightarrow>
          satisfied c [inst])"

text \<open>The cell of the setup is empty, or holds the one setup.\<close>

definition the_setup :: "('params, 'vk, 'pk, 'rnd, 'e) halo2 \<Rightarrow> ('params, 'pk) prover_keys" where
  "the_setup h = \<lparr>ps_params = params_new h DEFAULT_K,
     ps_pk = (case keygen h (params_new h DEFAULT_K) circuit_unknown of Ok pk \<Rightarrow> pk)\<rparr>"

definition cell_ok :: "('params, 'vk, 'pk, 'rnd, 'e) halo2 \<Rightarrow> ('params, 'pk) prover_keys option \<Rightarrow> bool" where
  "cell_ok h cell \<longleftrightarrow> cell = None \<or> cell = Some (the_setup h)"

lemma prover_setup_eq:
  "halo2_complete h \<Longrightarrow> cell_ok h cell \<Longrightarrow> prover_setup h cell = Some (the_setup h, Some (the_setup h))"
  by (auto simp: prover_setup_def cell_ok_def halo2_complete_def the_setup_def generate_params_def
      DEFAULT_K_def Let_def)

lemma the_setup_keys:
  "halo2_complete h \<Longrightarrow> ps_params (the_setup h) = params_new h DEFAULT_K
    \<and> keygen h (params_new h DEFAULT_K) circuit_unknown = Ok (ps_pk (the_setup h))"
  by (auto simp: halo2_complete_def the_setup_def)

text \<open>Verifying a proof made with the keys of the circuit, for whatever public inputs.\<close>

lemma prove_verify_exact:
  assumes h: "halo2_complete h" "halo2_sound h" and keys: "keygen h (params_new h k) circuit_unknown = Ok pk"
    and gen: "prove h (params_new h k) pk (with_values d p r) [d, p, r] rnd = Ok prf"
  shows "zkp_verify h (params_new h k) (get_vk h pk) inputs prf = Ok () \<longleftrightarrow> inputs = [d, p, r]"
proof -
  let ?P = "params_new h k" and ?c = "with_values d p r"
  have made: "create_proof h ?P pk ?c [[d, p, r]] rnd = Ok prf"
    using gen by (simp add: prove_def map_err_eq_Ok)
  have bound: "satisfied ?c [inst] \<longleftrightarrow> inst = [d, p, r]" if "length inst = 3" for inst
    using circuit_binding [OF that] by blast
  have "halo2_verify h ?P (get_vk h pk) [[d, p, r]] prf = Ok ()"
    using h(1) keys made bound [of "[d, p, r]"] unfolding halo2_complete_def by auto
  moreover have "inst = [d, p, r]" if "length inst = 3" "halo2_verify h ?P (get_vk h pk) [inst] prf = Ok ()" for inst
    using h(2) keys made that bound [OF that(1)] unfolding halo2_sound_def by metis
  ultimately show ?thesis by (auto simp: zkp_verify_def map_err_eq_Ok)
qed

lemma proved_verifies:
  assumes h: "halo2_complete h" "halo2_sound h" "cell_ok h cell"
    and gen: "prove h (ps_params (the_setup h)) (ps_pk (the_setup h)) (with_values d p r) [d, p, r] rnd = Ok prf"
  shows "\<exists>res. verify_proof h cell prf inputs = Some (res, Some (the_setup h))
    \<and> (res = Ok () \<longleftrightarrow> inputs = [d, p, r])"
  using prove_verify_exact [OF h(1,2) conjunct2 [OF the_setup_keys [OF h(1)]]] the_setup_keys [OF h(1)] gen
    prover_setup_eq [OF h(1,3)] by (simp add: verify_proof_def)

text \<open>C27: the proving entry points: the setup is built once and never panics, later calls of
  either entry point use the same one; a proof made for three commitments verifies for
  exactly these three public inputs in their order, tampered or reordered ones are refused, and
  inputs of another length are refused with an error of their own for any bytes.\<close>

theorem prove_verify_roundtrip:
  assumes "halo2_complete h" "halo2_sound h" "cell_ok h cell" "cell_ok h cell'"
  shows "\<exists>res. generate_proof h cell d p r rnd = Some (res, Some (the_setup h))
    \<and> (\<forall>prf inputs. res = Ok prf \<longrightarrow> (\<exists>res'. verify_proof h cell' prf inputs = Some (res', Some (the_setup h))
         \<and> (res' = Ok () \<longleftrightarrow> inputs = [d, p, r])))
    \<and> (\<forall>prf inputs. length inputs \<noteq> 3 \<longrightarrow> verify_proof h cell' prf inputs
         = Some (Err (InvalidPublicInputs (length inputs)), Some (the_setup h)))"
proof -
  obtain res where res: "generate_proof h cell d p r rnd = Some (res, Some (the_setup h))"
    using prover_setup_eq [OF assms(1,3)] by (simp add: generate_proof_def)
  have "verify_proof h cell' pf inputs = Some (Err (InvalidPublicInputs (length inputs)), Some (the_setup h))"
    if "length inputs \<noteq> 3" for pf inputs
    using that prover_setup_eq [OF assms(1,4)] by (simp add: verify_proof_def zkp_verify_def)
  moreover have "\<exists>res'. verify_proof h cell' pf inputs = Some (res', Some (the_setup h)) \<and> (res' = Ok () \<longleftrightarrow> inputs = [d, p, r])"
    if "res = Ok pf" for pf inputs
    using res that prover_setup_eq [OF assms(1,3)]
    by (intro proved_verifies [OF assms(1,2,4)]) (simp add: generate_proof_def)
  ultimately show ?thesis using res by blast
qed

text \<open>A library that meets the assumptions: its proofs spell out the public inputs.\<close>

definition w_encode :: "nat list \<Rightarrow> bytes" where
  "w_encode ns = concat (map (\<lambda>n. replicate n 1 @ [0]) ns)"

lemma w_encode_inject: "w_encode ms = w_encode ns \<Longrightarrow> ms = ns"
proof (induction ms arbitrary: ns)
  case Nil
  then show ?case by (cases ns) (simp_all add: w_encode_def)
next
  case (Cons m ms)
  then obtain n ns' where n: "ns = n # ns'" by (cases ns) (auto simp: w_encode_def)
  have s: "takeWhile (\<lambda>b. b = 1) (replicate k 1 @ [0] @ bs) = replicate k (1 :: u8)" for k bs
    by (induction k) simp_all
  have e: "replicate m (1 :: u8) @ [0] @ w_encode ms = replicate n 1 @ [0] @ w_encode ns'"
    using Cons.prems by (simp add: n w_encode_def)
  then have "replicate m (1 :: u8) = replicate n 1" using s [of m] s [of n] by metis
  then have "m = n" by (metis length_replicate)
  then show ?case using Cons.IH [of ns'] e by (simp add: n)
qed

definition w_halo2 :: "(unit, unit, unit, nat, nat) halo2" where
  "w_halo2 = \<lparr>params_new = (\<lambda>_. ()), keygen_vk = (\<lambda>_ _. Ok ()), keygen_pk = (\<lambda>_ _ _. Ok ()),
     get_vk = (\<lambda>_. ()), create_proof = (\<lambda>_ _ c inputs _.
       if satisfied c inputs then Ok (w_encode (concat inputs)) else Err 0),
     halo2_verify = (\<lambda>_ _ inputs prf. if prf = w_encode (concat inputs) then Ok () else Err 1)\<rparr>"

lemma w_halo2_ok: "halo2_complete w_halo2" "halo2_sound w_halo2"
  by (auto simp: halo2_complete_def halo2_sound_def w_halo2_def keygen_def split: if_splits dest: w_encode_inject)

lemma w_generates: "generate_proof w_halo2 None d p r rnd = Some (Ok (w_encode [d, p, r]), Some (the_setup w_halo2))"
  using circuit_binding [of "[d, p, r]" d p r] prover_setup_eq [OF w_halo2_ok(1), of None]
  by (simp add: generate_proof_def cell_ok_def prove_def w_halo2_def)

theorem prove_verify_roundtrip_witness:
  "\<exists>prf. generate_proof w_halo2 None 1 2 3 0 = Some (Ok prf, Some (the_setup w_halo2))
    \<and> verify_proof w_halo2 None prf [1, 2, 3] = Some (Ok (), Some (the_setup w_halo2))
    \<and> verify_proof w_halo2 None prf [1, 3, 2] \<noteq> Some (Ok (), Some (the_setup w_halo2))"
proof -
  let ?s = "the_setup w_halo2"
  obtain res where res: "generate_proof w_halo2 None 1 2 3 0 = Some (res, Some ?s)"
    "\<forall>prf inputs. res = Ok prf \<longrightarrow> (\<exists>res'. verify_proof w_halo2 None prf inputs = Some (res', Some ?s)
       \<and> (res' = Ok () \<longleftrightarrow> inputs = [1, 2, 3]))"
    using prove_verify_roundtrip [OF w_halo2_ok, of None None 1 2 3 0] by (auto simp: cell_ok_def)
  then have r: "res = Ok (w_encode [1, 2, 3])" by (simp add: w_generates)
  note v = res(2) [rule_format, OF r]
  obtain x where x: "verify_proof w_halo2 None (w_encode [1, 2, 3]) [1, 2, 3] = Some (x, Some ?s)" "x = Ok ()"
    using v [of "[1, 2, 3]"] by auto
  obtain y where y: "verify_proof w_halo2 None (w_encode [1, 2, 3]) [1, 3, 2] = Some (y, Some ?s)" "y \<noteq> Ok ()"
    using v [of "[1, 3, 2]"] by auto
  show ?thesis using res(1) r x y by (intro exI [of _ "w_encode [1, 2, 3]"]) simp
qed

section \<open>The entry point for the Python enclave\<close>

text \<open>\<open>IndexerError::to_string\<close>.\<close>

fun indexer_error_string :: "indexer_error \<Rightarrow> string" where
  "indexer_error_string (Tokenize i m) = ''tokenization failed at byte offset '' @ show_nat i @ '': '' @ m"
| "indexer_error_string (Parse i m) = ''parse failed at token index '' @ show_nat i @ '': '' @ m"
| "indexer_error_string (InvalidPattern m) = ''invalid pattern: '' @ m"
| "indexer_error_string (EmptyGraph m) = ''graph is empty: '' @ m"

definition no_matches_msg :: string where
  "no_matches_msg = ''document produced no symbolic graph matches''"

text \<open>What the pipeline takes from its dependencies besides halo2.\<close>

record ffi_env =
  f_sha :: sha256
  f_modulus :: nat
  f_json :: "graph_match list \<Rightarrow> bytes"
  f_to_repr :: "nat \<Rightarrow> bytes"

record prove_result =
  pr_proof :: bytes
  pr_doc :: bytes
  pr_prompt :: bytes
  pr_output :: bytes

definition parse_and_prove_core :: "ffi_env \<Rightarrow> ('params, 'vk, 'pk, 'rnd, 'e) halo2
    \<Rightarrow> ('e zkp_error \<Rightarrow> string) \<Rightarrow> ('params, 'pk) prover_keys option \<Rightarrow> 'rnd \<Rightarrow> string \<Rightarrow> string
    \<Rightarrow> (string + prove_result) option" where
  "parse_and_prove_core env h show_err cell rnd document prompt =
     (case tokenize document of
        Err e \<Rightarrow> Some (Err (indexer_error_string e))
      | Ok tokens \<Rightarrow> (case parse tokens of
          None \<Rightarrow> None
        | Some (Err e) \<Rightarrow> Some (Err (indexer_error_string e))
        | Some (Ok ast) \<Rightarrow>
            (case match_graph (from_ast ast) (pattern_single ''*'' ''*'' ''*'') of
               Err e \<Rightarrow> Some (Err (indexer_error_string e))
             | Ok matches \<Rightarrow>
                 (if matches = [] then Some (Err no_matches_msg)
                  else
                    (let field = digest_to_field (f_sha env) (f_modulus env);
                         h_doc = field (bytes_of document);
                         h_prompt = field (bytes_of prompt);
                         h_out = field (f_json env matches)
                     in case generate_proof h cell h_doc h_prompt h_out rnd of
                          None \<Rightarrow> None
                        | Some (Err e, _) \<Rightarrow> Some (Err (show_err e))
                        | Some (Ok prf, _) \<Rightarrow>
                            Some (Ok \<lparr>pr_proof = prf, pr_doc = f_to_repr env h_doc,
                              pr_prompt = f_to_repr env h_prompt, pr_output = f_to_repr env h_out\<rparr>))))))"

text \<open>The full wildcard returns every edge once, in order.\<close>

definition edge_match :: "document_ast \<Rightarrow> edge \<Rightarrow> graph_match" where
  "edge_match g e = \<lparr>gm_subject = e_subject e, gm_object = e_object e, gm_predicate = e_predicate e,
     gm_span = node_span (nodes g ! e_subject e)\<rparr>"

lemma match_all:
  assumes "wf_graph g" "nodes g \<noteq> []"
  shows "match_graph g (pattern_single ''*'' ''*'' ''*'') = Ok (map (edge_match g) (edges g))"
proof -
  have "match_edges g (''*'', ''*'', ''*'') es = map (edge_match g) es" if "set es \<subseteq> set (edges g)" for es
    using that
  proof (induction es)
    case (Cons e es)
    have "match_edge g (''*'', ''*'', ''*'') e = Some (edge_match g e)"
      using Cons.prems assms(1) by (auto simp: match_edge_Some wf_graph_def edge_match_def)
    with Cons show ?case by simp
  qed simp
  then show ?thesis
    using assms(2) by (simp add: match_graph_def doc_is_empty_def pattern_single_def pattern_new_def)
qed


definition w_env :: ffi_env where
  "w_env = \<lparr>f_sha = (\<lambda>bs. take 2 bs), f_modulus = 1000, f_json = (\<lambda>ms. [word_of_nat (length ms)]),
     f_to_repr = (\<lambda>n. be_bytes 2 n)\<rparr>"


end
