(* ===== verification/Ffi.thy ===== *)
theory Ffi
  imports Zkp
begin

text \<open>
  The Python surface of \<open>rag_engine/src/ffi.rs\<close>: the function \<open>parse_and_prove\<close> and the module that
  exports it. A Python dictionary is the list of its items in the order of insertion, and a
  raised \<open>RuntimeError\<close> is its message. Releasing the interpreter lock is not observable here.
\<close>

definition py_set_item :: "string \<Rightarrow> bytes \<Rightarrow> (string \<times> bytes) list \<Rightarrow> (string \<times> bytes) list" where
  "py_set_item k v dict = (if k \<in> fst ` set dict then map (\<lambda>(k', v'). (k', if k' = k then v else v')) dict else dict @ [(k, v)])"

definition parse_and_prove :: "ffi_env \<Rightarrow> ('params, 'vk, 'pk, 'rnd, 'e) halo2
    \<Rightarrow> ('e zkp_error \<Rightarrow> string) \<Rightarrow> ('params, 'pk) prover_keys option \<Rightarrow> 'rnd \<Rightarrow> string \<Rightarrow> string
    \<Rightarrow> (string + (string \<times> bytes) list) option" where
  "parse_and_prove env h show_err cell rnd document prompt =
     map_option (\<lambda>r. res_bind r (\<lambda>res.
       let dict = [];
           dict = py_set_item ''proof'' (pr_proof res) dict;
           dict = py_set_item ''doc_hash'' (pr_doc res) dict;
           dict = py_set_item ''prompt_hash'' (pr_prompt res) dict;
           dict = py_set_item ''output_hash'' (pr_output res) dict
       in Ok dict)) (parse_and_prove_core env h show_err cell rnd document prompt)"

definition indexer_rs :: "string list" where
  "indexer_rs = [''parse_and_prove'']"

text \<open>The dictionary has the four entries of the result, and nothing is raised or panics but what the core
  reports.\<close>

lemma parse_and_prove_dict: "parse_and_prove env h show_err cell rnd document prompt = Some (Ok dict) \<longleftrightarrow>
    (\<exists>res. parse_and_prove_core env h show_err cell rnd document prompt = Some (Ok res)
      \<and> dict = [(''proof'', pr_proof res), (''doc_hash'', pr_doc res), (''prompt_hash'', pr_prompt res), (''output_hash'', pr_output res)])"
  by (auto simp: parse_and_prove_def py_set_item_def res_simps Let_def)

lemma parse_and_prove_raises: "parse_and_prove env h show_err cell rnd document prompt = Some (Err m) \<longleftrightarrow>
    parse_and_prove_core env h show_err cell rnd document prompt = Some (Err m)"
proof (cases "parse_and_prove_core env h show_err cell rnd document prompt")
  case (Some r)
  then show ?thesis by (cases r) (simp_all add: parse_and_prove_def Let_def)
qed (simp add: parse_and_prove_def)

end
