(* ===== verification/F64.thy ===== *)
theory F64
  imports Prelude "HOL-Library.Log_Nat"
begin

text \<open>
  The \<open>f64\<close> of the source: IEEE-754 binary64 with round to nearest, ties to even. A value is
  a rational, an infinity or NaN; the two zeros are one value, because no operation of the
  modelled code can tell them apart (nothing divides by a computed zero or reads a sign bit).
  \<open>rnd\<close> is the rounding every operation ends with. The lemmas give what the clients use:
  rounding is monotone, keeps representable values and keeps integers up to \<open>2 ^ 53\<close>.
\<close>

section \<open>Rounding\<close>

text \<open>The exponent of the leading bit of a positive rational.\<close>

definition ilog2 :: "rat \<Rightarrow> int" where
  "ilog2 x = (case quotient_of x of (a, b) \<Rightarrow>
     (let e = bitlen a - bitlen b in if 2 powi e \<le> x then e else e - 1))"

text \<open>The nearest integer, ties to even.\<close>

definition rint :: "rat \<Rightarrow> int" where
  "rint x = (let n = \<lfloor>x\<rfloor>; d = x - of_int n in if d < 1/2 \<or> (d = 1/2 \<and> even n) then n else n + 1)"

text \<open>The weight of the last bit: 52 below the leading bit, but never below the subnormal one.\<close>

definition ulp :: "rat \<Rightarrow> rat" where
  "ulp x = 2 powi (max (ilog2 \<bar>x\<bar> - 52) (- 1074))"

datatype f64 = NegInf | Fin rat | PosInf | NaN

definition rnd :: "rat \<Rightarrow> f64" where
  "rnd x = (if x = 0 then Fin 0
     else (let y = of_int (rint (x / ulp x)) * ulp x in
       if 2 ^ 1024 \<le> y then PosInf else if y \<le> - (2 ^ 1024) then NegInf else Fin y))"

section \<open>The order\<close>

text \<open>
  The linear order puts NaN last; on values other than NaN it is the comparison of IEEE-754,
  which is false as soon as one side is NaN.
\<close>

instantiation f64 :: linorder
begin

fun less_eq_f64 :: "f64 \<Rightarrow> f64 \<Rightarrow> bool" where
  "less_eq_f64 NegInf _ = True"
| "less_eq_f64 (Fin x) NegInf = False"
| "less_eq_f64 (Fin x) (Fin y) = (x \<le> y)"
| "less_eq_f64 (Fin x) _ = True"
| "less_eq_f64 PosInf NegInf = False"
| "less_eq_f64 PosInf (Fin _) = False"
| "less_eq_f64 PosInf _ = True"
| "less_eq_f64 NaN NaN = True"
| "less_eq_f64 NaN _ = False"

definition less_f64 :: "f64 \<Rightarrow> f64 \<Rightarrow> bool" where
  "less_f64 a b \<longleftrightarrow> a \<le> b \<and> \<not> b \<le> a"

instance
proof
  fix x y z :: f64
  show "(x < y) = (x \<le> y \<and> \<not> y \<le> x)" by (rule less_f64_def)
  show "x \<le> x" by (cases x) auto
  show "x \<le> y \<Longrightarrow> y \<le> z \<Longrightarrow> x \<le> z" by (cases x; cases y; cases z) auto
  show "x \<le> y \<Longrightarrow> y \<le> x \<Longrightarrow> x = y" by (cases x; cases y) auto
  show "x \<le> y \<or> y \<le> x" by (cases x; cases y) auto
qed

end

lemma less_f64_simps [simp]:
  "Fin x < Fin y \<longleftrightarrow> x < y" "Fin x < PosInf" "NegInf < Fin y" "\<not> PosInf < Fin y" "\<not> Fin x < NegInf"
  "\<not> NaN < a" "\<not> a < NegInf" "PosInf < a \<longleftrightarrow> a = NaN" "NegInf < a \<longleftrightarrow> a \<noteq> NegInf"
  "Fin x < NaN" "NegInf < NaN"
  by (cases a; auto simp: less_f64_def; fail)+

lemma le_f64_simps [simp]: "a \<le> NaN" "a \<le> NegInf \<longleftrightarrow> a = NegInf" "NaN \<le> a \<longleftrightarrow> a = NaN"
  by (cases a; simp; fail)+

definition fle :: "f64 \<Rightarrow> f64 \<Rightarrow> bool" where
  "fle a b \<longleftrightarrow> a \<le> b \<and> b \<noteq> NaN"

definition flt :: "f64 \<Rightarrow> f64 \<Rightarrow> bool" where
  "flt a b \<longleftrightarrow> a < b \<and> b \<noteq> NaN"

definition is_finite :: "f64 \<Rightarrow> bool" where
  "is_finite a \<longleftrightarrow> (case a of Fin _ \<Rightarrow> True | _ \<Rightarrow> False)"

section \<open>Arithmetic\<close>

fun fadd :: "f64 \<Rightarrow> f64 \<Rightarrow> f64" where
  "fadd (Fin x) (Fin y) = rnd (x + y)"
| "fadd NaN _ = NaN"
| "fadd _ NaN = NaN"
| "fadd PosInf NegInf = NaN"
| "fadd NegInf PosInf = NaN"
| "fadd PosInf _ = PosInf"
| "fadd _ PosInf = PosInf"
| "fadd NegInf _ = NegInf"
| "fadd _ NegInf = NegInf"

fun fmul :: "f64 \<Rightarrow> f64 \<Rightarrow> f64" where
  "fmul (Fin x) (Fin y) = rnd (x * y)"
| "fmul NaN _ = NaN"
| "fmul _ NaN = NaN"
| "fmul (Fin x) b = (if x = 0 then NaN else if (0 < x) = (b = PosInf) then PosInf else NegInf)"
| "fmul a (Fin y) = (if y = 0 then NaN else if (0 < y) = (a = PosInf) then PosInf else NegInf)"
| "fmul a b = (if a = b then PosInf else NegInf)"

text \<open>Division by a finite constant other than zero, all the code has.\<close>

fun fdiv :: "f64 \<Rightarrow> rat \<Rightarrow> f64" where
  "fdiv (Fin x) c = rnd (x / c)"
| "fdiv NaN c = NaN"
| "fdiv a c = (if c < 0 then (if a = PosInf then NegInf else PosInf) else a)"

definition fmin :: "f64 \<Rightarrow> f64 \<Rightarrow> f64" where
  "fmin a b = (if a = NaN then b else if b = NaN then a else min a b)"

definition fsum :: "f64 list \<Rightarrow> f64" where
  "fsum xs = foldl fadd (Fin 0) xs"

definition of_u64 :: "nat \<Rightarrow> f64" where
  "of_u64 n = rnd (of_nat n)"

section \<open>Rounding is monotone and keeps what it can represent\<close>

lemma powi_mono2: "a \<le> b \<Longrightarrow> (2::rat) powi a \<le> 2 powi b"
  by (simp add: power_int_increasing)

lemma powi_less2: "a < b \<Longrightarrow> (2::rat) powi a < 2 powi b"
  by (simp add: power_int_strict_increasing)

lemma powi_pos2 [simp]: "0 < (2::rat) powi a"
  by simp

lemma powi_less_cancel2: "(2::rat) powi a < 2 powi b \<Longrightarrow> a < b"
  using powi_mono2 [of b a] by force

lemma ilog2_bounds:
  assumes "0 < x"
  shows "2 powi ilog2 x \<le> x" "x < 2 powi (ilog2 x + 1)"
proof -
  obtain a b where q: "quotient_of x = (a, b)" by (cases "quotient_of x")
  have b: "0 < b" using quotient_of_denom_pos [OF q] .
  have x: "x = of_int a / of_int b" using quotient_of_div [OF q] .
  then have a: "0 < a" using assms b by (simp add: zero_less_divide_iff)
  let ?m = "nat (bitlen a - 1)" and ?n = "nat (bitlen b - 1)"
  have la: "bitlen a = int ?m + 1" "bitlen b = int ?n + 1"
    using a b bitlen_eq_zero_iff [of a] bitlen_nonneg [of a] bitlen_eq_zero_iff [of b] bitlen_nonneg [of b]
    by linarith+
  have pa: "2 ^ ?m \<le> a" "a < 2 ^ (?m + 1)" and pb: "2 ^ ?n \<le> b" "b < 2 ^ (?n + 1)"
  proof -
    have "nat (bitlen a) = ?m + 1" "nat (bitlen b) = ?n + 1" using la by linarith+
    then show "2 ^ ?m \<le> a" "a < 2 ^ (?m + 1)" "2 ^ ?n \<le> b" "b < 2 ^ (?n + 1)"
      using bitlen_bounds [OF a] bitlen_bounds [OF b] by metis+
  qed
  have ra: "(2::rat) ^ ?m \<le> of_int a" "of_int a < (2::rat) ^ (?m + 1)"
    and rb: "(2::rat) ^ ?n \<le> of_int b" "of_int b < (2::rat) ^ (?n + 1)"
    using pa pb by (metis of_int_le_iff of_int_less_iff of_int_numeral of_int_power)+
  have e: "(2::rat) powi (int m - int n) = 2 ^ m / 2 ^ n" for m n
    by (simp add: power_int_diff)
  have b0: "(0::rat) < of_int b" using b by simp
  have lo: "2 powi (int ?m - int ?n - 1) \<le> x"
  proof -
    have "2 powi (int ?m - int ?n - 1) = (2::rat) ^ ?m / 2 ^ (?n + 1)"
      using e [of ?m "?n + 1"] by (simp add: algebra_simps)
    also have "\<dots> \<le> of_int a / of_int b" by (rule frac_le) (use ra rb b0 a in auto)
    finally show ?thesis by (simp add: x)
  qed
  have hi: "x < 2 powi (int ?m - int ?n + 1)"
  proof -
    have "of_int a / of_int b < (2::rat) ^ (?m + 1) / 2 ^ ?n"
      by (rule frac_less) (use ra rb a in auto)
    also have "\<dots> = 2 powi (int ?m - int ?n + 1)"
      using e [of "?m + 1" ?n] by (simp add: algebra_simps)
    finally show ?thesis by (simp add: x)
  qed
  show "2 powi ilog2 x \<le> x" "x < 2 powi (ilog2 x + 1)"
    using lo hi la by (auto simp: ilog2_def q Let_def)
qed

lemma ilog2_unique:
  assumes "2 powi e \<le> x" "x < 2 powi (e + 1)"
  shows "ilog2 x = e"
proof -
  have "0 < x" using assms(1) powi_pos2 [of e] by linarith
  from ilog2_bounds [OF this] assms
  have "2 powi e < (2::rat) powi (ilog2 x + 1)" "2 powi ilog2 x < (2::rat) powi (e + 1)" by linarith+
  from this [THEN powi_less_cancel2] show ?thesis by linarith
qed

lemma ilog2_less: "0 < x \<Longrightarrow> x < 2 powi k \<Longrightarrow> ilog2 x < k"
  using ilog2_bounds(1) [of x] powi_less_cancel2 [of "ilog2 x" k] by linarith

lemma ilog2_ge: "2 powi k \<le> x \<Longrightarrow> k \<le> ilog2 x"
  using ilog2_bounds(2) [of x] powi_less_cancel2 [of k "ilog2 x + 1"] powi_pos2 [of k] by linarith

lemma ilog2_mono: "0 < x \<Longrightarrow> x \<le> y \<Longrightarrow> ilog2 x \<le> ilog2 y"
  using ilog2_bounds(1) [of x] ilog2_ge by (meson order_trans)

lemma rint_of_int [simp]: "rint (of_int n) = n"
  by (simp add: rint_def)

lemma rint_floor: "\<lfloor>x\<rfloor> \<le> rint x" "rint x \<le> \<lfloor>x\<rfloor> + 1"
  by (simp_all add: rint_def Let_def)

lemma rint_mono: "x \<le> y \<Longrightarrow> rint x \<le> rint y"
proof (cases "\<lfloor>x\<rfloor> = \<lfloor>y\<rfloor>")
  case False
  assume "x \<le> y"
  then show ?thesis using False floor_mono [of x y] rint_floor [of x] rint_floor [of y] by linarith
qed (auto simp: rint_def Let_def)

lemma rint_minus: "rint (- x) = - rint x"
proof (cases "x = of_int \<lfloor>x\<rfloor>")
  case True
  then show ?thesis by (metis of_int_minus rint_of_int)
next
  case False
  then have "\<lceil>x\<rceil> = \<lfloor>x\<rfloor> + 1" by (simp add: ceiling_altdef)
  then have f: "\<lfloor>- x\<rfloor> = - \<lfloor>x\<rfloor> - 1" by (simp add: floor_minus)
  show ?thesis unfolding rint_def f Let_def by auto
qed

definition uexp :: "rat \<Rightarrow> int" where
  "uexp x = max (ilog2 \<bar>x\<bar> - 52) (- 1074)"

definition rval :: "rat \<Rightarrow> rat" where
  "rval x = of_int (rint (x / ulp x)) * ulp x"

lemma ulp_uexp: "ulp x = 2 powi uexp x"
  by (simp add: ulp_def uexp_def)

lemma ulp_pos [simp]: "0 < ulp x"
  by (simp add: ulp_uexp)

lemma powi_split: "e \<le> k \<Longrightarrow> (2::rat) powi k = of_int (2 ^ nat (k - e)) * 2 powi e"
  using power_int_add [of "2::rat" "k - e" e] by (simp add: power_int_def)

lemma rval_le: "uexp x \<le> k \<Longrightarrow> x \<le> of_int m * 2 powi k \<Longrightarrow> rval x \<le> of_int m * 2 powi k"
proof -
  assume k: "uexp x \<le> k" and x: "x \<le> of_int m * 2 powi k"
  have e: "of_int m * (2::rat) powi k = of_int (m * 2 ^ nat (k - uexp x)) * ulp x"
    by (simp add: powi_split [OF k] ulp_uexp)
  have "x / ulp x \<le> of_int (m * 2 ^ nat (k - uexp x))"
    using x by (simp add: e divide_le_eq del: of_int_mult)
  from rint_mono [OF this] have "rint (x / ulp x) \<le> m * 2 ^ nat (k - uexp x)" by (simp only: rint_of_int)
  then show ?thesis unfolding e rval_def by (intro mult_right_mono) (simp_all only: of_int_le_iff less_imp_le [OF ulp_pos])
qed

lemma rval_minus [simp]: "rval (- x) = - rval x" "ulp (- x) = ulp x"
  by (simp_all add: rval_def ulp_def rint_minus)

lemma rval_ge: "uexp x \<le> k \<Longrightarrow> of_int m * 2 powi k \<le> x \<Longrightarrow> of_int m * 2 powi k \<le> rval x"
  using rval_le [of "- x" k "- m"] by (simp add: uexp_def)

lemma rval_int: "uexp x \<le> k \<Longrightarrow> x = of_int m * 2 powi k \<Longrightarrow> rval x = x"
  using rval_le [of x k m] rval_ge [of x k m] by simp

lemma rval_mono_pos:
  assumes "0 < x" "x \<le> y"
  shows "rval x \<le> rval y"
proof (cases "uexp x = uexp y")
  case True
  have "x / ulp x \<le> y / ulp x" using assms(2) less_imp_le [OF ulp_pos] by (rule divide_right_mono)
  from rint_mono [OF this] show ?thesis unfolding rval_def by (simp add: ulp_uexp True)
next
  case False
  have l: "ilog2 x \<le> ilog2 y" using ilog2_mono assms .
  with False assms have k: "uexp x \<le> ilog2 y" "uexp y \<le> ilog2 y" "ilog2 x + 1 \<le> ilog2 y"
    by (auto simp: uexp_def)
  have "x \<le> 2 powi ilog2 y"
    using ilog2_bounds(2) [OF assms(1)] powi_mono2 [OF k(3)] by linarith
  with rval_le [OF k(1), of 1] have "rval x \<le> 2 powi ilog2 y" by simp
  also have "\<dots> \<le> rval y"
    using rval_ge [OF k(2), of 1] ilog2_bounds(1) [of y] assms by simp
  finally show ?thesis .
qed

lemma rval_pos: "0 < x \<Longrightarrow> 0 \<le> rval x"
  unfolding rval_def using rint_mono [of 0 "x / ulp x"] rint_of_int [of 0]
  by (intro mult_nonneg_nonneg) (simp_all add: less_imp_le)

lemma rval_mono: "x \<le> y \<Longrightarrow> rval x \<le> rval y"
proof -
  assume xy: "x \<le> y"
  have z: "rval 0 = 0" using rint_of_int [of 0] by (simp add: rval_def)
  consider "0 < x" | "x \<le> 0" "0 \<le> y" | "y < 0" by linarith
  then show ?thesis
  proof cases
    case 2
    have "0 \<le> rval (- x)" "0 \<le> rval y"
      using 2 rval_pos [of "- x"] rval_pos [of y] z by (cases "x = 0"; cases "y = 0"; simp)+
    then show ?thesis by simp
  next
    case 3
    then show ?thesis using rval_mono_pos [of "- y" "- x"] xy by simp
  qed (use xy rval_mono_pos in auto)
qed

lemma rnd_rval: "rnd x = (if 2 ^ 1024 \<le> rval x then PosInf else if rval x \<le> - (2 ^ 1024) then NegInf else Fin (rval x))"
  using rint_of_int [of 0] by (auto simp: rnd_def rval_def Let_def)

lemma rnd_mono: "x \<le> y \<Longrightarrow> rnd x \<le> rnd y"
  using rval_mono [of x y] by (auto simp: rnd_rval)

definition repr :: "rat \<Rightarrow> bool" where
  "repr x \<longleftrightarrow> (\<exists>m e. x = of_int m * 2 powi e \<and> \<bar>m\<bar> \<le> 2 ^ 53 \<and> - 1074 \<le> e) \<and> \<bar>x\<bar> < 2 ^ 1024"

lemma repr_rval:
  assumes "x = of_int m * 2 powi e" "\<bar>m\<bar> \<le> 2 ^ 53" "- 1074 \<le> e"
  shows "rval x = x"
proof (cases "m = 0")
  case True
  then show ?thesis using assms(1) by (simp add: rval_def rint_of_int [of 0, simplified])
next
  case False
  have ax: "\<bar>x\<bar> = of_int \<bar>m\<bar> * 2 powi e" using assms(1) by (simp add: abs_mult)
  then have p: "0 < \<bar>x\<bar>" using False by simp
  show ?thesis
  proof (cases "\<bar>m\<bar> = 2 ^ 53")
    case True
    have "\<bar>x\<bar> = 2 powi (e + 53)" unfolding ax True using power_int_add [of "2::rat" e 53] by simp
    then have "ilog2 \<bar>x\<bar> = e + 53" using powi_less2 [of "e + 53" "e + 54"] by (intro ilog2_unique) (simp_all add: add.commute)
    then have u: "uexp x \<le> e + 1" using assms(3) by (simp add: uexp_def)
    have "of_int m = (2::rat) * of_int (m div 2)"
    proof -
      have "even \<bar>m\<bar>" unfolding True by simp
      then have "2 * (m div 2) = m" by simp
      then show ?thesis by (metis of_int_mult of_int_numeral)
    qed
    then have "x = of_int (m div 2) * 2 powi (e + 1)" using assms(1) by (simp add: power_int_add)
    from rval_int [OF u this] show ?thesis .
  next
    case False
    with assms(2) have "\<bar>m\<bar> < 2 ^ 53" by linarith
    then have "(of_int \<bar>m\<bar> :: rat) < of_int (2 ^ 53)" by (simp only: of_int_less_iff)
    then have "\<bar>x\<bar> < 2 powi (e + 53)"
      unfolding ax using power_int_add [of "2::rat" e 53] mult_strict_right_mono [of "of_int \<bar>m\<bar>" "2 ^ 53" "2 powi e"]
      by (simp add: mult.commute)
    from ilog2_less [OF p this] have "uexp x \<le> e" using assms(3) by (simp add: uexp_def)
    from rval_int [OF this assms(1)] show ?thesis .
  qed
qed

lemma rnd_repr: "repr x \<Longrightarrow> rnd x = Fin x"
  unfolding repr_def rnd_rval using repr_rval [of x] by (auto simp: abs_less_iff)

lemma repr_of_int: "\<bar>n\<bar> \<le> 2 ^ 53 \<Longrightarrow> repr (of_int n)"
proof -
  assume n: "\<bar>n\<bar> \<le> 2 ^ 53"
  then have "of_int \<bar>n\<bar> \<le> (of_int (2 ^ 53) :: rat)" by (simp only: of_int_le_iff)
  then have "\<bar>of_int n :: rat\<bar> < 2 ^ 1024" by (simp add: order.strict_trans1)
  then show ?thesis unfolding repr_def using n by (intro conjI exI [of _ n] exI [of _ 0]) auto
qed

lemma rnd_repr_result: "rnd x = Fin y \<Longrightarrow> repr y"
proof -
  assume r: "rnd x = Fin y"
  then have y: "y = rval x" "\<bar>y\<bar> < 2 ^ 1024" by (auto simp: rnd_rval split: if_splits)
  have "\<bar>x\<bar> \<le> 2 powi (uexp x + 53)"
  proof (cases "x = 0")
    case False
    then have "\<bar>x\<bar> < 2 powi (ilog2 \<bar>x\<bar> + 1)" by (intro ilog2_bounds) simp
    also have "\<dots> \<le> 2 powi (uexp x + 53)" by (rule powi_mono2) (simp add: uexp_def)
    finally show ?thesis by simp
  qed simp
  also have "\<dots> = of_int (2 ^ 53) * ulp x" using power_int_add [of "2::rat" "uexp x" 53] by (simp add: ulp_uexp mult.commute)
  finally have b: "x / ulp x \<le> of_int (2 ^ 53)" "of_int (- (2 ^ 53)) \<le> x / ulp x"
    by (auto simp: divide_le_eq le_divide_eq abs_le_iff)
  have "rint (x / ulp x) \<le> 2 ^ 53" "- (2 ^ 53) \<le> rint (x / ulp x)"
    using rint_mono [OF b(1)] rint_mono [OF b(2)] by (simp_all only: rint_of_int)
  then have "\<bar>rint (x / ulp x)\<bar> \<le> 2 ^ 53" by linarith
  moreover have "y = of_int (rint (x / ulp x)) * 2 powi uexp x" by (simp only: y(1) rval_def ulp_uexp)
  moreover have "- 1074 \<le> uexp x" by (simp add: uexp_def)
  ultimately show ?thesis unfolding repr_def using y(2) by blast
qed

section \<open>Sums of volumes\<close>

text \<open>A value an operation can produce, and a non-negative one other than NaN.\<close>

definition fok :: "f64 \<Rightarrow> bool" where
  "fok a \<longleftrightarrow> (\<forall>x. a = Fin x \<longrightarrow> repr x)"

definition fpos :: "f64 \<Rightarrow> bool" where
  "fpos a \<longleftrightarrow> fok a \<and> Fin 0 \<le> a \<and> a \<noteq> NaN"

lemma rnd_not_NaN [simp]: "rnd x \<noteq> NaN" "NaN \<noteq> rnd x"
  by (simp_all add: rnd_rval)

lemma fok_rnd [simp]: "fok (rnd x)"
  by (auto simp: fok_def intro: rnd_repr_result)

lemma fok_rnd_eq: "fok (Fin x) \<Longrightarrow> rnd x = Fin x"
  by (simp add: fok_def rnd_repr)

lemma repr_0 [simp]: "repr 0"
  using repr_of_int [of 0] by simp

lemma rnd_0 [simp]: "rnd 0 = Fin 0"
  by (simp add: rnd_repr)

lemma fpos_0 [simp]: "fpos (Fin 0)"
  by (simp add: fpos_def fok_def)

lemma fpos_cases:
  assumes "fpos a"
  obtains (fin) x where "a = Fin x" "0 \<le> x" "rnd x = Fin x" | (inf) "a = PosInf"
  using assms by (cases a) (auto simp: fpos_def fok_rnd_eq)

lemma fadd_pos: "fpos a \<Longrightarrow> fpos b \<Longrightarrow> a \<le> fadd a b \<and> b \<le> fadd a b \<and> fpos (fadd a b)"
proof (elim fpos_cases)
  fix x y assume x: "a = Fin x" "0 \<le> x" "rnd x = Fin x" and y: "b = Fin y" "0 \<le> y" "rnd y = Fin y"
  have "Fin x \<le> rnd (x + y)" "Fin y \<le> rnd (x + y)" "Fin 0 \<le> rnd (x + y)"
    using rnd_mono [of x "x + y"] rnd_mono [of y "x + y"] rnd_mono [of 0 "x + y"] x y by simp_all
  then show ?thesis using x y by (simp add: fpos_def)
qed (simp_all add: fpos_def fok_def)

lemma foldl_fadd_pos:
  "fpos a \<Longrightarrow> \<forall>v\<in>set vs. fpos v \<Longrightarrow> fpos (foldl fadd a vs) \<and> a \<le> foldl fadd a vs"
proof (induction vs arbitrary: a)
  case (Cons v vs)
  have "fpos (fadd a v)" "a \<le> fadd a v" using fadd_pos [of a v] Cons.prems by auto
  with Cons.IH [of "fadd a v"] Cons.prems show ?case by auto
qed simp

lemma fsum_pos: "\<forall>v\<in>set vs. fpos v \<Longrightarrow> fpos (fsum vs)"
  unfolding fsum_def using foldl_fadd_pos [of "Fin 0" vs] by simp

lemma fsum_ge: 
  assumes "\<forall>v\<in>set vs. fpos v" "v \<in> set vs"
  shows "v \<le> fsum vs"
proof -
  obtain xs ys where vs: "vs = xs @ v # ys" using assms(2) by (meson split_list)
  have p: "fpos (fsum xs)" "fpos v" using assms(1) vs by (auto intro: fsum_pos)
  have "v \<le> fadd (fsum xs) v" "fpos (fadd (fsum xs) v)" using fadd_pos [OF p] by auto
  moreover have "fadd (fsum xs) v \<le> foldl fadd (fadd (fsum xs) v) ys"
    using assms(1) vs calculation(2) foldl_fadd_pos by auto
  ultimately show ?thesis by (simp add: vs fsum_def)
qed

lemma fpos_half_le: "fpos a \<Longrightarrow> fdiv a 2 \<le> a \<and> fpos (fdiv a 2)"
proof (elim fpos_cases)
  fix x assume x: "a = Fin x" "0 \<le> x" "rnd x = Fin x"
  have "rnd (x / 2) \<le> Fin x" "Fin 0 \<le> rnd (x / 2)"
    using rnd_mono [of "x / 2" x] rnd_mono [of 0 "x / 2"] x by simp_all
  then show ?thesis using x by (simp add: fpos_def)
qed (simp add: fpos_def fok_def)

lemma fle_fpos: "fpos b \<Longrightarrow> fle a b \<longleftrightarrow> a \<le> b"
  by (simp add: fle_def fpos_def)

text \<open>Half of the range: below it a sum of two prices does not overflow.\<close>

definition half_range :: f64 where
  "half_range = Fin (2 ^ 1023)"

text \<open>The midpoint of two prices lies between them.\<close>

lemma midpoint_between:
  assumes "fok (Fin x)" "fok (Fin y)" "0 \<le> x" "x \<le> y" "y < 2 ^ 1023"
  shows "Fin x \<le> fdiv (fadd (Fin x) (Fin y)) 2 \<and> fdiv (fadd (Fin x) (Fin y)) 2 \<le> Fin y"
proof -
  have dbl: "rnd (2 * z) = Fin (2 * z)" if z: "repr z" "0 \<le> z" "z < 2 ^ 1023" for z
  proof -
    obtain m e where me: "z = of_int m * 2 powi e" "\<bar>m\<bar> \<le> 2 ^ 53" "- 1074 \<le> e"
      using z(1) unfolding repr_def by blast
    have m: "2 * z = of_int m * 2 powi (e + 1)" unfolding me(1) by (simp add: power_int_add)
    have "(2::rat) ^ 1024 = 2 * 2 ^ 1023" by (rule power_Suc [of _ 1023, simplified])
    then have "\<bar>2 * z\<bar> < 2 ^ 1024" using z by (simp del: One_nat_def)
    moreover have "- 1074 \<le> e + 1" using me(3) by simp
    ultimately have "repr (2 * z)" unfolding repr_def using m me(2) by blast
    then show ?thesis by (rule rnd_repr)
  qed
  have rx: "repr x" "repr y" using assms by (simp_all add: fok_def)
  have lo: "Fin (2 * x) \<le> rnd (x + y)" and hi: "rnd (x + y) \<le> Fin (2 * y)"
    using rnd_mono [of "2 * x" "x + y"] rnd_mono [of "x + y" "2 * y"] dbl [OF rx(1)] dbl [OF rx(2)] assms by simp_all
  then obtain s where s: "rnd (x + y) = Fin s" "2 * x \<le> s" "s \<le> 2 * y" by (cases "rnd (x + y)") auto
  have "rnd x \<le> rnd (s / 2)" "rnd (s / 2) \<le> rnd y" using s by (simp_all add: rnd_mono)
  then show ?thesis using s assms by (simp add: fok_rnd_eq)
qed

text \<open>Integers below \<open>2 ^ 53\<close> add, halve and scale without rounding.\<close>

lemma repr_scaled: "\<bar>m\<bar> \<le> 2 ^ 53 \<Longrightarrow> - 1074 \<le> e \<Longrightarrow> e \<le> 0 \<Longrightarrow> repr (of_int m * 2 powi e)"
proof -
  assume m: "\<bar>m\<bar> \<le> 2 ^ 53" and e: "- 1074 \<le> e" "e \<le> 0"
  have "\<bar>of_int m * 2 powi e\<bar> \<le> \<bar>of_int m :: rat\<bar>"
    using power_int_increasing [of e 0 "2::rat"] e by (simp add: abs_mult mult_left_le)
  moreover have "\<bar>of_int m :: rat\<bar> < 2 ^ 1024" using repr_of_int [OF m] by (simp add: repr_def)
  ultimately have "\<bar>of_int m * 2 powi e :: rat\<bar> < 2 ^ 1024" by linarith
  then show ?thesis unfolding repr_def using m e by blast
qed

definition fnat :: "nat \<Rightarrow> f64" where
  "fnat n = Fin (of_nat n)"

lemma repr_nat_div: "n \<le> 2 ^ 53 \<Longrightarrow> repr (of_nat n) \<and> repr (of_nat n / 2) \<and> repr (of_nat n / 4)"
proof -
  assume n: "n \<le> 2 ^ 53"
  have "int n \<le> int (2 ^ 53)" using n by (simp only: of_nat_le_iff)
  then have i: "\<bar>int n\<bar> \<le> 2 ^ 53" by simp
  show ?thesis
    using repr_scaled [OF i, of 0] repr_scaled [OF i, of "- 1"] repr_scaled [OF i, of "- 2"]
    by (simp add: power_int_minus field_simps)
qed

lemma fnat_le [simp]: "fnat m \<le> fnat n \<longleftrightarrow> m \<le> n" "fnat m < fnat n \<longleftrightarrow> m < n" "fnat n \<noteq> NaN" "fnat m = fnat n \<longleftrightarrow> m = n"
  by (simp_all add: fnat_def)

lemma fpos_fnat: "n \<le> 2 ^ 53 \<Longrightarrow> fpos (fnat n)"
  using repr_nat_div [of n] by (simp add: fpos_def fok_def fnat_def)

lemma fadd_fnat: "m + n \<le> 2 ^ 53 \<Longrightarrow> fadd (fnat m) (fnat n) = fnat (m + n)"
  using rnd_repr [of "of_nat (m + n)"] repr_nat_div [of "m + n"] by (simp add: fnat_def)

lemma foldl_fadd_fnat:
  "m + sum_list ns \<le> 2 ^ 53 \<Longrightarrow> foldl fadd (fnat m) (map fnat ns) = fnat (m + sum_list ns)"
  by (induction ns arbitrary: m) (simp_all add: fadd_fnat add.assoc)

lemma fsum_fnat: "sum_list ns \<le> 2 ^ 53 \<Longrightarrow> fsum (map fnat ns) = fnat (sum_list ns)"
  using foldl_fadd_fnat [of 0 ns] by (simp add: fsum_def fnat_def)

lemma fraction_fnat:
  assumes "3 * n \<le> 2 ^ 53"
  shows "fdiv (fnat n) 2 = Fin (of_nat n / 2)" "fmul (Fin (1/4)) (fnat n) = Fin (of_nat n / 4)"
    "fmul (Fin (3/4)) (fnat n) = Fin (3 * of_nat n / 4)"
proof -
  have "n \<le> 2 ^ 53" using assms by linarith
  from repr_nat_div [OF this] repr_nat_div [OF assms]
  show "fdiv (fnat n) 2 = Fin (of_nat n / 2)" "fmul (Fin (1/4)) (fnat n) = Fin (of_nat n / 4)"
    "fmul (Fin (3/4)) (fnat n) = Fin (3 * of_nat n / 4)"
    by (simp_all add: fnat_def rnd_repr)
qed

text \<open>The result of one rounding, checked rather than computed: the nearest multiple of the last bit.\<close>

lemma rint_near: "\<bar>x - of_int m\<bar> < 1/2 \<Longrightarrow> rint x = m"
proof -
  assume x: "\<bar>x - of_int m\<bar> < 1/2"
  show ?thesis
  proof (cases "of_int m \<le> x")
    case True
    then have "\<lfloor>x\<rfloor> = m" using x by (intro floor_unique) simp_all
    then show ?thesis using x True by (simp add: rint_def Let_def)
  next
    case False
    then have "\<lfloor>x\<rfloor> = m - 1" using x by (intro floor_unique) simp_all
    then show ?thesis using x False by (simp add: rint_def Let_def)
  qed
qed

lemma rnd_nearest:
  assumes "2 powi k \<le> x" "x < 2 powi (k + 1)" "- 1022 \<le> k" "k < 1022" "\<bar>x / 2 powi (k - 52) - of_int m\<bar> < 1/2"
  shows "rnd x = Fin (of_int m * 2 powi (k - 52))"
proof -
  have p: "0 < x" using assms(1) powi_pos2 [of k] by linarith
  have "ilog2 \<bar>x\<bar> = k" using assms(1,2) p by (intro ilog2_unique) simp_all
  then have u: "ulp x = 2 powi (k - 52)" using assms(3) by (simp add: ulp_def)
  have v: "rval x = of_int m * 2 powi (k - 52)" unfolding rval_def u using rint_near [OF assms(5)] by simp
  have "rval x \<le> rval (2 powi (k + 1))" using assms(2) by (intro rval_mono) simp
  also have "\<dots> = 2 powi (k + 1)" using assms(3) repr_rval [of "2 powi (k + 1)" 1 "k + 1"] by simp
  also have "\<dots> < 2 powi 1024" using assms(4) by (intro powi_less2) simp
  finally have "\<not> 2 ^ 1024 \<le> rval x" by simp
  moreover have "0 \<le> rval x" using rval_mono [of 0 x] p repr_rval [of 0 0 0] by simp
  ultimately show ?thesis unfolding v [symmetric] rnd_rval by simp
qed

end
