(* ===== verification/FtsoCalc.thy ===== *)
theory FtsoCalc
  imports F64 "HOL-Library.Multiset"
begin

text \<open>
  \<open>ftso_provider/calculator.rs\<close>: the volume-trimmed, volume-weighted median of the price
  observations of one feed. The outer option of \<open>volume_trimmed_median\<close> is the panic of
  \<open>expect("prices are finite")\<close>; all arithmetic is the rounded one of theory F64.
\<close>

section \<open>The code\<close>

record observation =
  o_exchange :: string
  o_price :: f64
  o_volume :: f64

definition TRIM_LOW :: f64 where
  "TRIM_LOW = Fin (1/4)"

definition TRIM_HIGH :: f64 where
  "TRIM_HIGH = Fin (3/4)"

text \<open>The comparator panics on a NaN; with two or more prices each of them is compared.\<close>

definition sort_prices :: "observation list \<Rightarrow> observation list option" where
  "sort_prices obs = (if 2 \<le> length obs \<and> (\<exists>ob\<in>set obs. o_price ob = NaN) then None
     else Some (sort_key o_price obs))"

definition plain_median :: "observation list \<Rightarrow> f64" where
  "plain_median sorted_obs = (let mid = length sorted_obs div 2 in
     if length sorted_obs mod 2 = 0
     then fdiv (fadd (o_price (sorted_obs ! (mid - 1))) (o_price (sorted_obs ! mid))) 2
     else o_price (sorted_obs ! mid))"

fun trim_loop :: "f64 \<Rightarrow> f64 \<Rightarrow> f64 \<Rightarrow> observation list \<Rightarrow> (f64 \<times> f64) list" where
  "trim_loop low_cut high_cut cum [] = []"
| "trim_loop low_cut high_cut cum (ob # obs) =
     (let cum_after = fadd cum (o_volume ob); rest = trim_loop low_cut high_cut cum_after obs in
      if flt low_cut cum_after \<and> flt cum high_cut then (o_price ob, o_volume ob) # rest else rest)"

fun median_loop :: "f64 \<Rightarrow> f64 \<Rightarrow> (f64 \<times> f64) list \<Rightarrow> f64 option" where
  "median_loop half acc [] = None"
| "median_loop half acc ((price, volume) # kept) =
     (let acc = fadd acc volume in if fle half acc then Some price else median_loop half acc kept)"

definition weighted_median :: "(f64 \<times> f64) list \<Rightarrow> f64 option" where
  "weighted_median kept =
     (case median_loop (fdiv (fsum (map snd kept)) 2) (Fin 0) kept of
        Some p \<Rightarrow> Some p
      | None \<Rightarrow> (if kept = [] then None else Some (fst (last kept))))"

definition volume_trimmed_median :: "observation list \<Rightarrow> f64 option option" where
  "volume_trimmed_median obs =
     (if obs = [] then Some None
      else if length obs = 1 then Some (Some (o_price (obs ! 0)))
      else case sort_prices obs of
        None \<Rightarrow> None
      | Some sorted_obs \<Rightarrow>
          (let total_volume = fsum (map o_volume sorted_obs) in
           if fle total_volume (Fin 0) then Some (Some (plain_median sorted_obs))
           else
             (let kept = trim_loop (fmul TRIM_LOW total_volume) (fmul TRIM_HIGH total_volume) (Fin 0) sorted_obs;
                  kept = (if kept = [] then map (\<lambda>ob. (o_price ob, o_volume ob)) sorted_obs else kept)
              in Some (weighted_median kept))))"

text \<open>What the ticker filter of the node guarantees of every observation.\<close>

definition obs_ok :: "observation \<Rightarrow> bool" where
  "obs_ok ob \<longleftrightarrow> (\<exists>p v. o_price ob = Fin p \<and> o_volume ob = Fin v \<and> repr p \<and> repr v \<and> 0 < p \<and> 0 \<le> v)"

section \<open>Every branch returns an observed price or the midpoint of two\<close>

lemma trim_loop_subset: "set (trim_loop l h c obs) \<subseteq> (\<lambda>ob. (o_price ob, o_volume ob)) ` set obs"
  by (induction l h c obs rule: trim_loop.induct) (auto simp: Let_def)

lemma median_loop_mem: "median_loop h a kept = Some p \<Longrightarrow> p \<in> fst ` set kept"
  by (induction h a kept rule: median_loop.induct) (auto simp: Let_def split: if_splits)

lemma weighted_median_mem: "kept \<noteq> [] \<Longrightarrow> \<exists>p. weighted_median kept = Some p \<and> p \<in> fst ` set kept"
proof (cases "median_loop (fdiv (fsum (map snd kept)) 2) (Fin 0) kept")
  case None
  assume "kept \<noteq> []"
  then show ?thesis by (simp add: weighted_median_def None)
next
  case (Some p)
  then show ?thesis using median_loop_mem [OF Some] by (simp add: weighted_median_def)
qed

lemma sort_prices_ok: "\<forall>ob\<in>set obs. obs_ok ob \<Longrightarrow> sort_prices obs = Some (sort_key o_price obs)"
  by (auto simp: sort_prices_def obs_ok_def)

lemma weighted_branch:
  assumes "\<forall>ob\<in>set obs. obs_ok ob" "2 \<le> length obs" "\<not> fle (fsum (map o_volume (sort_key o_price obs))) (Fin 0)"
  shows "\<exists>ob\<in>set obs. volume_trimmed_median obs = Some (Some (o_price ob))"
proof -
  let ?s = "sort_key o_price obs" and ?f = "\<lambda>ob. (o_price ob, o_volume ob)"
  let ?T = "fsum (map o_volume ?s)"
  let ?k = "trim_loop (fmul TRIM_LOW ?T) (fmul TRIM_HIGH ?T) (Fin 0) ?s"
  let ?kept = "if ?k = [] then map ?f ?s else ?k"
  have ne: "obs \<noteq> []" "length obs \<noteq> 1" using assms(2) by auto
  have "?s \<noteq> []" using ne(1) by (metis length_0_conv length_sort)
  then have "?kept \<noteq> []" by simp
  then obtain p where p: "weighted_median ?kept = Some p" "p \<in> fst ` set ?kept"
    using weighted_median_mem by blast
  have "set ?kept \<subseteq> ?f ` set obs" using trim_loop_subset [of _ _ _ ?s] by auto
  then have "p \<in> o_price ` set obs" using p(2) by force
  then show ?thesis
    using p(1) assms(3) ne by (auto simp: volume_trimmed_median_def sort_prices_ok [OF assms(1)] Let_def)
qed

lemma zero_branch:
  assumes "\<forall>ob\<in>set obs. obs_ok ob" "2 \<le> length obs" "fle (fsum (map o_volume (sort_key o_price obs))) (Fin 0)"
    "\<forall>ob\<in>set obs. o_price ob < half_range"
  shows "\<exists>p. volume_trimmed_median obs = Some (Some p)
    \<and> (\<exists>ob\<in>set obs. o_price ob \<le> p) \<and> (\<exists>ob\<in>set obs. p \<le> o_price ob)"
proof -
  let ?s = "sort_key o_price obs" and ?m = "length obs div 2"
  have r: "volume_trimmed_median obs = Some (Some (plain_median ?s))"
    using assms(2,3) by (auto simp: volume_trimmed_median_def sort_prices_ok [OF assms(1)] Let_def)
  have m: "?m < length ?s" "?m - 1 < length ?s" "?m - 1 \<le> ?m" using assms(2) by auto
  have mem: "?s ! ?m \<in> set obs" "?s ! (?m - 1) \<in> set obs"
    using nth_mem [OF m(1)] nth_mem [OF m(2)] by simp_all
  obtain x y where xy: "o_price (?s ! (?m - 1)) = Fin x" "o_price (?s ! ?m) = Fin y"
    "repr x" "repr y" "0 < x" "y < 2 ^ 1023"
    using assms(1,4) mem unfolding half_range_def by (metis less_f64_simps(1) obs_ok_def)
  have "map o_price ?s ! (?m - 1) \<le> map o_price ?s ! ?m"
    by (rule sorted_nth_mono [OF sorted_sort_key m(3)]) (use m(1) in simp)
  then have "x \<le> y" using xy m by simp
  then have "Fin x \<le> fdiv (fadd (Fin x) (Fin y)) 2 \<and> fdiv (fadd (Fin x) (Fin y)) 2 \<le> Fin y"
    using xy by (intro midpoint_between) (auto simp: fok_def)
  then have "(\<exists>ob\<in>set obs. o_price ob \<le> plain_median ?s) \<and> (\<exists>ob\<in>set obs. plain_median ?s \<le> o_price ob)"
    using mem xy(1,2) by (auto simp: plain_median_def Let_def; metis order_refl)
  with r show ?thesis by blast
qed

section \<open>Exact volumes\<close>

text \<open>Volumes that are integers small enough for every sum and fraction of them to be exact.\<close>

definition vol :: "observation \<Rightarrow> nat" where
  "vol ob = (case o_volume ob of Fin x \<Rightarrow> nat \<lfloor>x\<rfloor> | _ \<Rightarrow> 0)"

definition vols :: "observation list \<Rightarrow> nat" where
  "vols obs = sum_list (map vol obs)"

definition exact_vol :: "observation \<Rightarrow> bool" where
  "exact_vol ob \<longleftrightarrow> o_volume ob = fnat (vol ob)"

definition price_vol :: "observation \<Rightarrow> f64 \<times> f64" where
  "price_vol ob = (o_price ob, o_volume ob)"

lemma vols_simps [simp]: "vols [] = 0" "vols (ob # obs) = vol ob + vols obs" "vols (xs @ ys) = vols xs + vols ys"
  by (simp_all add: vols_def)

lemma map_volume: "\<forall>ob\<in>set obs. exact_vol ob \<Longrightarrow> map o_volume obs = map fnat (map vol obs)"
  by (simp add: exact_vol_def)

text \<open>The cut conditions on exact volumes.\<close>

abbreviation (input) low_of :: "nat \<Rightarrow> f64" where "low_of T \<equiv> Fin (of_nat T / 4)"
abbreviation (input) high_of :: "nat \<Rightarrow> f64" where "high_of T \<equiv> Fin (3 * of_nat T / 4)"

lemma cut_iff: "flt (low_of T) (fnat c) \<longleftrightarrow> T < 4 * c" "flt (fnat c) (high_of T) \<longleftrightarrow> 4 * c < 3 * T"
proof -
  have "(of_nat T / 4 < (of_nat c :: rat)) \<longleftrightarrow> of_nat T < (of_nat (4 * c) :: rat)" by auto
  moreover have "((of_nat c :: rat) < 3 * of_nat T / 4) \<longleftrightarrow> of_nat (4 * c) < (of_nat (3 * T) :: rat)" by auto
  ultimately show "flt (low_of T) (fnat c) \<longleftrightarrow> T < 4 * c" "flt (fnat c) (high_of T) \<longleftrightarrow> 4 * c < 3 * T"
    by (simp_all add: flt_def fnat_def del: of_nat_mult)
qed

lemma trim_step:
  assumes "exact_vol ob" "c + vol ob \<le> 2 ^ 53"
  shows "trim_loop (low_of T) (high_of T) (fnat c) (ob # obs)
    = (if T < 4 * (c + vol ob) \<and> 4 * c < 3 * T then [price_vol ob] else [])
      @ trim_loop (low_of T) (high_of T) (fnat (c + vol ob)) obs"
  using assms by (simp add: Let_def cut_iff fadd_fnat exact_vol_def price_vol_def)

declare trim_loop.simps(2) [simp del]

lemma trim_above:
  assumes "\<forall>ob\<in>set obs. exact_vol ob" "c + vols obs \<le> 2 ^ 53" "3 * T \<le> 4 * c"
  shows "trim_loop (low_of T) (high_of T) (fnat c) obs = []"
  using assms
proof (induction obs arbitrary: c)
  case (Cons ob obs)
  then show ?case using trim_step [of ob c T obs] Cons.IH [of "c + vol ob"] by (simp add: add.assoc)
qed simp

lemma trim_high:
  assumes "\<forall>ob\<in>set obs. exact_vol ob" "c + vols obs = T" "T \<le> 2 ^ 53" "obs \<noteq> []"
    "T < 4 * (c + vol (hd obs))" "4 * c < 3 * T"
  shows "\<exists>ks hs. obs = ks @ hs \<and> ks \<noteq> [] \<and> hd ks = hd obs
    \<and> trim_loop (low_of T) (high_of T) (fnat c) obs = map price_vol ks
    \<and> 4 * vols hs \<le> T \<and> T < 4 * (vols hs + vol (last ks))"
  using assms
proof (induction obs arbitrary: c)
  case (Cons ob obs)
  let ?c = "c + vol ob"
  have step: "trim_loop (low_of T) (high_of T) (fnat c) (ob # obs)
      = price_vol ob # trim_loop (low_of T) (high_of T) (fnat ?c) obs"
    using Cons.prems trim_step [of ob c T obs] by simp
  show ?case
  proof (cases "4 * ?c < 3 * T")
    case True
    then have ne: "obs \<noteq> []" using Cons.prems(2) by (cases obs) auto
    have "\<exists>ks hs. obs = ks @ hs \<and> ks \<noteq> [] \<and> hd ks = hd obs
        \<and> trim_loop (low_of T) (high_of T) (fnat ?c) obs = map price_vol ks
        \<and> 4 * vols hs \<le> T \<and> T < 4 * (vols hs + vol (last ks))"
      using Cons.prems True ne by (intro Cons.IH) auto
    then obtain ks hs where "obs = ks @ hs" "ks \<noteq> []"
      "trim_loop (low_of T) (high_of T) (fnat ?c) obs = map price_vol ks"
      "4 * vols hs \<le> T \<and> T < 4 * (vols hs + vol (last ks))" by blast
    then show ?thesis using step by (intro ex2I [of _ "ob # ks" hs]) simp
  next
    case False
    then have "trim_loop (low_of T) (high_of T) (fnat ?c) obs = []"
      using Cons.prems by (intro trim_above) auto
    then show ?thesis using step False Cons.prems by (intro ex2I [of _ "[ob]" obs]) auto
  qed
qed simp

lemma trim_exact:
  assumes "\<forall>ob\<in>set obs. exact_vol ob" "c + vols obs = T" "T \<le> 2 ^ 53" "0 < T" "4 * c \<le> T"
  shows "\<exists>ls ks hs. obs = ls @ ks @ hs \<and> ks \<noteq> []
    \<and> trim_loop (low_of T) (high_of T) (fnat c) obs = map price_vol ks
    \<and> 4 * (c + vols ls) \<le> T \<and> T < 4 * (c + vols ls + vol (hd ks))
    \<and> 4 * vols hs \<le> T \<and> T < 4 * (vols hs + vol (last ks))"
  using assms
proof (induction obs arbitrary: c)
  case (Cons ob obs)
  let ?c = "c + vol ob"
  show ?case
  proof (cases "T < 4 * ?c")
    case True
    obtain ks hs where "ob # obs = ks @ hs" "ks \<noteq> []" "hd ks = ob"
      "trim_loop (low_of T) (high_of T) (fnat c) (ob # obs) = map price_vol ks"
      "4 * vols hs \<le> T \<and> T < 4 * (vols hs + vol (last ks))"
      using trim_high [OF Cons.prems(1,2,3)] True Cons.prems(4,5) by auto
    then show ?thesis using True Cons.prems(5) by (intro ex3I [of _ "[]" ks hs]) simp
  next
    case False
    obtain ls ks hs where "obs = ls @ ks @ hs" "ks \<noteq> []"
      "trim_loop (low_of T) (high_of T) (fnat ?c) obs = map price_vol ks"
      "4 * (?c + vols ls) \<le> T \<and> T < 4 * (?c + vols ls + vol (hd ks))"
      "4 * vols hs \<le> T \<and> T < 4 * (vols hs + vol (last ks))"
      using Cons.IH [of ?c] Cons.prems False by auto
    then show ?thesis
      using False Cons.prems trim_step [of ob c T obs]
      by (intro ex3I [of _ "ob # ls" ks hs]) (simp add: add.assoc)
  qed
qed simp

lemma median_step:
  "median_loop half acc (price_vol ob # kept) =
    (if fle half (fadd acc (o_volume ob)) then Some (o_price ob)
     else median_loop half (fadd acc (o_volume ob)) kept)"
  by (simp add: price_vol_def Let_def)

lemma median_loop_exact:
  assumes "\<forall>ob\<in>set ks. exact_vol ob" "a + vols ks = K" "K \<le> 2 ^ 53" "2 * a < K"
  shows "\<exists>xs m ys. ks = xs @ m # ys
    \<and> median_loop (Fin (of_nat K / 2)) (fnat a) (map price_vol ks) = Some (o_price m)
    \<and> 2 * (a + vols xs) < K \<and> K \<le> 2 * (a + vols xs + vol m)"
  using assms
proof (induction ks arbitrary: a)
  case (Cons ob ks)
  let ?a = "a + vol ob"
  have acc: "fadd (fnat a) (o_volume ob) = fnat ?a"
    using Cons.prems by (simp add: exact_vol_def fadd_fnat)
  have "(of_nat K / 2 \<le> (of_nat ?a :: rat)) \<longleftrightarrow> of_nat K \<le> (of_nat (2 * ?a) :: rat)" by auto
  then have half: "fle (Fin (of_nat K / 2)) (fnat ?a) \<longleftrightarrow> K \<le> 2 * ?a"
    by (simp add: fle_def fnat_def del: of_nat_mult of_nat_add)
  show ?case
  proof (cases "K \<le> 2 * ?a")
    case True
    then show ?thesis using Cons.prems(4) acc half
      by (intro ex3I [of _ "[]" ob ks]) (simp add: median_step)
  next
    case False
    obtain xs m ys where "ks = xs @ m # ys"
      "median_loop (Fin (of_nat K / 2)) (fnat ?a) (map price_vol ks) = Some (o_price m)"
      "2 * (?a + vols xs) < K \<and> K \<le> 2 * (?a + vols xs + vol m)"
      using Cons.IH [of ?a] Cons.prems False by auto
    then show ?thesis using False acc half
      by (intro ex3I [of _ "ob # xs" m ys]) (simp add: median_step add.assoc)
  qed
qed simp

lemma fsum_exact:
  "\<forall>ob\<in>set obs. exact_vol ob \<Longrightarrow> vols obs \<le> 2 ^ 53 \<Longrightarrow> fsum (map o_volume obs) = fnat (vols obs)"
  using fsum_fnat [of "map vol obs"] by (simp add: map_volume vols_def)

lemma median_exact_branch:
  assumes "\<forall>ob\<in>set obs. obs_ok ob \<and> exact_vol ob" "2 \<le> length obs" "3 * vols obs \<le> 2 ^ 53" "0 < vols obs"
  shows "\<exists>ls ks hs xs m ys. sort_key o_price obs = ls @ (xs @ m # ys) @ hs \<and> ks = xs @ m # ys
    \<and> volume_trimmed_median obs = Some (Some (o_price m))
    \<and> 4 * vols ls \<le> vols obs \<and> vols obs < 4 * (vols ls + vol (hd ks))
    \<and> 4 * vols hs \<le> vols obs \<and> vols obs < 4 * (vols hs + vol (last ks))
    \<and> 2 * vols xs < vols ks \<and> vols ks \<le> 2 * (vols xs + vol m)"
proof -
  let ?s = "sort_key o_price obs" and ?T = "vols obs"
  have ex: "\<forall>ob\<in>set ?s. exact_vol ob" and ok: "\<forall>ob\<in>set obs. obs_ok ob" using assms(1) by simp_all
  have T: "vols ?s = ?T"
    unfolding vols_def by (metis mset_map mset_sort sum_mset_sum_list)
  have b: "?T \<le> 2 ^ 53" using assms(3) by simp
  have sum: "fsum (map o_volume ?s) = fnat ?T"
    using fsum_exact [OF ex] T b by simp
  have cuts: "fmul TRIM_LOW (fnat ?T) = low_of ?T" "fmul TRIM_HIGH (fnat ?T) = high_of ?T"
    using fraction_fnat [OF assms(3)] by (simp_all add: TRIM_LOW_def TRIM_HIGH_def)
  obtain ls ks hs where k: "?s = ls @ ks @ hs" "ks \<noteq> []"
    "trim_loop (low_of ?T) (high_of ?T) (fnat 0) ?s = map price_vol ks"
    "4 * vols ls \<le> ?T \<and> ?T < 4 * (vols ls + vol (hd ks))"
    "4 * vols hs \<le> ?T \<and> ?T < 4 * (vols hs + vol (last ks))"
    using trim_exact [OF ex, of 0 ?T] T b assms(4) by auto
  have kex: "\<forall>ob\<in>set ks. exact_vol ob" using ex k(1) by auto
  have K: "vols ks \<le> ?T" using T k(1) by simp
  have K0: "0 < vols ks"
    using k(2,4) by (cases ks) auto
  have "3 * vols ks \<le> 2 ^ 53" using K assms(3) by linarith
  then have half: "fdiv (fsum (map snd (map price_vol ks))) 2 = Fin (of_nat (vols ks) / 2)"
    using fsum_exact [OF kex] fraction_fnat(1) [of "vols ks"] K b by (simp add: price_vol_def comp_def)
  obtain xs m ys where m: "ks = xs @ m # ys"
    "median_loop (Fin (of_nat (vols ks) / 2)) (fnat 0) (map price_vol ks) = Some (o_price m)"
    "2 * vols xs < vols ks \<and> vols ks \<le> 2 * (vols xs + vol m)"
    using median_loop_exact [OF kex, of 0 "vols ks"] K b K0 by auto
  have "obs \<noteq> []" "length obs \<noteq> 1" using assms(2) by auto
  moreover have "\<not> fle (fnat ?T) (Fin 0)" using assms(4) by (simp add: fle_def fnat_def)
  moreover have "fnat 0 = Fin 0" by (simp add: fnat_def)
  ultimately have "volume_trimmed_median obs = Some (Some (o_price m))"
    using k(2,3) m(2) half
    by (simp add: volume_trimmed_median_def sort_prices_ok [OF ok] sum cuts Let_def weighted_median_def)
  with k m show ?thesis by blast
qed


lemma vols_mset: "mset xs = mset ys \<Longrightarrow> vols xs = vols ys"
  unfolding vols_def by (metis mset_map sum_mset_sum_list)

lemma vols_filter_ge: "mset (xs @ zs) = mset obs \<Longrightarrow> \<forall>ob\<in>set xs. P ob \<Longrightarrow> vols xs \<le> vols (filter P obs)"
proof -
  assume m: "mset (xs @ zs) = mset obs" and p: "\<forall>ob\<in>set xs. P ob"
  have "filter P xs = xs" using p by simp
  then have "vols (filter P (xs @ zs)) = vols xs + vols (filter P zs)" by simp
  moreover have "vols (filter P (xs @ zs)) = vols (filter P obs)" by (rule vols_mset) (metis m mset_filter)
  ultimately show ?thesis by simp
qed

text \<open>Observations with integer prices and volumes, for the witnesses.\<close>

definition mk_obs :: "nat \<Rightarrow> nat \<Rightarrow> observation" where
  "mk_obs p v = \<lparr>o_exchange = ''x'', o_price = fnat p, o_volume = fnat v\<rparr>"

definition w_obs :: "observation list" where
  "w_obs = [mk_obs 100 2, mk_obs 10 4, mk_obs 11 4]"

lemma mk_obs_simps [simp]: "o_price (mk_obs p v) = fnat p" "o_volume (mk_obs p v) = fnat v" "vol (mk_obs p v) = v"
  "exact_vol (mk_obs p v)"
  by (simp_all add: mk_obs_def vol_def exact_vol_def fnat_def)

lemma mk_obs_ok: "0 < p \<Longrightarrow> p \<le> 2 ^ 53 \<Longrightarrow> v \<le> 2 ^ 53 \<Longrightarrow> obs_ok (mk_obs p v)"
  using repr_nat_div [of p] repr_nat_div [of v] by (simp add: obs_ok_def mk_obs_def fnat_def)

lemma w_obs_ok: "\<forall>ob\<in>set w_obs. obs_ok ob \<and> exact_vol ob" "3 * vols w_obs \<le> 2 ^ 53" "0 < vols w_obs"
  by (simp_all add: w_obs_def mk_obs_ok)

lemma fnat_0: "Fin 0 = fnat 0"
  by (simp add: fnat_def)

lemmas median_ops = sort_prices_def fsum_def fnat_0 fadd_fnat fraction_fnat TRIM_LOW_def TRIM_HIGH_def fle_def flt_def
  trim_loop.simps(2) Let_def

text \<open>An evaluation by stages: sorting, the total, the cut, and then the median of what is kept.\<close>

lemma median_by_stages:
  assumes "sort_prices obs = Some (ob # ob' # obs')" "fsum (map o_volume (ob # ob' # obs')) = T" "\<not> fle T (Fin 0)"
    and "trim_loop (fmul TRIM_LOW T) (fmul TRIM_HIGH T) (Fin 0) (ob # ob' # obs') = k # kept"
    and "weighted_median (k # kept) = r" "2 \<le> length obs"
  shows "volume_trimmed_median obs = Some r"
proof -
  have "obs \<noteq> []" "length obs \<noteq> 1" using assms(6) by auto
  then show ?thesis unfolding volume_trimmed_median_def by (simp add: assms(1-5) Let_def del: list.map)
qed

section \<open>Properties of the median\<close>

lemma median_total_obs:
  assumes "\<forall>ob\<in>set obs. obs_ok ob"
  shows "\<exists>r. volume_trimmed_median obs = Some r \<and> (r = None \<longleftrightarrow> obs = [])
    \<and> (\<forall>p. r = Some p \<longrightarrow>
        ((\<exists>ob\<in>set obs. Fin 0 < o_volume ob) \<longrightarrow> (\<exists>ob\<in>set obs. p = o_price ob))
        \<and> ((\<forall>ob\<in>set obs. o_price ob < half_range) \<longrightarrow>
            (\<exists>ob\<in>set obs. o_price ob \<le> p) \<and> (\<exists>ob\<in>set obs. p \<le> o_price ob)))"
proof -
  have pos: "\<forall>ob\<in>set (sort_key o_price obs). fpos (o_volume ob)"
    using assms by (auto simp: obs_ok_def fpos_def fok_def)
  consider (e) "obs = []" | (s) "length obs = 1" | (m) "2 \<le> length obs"
    by (cases obs rule: remdups_adj.cases) auto
  then show ?thesis
  proof cases
    case e
    then show ?thesis by (simp add: volume_trimmed_median_def)
  next
    case s
    then have "obs ! 0 \<in> set obs" "obs \<noteq> []" by auto
    with s show ?thesis by (auto simp: volume_trimmed_median_def)
  next
    case m
    then have ne: "obs \<noteq> []" by auto
    let ?T = "fsum (map o_volume (sort_key o_price obs))"
    show ?thesis
    proof (cases "fle ?T (Fin 0)")
      case False
      then obtain ob where ob: "ob \<in> set obs" "volume_trimmed_median obs = Some (Some (o_price ob))"
        using weighted_branch [OF assms m] by blast
      show ?thesis unfolding ob(2) using ob(1) ne by (intro exI [of _ "Some (o_price ob)"]) auto
    next
      case True
      have z: "\<not> Fin 0 < o_volume ob" if ob: "ob \<in> set obs" for ob
      proof -
        have "o_volume ob \<le> ?T" using ob pos by (intro fsum_ge) auto
        also have "\<dots> \<le> Fin 0" using True by (simp add: fle_def)
        finally show ?thesis by simp
      qed
      obtain p where p: "volume_trimmed_median obs = Some (Some p)"
        using m ne True by (auto simp: volume_trimmed_median_def sort_prices_ok [OF assms] Let_def)
      show ?thesis
        unfolding p using z ne zero_branch [OF assms m True] p
        by (intro exI [of _ "Some p"]) auto
    qed
  qed
qed

text \<open>On the observations the ticker filter lets through, the median never panics and is
  missing exactly for no observation; with any volume at all it is one of the observed
  prices, and without (the fallback to the plain median, rounding included) it still lies
  between two of them.\<close>

lemma median_total:
  assumes "\<forall>ob\<in>set obs. obs_ok ob"
  shows "\<exists>r. volume_trimmed_median obs = Some r \<and> (r = None \<longleftrightarrow> obs = [])
    \<and> (\<forall>p. r = Some p \<longrightarrow>
        ((\<exists>ob\<in>set obs. Fin 0 < o_volume ob) \<longrightarrow> (\<exists>ob\<in>set obs. p = o_price ob))
        \<and> ((\<forall>ob\<in>set obs. o_price ob < half_range) \<longrightarrow>
            (\<exists>ob\<in>set obs. o_price ob \<le> p) \<and> (\<exists>ob\<in>set obs. p \<le> o_price ob)))"
  using assms by (rule median_total_obs)

lemma median_total_witness:
  "\<exists>p. volume_trimmed_median w_obs = Some (Some p) \<and> (\<exists>ob\<in>set w_obs. p = o_price ob)"
proof -
  have "\<forall>ob\<in>set w_obs. obs_ok ob" "\<exists>ob\<in>set w_obs. Fin 0 < o_volume ob" "w_obs \<noteq> []"
    using w_obs_ok(1) by (simp_all add: w_obs_def fnat_0)
  with median_total [of w_obs] show ?thesis by blast
qed

text \<open>C13: with volumes whose sums are exact, the result is the price the algorithm promises:
  from both ends of the observations in price order the longest runs holding at most a
  quarter of the volume are dropped, and the result is the price at which the cumulative
  volume of the rest first reaches half of it.\<close>

theorem median_exact:
  assumes "\<forall>ob\<in>set obs. obs_ok ob \<and> exact_vol ob" "3 * vols obs \<le> 2 ^ 53" "0 < vols obs"
  shows "\<exists>ls xs m ys hs. sort_key o_price obs = ls @ xs @ m # ys @ hs
    \<and> volume_trimmed_median obs = Some (Some (o_price m))
    \<and> 4 * vols ls \<le> vols obs \<and> vols obs < 4 * (vols ls + vol (hd (xs @ [m])))
    \<and> 4 * vols hs \<le> vols obs \<and> vols obs < 4 * (vols hs + vol (last (m # ys)))
    \<and> 2 * vols xs < vols (xs @ m # ys) \<and> vols (xs @ m # ys) \<le> 2 * (vols xs + vol m)"
proof (cases "2 \<le> length obs")
  case True
  from median_exact_branch [OF assms(1) True assms(2,3)]
  obtain ls ks hs xs m ys where r: "sort_key o_price obs = ls @ (xs @ m # ys) @ hs" "ks = xs @ m # ys"
    "volume_trimmed_median obs = Some (Some (o_price m))"
    "4 * vols ls \<le> vols obs \<and> vols obs < 4 * (vols ls + vol (hd ks))"
    "4 * vols hs \<le> vols obs \<and> vols obs < 4 * (vols hs + vol (last ks))"
    "2 * vols xs < vols ks \<and> vols ks \<le> 2 * (vols xs + vol m)" by metis
  have "hd ks = hd (xs @ [m])" "last ks = last (m # ys)" by (simp_all add: r(2) hd_append)
  with r show ?thesis by (intro ex5I [of _ ls xs m ys hs]) simp
next
  case False
  with assms(3) obtain ob where ob: "obs = [ob]" by (cases obs rule: remdups_adj.cases) auto
  then show ?thesis using assms(3)
    by (intro ex5I [of _ "[]" "[]" ob "[]" "[]"]) (simp add: volume_trimmed_median_def)
qed

theorem median_exact_witness:
  "\<exists>ls xs m ys hs. sort_key o_price w_obs = ls @ xs @ m # ys @ hs
    \<and> volume_trimmed_median w_obs = Some (Some (o_price m)) \<and> 4 * vols ls \<le> vols w_obs"
  using median_exact [OF w_obs_ok] by blast

text \<open>C29: quotes below or above an interval move the result out of it only if they carry more
  than a quarter of the total volume; thin outliers on both sides at once change nothing.\<close>

theorem median_outliers:
  assumes "\<forall>ob\<in>set obs. obs_ok ob \<and> exact_vol ob" "3 * vols obs \<le> 2 ^ 53" "0 < vols obs"
    and "4 * vols (filter (\<lambda>ob. o_price ob < lo) obs) \<le> vols obs"
    and "4 * vols (filter (\<lambda>ob. hi < o_price ob) obs) \<le> vols obs"
  shows "\<exists>p. volume_trimmed_median obs = Some (Some p) \<and> lo \<le> p \<and> p \<le> hi"
proof -
  obtain ls xs m ys hs where r: "sort_key o_price obs = ls @ xs @ m # ys @ hs"
    "volume_trimmed_median obs = Some (Some (o_price m))"
    "vols obs < 4 * (vols ls + vol (hd (xs @ [m])))" "vols obs < 4 * (vols hs + vol (last (m # ys)))"
    using median_exact [OF assms(1-3)] by metis
  have m: "mset (ls @ xs @ m # ys @ hs) = mset obs" unfolding r(1) [symmetric] by simp
  have s: "sorted (map o_price (ls @ xs @ m # ys @ hs))" unfolding r(1) [symmetric] by (rule sorted_sort_key)
  define a where "a = hd (xs @ [m])"
  define b where "b = last (m # ys)"
  obtain xs' where a: "xs @ [m] = a # xs'" unfolding a_def by (cases xs) auto
  obtain ys' where b: "m # ys = ys' @ [b]" unfolding b_def by (metis append_butlast_last_id list.distinct(1))
  have "\<not> o_price m < lo"
  proof
    assume l: "o_price m < lo"
    have "\<forall>ob\<in>set (ls @ [a]). o_price ob \<le> o_price m"
      using s a by (cases xs) (auto simp: sorted_append)
    then have "\<forall>ob\<in>set (ls @ [a]). o_price ob < lo" using l by fastforce
    moreover have "mset ((ls @ [a]) @ xs' @ ys @ hs) = mset obs"
      using m arg_cong [OF a, of "\<lambda>zs. mset (ls @ zs @ ys @ hs)"] by simp
    ultimately have "vols (ls @ [a]) \<le> vols (filter (\<lambda>ob. o_price ob < lo) obs)" by (intro vols_filter_ge)
    then show False using assms(4) r(3) by (simp add: a_def)
  qed
  moreover have "\<not> hi < o_price m"
  proof
    assume h: "hi < o_price m"
    have "\<forall>ob\<in>set (b # hs). o_price m \<le> o_price ob"
      using s b by (cases ys rule: rev_cases) (auto simp: sorted_append)
    then have "\<forall>ob\<in>set (b # hs). hi < o_price ob" using h by fastforce
    moreover have "mset ((b # hs) @ ls @ xs @ ys') = mset obs"
      using m arg_cong [OF b, of "\<lambda>zs. mset (ls @ xs @ zs @ hs)"] by simp
    ultimately have "vols (b # hs) \<le> vols (filter (\<lambda>ob. hi < o_price ob) obs)" by (intro vols_filter_ge)
    then show False using assms(5) r(4) by (simp add: b_def)
  qed
  ultimately show ?thesis using r(2) by (simp add: not_less)
qed

theorem median_outliers_witness:
  "\<exists>p. volume_trimmed_median w_obs = Some (Some p) \<and> fnat 10 \<le> p \<and> p \<le> fnat 11"
proof -
  have "4 * vols (filter (\<lambda>ob. o_price ob < fnat 10) w_obs) \<le> vols w_obs"
    "4 * vols (filter (\<lambda>ob. fnat 11 < o_price ob) w_obs) \<le> vols w_obs"
    by (simp_all add: w_obs_def)
  from median_outliers [OF w_obs_ok this] show ?thesis .
qed

text \<open>When all prices differ, the order in which the observations arrive does not matter,
  panics included.\<close>

lemma median_order_free:
  assumes "mset obs = mset obs'" "distinct (map o_price obs)"
  shows "volume_trimmed_median obs = volume_trimmed_median obs'"
proof -
  have inj: "inj_on o_price (set obs)" using assms(2) by (simp add: distinct_map)
  have "sort_key o_price obs = sort_key o_price obs'"
    using assms(1) by (intro sort_key_inj_key_eq inj) simp_all
  moreover have l: "length obs = length obs'" "set obs = set obs'"
    using mset_eq_length [OF assms(1)] mset_eq_setD [OF assms(1)] .
  ultimately have p: "sort_prices obs = sort_prices obs'" by (simp only: sort_prices_def)
  show ?thesis
  proof (cases "length obs = 1")
    case True
    then obtain ob ob' where "obs = [ob]" "obs' = [ob']" using l(1) by (metis length_Suc_conv length_0_conv One_nat_def)
    then show ?thesis using l(2) by simp
  next
    case False
    moreover have "obs = [] \<longleftrightarrow> obs' = []" using l(1) by auto
    ultimately show ?thesis unfolding volume_trimmed_median_def l(1) p by simp
  qed
qed

lemma median_order_free_witness:
  "volume_trimmed_median [mk_obs 11 4, mk_obs 100 2, mk_obs 10 4] = volume_trimmed_median w_obs"
  by (rule median_order_free) (simp_all add: w_obs_def)

text \<open>When prices tie, the order does matter: the two orders of the same three quotes have
  different medians, because a quote is cut by where its own volume falls. The caller
  collects the quotes from a hash map, so its order is not fixed.\<close>

lemma median_order_dependent:
  "volume_trimmed_median [mk_obs 10 1, mk_obs 10 4, mk_obs 20 5] = Some (Some (fnat 20))
   \<and> volume_trimmed_median [mk_obs 10 4, mk_obs 10 1, mk_obs 20 5] = Some (Some (fnat 10))"
proof
  show "volume_trimmed_median [mk_obs 10 1, mk_obs 10 4, mk_obs 20 5] = Some (Some (fnat 20))"
    by (rule median_by_stages [where T = "fnat 10" and ob = "mk_obs 10 1" and ob' = "mk_obs 10 4" and obs' = "[mk_obs 20 5]"
          and k = "(fnat 10, fnat 4)" and kept = "[(fnat 20, fnat 5)]"];
        (simp add: median_ops weighted_median_def del: fadd.simps fmul.simps fdiv.simps); simp add: fnat_def)
  show "volume_trimmed_median [mk_obs 10 4, mk_obs 10 1, mk_obs 20 5] = Some (Some (fnat 10))"
    by (rule median_by_stages [where T = "fnat 10" and ob = "mk_obs 10 4" and ob' = "mk_obs 10 1" and obs' = "[mk_obs 20 5]"
          and k = "(fnat 10, fnat 4)" and kept = "[(fnat 10, fnat 1), (fnat 20, fnat 5)]"];
        (simp add: median_ops weighted_median_def del: fadd.simps fmul.simps fdiv.simps); simp add: fnat_def)
qed

end
