(* ===== verification/Ticker.thy ===== *)
theory Ticker
  imports F64 "HOL-Library.Monad_Syntax"
begin

text \<open>
  The ticker parsers of \<open>ftso_provider/node.rs\<close>: one WebSocket message of one exchange to
  at most one ticker. The JSON text parser is a parameter; the JSON value, the number parser
  \<open>str::parse::<f64>\<close> and \<open>String::from_utf8_lossy\<close> are modelled.
\<close>

section \<open>JSON values\<close>

datatype json = JNull | JBool bool | JNum f64 | JStr string | JArr "json list" | JObj "(string \<times> json) list"

fun jget :: "json \<Rightarrow> string \<Rightarrow> json option" where
  "jget (JObj kvs) k = map_of kvs k"
| "jget _ k = None"

fun as_str :: "json \<Rightarrow> string option" where
  "as_str (JStr s) = Some s"
| "as_str _ = None"

fun as_array :: "json \<Rightarrow> json list option" where
  "as_array (JArr vs) = Some vs"
| "as_array _ = None"

fun as_object :: "json \<Rightarrow> json option" where
  "as_object (JObj kvs) = Some (JObj kvs)"
| "as_object _ = None"

fun as_f64 :: "json \<Rightarrow> f64 option" where
  "as_f64 (JNum x) = Some x"
| "as_f64 _ = None"

definition jnth :: "json list \<Rightarrow> nat \<Rightarrow> json option" where
  "jnth vs i = (if i < length vs then Some (vs ! i) else None)"

text \<open>Every number in a parsed value is an \<open>f64\<close>.\<close>

fun json_ok :: "json \<Rightarrow> bool" where
  "json_ok (JNum x) = fok x"
| "json_ok (JArr vs) = (\<forall>v\<in>set vs. json_ok v)"
| "json_ok (JObj kvs) = (\<forall>kv\<in>set kvs. json_ok (snd kv))"
| "json_ok _ = True"

section \<open>Numbers and text of the standard library\<close>

definition digit_char :: "char \<Rightarrow> bool" where
  "digit_char c \<longleftrightarrow> CHR ''0'' \<le> c \<and> c \<le> CHR ''9''"

definition digits_nat :: "string \<Rightarrow> nat" where
  "digits_nat ds = foldl (\<lambda>n d. 10 * n + (of_char d - 48)) 0 ds"

definition lower_char :: "char \<Rightarrow> char" where
  "lower_char c = (if CHR ''A'' \<le> c \<and> c \<le> CHR ''Z'' then char_of (of_char c + 32 :: nat) else c)"

fun strip_sign :: "string \<Rightarrow> bool \<times> string" where
  "strip_sign (c # s) = (if c = CHR ''-'' then (True, s) else if c = CHR ''+'' then (False, s) else (False, c # s))"
| "strip_sign [] = (False, [])"

text \<open>The exponent part: absent, or \<open>e\<close> with an optional sign and at least one digit.\<close>

fun parse_exponent :: "string \<Rightarrow> int option" where
  "parse_exponent [] = Some 0"
| "parse_exponent (c # s) =
     (if c = CHR ''e'' \<or> c = CHR ''E''
      then (case strip_sign s of (neg, ds) \<Rightarrow>
        if ds \<noteq> [] \<and> list_all digit_char ds
        then Some (if neg then - int (digits_nat ds) else int (digits_nat ds)) else None)
      else None)"

definition parse_decimal :: "string \<Rightarrow> rat option" where
  "parse_decimal s =
     (let ip = takeWhile digit_char s;
          r = dropWhile digit_char s;
          frac = (if r \<noteq> [] \<and> hd r = CHR ''.'' then takeWhile digit_char (tl r) else []);
          r' = (if r \<noteq> [] \<and> hd r = CHR ''.'' then dropWhile digit_char (tl r) else r)
      in if ip = [] \<and> frac = [] then None
         else do {
           e \<leftarrow> parse_exponent r';
           Some (of_nat (digits_nat (ip @ frac)) * 10 powi (e - int (length frac)))
         })"

definition parse_f64 :: "string \<Rightarrow> f64 option" where
  "parse_f64 s =
     (case strip_sign s of (neg, t) \<Rightarrow>
        let l = map lower_char t in
        if l = ''inf'' \<or> l = ''infinity'' then Some (if neg then NegInf else PosInf)
        else if l = ''nan'' then Some NaN
        else (case parse_decimal t of None \<Rightarrow> None
          | Some q \<Rightarrow> Some (rnd (if neg then - q else q))))"

text \<open>
  \<open>from_utf8_lossy\<close>: a byte that cannot start a character, or the longest proper beginning of
  one, is replaced by the three bytes of U+FFFD. \<open>cont_ranges\<close> gives the ranges of the bytes that
  must follow a first byte; \<open>None\<close> for a byte that starts nothing.
\<close>

definition cont_ranges :: "nat \<Rightarrow> (nat \<times> nat) list option" where
  "cont_ranges b =
     (let c = (128, 191) in
      if b < 128 then Some []
      else if 194 \<le> b \<and> b \<le> 223 then Some [c]
      else if b = 224 then Some [(160, 191), c]
      else if b = 237 then Some [(128, 159), c]
      else if 225 \<le> b \<and> b \<le> 239 then Some [c, c]
      else if b = 240 then Some [(144, 191), c, c]
      else if 241 \<le> b \<and> b \<le> 243 then Some [c, c, c]
      else if b = 244 then Some [(128, 143), c, c]
      else None)"

fun match_ranges :: "(nat \<times> nat) list \<Rightarrow> string \<Rightarrow> nat" where
  "match_ranges ((lo, hi) # rs) (c # s) =
     (if lo \<le> of_char c \<and> of_char c \<le> hi then Suc (match_ranges rs s) else 0)"
| "match_ranges _ _ = 0"

definition replacement :: string where
  "replacement = map char_of [239, 191, 189 :: nat]"

function utf8_lossy :: "string \<Rightarrow> string" where
  "utf8_lossy [] = []"
| "utf8_lossy (c # s) =
     (case cont_ranges (of_char c) of
        None \<Rightarrow> replacement @ utf8_lossy s
      | Some rs \<Rightarrow>
          (let n = match_ranges rs s in
           (if n = length rs then c # take n s else replacement) @ utf8_lossy (drop n s)))"
  by pat_completeness auto
termination by (relation "measure length") auto

section \<open>Exchanges and tickers\<close>

datatype exchange_id = Coinbase | Kraken | Binance | Gate | Bitfinex

fun exchange_str :: "exchange_id \<Rightarrow> string" where
  "exchange_str Coinbase = ''coinbase''"
| "exchange_str Kraken = ''kraken''"
| "exchange_str Binance = ''binance''"
| "exchange_str Gate = ''gate''"
| "exchange_str Bitfinex = ''bitfinex''"

definition FEEDS :: "string list" where
  "FEEDS = [''XRP/USD'', ''BTC/USD'', ''ETH/USD'']"

record ticker =
  t_feed :: string
  t_exchange :: exchange_id
  t_price :: f64
  t_volume :: f64

datatype message = MText string | MBinary string | MOther

section \<open>The parsers\<close>

text \<open>A match of string literals, with \<open>return None\<close> as the last arm.\<close>

definition coinbase_feed :: "string \<Rightarrow> string option" where
  "coinbase_feed = map_of [(''BTC-USD'', ''BTC/USD''), (''ETH-USD'', ''ETH/USD''), (''XRP-USD'', ''XRP/USD'')]"

definition kraken_feed :: "string \<Rightarrow> string option" where
  "kraken_feed = map_of [(''XBT/USD'', ''BTC/USD''), (''BTC/USD'', ''BTC/USD''), (''ETH/USD'', ''ETH/USD''),
     (''XRP/USD'', ''XRP/USD'')]"

definition binance_feed :: "string \<Rightarrow> string option" where
  "binance_feed = map_of [(''BTCUSDT'', ''BTC/USD''), (''ETHUSDT'', ''ETH/USD''), (''XRPUSDT'', ''XRP/USD'')]"

definition gate_feed :: "string \<Rightarrow> string option" where
  "gate_feed = map_of [(''BTC_USDT'', ''BTC/USD''), (''ETH_USDT'', ''ETH/USD''), (''XRP_USDT'', ''XRP/USD'')]"

definition bitfinex_feed :: "string \<Rightarrow> string option" where
  "bitfinex_feed = map_of [(''tBTCUSD'', ''BTC/USD''), (''tETHUSD'', ''ETH/USD''), (''tXRPUSD'', ''XRP/USD'')]"

definition get_str :: "json \<Rightarrow> string \<Rightarrow> string option" where
  "get_str v k = jget v k \<bind> as_str"

definition get_num :: "json \<Rightarrow> string \<Rightarrow> f64 option" where
  "get_num v k = get_str v k \<bind> parse_f64"

definition guard_opt :: "bool \<Rightarrow> unit option" where
  "guard_opt b = (if b then Some () else None)"

definition parse_coinbase :: "json \<Rightarrow> ticker option" where
  "parse_coinbase v = do {
     ty \<leftarrow> get_str v ''type'';
     guard_opt (ty = ''ticker'');
     product \<leftarrow> get_str v ''product_id'';
     feed \<leftarrow> coinbase_feed product;
     price \<leftarrow> get_num v ''price'';
     volume \<leftarrow> get_num v ''volume_24h'';
     Some \<lparr>t_feed = feed, t_exchange = Coinbase, t_price = price, t_volume = volume\<rparr>
   }"

definition parse_kraken :: "json \<Rightarrow> ticker option" where
  "parse_kraken v = do {
     arr \<leftarrow> as_array v;
     guard_opt (4 \<le> length arr);
     kind \<leftarrow> jnth arr 2 \<bind> as_str;
     guard_opt (kind = ''ticker'');
     pair \<leftarrow> jnth arr 3 \<bind> as_str;
     feed \<leftarrow> kraken_feed pair;
     payload \<leftarrow> jnth arr 1 \<bind> as_object;
     last \<leftarrow> jget payload ''c'' \<bind> as_array \<bind> (\<lambda>c. jnth c 0) \<bind> as_str \<bind> parse_f64;
     vol_24h \<leftarrow> jget payload ''v'' \<bind> as_array \<bind> (\<lambda>c. jnth c 1) \<bind> as_str \<bind> parse_f64;
     Some \<lparr>t_feed = feed, t_exchange = Kraken, t_price = last, t_volume = vol_24h\<rparr>
   }"

definition parse_binance :: "json \<Rightarrow> ticker option" where
  "parse_binance v = do {
     data \<leftarrow> jget v ''data'';
     e \<leftarrow> get_str data ''e'';
     guard_opt (e = ''24hrTicker'');
     symbol \<leftarrow> get_str data ''s'';
     feed \<leftarrow> binance_feed symbol;
     price \<leftarrow> get_num data ''c'';
     volume \<leftarrow> get_num data ''q'';
     Some \<lparr>t_feed = feed, t_exchange = Binance, t_price = price, t_volume = volume\<rparr>
   }"

definition parse_gate :: "json \<Rightarrow> ticker option" where
  "parse_gate v = do {
     channel \<leftarrow> get_str v ''channel'';
     guard_opt (channel = ''spot.tickers'');
     result \<leftarrow> jget v ''result'' \<bind> as_object;
     pair \<leftarrow> get_str result ''currency_pair'';
     feed \<leftarrow> gate_feed pair;
     price \<leftarrow> get_num result ''last'';
     volume \<leftarrow> get_num result ''quote_volume'';
     Some \<lparr>t_feed = feed, t_exchange = Gate, t_price = price, t_volume = volume\<rparr>
   }"

definition parse_bitfinex :: "json \<Rightarrow> ticker option" where
  "parse_bitfinex v = do {
     arr \<leftarrow> as_array v;
     guard_opt (length arr = 3);
     pair \<leftarrow> jnth arr 2 \<bind> as_str;
     feed \<leftarrow> bitfinex_feed pair;
     payload \<leftarrow> jnth arr 1 \<bind> as_array;
     guard_opt (8 \<le> length payload);
     price \<leftarrow> jnth payload 6 \<bind> as_f64;
     volume_24h \<leftarrow> jnth payload 7 \<bind> as_f64;
     Some \<lparr>t_feed = feed, t_exchange = Bitfinex, t_price = price, t_volume = volume_24h\<rparr>
   }"

fun parse_value :: "exchange_id \<Rightarrow> json \<Rightarrow> ticker option" where
  "parse_value Coinbase v = parse_coinbase v"
| "parse_value Kraken v = parse_kraken v"
| "parse_value Binance v = parse_binance v"
| "parse_value Gate v = parse_gate v"
| "parse_value Bitfinex v = parse_bitfinex v"

definition rejected :: "ticker \<Rightarrow> bool" where
  "rejected t \<longleftrightarrow> \<not> is_finite (t_price t) \<or> fle (t_price t) (Fin 0)
     \<or> \<not> is_finite (t_volume t) \<or> flt (t_volume t) (Fin 0)"

fun message_text :: "message \<Rightarrow> string option" where
  "message_text (MText s) = Some s"
| "message_text (MBinary bs) = Some (utf8_lossy bs)"
| "message_text MOther = None"

definition parse_ticker :: "(string \<Rightarrow> json option) \<Rightarrow> exchange_id \<Rightarrow> message \<Rightarrow> ticker option" where
  "parse_ticker json_of exch msg = do {
     text \<leftarrow> message_text msg;
     v \<leftarrow> json_of text;
     t \<leftarrow> parse_value exch v;
     (if rejected t then None else Some t)
   }"

section \<open>What an accepted ticker satisfies\<close>

named_theorems opt_simps \<open>inversion of a chain of fallible steps\<close>

lemma bind_Some [opt_simps]: "(r \<bind> f) = Some y \<longleftrightarrow> (\<exists>x. r = Some x \<and> f x = Some y)"
  by (rule Option.bind_eq_Some_conv)

lemma guard_opt_Some [opt_simps]: "guard_opt b = Some u \<longleftrightarrow> b"
  by (simp add: guard_opt_def)

lemma jnth_Some [opt_simps]: "jnth vs i = Some v \<longleftrightarrow> i < length vs \<and> v = vs ! i"
  by (auto simp: jnth_def)

lemma as_Some [opt_simps]:
  "as_str v = Some s \<longleftrightarrow> v = JStr s" "as_array v = Some vs \<longleftrightarrow> v = JArr vs" "as_f64 v = Some x \<longleftrightarrow> v = JNum x"
  by (cases v; auto)+

lemma parse_f64_ok: "parse_f64 s = Some x \<Longrightarrow> fok x"
  by (auto simp: parse_f64_def fok_def Let_def split: prod.splits if_splits option.splits
      intro: rnd_repr_result)

lemma feeds_known:
  "coinbase_feed s = Some f \<Longrightarrow> f \<in> set FEEDS" "kraken_feed s = Some f \<Longrightarrow> f \<in> set FEEDS"
  "binance_feed s = Some f \<Longrightarrow> f \<in> set FEEDS" "gate_feed s = Some f \<Longrightarrow> f \<in> set FEEDS"
  "bitfinex_feed s = Some f \<Longrightarrow> f \<in> set FEEDS"
  by (auto simp: coinbase_feed_def kraken_feed_def binance_feed_def gate_feed_def bitfinex_feed_def
      FEEDS_def split: if_splits)

definition wf_ticker :: "exchange_id \<Rightarrow> ticker \<Rightarrow> bool" where
  "wf_ticker e t \<longleftrightarrow> t_exchange t = e \<and> t_feed t \<in> set FEEDS \<and> fok (t_price t) \<and> fok (t_volume t)"

lemma get_num_ok: "get_num v k = Some x \<Longrightarrow> fok x"
  by (auto simp: get_num_def opt_simps intro: parse_f64_ok)

lemma parse_coinbase_wf: "parse_coinbase v = Some t \<Longrightarrow> wf_ticker Coinbase t"
  by (auto simp: parse_coinbase_def opt_simps wf_ticker_def dest: feeds_known get_num_ok)

lemma parse_kraken_wf: "parse_kraken v = Some t \<Longrightarrow> wf_ticker Kraken t"
  by (auto simp: parse_kraken_def opt_simps wf_ticker_def dest: feeds_known parse_f64_ok)

lemma parse_binance_wf: "parse_binance v = Some t \<Longrightarrow> wf_ticker Binance t"
  by (auto simp: parse_binance_def opt_simps wf_ticker_def dest: feeds_known get_num_ok)

lemma parse_gate_wf: "parse_gate v = Some t \<Longrightarrow> wf_ticker Gate t"
  by (auto simp: parse_gate_def opt_simps wf_ticker_def dest: feeds_known get_num_ok)

lemma parse_bitfinex_wf: "json_ok v \<Longrightarrow> parse_bitfinex v = Some t \<Longrightarrow> wf_ticker Bitfinex t"
proof -
  assume ok: "json_ok v" and p: "parse_bitfinex v = Some t"
  obtain arr payload where v: "v = JArr arr" "length arr = 3" "arr ! 1 = JArr payload" "8 \<le> length payload"
    "payload ! 6 = JNum (t_price t)" "payload ! 7 = JNum (t_volume t)"
    using p by (auto simp: parse_bitfinex_def opt_simps)
  have "JArr payload \<in> set arr" using v(2,3) by (metis nth_mem one_less_numeral_iff semiring_norm(77))
  then have "\<forall>x\<in>set payload. json_ok x" using ok v(1) by auto
  moreover have "JNum (t_price t) \<in> set payload" "JNum (t_volume t) \<in> set payload"
    using nth_mem [of 6 payload] nth_mem [of 7 payload] v(4-6) by auto
  ultimately have "fok (t_price t)" "fok (t_volume t)" by fastforce+
  then show ?thesis using p by (auto simp: parse_bitfinex_def opt_simps wf_ticker_def dest: feeds_known)
qed

lemma parse_value_wf: "json_ok v \<Longrightarrow> parse_value e v = Some t \<Longrightarrow> wf_ticker e t"
  by (cases e) (auto dest: parse_coinbase_wf parse_kraken_wf parse_binance_wf parse_gate_wf parse_bitfinex_wf)

text \<open>What the rest of the node relies on.\<close>

definition ticker_ok :: "ticker \<Rightarrow> bool" where
  "ticker_ok t \<longleftrightarrow> t_feed t \<in> set FEEDS
     \<and> (\<exists>p v. t_price t = Fin p \<and> t_volume t = Fin v \<and> repr p \<and> repr v \<and> 0 < p \<and> 0 \<le> v)"

lemma accepted_ok: "wf_ticker e t \<Longrightarrow> \<not> rejected t \<Longrightarrow> ticker_ok t"
  by (cases "t_price t"; cases "t_volume t")
    (auto simp: wf_ticker_def rejected_def ticker_ok_def is_finite_def fle_def flt_def fok_def not_le not_less)

lemma parse_ticker_ok:
  "\<forall>text v. json_of text = Some v \<longrightarrow> json_ok v \<Longrightarrow> parse_ticker json_of e msg = Some t
    \<Longrightarrow> ticker_ok t \<and> t_exchange t = e"
proof -
  assume j: "\<forall>text v. json_of text = Some v \<longrightarrow> json_ok v" and p: "parse_ticker json_of e msg = Some t"
  then obtain v where "json_ok v" "parse_value e v = Some t" "\<not> rejected t"
    by (auto simp: parse_ticker_def opt_simps split: if_splits)
  then have "wf_ticker e t" by (intro parse_value_wf)
  then show ?thesis using accepted_ok \<open>\<not> rejected t\<close> by (simp add: wf_ticker_def)
qed

section \<open>Numbers\<close>

lemma takeWhile_all: "list_all P xs \<Longrightarrow> takeWhile P (xs @ ys) = xs @ takeWhile P ys"
  "list_all P xs \<Longrightarrow> dropWhile P (xs @ ys) = dropWhile P ys"
  by (induction xs) auto

lemma parse_decimal_plain:
  assumes "list_all digit_char ip" "list_all digit_char fr" "ip \<noteq> [] \<or> fr \<noteq> []"
  shows "parse_decimal (ip @ CHR ''.'' # fr) = Some (of_nat (digits_nat (ip @ fr)) / 10 ^ length fr)"
proof -
  have d: "\<not> digit_char (CHR ''.'')" by (simp add: digit_char_def less_eq_char_def)
  have f: "takeWhile digit_char fr = fr" "dropWhile digit_char fr = []"
    using assms(2) by (induction fr) auto
  have "(10 :: rat) powi - int (length fr) = 1 / 10 ^ length fr"
    by (simp add: power_int_minus divide_inverse)
  then show ?thesis
    using assms(1,3) d unfolding parse_decimal_def by (simp add: takeWhile_all Let_def f)
qed

lemma parse_f64_plain:
  assumes "list_all digit_char ip" "list_all digit_char fr" "ip \<noteq> []"
  shows "parse_f64 (ip @ CHR ''.'' # fr)
    = Some (rnd (of_nat (digits_nat (ip @ fr)) / 10 ^ length fr))"
proof -
  obtain c cs where ip: "ip = c # cs" using assms(3) by (cases ip) auto
  have c: "digit_char c" using assms(1) ip by simp
  then have "c \<noteq> CHR ''-''" "c \<noteq> CHR ''+''" "lower_char c \<noteq> CHR ''i''" "lower_char c \<noteq> CHR ''n''"
    by (auto simp: digit_char_def lower_char_def less_eq_char_def)
  then show ?thesis
    using parse_decimal_plain [OF assms(1,2)] ip by (simp add: parse_f64_def)
qed

section \<open>Text\<close>

lemma utf8_lossy_ascii: "list_all (\<lambda>c. of_char c < (128 :: nat)) s \<Longrightarrow> utf8_lossy s = s"
  by (induction s) (auto simp: cont_ranges_def Let_def)

section \<open>Properties of the parsers\<close>

text \<open>
  The messages the comments of the parsers document, as JSON values: the symbol and the
  fields that carry the price and the volume; every other field is left out or null.
\<close>

fun doc_json :: "exchange_id \<Rightarrow> string \<Rightarrow> json \<Rightarrow> json \<Rightarrow> json" where
  "doc_json Coinbase pair p v = JObj [(''type'', JStr ''ticker''), (''product_id'', JStr pair), (''price'', p),
     (''volume_24h'', v)]"
| "doc_json Kraken pair p v = JArr [JNull, JObj [(''c'', JArr [p, JNull]), (''v'', JArr [JNull, v])],
     JStr ''ticker'', JStr pair]"
| "doc_json Binance pair p v = JObj [(''stream'', JNull), (''data'', JObj [(''e'', JStr ''24hrTicker''),
     (''s'', JStr pair), (''c'', p), (''q'', v)])]"
| "doc_json Gate pair p v = JObj [(''channel'', JStr ''spot.tickers''), (''event'', JStr ''update''), (''result'',
     JObj [(''currency_pair'', JStr pair), (''last'', p), (''quote_volume'', v)])]"
| "doc_json Bitfinex pair p v = JArr [JNull, JArr [JNull, JNull, JNull, JNull, JNull, JNull, p, v], JStr pair]"

fun doc_feed :: "exchange_id \<Rightarrow> string \<Rightarrow> string option" where
  "doc_feed Coinbase = coinbase_feed"
| "doc_feed Kraken = kraken_feed"
| "doc_feed Binance = binance_feed"
| "doc_feed Gate = gate_feed"
| "doc_feed Bitfinex = bitfinex_feed"

definition doc_num :: "exchange_id \<Rightarrow> json \<Rightarrow> f64 option" where
  "doc_num e j = (if e = Bitfinex then as_f64 j else as_str j \<bind> parse_f64)"

lemmas parser_defs = parse_coinbase_def parse_kraken_def parse_binance_def parse_gate_def parse_bitfinex_def
  get_str_def get_num_def guard_opt_def jnth_def

lemma parse_value_doc:
  "parse_value e (doc_json e pair p v) = do {
     f \<leftarrow> doc_feed e pair; x \<leftarrow> doc_num e p; y \<leftarrow> doc_num e v;
     Some \<lparr>t_feed = f, t_exchange = e, t_price = x, t_volume = y\<rparr> }"
  by (cases e) (simp_all add: parser_defs doc_num_def)

declare parse_value.simps [simp del] doc_json.simps [simp del]

text \<open>Whatever an exchange sends, an accepted ticker belongs to that exchange and to one of
  the three feeds, its price is a finite positive number and its volume a finite
  non-negative one.\<close>

lemma parse_ticker_safe:
  assumes "\<forall>text v. json_of text = Some v \<longrightarrow> json_ok v" "parse_ticker json_of e msg = Some t"
  shows "t_exchange t = e \<and> t_feed t \<in> set FEEDS
    \<and> (\<exists>p v. t_price t = Fin p \<and> t_volume t = Fin v \<and> repr p \<and> repr v \<and> 0 < p \<and> 0 \<le> v)"
  using parse_ticker_ok [OF assms] by (simp add: ticker_ok_def)

definition w_json :: "string \<Rightarrow> json option" where
  "w_json text = (if text = ''m'' then Some (doc_json Coinbase ''BTC-USD'' (JStr ''63000.5'') (JStr ''8.25'')) else None)"

definition w_ticker :: ticker where
  "w_ticker = \<lparr>t_feed = ''BTC/USD'', t_exchange = Coinbase, t_price = rnd (126001 / 2), t_volume = rnd (33 / 4)\<rparr>"

lemma w_numbers: "parse_f64 ''63000.5'' = Some (rnd (126001 / 2))" "parse_f64 ''8.25'' = Some (rnd (33 / 4))"
  using parse_f64_plain [of "''63000''" "''5''"] parse_f64_plain [of "''8''" "''25''"]
  by (simp_all add: digit_char_def less_eq_char_def digits_nat_def)

lemma rnd_quarters: "\<bar>n\<bar> \<le> 2 ^ 53 \<Longrightarrow> rnd (of_int n / 4) = Fin (of_int n / 4)"
  using rnd_repr [OF repr_scaled [of n "- 2"]] by (simp add: power_int_minus field_simps)

lemma w_values: "rnd (126001 / 2) = Fin (126001 / 2)" "rnd (33 / 4) = Fin (33 / 4)"
  using rnd_quarters [of 252002] rnd_quarters [of 33] by simp_all

text \<open>On the message format documented for its exchange, the parser takes exactly the price
  and the volume of the message, maps the symbol to its feed, and drops the message exactly
  for an unknown symbol, an unreadable number, a price that is not finite and positive or a
  volume that is not finite and non-negative.\<close>

lemma parse_ticker_documented:
  assumes "json_of text = Some (doc_json e pair p v)"
  shows "parse_ticker json_of e (MText text) = do {
    f \<leftarrow> doc_feed e pair; x \<leftarrow> doc_num e p; y \<leftarrow> doc_num e v;
    let t = \<lparr>t_feed = f, t_exchange = e, t_price = x, t_volume = y\<rparr> in if rejected t then None else Some t }"
  using assms by (simp add: parse_ticker_def parse_value_doc Let_def bind_assoc)

lemma parse_ticker_documented_witness: "parse_ticker w_json Coinbase (MText ''m'') = Some w_ticker"
proof -
  have "w_json ''m'' = Some (doc_json Coinbase ''BTC-USD'' (JStr ''63000.5'') (JStr ''8.25''))" by (simp add: w_json_def)
  from parse_ticker_documented [of w_json "''m''" Coinbase "''BTC-USD''" "JStr ''63000.5''" "JStr ''8.25''", OF this]
  show ?thesis
    by (simp add: doc_num_def w_numbers w_values coinbase_feed_def w_ticker_def rejected_def is_finite_def
        fle_def flt_def)
qed

lemma w_json_ok: "\<forall>text v. w_json text = Some v \<longrightarrow> json_ok v"
  by (auto simp: w_json_def doc_json.simps split: if_splits)

lemma w_parse: "parse_ticker w_json Coinbase (MText ''m'') = Some w_ticker"
proof -
  have "parse_value Coinbase (doc_json Coinbase ''BTC-USD'' (JStr ''63000.5'') (JStr ''8.25'')) = Some w_ticker"
    by (simp add: parse_value_doc doc_num_def w_numbers w_values coinbase_feed_def w_ticker_def)
  then show ?thesis
    by (simp add: parse_ticker_def w_json_def rejected_def is_finite_def fle_def flt_def w_ticker_def w_values)
qed

lemma parse_ticker_safe_witness: "t_feed w_ticker \<in> set FEEDS \<and> t_exchange w_ticker = Coinbase"
  using parse_ticker_safe [OF w_json_ok w_parse] by simp

end
