(* ===== verification/FtsoNode.thy ===== *)
theory FtsoNode
  imports FtsoCalc Ticker
begin

text \<open>
  The provider daemon of \<open>ftso_provider/node.rs\<close>: the price book, its snapshot and staleness
  reads, one connection of one exchange, and the tasks of the daemon as an interleaved step
  relation. An \<open>Instant\<close> and a \<open>Duration\<close> are nanoseconds; \<open>duration_since\<close> saturates, as
  the subtraction of \<open>nat\<close> does. The iteration order of the hash map of exchanges is an
  argument of every operation that iterates.
\<close>

section \<open>Constants\<close>

abbreviation (input) millis :: "nat \<Rightarrow> nat" where "millis n \<equiv> n * 1000000"
abbreviation (input) secs :: "nat \<Rightarrow> nat" where "secs n \<equiv> n * 1000000000"

definition STALE_AFTER :: nat where "STALE_AFTER = secs 5"
definition CONNECT_TIMEOUT :: nat where "CONNECT_TIMEOUT = secs 15"
definition RECONNECT_BASE_DELAY :: nat where "RECONNECT_BASE_DELAY = millis 500"

section \<open>The price book\<close>

record book_entry =
  be_price :: f64
  be_volume :: f64
  be_received :: nat

type_synonym price_book = "string \<Rightarrow> exchange_id \<Rightarrow> book_entry option"

definition book_upsert :: "nat \<Rightarrow> ticker \<Rightarrow> price_book \<Rightarrow> price_book" where
  "book_upsert now t book = book(t_feed t := (book (t_feed t))(t_exchange t \<mapsto>
     \<lparr>be_price = t_price t, be_volume = t_volume t, be_received = now\<rparr>))"

definition book_observations :: "exchange_id list \<Rightarrow> price_book \<Rightarrow> string \<Rightarrow> observation list" where
  "book_observations order book feed = List.map_filter (\<lambda>ex. map_option
     (\<lambda>e. \<lparr>o_exchange = exchange_str ex, o_price = be_price e, o_volume = be_volume e\<rparr>) (book feed ex)) order"

definition book_last_update :: "exchange_id list \<Rightarrow> price_book \<Rightarrow> string \<Rightarrow> nat option" where
  "book_last_update order book feed =
     (case List.map_filter (\<lambda>ex. map_option be_received (book feed ex)) order of
        [] \<Rightarrow> None | ts \<Rightarrow> Some (Max (set ts)))"

text \<open>An iteration order visits every exchange once.\<close>

definition is_order :: "exchange_id list \<Rightarrow> bool" where
  "is_order order \<longleftrightarrow> distinct order \<and> set order = UNIV"

section \<open>The node\<close>

record node =
  nd_book :: price_book
  nd_stale :: bool
  nd_stale_after :: nat
  nd_reconnects :: u64
  nd_failures :: u64

text \<open>\<open>start_with_urls\<close>: the node, and the period of the monitor, which panics when it is zero.\<close>

definition provider_new :: "nat \<Rightarrow> node" where
  "provider_new stale_after = \<lparr>nd_book = (\<lambda>_ _. None), nd_stale = False, nd_stale_after = stale_after,
     nd_reconnects = 0, nd_failures = 0\<rparr>"

definition reconnects_total :: "node \<Rightarrow> u64" where
  "reconnects_total nd = nd_reconnects nd"

definition failures_total :: "node \<Rightarrow> u64" where
  "failures_total nd = nd_failures nd"

definition monitor_period :: "nat \<Rightarrow> nat option" where
  "monitor_period stale_after = (let p = min stale_after (secs 1) in if p = 0 then None else Some p)"

text \<open>The snapshot; \<open>None\<close> is the panic of the sort on a NaN.\<close>

fun snapshot_from :: "(string \<Rightarrow> exchange_id list) \<Rightarrow> price_book \<Rightarrow> string list
    \<Rightarrow> (string \<Rightarrow> (f64 \<times> nat) option) option" where
  "snapshot_from orders book [] = Some (\<lambda>_. None)"
| "snapshot_from orders book (feed # feeds) =
     (let obs = book_observations (orders feed) book feed in
      case snapshot_from orders book feeds of None \<Rightarrow> None
      | Some prices \<Rightarrow>
          if obs = [] then Some prices
          else (case volume_trimmed_median obs of
              None \<Rightarrow> None
            | Some None \<Rightarrow> Some prices
            | Some (Some price) \<Rightarrow> Some (prices(feed \<mapsto> (price, length obs)))))"

definition snapshot :: "(string \<Rightarrow> exchange_id list) \<Rightarrow> node \<Rightarrow> (string \<Rightarrow> (f64 \<times> nat) option) option" where
  "snapshot orders nd = snapshot_from orders (nd_book nd) FEEDS"

definition is_stale :: "node \<Rightarrow> bool" where
  "is_stale nd = nd_stale nd"

definition feed_stale :: "exchange_id list \<Rightarrow> nat \<Rightarrow> nat \<Rightarrow> price_book \<Rightarrow> string \<Rightarrow> bool" where
  "feed_stale order stale_after now book feed =
     (case book_last_update order book feed of Some t \<Rightarrow> stale_after < now - t | None \<Rightarrow> True)"

definition stale_feeds :: "(string \<Rightarrow> exchange_id list) \<Rightarrow> nat \<Rightarrow> node \<Rightarrow> string list" where
  "stale_feeds orders now nd =
     filter (\<lambda>feed. feed_stale (orders feed) (nd_stale_after nd) now (nd_book nd) feed) FEEDS"

definition live_exchanges :: "exchange_id list \<Rightarrow> string \<Rightarrow> node \<Rightarrow> nat" where
  "live_exchanges order feed nd = length (book_observations order (nd_book nd) feed)"

text \<open>\<open>check_staleness\<close> as the loop it is: the alerts sent so far and the flag \<open>any_stale\<close>.\<close>

fun staleness_loop :: "(string \<Rightarrow> exchange_id list) \<Rightarrow> nat \<Rightarrow> nat \<Rightarrow> price_book \<Rightarrow> string list
    \<Rightarrow> string list \<times> bool \<Rightarrow> string list \<times> bool" where
  "staleness_loop orders stale_after now book [] acc = acc"
| "staleness_loop orders stale_after now book (feed # feeds) (alerts, any_stale) =
     (let stale = (case book_last_update (orders feed) book feed of
          Some t \<Rightarrow> stale_after < now - t | None \<Rightarrow> True)
      in staleness_loop orders stale_after now book feeds
           (if stale then (alerts @ [feed], True) else (alerts, any_stale)))"

definition check_staleness :: "(string \<Rightarrow> exchange_id list) \<Rightarrow> nat \<Rightarrow> nat \<Rightarrow> node \<Rightarrow> string list \<times> node" where
  "check_staleness orders stale_after now nd =
     (case staleness_loop orders stale_after now (nd_book nd) FEEDS ([], False) of
        (alerts, any_stale) \<Rightarrow> (alerts, if any_stale then nd\<lparr>nd_stale := True\<rparr> else nd\<lparr>nd_stale := False\<rparr>))"

section \<open>Connecting\<close>

datatype ip_addr = IPv4 nat | IPv6 nat

fun is_ipv4 :: "ip_addr \<Rightarrow> bool" where
  "is_ipv4 (IPv4 _) = True"
| "is_ipv4 (IPv6 _) = False"

record url_parts =
  u_scheme :: string
  u_host :: "string option"
  u_port :: "nat option"

text \<open>What the outside answers: the URL and address parsers, the resolver, the sockets.\<close>

record network =
  net_url :: "string \<Rightarrow> string + url_parts"
  net_ip :: "string \<Rightarrow> ip_addr option"
  net_lookup :: "string \<Rightarrow> string + ip_addr list"
  net_tcp :: "ip_addr \<Rightarrow> nat \<Rightarrow> string + unit"
  net_handshake :: "bool \<Rightarrow> string \<Rightarrow> ip_addr \<Rightarrow> nat \<Rightarrow> string + unit"
  net_ip_text :: "ip_addr \<Rightarrow> string"

definition quoted :: "string \<Rightarrow> string" where
  "quoted s = [CHR 0x27] @ s @ [CHR 0x27]"

text \<open>The address \<open>connect_doh\<close> opens: TLS or not, the address, the port.\<close>

definition resolve_host :: "network \<Rightarrow> string \<Rightarrow> string + ip_addr" where
  "resolve_host net host =
     (case net_ip net host of
        Some ip \<Rightarrow> Ok ip
      | None \<Rightarrow>
          res_bind (map_err (\<lambda>e. ''DoH resolve '' @ quoted host @ '' failed: '' @ e) (net_lookup net host)) (\<lambda>ips.
            ok_or (''DoH resolve '' @ quoted host @ '' returned no addresses'')
              (case List.find is_ipv4 ips of Some ip \<Rightarrow> Some ip
               | None \<Rightarrow> (if ips = [] then None else Some (hd ips)))))"

definition connect_target :: "network \<Rightarrow> string \<Rightarrow> string + (bool \<times> ip_addr \<times> nat)" where
  "connect_target net url =
     res_bind (map_err (\<lambda>e. ''invalid ws url: '' @ e) (net_url net url)) (\<lambda>parsed.
       if u_scheme parsed \<noteq> ''wss'' \<and> u_scheme parsed \<noteq> ''ws''
       then Err (''unsupported scheme '' @ quoted (u_scheme parsed))
       else res_bind (ok_or ''ws url has no host'' (u_host parsed)) (\<lambda>host.
         let is_wss = (u_scheme parsed = ''wss'');
             port = (case u_port parsed of Some p \<Rightarrow> p | None \<Rightarrow> if is_wss then 443 else 80)
         in res_bind (resolve_host net host) (\<lambda>ip. Ok (is_wss, ip, port))))"

definition connect_doh :: "network \<Rightarrow> string \<Rightarrow> string + (bool \<times> ip_addr \<times> nat)" where
  "connect_doh net url =
     res_bind (connect_target net url) (\<lambda>(is_wss, ip, port).
       res_bind (map_err (\<lambda>e. ''tcp connect to '' @ net_ip_text net ip @ '':'' @ show_nat port @ '' failed: '' @ e)
         (net_tcp net ip port)) (\<lambda>_.
       res_bind (map_err (\<lambda>e. (if is_wss then ''wss'' else ''ws'') @ '' handshake failed: '' @ e)
         (net_handshake net is_wss url ip port)) (\<lambda>_. Ok (is_wss, ip, port))))"

definition exchange_urls :: "(exchange_id \<times> string) list" where
  "exchange_urls = [(Coinbase, ''wss://ws-feed.exchange.coinbase.com''),
     (Kraken, ''wss://ws.kraken.com''),
     (Binance, ''wss://data-stream.binance.vision/stream?streams='' @ ''btcusdt@ticker'' @ ''/'' @ ''ethusdt@ticker''
        @ ''/'' @ ''xrpusdt@ticker''),
     (Gate, ''wss://api.gateio.ws/ws/v4/''),
     (Bitfinex, ''wss://api-pub.bitfinex.com/ws/2'')]"

fun subscribe_msg :: "exchange_id \<Rightarrow> string option" where
  \<open>subscribe_msg Coinbase = Some ''{"type":"subscribe","product_ids":["XRP-USD","BTC-USD","ETH-USD"],"channels":["ticker"]}''\<close>
| \<open>subscribe_msg Kraken = Some ''{"event":"subscribe","pair":["XRP/USD","XBT/USD","ETH/USD"],"subscription":{"name":"ticker"}}''\<close>
| \<open>subscribe_msg Binance = None\<close>
| \<open>subscribe_msg Gate = Some ''{"time":0,"channel":"spot.tickers","event":"subscribe","payload":["BTC_USDT","ETH_USDT","XRP_USDT"]}''\<close>
| \<open>subscribe_msg Bitfinex = Some ''[{"event":"subscribe","channel":"ticker","symbol":"tBTCUSD"},{"event":"subscribe","channel":"ticker","symbol":"tETHUSD"},{"event":"subscribe","channel":"ticker","symbol":"tXRPUSD"}]''\<close>

definition on_message :: "(string \<Rightarrow> json option) \<Rightarrow> exchange_id \<Rightarrow> nat \<Rightarrow> message \<Rightarrow> price_book \<Rightarrow> price_book" where
  "on_message json_of exch now msg book =
     (case parse_ticker json_of exch msg of Some t \<Rightarrow> book_upsert now t book | None \<Rightarrow> book)"

text \<open>
  The receiving loop of \<open>stream_once\<close>, on the sequence of items the socket yields (each with
  its time of arrival) until it is closed: a message or an error.
\<close>

fun stream_loop :: "(string \<Rightarrow> json option) \<Rightarrow> exchange_id \<Rightarrow> (nat \<times> (string + message)) list
    \<Rightarrow> price_book \<Rightarrow> (string + unit) \<times> price_book" where
  "stream_loop json_of exch [] book = (Err ''stream closed by peer'', book)"
| "stream_loop json_of exch ((now, Inl e) # items) book = (Err (''stream error: '' @ e), book)"
| "stream_loop json_of exch ((now, Inr msg) # items) book =
     stream_loop json_of exch items (on_message json_of exch now msg book)"

text \<open>\<open>conn\<close> is the outcome of the connection attempt under its timeout (\<open>None\<close>: elapsed).\<close>

definition stream_once :: "(string \<Rightarrow> json option) \<Rightarrow> exchange_id
    \<Rightarrow> (string + (bool \<times> ip_addr \<times> nat)) option \<Rightarrow> string + unit
    \<Rightarrow> (nat \<times> (string + message)) list \<Rightarrow> price_book \<Rightarrow> (string + unit) \<times> price_book" where
  "stream_once json_of exch conn sent items book =
     (case conn of
        None \<Rightarrow> (Err ''connect timeout after 15s'', book)
      | Some (Err e) \<Rightarrow> (Err e, book)
      | Some (Ok _) \<Rightarrow>
          (case (subscribe_msg exch, sent) of
             (Some _, Err e) \<Rightarrow> (Err (''subscribe send failed: '' @ e), book)
           | _ \<Rightarrow> stream_loop json_of exch items book))"

section \<open>The reconnection loop\<close>

text \<open>
  One round of \<open>run_exchange_loop\<close> after the stream has ended: the counters, the delay slept, and the
  next delay.
\<close>

definition loop_round :: "string + unit \<Rightarrow> nat \<Rightarrow> node \<Rightarrow> nat \<times> nat \<times> node" where
  "loop_round result backoff nd =
     (let (backoff, nd) = (case result of
          Ok _ \<Rightarrow> (RECONNECT_BASE_DELAY, nd)
        | Err e \<Rightarrow> (backoff, nd\<lparr>nd_failures := nd_failures nd + 1, nd_reconnects := nd_reconnects nd + 1\<rparr>))
      in (backoff, min (backoff * 2) (secs 30), nd))"

fun loop_run :: "(string + unit) list \<Rightarrow> nat \<Rightarrow> node \<Rightarrow> nat list \<times> node" where
  "loop_run [] backoff nd = ([], nd)"
| "loop_run (r # rs) backoff nd =
     (case loop_round r backoff nd of (delay, backoff', nd') \<Rightarrow>
        (case loop_run rs backoff' nd' of (delays, nd'') \<Rightarrow> (delay # delays, nd'')))"

section \<open>The tasks of the daemon, interleaved\<close>

text \<open>
  Every exchange task is trying to connect, streaming, or sleeping until an instant. A step
  of the daemon is the passing of time, a step of one task, or a tick of the monitor.
\<close>

datatype phase = Trying | Streaming | Sleeping nat

record task =
  tk_backoff :: nat
  tk_phase :: phase

record daemon =
  dm_now :: nat
  dm_node :: node
  dm_tasks :: "exchange_id \<Rightarrow> task option"

definition daemon_start :: "nat \<Rightarrow> nat \<Rightarrow> exchange_id list \<Rightarrow> daemon" where
  "daemon_start now stale_after exchs = \<lparr>dm_now = now, dm_node = provider_new stale_after,
     dm_tasks = (\<lambda>e. if e \<in> set exchs
       then Some \<lparr>tk_backoff = RECONNECT_BASE_DELAY, tk_phase = Trying\<rparr> else None)\<rparr>"

definition start_with_stale_after :: "nat \<Rightarrow> nat \<Rightarrow> daemon" where
  "start_with_stale_after now stale_after = daemon_start now stale_after (map fst exchange_urls)"

definition provider_start :: "nat \<Rightarrow> daemon" where
  "provider_start now = daemon_start now STALE_AFTER (map fst exchange_urls)"

definition set_phase :: "exchange_id \<Rightarrow> task \<Rightarrow> phase \<Rightarrow> daemon \<Rightarrow> daemon" where
  "set_phase e tk ph d = d\<lparr>dm_tasks := (dm_tasks d)(e \<mapsto> tk\<lparr>tk_phase := ph\<rparr>)\<rparr>"

definition stream_ended :: "exchange_id \<Rightarrow> task \<Rightarrow> string + unit \<Rightarrow> daemon \<Rightarrow> daemon" where
  "stream_ended e tk r d =
     (case loop_round r (tk_backoff tk) (dm_node d) of (delay, backoff, nd) \<Rightarrow>
        d\<lparr>dm_node := nd,
          dm_tasks := (dm_tasks d)(e \<mapsto> \<lparr>tk_backoff = backoff, tk_phase = Sleeping (dm_now d + delay)\<rparr>)\<rparr>)"

definition message_in :: "(string \<Rightarrow> json option) \<Rightarrow> exchange_id \<Rightarrow> message \<Rightarrow> daemon \<Rightarrow> daemon" where
  "message_in json_of e msg d = d\<lparr>dm_node := (dm_node d)
     \<lparr>nd_book := on_message json_of e (dm_now d) msg (nd_book (dm_node d))\<rparr>\<rparr>"

definition monitor_tick :: "(string \<Rightarrow> exchange_id list) \<Rightarrow> daemon \<Rightarrow> daemon" where
  "monitor_tick orders d =
     d\<lparr>dm_node := snd (check_staleness orders (nd_stale_after (dm_node d)) (dm_now d) (dm_node d))\<rparr>"

inductive daemon_step :: "(string \<Rightarrow> json option) \<Rightarrow> daemon \<Rightarrow> daemon \<Rightarrow> bool" for json_of where
  pass_time: "dm_now d \<le> t \<Longrightarrow> daemon_step json_of d (d\<lparr>dm_now := t\<rparr>)"
| connect: "dm_tasks d e = Some tk \<Longrightarrow> tk_phase tk = Trying \<Longrightarrow> daemon_step json_of d (set_phase e tk Streaming d)"
| receive: "dm_tasks d e = Some tk \<Longrightarrow> tk_phase tk = Streaming \<Longrightarrow> daemon_step json_of d (message_in json_of e msg d)"
| ended: "dm_tasks d e = Some tk \<Longrightarrow> tk_phase tk = Trying \<or> tk_phase tk = Streaming
    \<Longrightarrow> r = fst (stream_once json_of e conn sent items book) \<Longrightarrow> daemon_step json_of d (stream_ended e tk r d)"
| wake: "dm_tasks d e = Some tk \<Longrightarrow> tk_phase tk = Sleeping t \<Longrightarrow> t \<le> dm_now d
    \<Longrightarrow> daemon_step json_of d (set_phase e tk Trying d)"
| monitor: "daemon_step json_of d (monitor_tick orders d)"

end
