(* ===== verification/FtsoNodeProps.thy ===== *)
theory FtsoNodeProps
  imports FtsoNode
begin

text \<open>
  What the provider daemon guarantees: the invariant of every interleaving of its tasks, the
  snapshot and staleness reads on every reachable state, and the reconnection delays.
\<close>

section \<open>Reading the book\<close>

lemma set_map_filter: "y \<in> set (List.map_filter f xs) \<longleftrightarrow> (\<exists>x\<in>set xs. f x = Some y)"
  by (induction xs) (auto simp: map_filter_simps split: option.splits)

lemma observations_mem:
  "ob \<in> set (book_observations order book feed) \<longleftrightarrow> (\<exists>ex b. ex \<in> set order \<and> book feed ex = Some b
    \<and> ob = \<lparr>o_exchange = exchange_str ex, o_price = be_price b, o_volume = be_volume b\<rparr>)"
  by (auto simp: book_observations_def set_map_filter)

lemma length_map_filter: "length (List.map_filter f xs) = length (filter (\<lambda>x. f x \<noteq> None) xs)"
  by (induction xs) (auto simp: map_filter_simps split: option.splits)

lemma live_count:
  "is_order order \<Longrightarrow> length (book_observations order book feed) = card {ex. book feed ex \<noteq> None}"
  by (simp add: book_observations_def length_map_filter is_order_def flip: distinct_card)

definition received :: "price_book \<Rightarrow> string \<Rightarrow> nat set" where
  "received book feed = {be_received b | ex b. book feed ex = Some b}"

lemma last_update_order:
  assumes "is_order order"
  shows "book_last_update order book feed = (if received book feed = {} then None else Some (Max (received book feed)))"
proof -
  have "set (List.map_filter (\<lambda>ex. map_option be_received (book feed ex)) order) = received book feed"
    using assms by (auto simp: set_map_filter is_order_def received_def; blast)
  then show ?thesis
    by (cases "List.map_filter (\<lambda>ex. map_option be_received (book feed ex)) order")
      (auto simp: book_last_update_def)
qed

lemma finite_received: "finite (received book feed)"
proof -
  have "received book feed = (\<lambda>ex. be_received (the (book feed ex))) ` {ex. book feed ex \<noteq> None}"
    by (force simp: received_def)
  moreover have "(UNIV :: exchange_id set) = {Coinbase, Kraken, Binance, Gate, Bitfinex}"
    using exchange_id.exhaust by auto
  then have "finite {ex :: exchange_id. book feed ex \<noteq> None}" by (metis finite.emptyI finite_insert rev_finite_subset subset_UNIV)
  ultimately show ?thesis by simp
qed

text \<open>A feed is stale exactly if every observation it holds is older than the threshold.\<close>

lemma feed_stale_iff:
  assumes "is_order order"
  shows "feed_stale order sa now book feed \<longleftrightarrow> (\<forall>t\<in>received book feed. sa < now - t)"
proof (cases "received book feed = {}")
  case False
  note m = Max_in [OF finite_received False]
  have "sa < now - Max (received book feed) \<longleftrightarrow> (\<forall>t\<in>received book feed. sa < now - t)"
  proof
    assume l: "sa < now - Max (received book feed)"
    show "\<forall>t\<in>received book feed. sa < now - t"
    proof
      fix t assume "t \<in> received book feed"
      then have "t \<le> Max (received book feed)" by (rule Max_ge [OF finite_received])
      with l show "sa < now - t" by linarith
    qed
  qed (use m in blast)
  then show ?thesis using False by (simp add: feed_stale_def last_update_order [OF assms])
qed (simp add: feed_stale_def last_update_order [OF assms])

section \<open>The invariant of the daemon\<close>

definition book_ok :: "nat \<Rightarrow> price_book \<Rightarrow> bool" where
  "book_ok now book \<longleftrightarrow> (\<forall>f e b. book f e = Some b \<longrightarrow> f \<in> set FEEDS \<and> be_received b \<le> now
     \<and> (\<exists>p v. be_price b = Fin p \<and> be_volume b = Fin v \<and> repr p \<and> repr v \<and> 0 < p \<and> 0 \<le> v))"

definition task_ok :: "nat \<Rightarrow> task \<Rightarrow> bool" where
  "task_ok now tk \<longleftrightarrow> RECONNECT_BASE_DELAY \<le> tk_backoff tk \<and> tk_backoff tk \<le> secs 30
     \<and> (\<forall>t. tk_phase tk = Sleeping t \<longrightarrow> t \<le> now + secs 30)"

definition daemon_ok :: "daemon \<Rightarrow> bool" where
  "daemon_ok d \<longleftrightarrow> book_ok (dm_now d) (nd_book (dm_node d))
     \<and> nd_reconnects (dm_node d) = nd_failures (dm_node d)
     \<and> (\<forall>e tk. dm_tasks d e = Some tk \<longrightarrow> task_ok (dm_now d) tk)"

lemma stream_loop_err: "\<exists>e. fst (stream_loop json_of exch items book) = Err e"
  by (induction json_of exch items book rule: stream_loop.induct) auto

lemma stream_once_err: "\<exists>e. fst (stream_once json_of exch conn sent items book) = Err e"
  using stream_loop_err by (auto simp: stream_once_def split: option.splits sum.splits)

lemma book_ok_mono: "book_ok now book \<Longrightarrow> now \<le> t \<Longrightarrow> book_ok t book"
  unfolding book_ok_def by (meson order_trans)

lemma task_ok_mono: "task_ok now tk \<Longrightarrow> now \<le> t \<Longrightarrow> task_ok t tk"
  unfolding task_ok_def by (meson add_right_mono order_trans)

lemma on_message_ok:
  assumes "\<forall>text v. json_of text = Some v \<longrightarrow> json_ok v" "book_ok now book"
  shows "book_ok now (on_message json_of e now msg book)"
proof (cases "parse_ticker json_of e msg")
  case None
  then show ?thesis using assms(2) by (simp add: on_message_def)
next
  case (Some t)
  have "ticker_ok t" using parse_ticker_ok [OF assms(1) Some] by blast
  then show ?thesis using assms(2)
    by (auto simp: on_message_def Some book_upsert_def book_ok_def ticker_ok_def)
qed

lemma daemon_start_ok: "daemon_ok (daemon_start now sa exchs)"
  by (auto simp: daemon_ok_def daemon_start_def provider_new_def book_ok_def task_ok_def
      RECONNECT_BASE_DELAY_def split: if_splits)

lemma stream_ended_ok:
  assumes "daemon_ok d" "dm_tasks d e = Some tk" "r = Err msg"
  shows "daemon_ok (stream_ended e tk r d)"
proof -
  have "task_ok (dm_now d) tk" using assms(1,2) by (auto simp: daemon_ok_def)
  then have "task_ok (dm_now d) \<lparr>tk_backoff = min (tk_backoff tk * 2) (secs 30),
      tk_phase = Sleeping (dm_now d + tk_backoff tk)\<rparr>"
    by (auto simp: task_ok_def RECONNECT_BASE_DELAY_def)
  then show ?thesis using assms
    by (auto simp: daemon_ok_def stream_ended_def loop_round_def)
qed

lemma monitor_tick_frame:
  "dm_now (monitor_tick orders d) = dm_now d" "dm_tasks (monitor_tick orders d) = dm_tasks d"
  "nd_book (dm_node (monitor_tick orders d)) = nd_book (dm_node d)"
  "nd_reconnects (dm_node (monitor_tick orders d)) = nd_reconnects (dm_node d)"
  "nd_failures (dm_node (monitor_tick orders d)) = nd_failures (dm_node d)"
  "nd_stale_after (dm_node (monitor_tick orders d)) = nd_stale_after (dm_node d)"
  by (simp_all add: monitor_tick_def check_staleness_def split: prod.splits)

lemma daemon_step_ok:
  assumes "daemon_step json_of d d'" "daemon_ok d" "\<forall>text v. json_of text = Some v \<longrightarrow> json_ok v"
  shows "daemon_ok d'"
  using assms
proof (induction rule: daemon_step.induct)
  case (pass_time d t)
  have "book_ok t (nd_book (dm_node d))" "\<forall>e tk. dm_tasks d e = Some tk \<longrightarrow> task_ok t tk"
    using pass_time book_ok_mono task_ok_mono by (fastforce simp: daemon_ok_def)+
  then show ?case using pass_time.prems by (simp add: daemon_ok_def)
next
  case (connect d e tk)
  then show ?case by (auto simp: daemon_ok_def set_phase_def task_ok_def)
next
  case (receive d e tk msg)
  then show ?case by (auto simp: daemon_ok_def message_in_def intro: on_message_ok)
next
  case (ended d e tk r conn sent items book)
  obtain msg where "r = Err msg" using stream_once_err ended.hyps(3) by metis
  with ended show ?case by (intro stream_ended_ok)
next
  case (wake d e tk t)
  then show ?case by (auto simp: daemon_ok_def set_phase_def task_ok_def)
next
  case (monitor d orders)
  then show ?case by (simp add: daemon_ok_def monitor_tick_frame)
qed

lemma reachable_ok:
  assumes "\<forall>text v. json_of text = Some v \<longrightarrow> json_ok v"
    and "(daemon_step json_of)\<^sup>*\<^sup>* (daemon_start now sa exchs) d"
  shows "daemon_ok d"
  using assms(2)
proof (induction rule: rtranclp_induct)
  case (step y z)
  then show ?case using daemon_step_ok assms(1) by blast
qed (rule daemon_start_ok)

section \<open>Snapshot\<close>

lemma observations_ok:
  "book_ok now book \<Longrightarrow> ob \<in> set (book_observations order book feed) \<Longrightarrow> obs_ok ob"
  by (auto simp: observations_mem book_ok_def obs_ok_def)

lemma snapshot_from_spec:
  assumes "\<And>f. \<forall>ob\<in>set (book_observations (orders f) book f). obs_ok ob" "distinct feeds"
  shows "\<exists>prices. snapshot_from orders book feeds = Some prices
    \<and> (\<forall>f. prices f = None \<longleftrightarrow> f \<notin> set feeds \<or> book_observations (orders f) book f = [])
    \<and> (\<forall>f p n. prices f = Some (p, n) \<longrightarrow> n = length (book_observations (orders f) book f)
          \<and> volume_trimmed_median (book_observations (orders f) book f) = Some (Some p))"
  using assms(2)
proof (induction feeds)
  case (Cons feed feeds)
  let ?obs = "book_observations (orders feed) book feed"
  obtain prices where p: "snapshot_from orders book feeds = Some prices"
    "\<forall>f. prices f = None \<longleftrightarrow> f \<notin> set feeds \<or> book_observations (orders f) book f = []"
    "\<forall>f p n. prices f = Some (p, n) \<longrightarrow> n = length (book_observations (orders f) book f)
          \<and> volume_trimmed_median (book_observations (orders f) book f) = Some (Some p)"
    using Cons by auto
  obtain r where r: "volume_trimmed_median ?obs = Some r" "r = None \<longleftrightarrow> ?obs = []"
    using median_total_obs [OF assms(1) [of feed]] by blast
  show ?case
  proof (cases "?obs = []")
    case True
    then show ?thesis using p by (intro exI [of _ prices]) auto
  next
    case False
    then obtain m where "r = Some m" using r(2) by auto
    then show ?thesis using p r False Cons.prems
      by (intro exI [of _ "prices(feed \<mapsto> (m, length ?obs))"]) (auto split: if_splits)
  qed
qed simp

lemma snapshot_between:
  assumes "\<And>f. \<forall>ob\<in>set (book_observations (orders f) book f). obs_ok ob" "distinct feeds"
    "snapshot_from orders book feeds = Some prices" "prices f = Some (p, n)"
    "\<forall>e b. book f e = Some b \<longrightarrow> be_price b < half_range"
  shows "(\<exists>e b. book f e = Some b \<and> be_price b \<le> p) \<and> (\<exists>e b. book f e = Some b \<and> p \<le> be_price b)"
proof -
  have m: "volume_trimmed_median (book_observations (orders f) book f) = Some (Some p)"
    using snapshot_from_spec [of orders book feeds, OF assms(1,2)] assms(3,4) by auto
  have "\<forall>ob\<in>set (book_observations (orders f) book f). o_price ob < half_range"
    using assms(5) by (auto simp: observations_mem)
  then have "(\<exists>ob\<in>set (book_observations (orders f) book f). o_price ob \<le> p)
      \<and> (\<exists>ob\<in>set (book_observations (orders f) book f). p \<le> o_price ob)"
    using median_total_obs [OF assms(1) [of f]] m by auto
  then show ?thesis by (auto simp: observations_mem; blast)
qed

section \<open>Staleness\<close>

lemma staleness_loop_eq:
  "staleness_loop orders sa now book feeds (alerts, any_stale) =
    (let st = filter (\<lambda>f. feed_stale (orders f) sa now book f) feeds in (alerts @ st, any_stale \<or> st \<noteq> []))"
  by (induction feeds arbitrary: alerts any_stale) (auto simp: Let_def feed_stale_def)

type_synonym arrival = "exchange_id \<times> nat \<times> message"

definition arrive :: "(string \<Rightarrow> json option) \<Rightarrow> arrival \<Rightarrow> price_book \<Rightarrow> price_book" where
  "arrive json_of x book = (case x of (e, t, msg) \<Rightarrow> on_message json_of e t msg book)"

text \<open>The arrivals that were accepted as a ticker of a feed.\<close>

definition accepted :: "(string \<Rightarrow> json option) \<Rightarrow> arrival list \<Rightarrow> string \<Rightarrow> nat set" where
  "accepted json_of xs feed =
     {t. \<exists>e msg tk. (e, t, msg) \<in> set xs \<and> parse_ticker json_of e msg = Some tk \<and> t_feed tk = feed}"

lemma accepted_snoc: "accepted json_of (xs @ [(e, t, msg)]) feed = accepted json_of xs feed
    \<union> (case parse_ticker json_of e msg of Some tk \<Rightarrow> if t_feed tk = feed then {t} else {} | None \<Rightarrow> {})"
  by (auto simp: accepted_def split: option.splits)

lemma received_upsert:
  "received (book_upsert now t book) feed \<subseteq> insert now (received book feed)"
  "feed \<noteq> t_feed t \<Longrightarrow> received (book_upsert now t book) feed = received book feed"
  "now \<in> received (book_upsert now t book) (t_feed t)"
  "x \<in> received book feed \<Longrightarrow> x \<le> now \<Longrightarrow> \<exists>y\<in>received (book_upsert now t book) feed. x \<le> y"
proof -
  show "received (book_upsert now t book) feed \<subseteq> insert now (received book feed)"
    "feed \<noteq> t_feed t \<Longrightarrow> received (book_upsert now t book) feed = received book feed"
    by (auto simp: received_def book_upsert_def split: if_splits)
  have "book_upsert now t book (t_feed t) (t_exchange t)
      = Some \<lparr>be_price = t_price t, be_volume = t_volume t, be_received = now\<rparr>" by (simp add: book_upsert_def)
  then show n: "now \<in> received (book_upsert now t book) (t_feed t)" unfolding received_def by force
  assume x: "x \<in> received book feed" "x \<le> now"
  then obtain ex b where b: "book feed ex = Some b" "x = be_received b" by (auto simp: received_def)
  show "\<exists>y\<in>received (book_upsert now t book) feed. x \<le> y"
  proof (cases "feed = t_feed t \<and> ex = t_exchange t")
    case True
    then show ?thesis using n x(2) by auto
  next
    case False
    then have "book_upsert now t book feed ex = Some b" using b(1) by (auto simp: book_upsert_def)
    then have "x \<in> received (book_upsert now t book) feed" using b(2) by (auto simp: received_def)
    then show ?thesis by blast
  qed
qed

lemma received_run:
  assumes "sorted (map (fst \<circ> snd) xs)"
  shows "received (run_ops (arrive json_of) xs (\<lambda>_ _. None)) feed \<subseteq> accepted json_of xs feed
    \<and> (\<forall>t\<in>accepted json_of xs feed. \<exists>t'\<in>received (run_ops (arrive json_of) xs (\<lambda>_ _. None)) feed. t \<le> t')"
  using assms
proof (induction xs rule: rev_induct)
  case (snoc x xs)
  obtain e t msg where x: "x = (e, t, msg)" by (cases x)
  let ?b = "run_ops (arrive json_of) xs (\<lambda>_ _. None)"
  have late: "\<forall>t'\<in>accepted json_of xs feed. t' \<le> t"
    using snoc.prems x by (force simp: accepted_def sorted_append)
  have IH: "received ?b feed \<subseteq> accepted json_of xs feed"
    "\<forall>t\<in>accepted json_of xs feed. \<exists>t'\<in>received ?b feed. t \<le> t'"
    using snoc by (auto simp: sorted_append)
  have run: "run_ops (arrive json_of) (xs @ [x]) (\<lambda>_ _. None) = on_message json_of e t msg ?b"
    by (simp add: run_ops_append arrive_def x)
  show ?case
  proof (cases "parse_ticker json_of e msg")
    case None
    then have "on_message json_of e t msg ?b = ?b" "accepted json_of (xs @ [x]) feed = accepted json_of xs feed"
      by (simp_all add: on_message_def accepted_snoc x)
    then show ?thesis unfolding run using IH by simp
  next
    case (Some tk)
    let ?b' = "book_upsert t tk ?b"
    have acc: "accepted json_of (xs @ [x]) feed = accepted json_of xs feed \<union> (if t_feed tk = feed then {t} else {})"
      by (simp add: accepted_snoc x Some)
    have "received ?b' feed \<subseteq> accepted json_of (xs @ [x]) feed"
      using received_upsert(1) [of t tk ?b feed] received_upsert(2) [of feed tk t ?b] IH(1) acc
      by (cases "feed = t_feed tk") auto
    moreover have "\<exists>t'\<in>received ?b' feed. s \<le> t'" if s: "s \<in> accepted json_of xs feed" for s
    proof -
      obtain t' where t': "t' \<in> received ?b feed" "s \<le> t'" using IH(2) s by blast
      then have "t' \<le> t" using IH(1) late by blast
      from received_upsert(4) [OF t'(1) this] show ?thesis using t'(2) by (meson order_trans)
    qed
    moreover have "\<exists>t'\<in>received ?b' feed. t \<le> t'" if "t_feed tk = feed"
      using received_upsert(3) [of t tk ?b] that by auto
    moreover have "on_message json_of e t msg ?b = ?b'" by (simp add: on_message_def Some)
    ultimately show ?thesis unfolding run acc by (auto split: if_splits)
  qed
qed (simp add: accepted_def received_def)

section \<open>Reconnection delays\<close>

lemma loop_run_errors:
  assumes "\<forall>r\<in>set rs. \<exists>e. r = Err e" "RECONNECT_BASE_DELAY \<le> b"
  shows "loop_run rs (min b (secs 30)) nd =
    (map (\<lambda>i. min (b * 2 ^ i) (secs 30)) [0..<length rs],
     nd\<lparr>nd_failures := nd_failures nd + of_nat (length rs), nd_reconnects := nd_reconnects nd + of_nat (length rs)\<rparr>)"
  using assms
proof (induction rs arbitrary: b nd)
  case (Cons r rs)
  let ?nd = "nd\<lparr>nd_failures := nd_failures nd + 1, nd_reconnects := nd_reconnects nd + 1\<rparr>"
  have m: "min (min b (secs 30) * 2) (secs 30) = min (b * 2) (secs 30)" by (simp add: min_def)
  have r: "loop_round r (min b (secs 30)) nd = (min b (secs 30), min (b * 2) (secs 30), ?nd)"
    using Cons.prems(1) m by (auto simp: loop_round_def)
  have IH: "loop_run rs (min (b * 2) (secs 30)) ?nd =
    (map (\<lambda>i. min (b * 2 * 2 ^ i) (secs 30)) [0..<length rs],
     ?nd\<lparr>nd_failures := nd_failures ?nd + of_nat (length rs), nd_reconnects := nd_reconnects ?nd + of_nat (length rs)\<rparr>)"
    using Cons.prems by (intro Cons.IH) auto
  have "map (\<lambda>i. min (b * 2 ^ i) (secs 30)) [0..<length (r # rs)]
      = min b (secs 30) # map (\<lambda>i. min (b * 2 * 2 ^ i) (secs 30)) [0..<length rs]"
    by (simp add: upt_conv_Cons map_Suc_upt [symmetric] mult.assoc del: upt_Suc)
  then show ?case unfolding loop_run.simps r prod.case IH by (simp add: add.assoc)
qed simp

section \<open>Properties of the daemon\<close>

definition all_exchanges :: "exchange_id list" where
  "all_exchanges = [Coinbase, Kraken, Binance, Gate, Bitfinex]"

lemma all_exchanges_order: "is_order all_exchanges" "is_order (rev all_exchanges)"
  using exchange_id.exhaust by (auto simp: is_order_def all_exchanges_def)

text \<open>A daemon one second after its start, with one ticker received.\<close>

definition w_daemon :: daemon where
  "w_daemon = message_in w_json Coinbase (MText ''m'') (set_phase Coinbase
     \<lparr>tk_backoff = RECONNECT_BASE_DELAY, tk_phase = Trying\<rparr> Streaming (daemon_start 0 STALE_AFTER [Coinbase]\<lparr>dm_now := secs 1\<rparr>))"

lemma w_daemon_reachable: "(daemon_step w_json)\<^sup>*\<^sup>* (daemon_start 0 STALE_AFTER [Coinbase]) w_daemon"
proof -
  let ?s = "daemon_start 0 STALE_AFTER [Coinbase]" and ?tk = "\<lparr>tk_backoff = RECONNECT_BASE_DELAY, tk_phase = Trying\<rparr>"
  let ?t = "?s\<lparr>dm_now := secs 1\<rparr>"
  have a: "daemon_step w_json ?s ?t" by (rule pass_time) (simp add: daemon_start_def)
  have b: "daemon_step w_json ?t (set_phase Coinbase ?tk Streaming ?t)"
    by (rule connect) (simp_all add: daemon_start_def)
  have c: "daemon_step w_json (set_phase Coinbase ?tk Streaming ?t) w_daemon"
    unfolding w_daemon_def by (rule receive [where tk = "?tk\<lparr>tk_phase := Streaming\<rparr>"]) (simp_all add: set_phase_def)
  show ?thesis
    by (rule rtranclp.rtrancl_into_rtrancl, rule rtranclp.rtrancl_into_rtrancl, rule r_into_rtranclp, rule a, rule b, rule c)
qed

lemma w_daemon_book: "nd_book (dm_node w_daemon) = book_upsert (secs 1) w_ticker (\<lambda>_ _. None)"
  by (simp add: w_daemon_def message_in_def on_message_def w_parse set_phase_def daemon_start_def provider_new_def)





text \<open>The monitor and the read-back agree: at one instant, a tick of the monitor alerts exactly the
  feeds \<open>stale_feeds\<close> lists, in that order, and leaves the flag up exactly if there is one,
  whatever the flag was and in whatever order the two iterate over the book.\<close>

lemma staleness_agree:
  assumes "\<forall>f. is_order (orders f)" "\<forall>f. is_order (orders' f)"
  shows "check_staleness orders (nd_stale_after nd) now nd
    = (stale_feeds orders' now nd, nd\<lparr>nd_stale := (stale_feeds orders' now nd \<noteq> [])\<rparr>)
    \<and> is_stale (snd (check_staleness orders (nd_stale_after nd) now nd)) = (stale_feeds orders now nd \<noteq> [])"
proof -
  have "feed_stale (orders f) sa now book f = feed_stale (orders' f) sa now book f" for f sa book
    using assms by (simp add: feed_stale_iff)
  then show ?thesis
    by (simp add: check_staleness_def staleness_loop_eq stale_feeds_def Let_def is_stale_def)
qed

lemma staleness_agree_witness:
  "fst (check_staleness (\<lambda>_. all_exchanges) STALE_AFTER (secs 6) (dm_node w_daemon))
    = stale_feeds (\<lambda>_. rev all_exchanges) (secs 6) (dm_node w_daemon)"
proof -
  have "nd_stale_after (dm_node w_daemon) = STALE_AFTER"
    by (simp add: w_daemon_def message_in_def set_phase_def daemon_start_def provider_new_def)
  with staleness_agree [of "\<lambda>_. all_exchanges" "\<lambda>_. rev all_exchanges" "dm_node w_daemon" "secs 6"]
  show ?thesis using all_exchanges_order by simp
qed

text \<open>A feed is stale exactly when it has been silent: after any sequence of arrivals in time
  order, from any exchanges, it is stale at \<open>now\<close> if and only if every arrival accepted as a
  ticker of the feed is older than the threshold.\<close>

lemma stale_iff_silent:
  assumes "is_order order" "sorted (map (fst \<circ> snd) xs)"
  shows "feed_stale order sa now (run_ops (arrive json_of) xs (\<lambda>_ _. None)) feed
    \<longleftrightarrow> (\<forall>t\<in>accepted json_of xs feed. sa < now - t)"
proof -
  let ?r = "received (run_ops (arrive json_of) xs (\<lambda>_ _. None)) feed"
  have r: "?r \<subseteq> accepted json_of xs feed" "\<forall>t\<in>accepted json_of xs feed. \<exists>t'\<in>?r. t \<le> t'"
    using received_run [OF assms(2), of json_of feed] by auto
  have "(\<forall>t\<in>?r. sa < now - t) \<longleftrightarrow> (\<forall>t\<in>accepted json_of xs feed. sa < now - t)"
  proof
    assume all: "\<forall>t\<in>?r. sa < now - t"
    show "\<forall>t\<in>accepted json_of xs feed. sa < now - t"
    proof
      fix t assume "t \<in> accepted json_of xs feed"
      then obtain t' where "t' \<in> ?r" "t \<le> t'" using r(2) by blast
      with all show "sa < now - t" by (meson diff_le_mono2 order_less_le_trans)
    qed
  qed (use r(1) in blast)
  then show ?thesis by (simp add: feed_stale_iff [OF assms(1)])
qed

lemma stale_iff_silent_witness:
  "\<not> feed_stale all_exchanges STALE_AFTER (secs 5)
     (run_ops (arrive w_json) [(Coinbase, secs 1, MText ''m''), (Coinbase, secs 2, MOther)] (\<lambda>_ _. None)) ''BTC/USD''"
proof -
  have "sorted (map (fst \<circ> snd) [(Coinbase, secs 1, MText ''m''), (Coinbase, secs 2, MOther)])" by simp
  note s = stale_iff_silent [OF all_exchanges_order(1) this]
  have "secs 1 \<in> accepted w_json [(Coinbase, secs 1, MText ''m''), (Coinbase, secs 2, MOther)] ''BTC/USD''"
    unfolding accepted_def using w_parse by (auto simp: w_ticker_def)
  then show ?thesis unfolding s by (auto simp: STALE_AFTER_def intro!: bexI [of _ "secs 1"])
qed

text \<open>The reconnection loop never gives up and never waits more than thirty seconds: with streams
  that end any way a stream can end, the delays are half a second doubled each time up to
  thirty seconds and both counters count every end. Since a stream cannot end cleanly, the
  reset of the delay is never taken, also after a connection that worked for hours.\<close>

lemma reconnect_delays:
  assumes "\<forall>r\<in>set rs. \<exists>conn sent items book. r = fst (stream_once json_of e conn sent items book)"
  shows "loop_run rs RECONNECT_BASE_DELAY nd =
    (map (\<lambda>i. min (RECONNECT_BASE_DELAY * 2 ^ i) (secs 30)) [0..<length rs],
     nd\<lparr>nd_failures := nd_failures nd + of_nat (length rs), nd_reconnects := nd_reconnects nd + of_nat (length rs)\<rparr>)"
proof -
  have "\<forall>r\<in>set rs. \<exists>e. r = Err e" using assms stream_once_err by metis
  moreover have "min RECONNECT_BASE_DELAY (secs 30) = RECONNECT_BASE_DELAY" by (simp add: RECONNECT_BASE_DELAY_def)
  ultimately show ?thesis using loop_run_errors [of rs RECONNECT_BASE_DELAY nd] by simp
qed

lemma reconnect_delays_witness:
  "fst (loop_run (replicate 8 (Err ''stream closed by peer'')) RECONNECT_BASE_DELAY (provider_new STALE_AFTER))
    = map millis [500, 1000, 2000, 4000, 8000, 16000, 30000, 30000]"
proof -
  have "Err ''stream closed by peer'' = fst (stream_once w_json Coinbase (Some (Ok (True, IPv4 1, 443))) (Ok ()) []
      (\<lambda>_ _. None))" by (simp add: stream_once_def)
  then have "\<forall>r\<in>set (replicate 8 (Err ''stream closed by peer'')).
      \<exists>conn sent items book. r = fst (stream_once w_json Coinbase conn sent items book)" by (auto; metis)
  from reconnect_delays [OF this, of "provider_new STALE_AFTER"] show ?thesis
    by (simp add: RECONNECT_BASE_DELAY_def upt_rec)
qed

end
