(* ===== verification/MpcSigner.thy ===== *)
theory MpcSigner
  imports Prelude
begin

text \<open>
  \<open>kms/mpc_signer.rs\<close>: key shares modulo the order of the curve, the EIP-1559 payloads, signing
  with two shares and the self-check. The curve library (k256), the hash (sha3) and the RLP
  encoder (rlp) are parameters; scalars are naturals below the order. An option as a
  result is the panic of an \<open>expect\<close>.
\<close>

section \<open>The libraries\<close>

text \<open>
  The items appended to an RLP list: an unsigned integer, a byte string, an empty list. An
  integer is the byte string of its big-endian digits without leading zeros.
\<close>

datatype rlp_item = RUint nat | RBytes bytes | REmpty

fun be_min :: "nat \<Rightarrow> bytes" where
  "be_min n = (if n = 0 then [] else be_min (n div 256) @ [word_of_nat n])"

fun rlp_canon :: "rlp_item \<Rightarrow> rlp_item" where
  "rlp_canon (RUint n) = RBytes (be_min n)"
| "rlp_canon i = i"

type_synonym rlp = "rlp_item list \<Rightarrow> bytes"

text \<open>RLP can be decoded: the encoding of a list determines its items.\<close>

definition rlp_ok :: "rlp \<Rightarrow> bool" where
  "rlp_ok enc \<longleftrightarrow> (\<forall>xs ys. enc xs = enc ys \<longleftrightarrow> map rlp_canon xs = map rlp_canon ys)"

record 'p k256 =
  k_order :: nat
  k_mul_g :: "nat \<Rightarrow> 'p"
  k_add :: "'p \<Rightarrow> 'p \<Rightarrow> 'p"
  k_identity :: 'p
  k_sec1 :: "bool \<Rightarrow> 'p \<Rightarrow> bytes"
  k_of_sec1 :: "bytes \<Rightarrow> 'p option"
  k_sign :: "nat \<Rightarrow> bytes \<Rightarrow> (nat \<times> nat) \<times> nat"
  k_recover :: "bytes \<Rightarrow> nat \<times> nat \<Rightarrow> nat \<Rightarrow> 'p option"
  k_keccak :: "bytes \<Rightarrow> bytes"

text \<open>
  What the module relies on: multiples of the generator add like scalars and are the identity
  for zero only; a point other than the identity survives its compressed encoding of 33 bytes;
  signing with a key gives a pair and a recovery id that recover the key; negating \<open>s\<close>
  goes with the other parity, and the two parities recover different keys.
\<close>

definition k256_ok :: "'p k256 \<Rightarrow> bool" where
  "k256_ok k \<longleftrightarrow> 2 < k_order k \<and> odd (k_order k) \<and> k_order k \<le> 256 ^ 32
    \<and> (\<forall>a b. a < k_order k \<longrightarrow> b < k_order k \<longrightarrow>
          k_add k (k_mul_g k a) (k_mul_g k b) = k_mul_g k ((a + b) mod k_order k))
    \<and> (\<forall>a<k_order k. k_mul_g k a = k_identity k \<longleftrightarrow> a = 0)
    \<and> (\<forall>a<k_order k. a \<noteq> 0 \<longrightarrow> k_of_sec1 k (k_sec1 k True (k_mul_g k a)) = Some (k_mul_g k a)
          \<and> length (k_sec1 k True (k_mul_g k a)) = 33 \<and> length (k_sec1 k False (k_mul_g k a)) = 65)
    \<and> (\<forall>d z r s v. 0 < d \<longrightarrow> d < k_order k \<longrightarrow> k_sign k d z = ((r, s), v) \<longrightarrow>
          0 < r \<and> r < k_order k \<and> 0 < s \<and> s < k_order k \<and> v < 4
          \<and> k_recover k z (r, s) v = Some (k_mul_g k d)
          \<and> (v < 2 \<longrightarrow> k_recover k z (r, s) (1 - v) \<noteq> Some (k_mul_g k d)
               \<and> k_recover k z (r, k_order k - s) v = k_recover k z (r, s) (1 - v)))"

section \<open>Key shares\<close>

definition SCALAR_LEN :: nat where
  "SCALAR_LEN = 32"

record key_share =
  share_bytes :: bytes

definition share_from_scalar :: "nat \<Rightarrow> key_share" where
  "share_from_scalar scalar = \<lparr>share_bytes = be_bytes SCALAR_LEN scalar\<rparr>"

definition scalar_from_repr :: "'p k256 \<Rightarrow> bytes \<Rightarrow> nat option" where
  "scalar_from_repr k bs = (if be_nat bs < k_order k then Some (be_nat bs) else None)"

definition share_to_scalar :: "'p k256 \<Rightarrow> key_share \<Rightarrow> nat option" where
  "share_to_scalar k share = scalar_from_repr k (share_bytes share)"

definition share_as_bytes :: "key_share \<Rightarrow> bytes" where
  "share_as_bytes share = share_bytes share"

definition share_debug :: "key_share \<Rightarrow> string" where
  "share_debug share = ''KeyShare(redacted)''"

text \<open>\<open>rnd\<close> is the scalar drawn from the random generator.\<close>

definition split_key :: "'p k256 \<Rightarrow> nat \<Rightarrow> nat \<Rightarrow> key_share \<times> key_share" where
  "split_key k rnd secret =
     (let s1 = rnd; s2 = (secret + (k_order k - s1)) mod k_order k
      in (share_from_scalar s1, share_from_scalar s2))"

definition split_key_bytes :: "'p k256 \<Rightarrow> nat \<Rightarrow> bytes \<Rightarrow> (key_share \<times> key_share) option" where
  "split_key_bytes k rnd secret = map_option (split_key k rnd) (scalar_from_repr k secret)"

section \<open>Transactions\<close>

record eip1559_tx =
  tx_chain_id :: u64
  tx_nonce :: u64
  tx_max_priority_fee_per_gas :: u128
  tx_max_fee_per_gas :: u128
  tx_gas_limit :: u64
  tx_to :: bytes
  tx_value :: bytes
  tx_data :: bytes

record signature_parts =
  sig_r :: bytes
  sig_s :: bytes
  sig_y_parity :: u8

definition to_ecrecover_bytes :: "signature_parts \<Rightarrow> bytes" where
  "to_ecrecover_bytes sig = sig_r sig @ sig_s sig @ [sig_y_parity sig]"

definition tx_items :: "eip1559_tx \<Rightarrow> rlp_item list" where
  "tx_items tx = [RUint (unat (tx_chain_id tx)), RUint (unat (tx_nonce tx)),
     RUint (unat (tx_max_priority_fee_per_gas tx)), RUint (unat (tx_max_fee_per_gas tx)),
     RUint (unat (tx_gas_limit tx)), RBytes (tx_to tx), RBytes (tx_value tx), RBytes (tx_data tx), REmpty]"

definition eip1559_signing_payload :: "rlp \<Rightarrow> eip1559_tx \<Rightarrow> bytes" where
  "eip1559_signing_payload enc tx = 2 # enc (tx_items tx)"

definition eip1559_signing_hash :: "'p k256 \<Rightarrow> rlp \<Rightarrow> eip1559_tx \<Rightarrow> bytes" where
  "eip1559_signing_hash k enc tx = k_keccak k (eip1559_signing_payload enc tx)"

definition raw_signed_tx :: "rlp \<Rightarrow> eip1559_tx \<Rightarrow> signature_parts \<Rightarrow> bytes" where
  "raw_signed_tx enc tx sig = 2 # enc (tx_items tx
     @ [RUint (unat (sig_y_parity sig)), RBytes (sig_r sig), RBytes (sig_s sig)])"

section \<open>Signing\<close>

text \<open>\<open>normalize_s\<close> negates a high \<open>s\<close>; the recovery id is converted to its byte and back.\<close>

definition normalize_s :: "'p k256 \<Rightarrow> nat \<times> nat \<Rightarrow> (nat \<times> nat) option" where
  "normalize_s k rs = (if k_order k div 2 < snd rs then Some (fst rs, k_order k - snd rs) else None)"

definition recovery_id :: "nat \<Rightarrow> nat option" where
  "recovery_id b = (if b < 4 then Some b else None)"

definition sign_with_payload :: "'p k256 \<Rightarrow> nat \<Rightarrow> bytes \<Rightarrow> signature_parts option" where
  "sign_with_payload k scalar payload =
     (if scalar = 0 then None
      else (case k_sign k scalar (k_keccak k payload) of (signature, recid) \<Rightarrow>
        let signature = (case normalize_s k signature of Some sg \<Rightarrow> sg | None \<Rightarrow> signature);
            recid = (case recovery_id recid of Some v \<Rightarrow> v | None \<Rightarrow> recid)
        in Some \<lparr>sig_r = be_bytes 32 (fst signature), sig_s = be_bytes 32 (snd signature),
             sig_y_parity = (if odd recid then 1 else 0)\<rparr>))"

definition public_key_of :: "'p k256 \<Rightarrow> nat \<Rightarrow> 'p option" where
  "public_key_of k scalar =
     (if scalar = 0 then None else k_of_sec1 k (k_sec1 k True (k_mul_g k scalar)))"

definition composed_point :: "'p k256 \<Rightarrow> key_share \<Rightarrow> key_share \<Rightarrow> 'p option" where
  "composed_point k s1 s2 =
     (case (Option.bind (share_to_scalar k s1) (public_key_of k), Option.bind (share_to_scalar k s2) (public_key_of k)) of
        (Some p1, Some p2) \<Rightarrow> (let q = k_add k p1 p2 in if q = k_identity k then None else Some q)
      | _ \<Rightarrow> None)"

definition composed_public_key :: "'p k256 \<Rightarrow> key_share \<Rightarrow> key_share \<Rightarrow> bytes option" where
  "composed_public_key k s1 s2 = map_option (k_sec1 k True) (composed_point k s1 s2)"

definition composed_address :: "'p k256 \<Rightarrow> key_share \<Rightarrow> key_share \<Rightarrow> bytes option" where
  "composed_address k s1 s2 =
     map_option (\<lambda>q. drop 12 (k_keccak k (drop 1 (k_sec1 k False q)))) (composed_point k s1 s2)"

definition sign_eip1559 :: "'p k256 \<Rightarrow> rlp \<Rightarrow> key_share \<Rightarrow> key_share \<Rightarrow> eip1559_tx \<Rightarrow> signature_parts option" where
  "sign_eip1559 k enc s1 s2 tx =
     (case (share_to_scalar k s1, share_to_scalar k s2) of
        (Some a, Some b) \<Rightarrow> sign_with_payload k ((a + b) mod k_order k) (eip1559_signing_payload enc tx)
      | _ \<Rightarrow> None)"

definition verify_signature :: "'p k256 \<Rightarrow> bytes \<Rightarrow> bytes \<Rightarrow> signature_parts \<Rightarrow> bool" where
  "verify_signature k composed_pk payload sig =
     (case k_of_sec1 k composed_pk of
        None \<Rightarrow> False
      | Some expected \<Rightarrow>
          (case recovery_id (unat (sig_y_parity sig)) of
             None \<Rightarrow> False
           | Some recid \<Rightarrow>
               (let r = be_nat (sig_r sig); s = be_nat (sig_s sig) in
                if 0 < r \<and> r < k_order k \<and> 0 < s \<and> s < k_order k
                then k_recover k (k_keccak k payload) (r, s) recid = Some expected else False)))"

section \<open>Lemmas\<close>

declare be_min.simps [simp del]

lemma be_min_0 [simp]: "be_min 0 = []"
  by (simp add: be_min.simps)

lemma be_nat_be_min [simp]: "be_nat (be_min n) = n"
proof (induction n rule: be_min.induct)
  case (1 n)
  then show ?case by (subst be_min.simps) (simp add: unat_of_nat)
qed

lemma be_min_inject [simp]: "be_min m = be_min n \<longleftrightarrow> m = n"
  by (metis be_nat_be_min)

lemma be_min_no_zero: "be_min n \<noteq> [] \<Longrightarrow> hd (be_min n) \<noteq> 0"
proof (induction n rule: be_min.induct)
  case (1 n)
  have n: "n \<noteq> 0" using 1(2) by (metis be_min_0)
  then have e: "be_min n = be_min (n div 256) @ [word_of_nat n]" by (simp add: be_min.simps)
  show ?case
  proof (cases "be_min (n div 256) = []")
    case True
    then have "n div 256 = 0" by (metis be_nat_be_min be_nat_Nil)
    then have "n < 256" by simp
    then have "unat (word_of_nat n :: u8) = n" by (simp add: unat_of_nat)
    then have "(word_of_nat n :: u8) \<noteq> 0" using n by auto
    then show ?thesis by (simp add: e True)
  next
    case False
    then show ?thesis using 1 n by (simp add: e)
  qed
qed

lemma k256_okD:
  assumes "k256_ok k"
  shows "2 < k_order k" "odd (k_order k)" "k_order k \<le> 256 ^ 32"
    "\<forall>a b. a < k_order k \<longrightarrow> b < k_order k \<longrightarrow> k_add k (k_mul_g k a) (k_mul_g k b) = k_mul_g k ((a + b) mod k_order k)"
    "\<forall>a<k_order k. k_mul_g k a = k_identity k \<longleftrightarrow> a = 0"
    "\<forall>a<k_order k. a \<noteq> 0 \<longrightarrow> k_of_sec1 k (k_sec1 k True (k_mul_g k a)) = Some (k_mul_g k a)"
  using assms unfolding k256_ok_def by blast+

lemma be_nat_bytes32: "x < k_order k \<Longrightarrow> k256_ok k \<Longrightarrow> be_nat (be_bytes 32 x) = x"
  using k256_okD(3) [of k] unfolding be_nat_be_bytes by (intro mod_less) (rule order_less_le_trans)

lemma share_scalar [simp]: "x < k_order k \<Longrightarrow> k256_ok k \<Longrightarrow> share_to_scalar k (share_from_scalar x) = Some x"
  by (simp add: share_to_scalar_def share_from_scalar_def scalar_from_repr_def SCALAR_LEN_def be_nat_bytes32)

lemma k256_order: "k256_ok k \<Longrightarrow> 0 < k_order k \<and> 2 < k_order k \<and> odd (k_order k)"
  using k256_okD(1,2) [of k] by linarith

lemma k256_add: "k256_ok k \<Longrightarrow> a < k_order k \<Longrightarrow> b < k_order k \<Longrightarrow>
    k_add k (k_mul_g k a) (k_mul_g k b) = k_mul_g k ((a + b) mod k_order k)"
  using k256_okD(4) by blast

lemma k256_identity: "k256_ok k \<Longrightarrow> a < k_order k \<Longrightarrow> k_mul_g k a = k_identity k \<longleftrightarrow> a = 0"
  using k256_okD(5) by blast

lemma k256_sec1: "k256_ok k \<Longrightarrow> a < k_order k \<Longrightarrow> a \<noteq> 0 \<Longrightarrow> k_of_sec1 k (k_sec1 k True (k_mul_g k a)) = Some (k_mul_g k a)"
  using k256_okD(6) by blast

lemma k256_sign:
  assumes "k256_ok k" "0 < d" "d < k_order k" "k_sign k d z = ((r, s), v)"
  shows "0 < r \<and> r < k_order k \<and> 0 < s \<and> s < k_order k \<and> v < 4
    \<and> k_recover k z (r, s) v = Some (k_mul_g k d)
    \<and> (v < 2 \<longrightarrow> k_recover k z (r, s) (1 - v) \<noteq> Some (k_mul_g k d)
         \<and> k_recover k z (r, k_order k - s) v = k_recover k z (r, s) (1 - v))"
  using assms unfolding k256_ok_def by blast

lemma public_key_of_share: "k256_ok k \<Longrightarrow> a < k_order k \<Longrightarrow>
    public_key_of k a = (if a = 0 then None else Some (k_mul_g k a))"
  by (simp add: public_key_of_def k256_sec1)

lemma composed_point_eq:
  assumes "k256_ok k" "a < k_order k" "b < k_order k"
  shows "composed_point k (share_from_scalar a) (share_from_scalar b)
    = (if a = 0 \<or> b = 0 \<or> (a + b) mod k_order k = 0 then None else Some (k_mul_g k ((a + b) mod k_order k)))"
proof -
  have "(a + b) mod k_order k < k_order k" using k256_order [OF assms(1)] by simp
  then show ?thesis
    using assms by (simp add: composed_point_def public_key_of_share k256_add k256_identity Let_def)
qed

lemma split_key_shares: "k256_ok k \<Longrightarrow> rnd < k_order k \<Longrightarrow>
    split_key k rnd s = (share_from_scalar rnd, share_from_scalar ((s + (k_order k - rnd)) mod k_order k))"
  by (simp add: split_key_def Let_def)

lemma share_from_scalar_inj: "k256_ok k \<Longrightarrow> x < k_order k \<Longrightarrow> y < k_order k \<Longrightarrow>
    share_from_scalar x = share_from_scalar y \<longleftrightarrow> x = y"
  by (metis share_scalar option.inject)

lemma tx_items_canon: "map rlp_canon (tx_items tx) = map rlp_canon (tx_items tx') \<longleftrightarrow> tx = tx'"
  by (cases tx; cases tx') (auto simp: tx_items_def word_unat_eq_iff)

section \<open>Instances that meet the assumptions\<close>

text \<open>A toy curve of order 7 whose keys are the residues, and a prefix code for RLP.\<close>

definition w_k256 :: "nat k256" where
  "w_k256 = \<lparr>k_order = 7, k_mul_g = (\<lambda>a. a), k_add = (\<lambda>a b. (a + b) mod 7), k_identity = 0,
     k_sec1 = (\<lambda>c a. replicate (if c then 32 else 64) 0 @ [word_of_nat a]),
     k_of_sec1 = (\<lambda>bs. Some (unat (last bs))), k_sign = (\<lambda>d z. ((1, d), 0)),
     k_recover = (\<lambda>z rs v. Some (if v = 0 then snd rs else 7 - snd rs)), k_keccak = take 32\<rparr>"

lemma w_k256_ok: "k256_ok w_k256"
proof -
  have u: "unat (word_of_nat a :: u8) = a" if "a < 7" for a using that by (simp add: unat_of_nat)
  have o7: "(7 :: nat) \<le> 256 ^ 32" by simp
  have ne: "7 - d \<noteq> d" for d :: nat by presburger
  show ?thesis
    unfolding k256_ok_def w_k256_def k256.simps using u o7 ne by (intro conjI allI impI) auto
qed

definition rlp_code :: "rlp_item \<Rightarrow> bytes" where
  "rlp_code i = (case i of RBytes bs \<Rightarrow> concat (map (\<lambda>b. [1, b]) bs) @ [0] | _ \<Rightarrow> [2])"

definition w_rlp :: rlp where
  "w_rlp xs = concat (map (\<lambda>i. rlp_code (rlp_canon i)) xs)"

fun rlp_dec :: "bytes \<Rightarrow> bytes \<Rightarrow> rlp_item list" where
  "rlp_dec acc [] = []"
| "rlp_dec acc (c # s) =
     (if c = 0 then RBytes acc # rlp_dec [] s
      else if c = 2 then REmpty # rlp_dec [] s
      else (case s of [] \<Rightarrow> [] | b # s' \<Rightarrow> rlp_dec (acc @ [b]) s'))"

lemma rlp_dec_bytes: "rlp_dec acc (concat (map (\<lambda>b. [1, b]) bs) @ 0 # s) = RBytes (acc @ bs) # rlp_dec [] s"
  by (induction bs arbitrary: acc) simp_all

lemma rlp_canon_cases: obtains bs where "rlp_canon i = RBytes bs" | "rlp_canon i = REmpty"
  by (cases i) auto

lemma rlp_dec_code: "rlp_dec [] (w_rlp xs) = map rlp_canon xs"
proof (induction xs)
  case (Cons x xs)
  show ?case
    by (rule rlp_canon_cases [of x])
      (use Cons rlp_dec_bytes [of "[]" _ "w_rlp xs"] in \<open>simp_all add: w_rlp_def rlp_code_def\<close>)
qed (simp add: w_rlp_def)

lemma w_rlp_ok: "rlp_ok w_rlp"
proof -
  have "w_rlp xs = w_rlp ys" if "map rlp_canon xs = map rlp_canon ys" for xs ys
  proof -
    have "map rlp_code (map rlp_canon xs) = map rlp_code (map rlp_canon ys)" using that by simp
    then show ?thesis by (simp add: w_rlp_def comp_def)
  qed
  then show ?thesis unfolding rlp_ok_def by (metis rlp_dec_code)
qed

definition w_tx :: eip1559_tx where
  "w_tx = \<lparr>tx_chain_id = 114, tx_nonce = 0, tx_max_priority_fee_per_gas = 1, tx_max_fee_per_gas = 3,
     tx_gas_limit = 21000, tx_to = replicate 20 17, tx_value = replicate 32 0, tx_data = []\<rparr>"

section \<open>Properties\<close>

text \<open>C32: splitting is correct and reveals nothing to one holder: the two shares add up to the secret
  modulo the order; the first share does not depend on the secret; and as the random scalar
  ranges over all scalars the second share takes every share value exactly once, whatever the
  secret.\<close>

theorem split_key_correct:
  assumes "k256_ok k" "s < k_order k"
  shows "(\<forall>rnd<k_order k. \<exists>a b. share_to_scalar k (fst (split_key k rnd s)) = Some a
      \<and> share_to_scalar k (snd (split_key k rnd s)) = Some b \<and> (a + b) mod k_order k = s
      \<and> fst (split_key k rnd s) = share_from_scalar rnd)
    \<and> bij_betw (\<lambda>rnd. snd (split_key k rnd s)) {..<k_order k} (share_from_scalar ` {..<k_order k})"
proof
  let ?n = "k_order k"
  have n: "0 < ?n" using k256_order [OF assms(1)] by simp
  show "\<forall>rnd<?n. \<exists>a b. share_to_scalar k (fst (split_key k rnd s)) = Some a
      \<and> share_to_scalar k (snd (split_key k rnd s)) = Some b \<and> (a + b) mod ?n = s
      \<and> fst (split_key k rnd s) = share_from_scalar rnd"
    using assms n by (auto simp: split_key_shares mod_add_right_eq)
  have neg: "bij_betw (\<lambda>rnd. (s + (?n - rnd)) mod ?n) {..<?n} {..<?n}"
  proof (rule bij_betw_byWitness [where f' = "\<lambda>x. (s + (?n - x)) mod ?n"])
    have "(s + (?n - (s + (?n - x)) mod ?n)) mod ?n = x" if "x < ?n" for x
    proof (cases "x \<le> s")
      case True
      then have "s + (?n - x) = (s - x) + ?n" using that by simp
      then have m: "(s + (?n - x)) mod ?n = s - x" using assms(2) by (simp only: mod_add_self2) simp
      show ?thesis unfolding m using True assms(2) that by simp
    next
      case False
      then have m: "(s + (?n - x)) mod ?n = s + (?n - x)" using that by simp
      show ?thesis unfolding m using False that by simp
    qed
    then show "\<forall>a\<in>{..<?n}. (s + (?n - (s + (?n - a)) mod ?n)) mod ?n = a"
      "\<forall>a'\<in>{..<?n}. (s + (?n - (s + (?n - a')) mod ?n)) mod ?n = a'" by auto
  qed (use n in auto)
  have "inj_on share_from_scalar {..<?n}"
    using share_from_scalar_inj [OF assms(1)] by (auto simp: inj_on_def)
  from bij_betw_trans [OF neg inj_on_imp_bij_betw [OF this]]
  have "bij_betw (share_from_scalar \<circ> (\<lambda>rnd. (s + (?n - rnd)) mod ?n)) {..<?n} (share_from_scalar ` {..<?n})" .
  then show "bij_betw (\<lambda>rnd. snd (split_key k rnd s)) {..<?n} (share_from_scalar ` {..<?n})"
    by (rule bij_betw_cong [THEN iffD1, rotated]) (simp add: split_key_shares assms(1))
qed

theorem split_key_correct_witness:
  "\<exists>a b. share_to_scalar w_k256 (fst (split_key w_k256 5 3)) = Some a
    \<and> share_to_scalar w_k256 (snd (split_key w_k256 5 3)) = Some b \<and> (a + b) mod 7 = 3"
proof -
  have o: "3 < k_order w_k256" "5 < k_order w_k256" "k_order w_k256 = 7" by (simp_all add: w_k256_def)
  from conjunct1 [OF split_key_correct [OF w_k256_ok o(1)], rule_format, OF o(2)] show ?thesis unfolding o(3) by blast
qed

text \<open>The composed public key and address are those of the sum of the shares, which is never
  formed; the derivation panics exactly when a share or the sum is zero.\<close>

lemma composed_key_correct:
  assumes "k256_ok k" "a < k_order k" "b < k_order k"
  shows "composed_public_key k (share_from_scalar a) (share_from_scalar b)
      = (if a = 0 \<or> b = 0 \<or> (a + b) mod k_order k = 0 then None
         else Some (k_sec1 k True (k_mul_g k ((a + b) mod k_order k))))
    \<and> composed_address k (share_from_scalar a) (share_from_scalar b)
      = (if a = 0 \<or> b = 0 \<or> (a + b) mod k_order k = 0 then None
         else Some (drop 12 (k_keccak k (drop 1 (k_sec1 k False (k_mul_g k ((a + b) mod k_order k)))))))"
  by (simp add: composed_public_key_def composed_address_def composed_point_eq [OF assms])

lemma composed_key_correct_witness:
  "composed_public_key w_k256 (share_from_scalar 5) (share_from_scalar 4) = Some (replicate 32 0 @ [2])
    \<and> composed_public_key w_k256 (share_from_scalar 5) (share_from_scalar 2) = None"
proof -
  have o: "5 < k_order w_k256" "4 < k_order w_k256" "2 < k_order w_k256" by (simp_all add: w_k256_def)
  show ?thesis
    using composed_key_correct [OF w_k256_ok o(1,2)] composed_key_correct [OF w_k256_ok o(1,3)]
    by (simp add: w_k256_def)
qed



text \<open>What is signed determines the transaction: two transactions have the same signing payload only
  if every field agrees, the raw signed bytes determine transaction and signature, and no raw
  signed transaction is itself a signing payload.\<close>

lemma signing_payload_injective:
  assumes "rlp_ok enc"
  shows "(eip1559_signing_payload enc tx = eip1559_signing_payload enc tx' \<longleftrightarrow> tx = tx')
    \<and> (raw_signed_tx enc tx sig = raw_signed_tx enc tx' sig' \<longleftrightarrow> tx = tx' \<and> sig = sig')
    \<and> raw_signed_tx enc tx sig \<noteq> eip1559_signing_payload enc tx'"
proof (intro conjI)
  note dec = assms [unfolded rlp_ok_def, rule_format]
  show "eip1559_signing_payload enc tx = eip1559_signing_payload enc tx' \<longleftrightarrow> tx = tx'"
    unfolding eip1559_signing_payload_def list.inject dec tx_items_canon by simp
  have l: "length (map rlp_canon (tx_items t)) = 9" for t by (simp add: tx_items_def)
  show "raw_signed_tx enc tx sig = raw_signed_tx enc tx' sig' \<longleftrightarrow> tx = tx' \<and> sig = sig'"
    unfolding raw_signed_tx_def list.inject dec map_append append_eq_append_conv [OF disjI1 [OF trans [OF l l [symmetric]]]]
      tx_items_canon by (cases sig; cases sig') (auto simp: word_unat_eq_iff)
  show "raw_signed_tx enc tx sig \<noteq> eip1559_signing_payload enc tx'"
  proof
    assume "raw_signed_tx enc tx sig = eip1559_signing_payload enc tx'"
    then have "map rlp_canon (tx_items tx @ [RUint (unat (sig_y_parity sig)), RBytes (sig_r sig), RBytes (sig_s sig)])
        = map rlp_canon (tx_items tx')"
      unfolding raw_signed_tx_def eip1559_signing_payload_def list.inject dec by simp
    from arg_cong [OF this, of length] show False by (simp add: tx_items_def)
  qed
qed

lemma signing_payload_injective_witness:
  "eip1559_signing_payload w_rlp w_tx \<noteq> eip1559_signing_payload w_rlp (w_tx\<lparr>tx_nonce := 1\<rparr>)"
  using signing_payload_injective [OF w_rlp_ok, of w_tx "w_tx\<lparr>tx_nonce := 1\<rparr>"] by (simp add: w_tx_def)

text \<open>The payload is not the one of the transaction standard when the value field has a leading
  zero byte (every amount below \<open>256 ^ 31\<close> wei): the standard encodes the amount as an integer
  without leading zeros, the code as the 32-byte string.\<close>

lemma signing_payload_value:
  assumes "rlp_ok enc" "tx_value tx \<noteq> []" "hd (tx_value tx) = 0"
  shows "eip1559_signing_payload enc tx \<noteq>
    2 # enc ((tx_items tx)[6 := RUint (be_nat (tx_value tx))])"
proof
  assume "eip1559_signing_payload enc tx = 2 # enc ((tx_items tx)[6 := RUint (be_nat (tx_value tx))])"
  then have "map rlp_canon (tx_items tx) = map rlp_canon ((tx_items tx)[6 := RUint (be_nat (tx_value tx))])"
    using assms(1) by (simp add: eip1559_signing_payload_def rlp_ok_def)
  then have "be_min (be_nat (tx_value tx)) = tx_value tx" by (simp add: tx_items_def)
  then show False using assms(2,3) be_min_no_zero by metis
qed

lemma signing_payload_value_witness:
  "eip1559_signing_payload w_rlp w_tx \<noteq> 2 # w_rlp ((tx_items w_tx)[6 := RUint (be_nat (tx_value w_tx))])"
  by (rule signing_payload_value [OF w_rlp_ok]) (simp_all add: w_tx_def)

end
