(* ===== verification/FtsoSubmit.thy ===== *)
theory FtsoSubmit
  imports F64 MpcSigner
begin

text \<open>
  \<open>ftso_provider/submitter.rs\<close>: price formatting, commit hashes, the calldata of the two
  transactions, a complete submission and its signing. Keccak and the text of a number are
  parameters; the round trip is stated against a reference decoder of the ABI.
\<close>

section \<open>Prices\<close>

definition PRICE_DECIMALS :: nat where
  "PRICE_DECIMALS = 5"

definition PRICE_SCALE :: f64 where
  "PRICE_SCALE = Fin 100000"

text \<open>\<open>f64::round\<close> rounds halves away from zero; a cast to \<open>u64\<close> truncates and saturates.\<close>

fun fround :: "f64 \<Rightarrow> f64" where
  "fround (Fin x) = Fin (of_int (if 0 \<le> x then \<lfloor>x + 1/2\<rfloor> else \<lceil>x - 1/2\<rceil>))"
| "fround a = a"

fun to_u64 :: "f64 \<Rightarrow> u64" where
  "to_u64 (Fin x) = (if x \<le> 0 then 0 else if 2 ^ 64 \<le> x then - 1 else word_of_nat (nat \<lfloor>x\<rfloor>))"
| "to_u64 PosInf = - 1"
| "to_u64 _ = 0"

definition format_price :: "(f64 \<Rightarrow> string) \<Rightarrow> f64 \<Rightarrow> string + u64" where
  "format_price show_f64 usd =
     (if \<not> is_finite usd \<or> fle usd (Fin 0)
      then Err (''price must be finite and positive, got '' @ show_f64 usd)
      else let scaled = fmul usd PRICE_SCALE in
        if flt (of_u64 (2 ^ 64 - 1)) scaled
        then Err (''price '' @ show_f64 usd @ '' overflows u64 at '' @ show_nat PRICE_DECIMALS @ '' decimals'')
        else Ok (to_u64 (fround scaled)))"

section \<open>Hashes and calldata\<close>

type_synonym keccak = "bytes \<Rightarrow> bytes"

definition commit_preimage :: "u64 \<Rightarrow> bytes \<Rightarrow> bytes \<Rightarrow> bytes" where
  "commit_preimage price random voter = u64_to_be_bytes price @ random @ replicate 12 0 @ voter"

definition commit_hash :: "keccak \<Rightarrow> u64 \<Rightarrow> bytes \<Rightarrow> bytes \<Rightarrow> bytes" where
  "commit_hash kc price random voter = kc (commit_preimage price random voter)"

definition selector :: "keccak \<Rightarrow> string \<Rightarrow> bytes" where
  "selector kc signature = take 4 (kc (bytes_of signature))"

definition push_u256 :: "bytes \<Rightarrow> u64 \<Rightarrow> bytes" where
  "push_u256 out v = out @ replicate 24 0 @ u64_to_be_bytes v"

definition submit_hash_calldata :: "keccak \<Rightarrow> u64 \<Rightarrow> bytes \<Rightarrow> bytes" where
  "submit_hash_calldata kc epoch_id hash =
     push_u256 (selector kc ''submitHash(uint256,bytes32)'') epoch_id @ hash"

definition reveal_prices_calldata :: "keccak \<Rightarrow> u64 \<Rightarrow> u64 list \<Rightarrow> u64 list \<Rightarrow> bytes \<Rightarrow> bytes" where
  "reveal_prices_calldata kc epoch_id ftso_indices prices random =
     (let indices_offset = 4 * 32;
          prices_offset = indices_offset + 32 + length ftso_indices * 32;
          out = selector kc ''revealPrices(uint256,uint256[],uint256[],uint256)'';
          out = push_u256 out epoch_id;
          out = push_u256 out (word_of_nat indices_offset);
          out = push_u256 out (word_of_nat prices_offset);
          out = out @ random;
          out = push_u256 out (word_of_nat (length ftso_indices));
          out = foldl push_u256 out ftso_indices;
          out = push_u256 out (word_of_nat (length prices))
      in foldl push_u256 out prices)"

section \<open>Submissions\<close>

record price_submission =
  ps_epoch_id :: u64
  ps_ftso_indices :: "u64 list"
  ps_prices :: "u64 list"
  ps_random :: bytes
  ps_hashes :: "bytes list"

fun submission_loop :: "keccak \<Rightarrow> (f64 \<Rightarrow> string) \<Rightarrow> bytes \<Rightarrow> bytes \<Rightarrow> (u64 \<times> f64) list
    \<Rightarrow> u64 list \<times> u64 list \<times> bytes list \<Rightarrow> string + (u64 list \<times> u64 list \<times> bytes list)" where
  "submission_loop kc show_f64 random voter [] acc = Ok acc"
| "submission_loop kc show_f64 random voter ((index, usd) # feeds) (ftso_indices, prices, hashes) =
     res_bind (format_price show_f64 usd) (\<lambda>price.
       submission_loop kc show_f64 random voter feeds
         (ftso_indices @ [index], prices @ [price], hashes @ [commit_hash kc price random voter]))"

definition submission_new :: "keccak \<Rightarrow> (f64 \<Rightarrow> string) \<Rightarrow> u64 \<Rightarrow> (u64 \<times> f64) list \<Rightarrow> bytes \<Rightarrow> bytes
    \<Rightarrow> string + price_submission" where
  "submission_new kc show_f64 epoch_id feeds random voter =
     (if feeds = [] then Err ''at least one feed is required''
      else res_bind (submission_loop kc show_f64 random voter feeds ([], [], [])) (\<lambda>(ftso_indices, prices, hashes).
        Ok \<lparr>ps_epoch_id = epoch_id, ps_ftso_indices = ftso_indices, ps_prices = prices,
          ps_random = random, ps_hashes = hashes\<rparr>))"

definition submit_txs :: "keccak \<Rightarrow> price_submission \<Rightarrow> bytes list" where
  "submit_txs kc sub = map (submit_hash_calldata kc (ps_epoch_id sub)) (ps_hashes sub)"

definition reveal_tx :: "keccak \<Rightarrow> price_submission \<Rightarrow> bytes" where
  "reveal_tx kc sub = reveal_prices_calldata kc (ps_epoch_id sub) (ps_ftso_indices sub) (ps_prices sub) (ps_random sub)"

definition sign_price_tx :: "'p k256 \<Rightarrow> rlp \<Rightarrow> key_share \<Rightarrow> key_share \<Rightarrow> bytes \<Rightarrow> u64 \<Rightarrow> u64 \<Rightarrow> bytes
    \<Rightarrow> u128 \<Rightarrow> u128 \<Rightarrow> u64 \<Rightarrow> (signature_parts \<times> bytes) option" where
  "sign_price_tx k enc s1 s2 calldata chain_id nonce to max_fee max_priority_fee gas_limit =
     (let tx = \<lparr>tx_chain_id = chain_id, tx_nonce = nonce, tx_max_priority_fee_per_gas = max_priority_fee,
          tx_max_fee_per_gas = max_fee, tx_gas_limit = gas_limit, tx_to = to,
          tx_value = replicate 32 0, tx_data = calldata\<rparr>
      in map_option (\<lambda>sig. (sig, raw_signed_tx enc tx sig)) (sign_eip1559 k enc s1 s2 tx))"

text \<open>The operating system's generator, with the bytes it gives when asked for a number of them.\<close>

definition fresh_random :: "(nat \<Rightarrow> bytes) \<Rightarrow> bytes" where
  "fresh_random OsRng = OsRng 32"

definition composed_provider_address :: "'p k256 \<Rightarrow> key_share \<Rightarrow> key_share \<Rightarrow> bytes option" where
  "composed_provider_address k s1 s2 = composed_address k s1 s2"

section \<open>A reference decoder\<close>

text \<open>The 32-byte word at an offset, and a dynamic array: its length, then its words.\<close>

definition abi_word :: "bytes \<Rightarrow> nat \<Rightarrow> nat option" where
  "abi_word bs off = (if off + 32 \<le> length bs then Some (be_nat (take 32 (drop off bs))) else None)"

definition abi_u64 :: "bytes \<Rightarrow> nat \<Rightarrow> u64 option" where
  "abi_u64 bs off = (case abi_word bs off of
     Some n \<Rightarrow> if n < 2 ^ 64 then Some (word_of_nat n) else None | None \<Rightarrow> None)"

fun abi_items :: "bytes \<Rightarrow> nat \<Rightarrow> nat \<Rightarrow> u64 list option" where
  "abi_items bs off 0 = Some []"
| "abi_items bs off (Suc n) = (case abi_u64 bs off of None \<Rightarrow> None
     | Some w \<Rightarrow> map_option ((#) w) (abi_items bs (off + 32) n))"

definition abi_array :: "bytes \<Rightarrow> nat \<Rightarrow> u64 list option" where
  "abi_array bs off = (case abi_word bs off of None \<Rightarrow> None | Some n \<Rightarrow> abi_items bs (off + 32) n)"

type_synonym reveal_args = "u64 \<times> u64 list \<times> u64 list \<times> bytes"

definition abi_decode_reveal :: "keccak \<Rightarrow> bytes \<Rightarrow> string + reveal_args" where
  "abi_decode_reveal kc calldata =
     (if take 4 calldata \<noteq> selector kc ''revealPrices(uint256,uint256[],uint256[],uint256)'' then Err ''selector''
      else let bs = drop 4 calldata in
        case (abi_u64 bs 0, abi_word bs 32, abi_word bs 64, abi_word bs 96) of
          (Some epoch, Some i, Some p, Some _) \<Rightarrow>
            (case (abi_array bs i, abi_array bs p) of
               (Some indices, Some prices) \<Rightarrow> Ok (epoch, indices, prices, take 32 (drop 96 bs))
             | _ \<Rightarrow> Err ''array'')
        | _ \<Rightarrow> Err ''head'')"

section \<open>Calldata lemmas\<close>

definition word256 :: "u64 \<Rightarrow> bytes" where
  "word256 w = replicate 24 0 @ u64_to_be_bytes w"

lemma length_word256 [simp]: "length (word256 w) = 32"
  by (simp add: word256_def)

lemma push_u256_word [simp]: "push_u256 out w = out @ word256 w"
  by (simp add: push_u256_def word256_def)

lemma foldl_push: "foldl push_u256 out ws = out @ concat (map word256 ws)"
  by (induction ws arbitrary: out) simp_all

lemma be_nat_zeros: "be_nat (replicate n 0 @ bs) = be_nat bs"
  by (induction bs rule: rev_induct) (simp, induction n, simp_all flip: append_assoc replicate_append_same)

lemma be_nat_word256: "be_nat (word256 w) = unat w"
  using unsigned_less [of w, where ?'a = nat]
  by (simp add: word256_def be_nat_zeros u64_to_be_bytes_def be_nat_be_bytes)

lemma unat_u64: "n < 2 ^ 64 \<Longrightarrow> unat (word_of_nat n :: u64) = n"
  by (simp add: unat_of_nat)

lemma abi_word_at: "off = length xs \<Longrightarrow> length ys = 32 \<Longrightarrow> abi_word (xs @ ys @ zs) off = Some (be_nat ys)"
  by (simp add: abi_word_def)

lemma abi_u64_at: "off = length xs \<Longrightarrow> abi_u64 (xs @ word256 w @ zs) off = Some w"
  using unsigned_less [of w, where ?'a = nat]
  by (simp add: abi_u64_def abi_word_at be_nat_word256)

lemma abi_items_at: "off = length xs \<Longrightarrow> abi_items (xs @ concat (map word256 ws) @ zs) off (length ws) = Some ws"
proof (induction ws arbitrary: xs off)
  case (Cons w ws)
  have "abi_u64 (xs @ word256 w @ concat (map word256 ws) @ zs) off = Some w"
    by (rule abi_u64_at [OF Cons.prems])
  moreover have "abi_items ((xs @ word256 w) @ concat (map word256 ws) @ zs) (off + 32) (length ws) = Some ws"
    by (rule Cons.IH) (simp add: Cons.prems)
  ultimately show ?case by simp
qed simp

lemma abi_array_at:
  assumes "off = length xs" "length ws < 2 ^ 64"
  shows "abi_array (xs @ word256 (word_of_nat (length ws)) @ concat (map word256 ws) @ zs) off = Some ws"
proof -
  have "unat (word_of_nat (length ws) :: u64) = length ws"
    using assms(2) by (simp add: unat_of_nat)
  then have "abi_word (xs @ word256 (word_of_nat (length ws)) @ concat (map word256 ws) @ zs) off = Some (length ws)"
    by (simp add: abi_word_at assms(1) be_nat_word256)
  moreover have "abi_items ((xs @ word256 (word_of_nat (length ws))) @ concat (map word256 ws) @ zs) (off + 32) (length ws) = Some ws"
    by (rule abi_items_at) (simp add: assms(1))
  ultimately show ?thesis by (simp add: abi_array_def)
qed

definition reveal_dom :: "keccak \<Rightarrow> reveal_args \<Rightarrow> bool" where
  "reveal_dom kc args = (case args of (epoch, indices, prices, random) \<Rightarrow>
     (\<forall>bs. length (kc bs) = 32) \<and> length random = 32 \<and> 160 + 32 * length indices < 2 ^ 64 \<and> length prices < 2 ^ 64)"

definition reveal_enc :: "keccak \<Rightarrow> reveal_args \<Rightarrow> bytes" where
  "reveal_enc kc args = (case args of (epoch, indices, prices, random) \<Rightarrow>
     reveal_prices_calldata kc epoch indices prices random)"

lemma reveal_layout: "reveal_prices_calldata kc e is ps r =
    selector kc ''revealPrices(uint256,uint256[],uint256[],uint256)'' @ word256 e @ word256 128
    @ word256 (word_of_nat (160 + 32 * length is)) @ r @ word256 (word_of_nat (length is)) @ concat (map word256 is)
    @ word256 (word_of_nat (length ps)) @ concat (map word256 ps)"
  by (simp add: reveal_prices_calldata_def Let_def foldl_push mult.commute)

lemma selector_length: "\<forall>bs. length (kc bs) = 32 \<Longrightarrow> length (selector kc s) = 4"
  by (simp add: selector_def)

lemma reveal_decodes:
  assumes "reveal_dom kc args"
  shows "abi_decode_reveal kc (reveal_enc kc args) = Ok args"
proof -
  obtain e "is" ps r where a: "args = (e, is, ps, r)" by (cases args)
  have d: "\<forall>bs. length (kc bs) = 32" "length r = 32" "160 + 32 * length is < 2 ^ 64" "length ps < 2 ^ 64" "length is < 2 ^ 64"
    using assms by (auto simp: reveal_dom_def a)
  let ?sel = "selector kc ''revealPrices(uint256,uint256[],uint256[],uint256)''"
  let ?o = "word_of_nat (160 + 32 * length is) :: u64"
  let ?n = "word256 (word_of_nat (length is))" and ?m = "word256 (word_of_nat (length ps))"
  let ?is = "concat (map word256 is)" and ?ps = "concat (map word256 ps)"
  define body where "body = word256 e @ word256 128 @ word256 ?o @ r @ ?n @ ?is @ ?m @ ?ps"
  have c: "reveal_enc kc args = ?sel @ body" by (simp add: reveal_enc_def a reveal_layout body_def)
  have split: "take 4 (?sel @ body) = ?sel" "drop 4 (?sel @ body) = body"
    using selector_length [OF d(1)] by simp_all
  have o: "be_nat (word256 ?o) = 160 + 32 * length is" unfolding be_nat_word256 by (rule unat_u64 [OF d(3)])
  have len: "length ?is = 32 * length is" by (induction "is") simp_all
  have h: "abi_u64 body 0 = Some e" "abi_word body 32 = Some 128" "abi_word body 64 = Some (160 + 32 * length is)"
    "abi_word body 96 = Some (be_nat r)"
    using abi_u64_at [of 0 "[]" e] abi_word_at [of 32 "word256 e" "word256 128"]
      abi_word_at [of 64 "word256 e @ word256 128" "word256 ?o"] o
      abi_word_at [of 96 "word256 e @ word256 128 @ word256 ?o" r] d(2)
    by (simp_all add: body_def be_nat_word256)
  have "abi_array ((word256 e @ word256 128 @ word256 ?o @ r) @ ?n @ ?is @ ?m @ ?ps) 128 = Some is"
    by (rule abi_array_at [OF _ d(5)]) (simp add: d(2))
  moreover have "abi_array ((word256 e @ word256 128 @ word256 ?o @ r @ ?n @ ?is) @ ?m @ ?ps @ []) (160 + 32 * length is) = Some ps"
    by (rule abi_array_at [OF _ d(4)]) (simp add: d(2) len)
  moreover have "take 32 (drop 96 body) = r" using d(2) by (simp add: body_def)
  ultimately show ?thesis
    unfolding c abi_decode_reveal_def split Let_def h by (simp add: a body_def)
qed

interpretation rv: codec "reveal_enc kc" "abi_decode_reveal kc" "reveal_dom kc" for kc
  by unfold_locales (rule reveal_decodes)

section \<open>Submission lemmas\<close>

lemma submission_loop_Ok: "submission_loop kc sf random voter feeds (is, ps, hs) = Ok res \<longleftrightarrow>
    (\<exists>qs. map (format_price sf \<circ> snd) feeds = map Ok qs
      \<and> res = (is @ map fst feeds, ps @ qs, hs @ map (\<lambda>q. commit_hash kc q random voter) qs))"
proof (induction feeds arbitrary: "is" ps hs)
  case (Cons f feeds)
  show ?case
  proof (cases "format_price sf (snd f)")
    case (Inl e)
    then show ?thesis by (cases f) (auto simp: map_eq_Cons_conv Cons_eq_map_conv)
  next
    case (Inr q)
    then show ?thesis by (cases f) (auto simp: Cons.IH Cons_eq_map_conv)
  qed
qed auto

lemma submission_loop_Err: "submission_loop kc sf random voter feeds acc = Err e \<longleftrightarrow>
    (\<exists>before f after. feeds = before @ f # after \<and> (\<forall>g\<in>set before. \<exists>q. format_price sf (snd g) = Ok q)
      \<and> format_price sf (snd f) = Err e)"
proof (induction feeds arbitrary: acc)
  case (Cons f feeds)
  obtain "is" ps hs where acc: "acc = (is, ps, hs)" by (cases acc)
  obtain i usd where f: "f = (i, usd)" by (cases f)
  show ?case
  proof (cases "format_price sf usd")
    case (Inl e')
    have "e' = e" if "f # feeds = before @ g # after" "\<forall>h\<in>set before. \<exists>q. format_price sf (snd h) = Ok q"
      "format_price sf (snd g) = Err e" for before g after
      using that Inl f by (cases before) auto
    moreover have "submission_loop kc sf random voter (f # feeds) acc = Err e'" by (simp add: acc f Inl)
    moreover have "\<exists>before g after. f # feeds = before @ g # after \<and> (\<forall>h\<in>set before. \<exists>q. format_price sf (snd h) = Ok q)
        \<and> format_price sf (snd g) = Err e'" using Inl f by (intro ex3I [of _ "[]" f feeds]) simp
    ultimately show ?thesis by (metis sum.inject(1))
  next
    case (Inr q)
    have "(\<exists>before g after. f # feeds = before @ g # after \<and> (\<forall>h\<in>set before. \<exists>q. format_price sf (snd h) = Ok q)
        \<and> format_price sf (snd g) = Err e)
      \<longleftrightarrow> (\<exists>before g after. feeds = before @ g # after \<and> (\<forall>h\<in>set before. \<exists>q. format_price sf (snd h) = Ok q)
        \<and> format_price sf (snd g) = Err e)" (is "?l = ?r")
    proof
      assume ?r
      then obtain before g after where "feeds = before @ g # after"
        "\<forall>h\<in>set before. \<exists>q. format_price sf (snd h) = Ok q" "format_price sf (snd g) = Err e" by blast
      then show ?l using Inr f by (intro ex3I [of _ "f # before" g after]) auto
    qed (use Inr f in \<open>fastforce simp: Cons_eq_append_conv\<close>)
    then show ?thesis using Inr Cons.IH by (simp add: acc f)
  qed
qed simp

text \<open>A submission whose prices all have a format, and what its two kinds of transactions say.\<close>

lemma submission_new_says:
  fixes epoch voter
  assumes "\<forall>bs. length (kc bs) = 32" "length random = 32" "160 + 32 * length feeds < 2 ^ 64"
    "feeds \<noteq> []" "map (format_price sf \<circ> snd) feeds = map Ok ps"
  defines "sub \<equiv> \<lparr>ps_epoch_id = epoch, ps_ftso_indices = map fst feeds, ps_prices = ps, ps_random = random,
       ps_hashes = map (\<lambda>q. commit_hash kc q random voter) ps\<rparr>"
  shows "submission_new kc sf epoch feeds random voter = Ok sub"
    "abi_decode_reveal kc (reveal_tx kc sub) = Ok (epoch, map fst feeds, ps, random)"
    "submit_txs kc sub = map (\<lambda>p. submit_hash_calldata kc epoch (commit_hash kc p random voter)) ps"
proof -
  have "submission_loop kc sf random voter feeds ([], [], [])
      = Ok (map fst feeds, ps, map (\<lambda>q. commit_hash kc q random voter) ps)"
    using assms(5) by (simp add: submission_loop_Ok)
  then show "submission_new kc sf epoch feeds random voter = Ok sub"
    using assms(4) by (simp add: submission_new_def sub_def)
  have "length ps = length feeds" using assms(5) by (metis length_map)
  then have "reveal_dom kc (epoch, map fst feeds, ps, random)" using assms(1-3) by (simp add: reveal_dom_def)
  from rv.dec_enc [OF this]
  show "abi_decode_reveal kc (reveal_tx kc sub) = Ok (epoch, map fst feeds, ps, random)"
    by (simp add: sub_def reveal_tx_def reveal_enc_def)
  show "submit_txs kc sub = map (\<lambda>p. submit_hash_calldata kc epoch (commit_hash kc p random voter)) ps"
    by (simp add: sub_def submit_txs_def)
qed

section \<open>Price lemmas\<close>

lemma u64_max_f64: "of_u64 (2 ^ 64 - 1) = Fin (2 ^ 64)"
proof -
  let ?x = "18446744073709551615 :: rat"
  have "ilog2 \<bar>?x\<bar> = 63" by (rule ilog2_unique) simp_all
  then have u: "ulp ?x = 2048" by (simp add: ulp_def)
  have fl: "\<lfloor>?x / 2048\<rfloor> = 9007199254740991" by (rule floor_unique) simp_all
  have "rint (?x / 2048) = 9007199254740992" unfolding rint_def fl by (simp add: Let_def)
  then have "rval ?x = 18446744073709551616" by (simp add: rval_def u)
  then show ?thesis by (simp add: of_u64_def rnd_rval)
qed

definition u64_of_scaled :: "rat \<Rightarrow> nat" where
  "u64_of_scaled y = min (nat \<lfloor>y + 1/2\<rfloor>) (2 ^ 64 - 1)"

lemma to_u64_fround: "0 \<le> y \<Longrightarrow> unat (to_u64 (fround (Fin y))) = u64_of_scaled y"
proof -
  assume y: "0 \<le> y"
  let ?n = "\<lfloor>y + 1/2\<rfloor>"
  have n: "0 \<le> ?n" using y by simp
  have m: "unat (- 1 :: u64) = 2 ^ 64 - 1" by (simp add: unsigned_minus_1_eq_mask mask_eq_exp_minus_1)
  have big: "(2 ^ 64 \<le> (of_int ?n :: rat)) \<longleftrightarrow> (2 ^ 64 :: int) \<le> ?n"
    by (metis of_int_le_iff of_int_numeral of_int_power)
  consider "?n = 0" | "0 < ?n" "?n < 2 ^ 64" | "2 ^ 64 \<le> ?n" using n by linarith
  then show ?thesis
  proof cases
    case 1
    then show ?thesis using y by (simp add: u64_of_scaled_def)
  next
    case 2
    have "nat k < 2 ^ 64" if "k < 2 ^ 64" for k :: int using that by simp
    then have "nat ?n < 2 ^ 64" using 2(2) by blast
    then have "unat (word_of_nat (nat ?n) :: u64) = nat ?n" by (rule unat_u64)
    moreover have "u64_of_scaled y = nat ?n" unfolding u64_of_scaled_def
      using \<open>nat ?n < 2 ^ 64\<close> by (intro min_absorb1) linarith
    moreover have "to_u64 (fround (Fin y)) = word_of_nat (nat ?n)" using 2 y big by simp
    ultimately show ?thesis by simp
  next
    case 3
    then have "to_u64 (fround (Fin y)) = - 1" using y big by simp
    moreover have "2 ^ 64 - 1 \<le> nat k" if "2 ^ 64 \<le> k" for k :: int using that by simp
    then have "u64_of_scaled y = 2 ^ 64 - 1" unfolding u64_of_scaled_def using 3 by (intro min_absorb2) blast
    ultimately show ?thesis using m by simp
  qed
qed

lemma u64_of_scaled_mono: "y \<le> z \<Longrightarrow> u64_of_scaled y \<le> u64_of_scaled z"
proof -
  assume "y \<le> z"
  then have "nat \<lfloor>y + 1/2\<rfloor> \<le> nat \<lfloor>z + 1/2\<rfloor>" by (intro nat_mono floor_mono) simp
  then show ?thesis unfolding u64_of_scaled_def by (rule min.mono) simp
qed

lemma format_price_Fin:
  "format_price sf (Fin x) = Ok n \<longleftrightarrow>
    (0 < x \<and> (\<exists>y. rnd (x * 100000) = Fin y \<and> 0 \<le> y \<and> y \<le> 2 ^ 64 \<and> unat n = u64_of_scaled y))"
proof (cases "0 < x")
  case True
  have "Fin 0 \<le> rnd (x * 100000)" using rnd_mono [of 0 "x * 100000"] True by simp
  then show ?thesis using True to_u64_fround u64_max_f64
    by (cases "rnd (x * 100000)")
      (auto simp: format_price_def PRICE_SCALE_def is_finite_def fle_def flt_def Let_def word_unat_eq_iff not_less
        simp del: to_u64.simps fround.simps)
qed (simp add: format_price_def is_finite_def fle_def)

lemma format_price_mono:
  assumes "usd \<le> usd'" "format_price sf usd = Ok n" "format_price sf usd' = Ok n'"
  shows "n \<le> n'"
proof -
  have fin: "\<exists>x. u = Fin x" if "format_price sf u = Ok m" for u m
    using that by (cases u) (auto simp: format_price_def is_finite_def)
  obtain x x' where u: "usd = Fin x" "usd' = Fin x'" using fin assms by blast
  obtain y y' where y: "rnd (x * 100000) = Fin y" "unat n = u64_of_scaled y"
    "rnd (x' * 100000) = Fin y'" "unat n' = u64_of_scaled y'" using assms unfolding u format_price_Fin by blast
  have "Fin y \<le> Fin y'" using assms(1) u rnd_mono [of "x * 100000" "x' * 100000"] y by simp
  then show ?thesis using y by (simp add: u64_of_scaled_mono word_le_nat_alt)
qed

text \<open>Every positive price up to a hundred trillion dollars has a format.\<close>

definition price_limit :: f64 where
  "price_limit = Fin (10 ^ 14)"

lemma format_price_total:
  assumes "Fin 0 < usd" "usd \<le> price_limit"
  shows "\<exists>n. format_price sf usd = Ok n"
proof -
  obtain x where x: "usd = Fin x" "0 < x" "x \<le> 10 ^ 14" using assms by (cases usd) (auto simp: price_limit_def)
  have c: "\<bar>5 ^ 19 :: int\<bar> \<le> 2 ^ 53" "(- 1074 :: int) \<le> 19" "(10 :: rat) ^ 19 = of_int (5 ^ 19) * 2 powi 19" by simp_all
  have "(10 :: rat) ^ 19 \<le> 2 ^ 64" "0 \<le> (10 :: rat) ^ 19" by simp_all
  moreover have "(2 :: rat) ^ 64 < 2 ^ 1024" by (rule power_strict_increasing) simp_all
  ultimately have "\<bar>(10 :: rat) ^ 19\<bar> < 2 ^ 1024" by (metis abs_of_nonneg order.strict_trans1)
  with c have "repr (10 ^ 19)" unfolding repr_def by blast
  then have top: "rnd (10 ^ 19) = Fin (10 ^ 19)" by (rule rnd_repr)
  have "0 \<le> x * 100000" "x * 100000 \<le> 10 ^ 19" using x by simp_all
  note b = rnd_mono [OF this(1)] rnd_mono [OF this(2)]
  then obtain y where y: "rnd (x * 100000) = Fin y" "0 \<le> y" "y \<le> 2 ^ 64"
    using b unfolding top by (cases "rnd (x * 100000)") auto
  have "u64_of_scaled y < 2 ^ 64" by (simp add: u64_of_scaled_def)
  then have "unat (word_of_nat (u64_of_scaled y) :: u64) = u64_of_scaled y" by (rule unat_u64)
  then have "format_price sf (Fin x) = Ok (word_of_nat (u64_of_scaled y))"
    unfolding format_price_Fin using x(2) y by blast
  then show ?thesis unfolding x(1) by blast
qed

section \<open>Properties of the submission\<close>

text \<open>C34: a price is formatted as the rounded product with \<open>10 ^ 5\<close>, halves up, saturating at the
  largest \<open>u64\<close>; it is refused exactly when it is not finite, not positive, or the product exceeds
  \<open>2 ^ 64\<close>; and formatting keeps the order of prices.\<close>

theorem format_price_exact:
  shows "(format_price sf usd = Ok n \<longleftrightarrow> (\<exists>x y. usd = Fin x \<and> 0 < x \<and> rnd (x * 100000) = Fin y
      \<and> y \<le> 2 ^ 64 \<and> unat n = min (nat \<lfloor>y + 1/2\<rfloor>) (2 ^ 64 - 1)))
    \<and> (usd \<le> usd' \<and> format_price sf usd = Ok n \<and> format_price sf usd' = Ok n' \<longrightarrow> unat n \<le> unat n')"
proof
  have pos: "0 \<le> y" if "0 < x" "rnd (x * 100000) = Fin y" for x y
    using rnd_mono [of 0 "x * 100000"] that by simp
  have fin: "\<exists>x. u = Fin x" if "format_price sf u = Ok m" for u m
    using that by (cases u) (auto simp: format_price_def is_finite_def)
  show "format_price sf usd = Ok n \<longleftrightarrow> (\<exists>x y. usd = Fin x \<and> 0 < x \<and> rnd (x * 100000) = Fin y
      \<and> y \<le> 2 ^ 64 \<and> unat n = min (nat \<lfloor>y + 1/2\<rfloor>) (2 ^ 64 - 1))"
    using fin pos format_price_Fin unfolding u64_of_scaled_def by blast
  show "usd \<le> usd' \<and> format_price sf usd = Ok n \<and> format_price sf usd' = Ok n' \<longrightarrow> unat n \<le> unat n'"
    using format_price_mono [of usd usd' sf n n'] by (simp add: word_le_nat_alt)
qed

theorem format_price_exact_witness:
  "format_price (\<lambda>_. ''usd'') (Fin (3/2)) = Ok 150000 \<and> format_price (\<lambda>_. ''usd'') (Fin (1 / 2 ^ 18)) = Ok 0"
proof -
  have r: "rnd (3/2 * 100000) = Fin 150000" using rnd_repr [OF repr_of_int [of 150000]] by simp
  have s: "rnd (1 / 2 ^ 18 * 100000) = Fin (100000 / 2 ^ 18)"
    using rnd_repr [OF repr_scaled [of 100000 "- 18"]] by (simp add: power_int_minus field_simps)
  have f: "\<lfloor>150000 + 1/2 :: rat\<rfloor> = 150000" "\<lfloor>100000 / 2 ^ 18 + 1/2 :: rat\<rfloor> = 0" by (rule floor_unique; simp)+
  show ?thesis
    using r s f
    by (intro conjI format_price_exact [THEN conjunct1, THEN iffD2] ex2I [of _ "3/2" 150000]
        ex2I [of _ "1 / 2 ^ 18" "100000 / 2 ^ 18"]) simp_all
qed

text \<open>The reveal transaction round-trips: a standard ABI decoder reads back exactly the epoch,
  the indices, the prices and the random value, and two submissions with the same calldata
  agree in all of them.\<close>

lemma reveal_calldata_roundtrip:
  assumes "\<forall>bs. length (kc bs) = 32" "length r = 32" "160 + 32 * length is < 2 ^ 64" "length ps < 2 ^ 64"
  shows "abi_decode_reveal kc (reveal_prices_calldata kc e is ps r) = Ok (e, is, ps, r)
    \<and> (length r' = 32 \<and> 160 + 32 * length is' < 2 ^ 64 \<and> length ps' < 2 ^ 64 \<longrightarrow>
        (reveal_prices_calldata kc e is ps r = reveal_prices_calldata kc e' is' ps' r'
          \<longleftrightarrow> e = e' \<and> is = is' \<and> ps = ps' \<and> r = r'))"
proof -
  have d: "reveal_dom kc (e, is, ps, r)" using assms by (simp add: reveal_dom_def)
  have d': "reveal_dom kc (e', is', ps', r')" if "length r' = 32 \<and> 160 + 32 * length is' < 2 ^ 64 \<and> length ps' < 2 ^ 64"
    using assms(1) that by (simp add: reveal_dom_def)
  have "abi_decode_reveal kc (reveal_prices_calldata kc e is ps r) = Ok (e, is, ps, r)"
    using rv.dec_enc [OF d] by (simp add: reveal_enc_def)
  moreover have "reveal_prices_calldata kc e is ps r = reveal_prices_calldata kc e' is' ps' r'
      \<longleftrightarrow> e = e' \<and> is = is' \<and> ps = ps' \<and> r = r'" if "reveal_dom kc (e', is', ps', r')"
    using rv.enc_inject [OF d that] by (simp add: reveal_enc_def)
  ultimately show ?thesis using d' by blast
qed

definition w_kc :: keccak where
  "w_kc bs = take 32 (bs @ replicate 32 0)"

lemma w_kc_length: "\<forall>bs. length (w_kc bs) = 32"
  by (auto simp: w_kc_def)

lemma reveal_calldata_roundtrip_witness:
  "abi_decode_reveal w_kc (reveal_prices_calldata w_kc 7 [0, 2] [150000, 1] (replicate 32 9))
    = Ok (7, [0, 2], [150000, 1], replicate 32 9)"
  by (rule reveal_calldata_roundtrip [OF w_kc_length, THEN conjunct1]) simp_all

text \<open>C35: what is revealed is what was committed: a submission succeeds exactly when it has a feed and
  every price can be formatted, otherwise it reports the first price that cannot; then the
  commit transactions hold, feed by feed, the hash of the very price, random value and voter
  that the reveal transaction discloses, in the same order.\<close>

theorem submission_reveals_commits:
  assumes "\<forall>bs. length (kc bs) = 32" "length random = 32" "160 + 32 * length feeds < 2 ^ 64"
  shows "(\<forall>sub. submission_new kc sf epoch feeds random voter = Ok sub \<longrightarrow>
      (\<exists>ps. feeds \<noteq> [] \<and> map (format_price sf \<circ> snd) feeds = map Ok ps
        \<and> abi_decode_reveal kc (reveal_tx kc sub) = Ok (epoch, map fst feeds, ps, random)
        \<and> submit_txs kc sub = map (\<lambda>p. submit_hash_calldata kc epoch (commit_hash kc p random voter)) ps))
    \<and> (\<forall>e. submission_new kc sf epoch feeds random voter = Err e \<longrightarrow>
        (feeds = [] \<and> e = ''at least one feed is required'')
        \<or> (\<exists>before f after. feeds = before @ f # after \<and> (\<forall>g\<in>set before. \<exists>q. format_price sf (snd g) = Ok q)
            \<and> format_price sf (snd f) = Err e))"
proof (intro conjI allI impI)
  fix sub assume "submission_new kc sf epoch feeds random voter = Ok sub"
  then obtain ps where ps: "feeds \<noteq> []" "map (format_price sf \<circ> snd) feeds = map Ok ps"
    "sub = \<lparr>ps_epoch_id = epoch, ps_ftso_indices = map fst feeds, ps_prices = ps, ps_random = random,
       ps_hashes = map (\<lambda>q. commit_hash kc q random voter) ps\<rparr>"
    by (auto simp: submission_new_def res_bind_eq_Ok submission_loop_Ok split: if_splits)
  from ps submission_new_says(2,3) [OF assms ps(1,2), of epoch voter]
  show "\<exists>ps. feeds \<noteq> [] \<and> map (format_price sf \<circ> snd) feeds = map Ok ps
        \<and> abi_decode_reveal kc (reveal_tx kc sub) = Ok (epoch, map fst feeds, ps, random)
        \<and> submit_txs kc sub = map (\<lambda>p. submit_hash_calldata kc epoch (commit_hash kc p random voter)) ps"
    by (intro exI [of _ ps]) simp
next
  fix e assume err: "submission_new kc sf epoch feeds random voter = Err e"
  show "(feeds = [] \<and> e = ''at least one feed is required'')
      \<or> (\<exists>before f after. feeds = before @ f # after \<and> (\<forall>g\<in>set before. \<exists>q. format_price sf (snd g) = Ok q)
            \<and> format_price sf (snd f) = Err e)"
  proof (cases "feeds = []")
    case False
    then have "submission_loop kc sf random voter feeds ([], [], []) = Err e"
      using err by (cases "submission_loop kc sf random voter feeds ([], [], [])")
        (auto simp: submission_new_def)
    then show ?thesis unfolding submission_loop_Err by blast
  qed (use err in \<open>simp add: submission_new_def\<close>)
qed

text \<open>The bytes hashed for a commitment determine price, random value and voter, but they are
  not the ABI encoding of the triple the hash is documented with: 72 bytes instead of three
  words, because the price takes 8 bytes and not 32.\<close>

lemma commit_preimage_not_abi:
  assumes "length r = 32" "length r' = 32" "length v = 20" "length v' = 20"
  shows "(commit_preimage p r v = commit_preimage p' r' v' \<longleftrightarrow> p = p' \<and> r = r' \<and> v = v')
    \<and> length (commit_preimage p r v) = 72 \<and> length (word256 p @ r @ replicate 12 0 @ v) = 96
    \<and> commit_preimage p r v \<noteq> word256 p' @ r' @ replicate 12 0 @ v'"
proof -
  have l: "length (commit_preimage p r v) = 72" "length (word256 p' @ r' @ replicate 12 0 @ v') = 96"
    "length (word256 p @ r @ replicate 12 0 @ v) = 96"
    using assms by (simp_all add: commit_preimage_def)
  moreover from l have "commit_preimage p r v \<noteq> word256 p' @ r' @ replicate 12 0 @ v'"
    by (metis numeral_eq_iff semiring_norm(89) verit_eq_simplify(10) num.distinct num.inject)
  moreover have "commit_preimage p r v = commit_preimage p' r' v' \<longleftrightarrow> p = p' \<and> r = r' \<and> v = v'"
    using assms by (simp add: commit_preimage_def)
  ultimately show ?thesis by blast
qed

lemma commit_preimage_not_abi_witness:
  "length (commit_preimage 150000 (replicate 32 9) (replicate 20 1)) = 72"
  using commit_preimage_not_abi [of "replicate 32 9" "replicate 32 9" "replicate 20 1" "replicate 20 1" 150000 1] by simp

definition w_feeds :: "(u64 \<times> f64) list" where
  "w_feeds = [(0, Fin (3/2)), (2, NaN)]"

theorem submission_reveals_commits_witness:
  "\<exists>e. submission_new w_kc (\<lambda>_. ''usd'') 7 w_feeds (replicate 32 9) (replicate 20 1) = Err e
    \<and> format_price (\<lambda>_. ''usd'') NaN = Err e"
proof -
  have n: "format_price (\<lambda>_. ''usd'') NaN = Err ''price must be finite and positive, got usd''"
    by (simp add: format_price_def is_finite_def)
  note c = submission_reveals_commits [OF w_kc_length, of "replicate 32 9" w_feeds "\<lambda>_. ''usd''" 7 "replicate 20 1"]
  show ?thesis
  proof (cases "submission_new w_kc (\<lambda>_. ''usd'') 7 w_feeds (replicate 32 9) (replicate 20 1)")
    case (Inr sub)
    have l: "length (replicate 32 9 :: bytes) = 32" "160 + 32 * length w_feeds < 2 ^ 64" by (simp_all add: w_feeds_def)
    from conjunct1 [OF c [OF l], rule_format, OF Inr]
    obtain ps where "map (format_price (\<lambda>_. ''usd'') \<circ> snd) w_feeds = map Ok ps" by blast
    then show ?thesis using n by (auto simp: w_feeds_def Cons_eq_map_conv)
  next
    case (Inl e)
    then obtain before f after where b: "w_feeds = before @ f # after" "format_price (\<lambda>_. ''usd'') (snd f) = Err e"
      using c by (auto simp: w_feeds_def)
    have "format_price (\<lambda>_. ''usd'') (Fin (3/2)) = Ok 150000"
      using rnd_repr [OF repr_of_int [of 150000]] floor_unique [of 150000 "150000 + 1/2 :: rat"]
      by (simp add: format_price_Fin u64_of_scaled_def)
    then have "snd f = NaN" using b by (auto simp: w_feeds_def Cons_eq_append_conv)
    then show ?thesis using Inl b(2) by simp
  qed
qed

end
