(* ===== verification/TlsProxy.thy ===== *)
theory TlsProxy
  imports Prelude "HOL-Library.Sublist"
begin

text \<open>
  \<open>zktls/cert_verifier.rs\<close> and \<open>zktls/proxy.rs\<close>: the bounded sink of validated certificate
  chains, the verifier that fills it, and the HTTPS client that drains it. Certificate
  validation (webpki), URI parsing, header construction and the network (hyper over
  rustls) are parameters. A request is answered by the network together with the
  handshakes it made for it: none when a pooled connection was used. Every one of them
  runs the verifier below.
\<close>

section \<open>The chain sink\<close>

record captured_chain =
  cc_server :: string
  cc_end_entity :: bytes
  cc_intermediates :: "bytes list"

definition all_der :: "captured_chain \<Rightarrow> bytes list" where
  "all_der c = cc_end_entity c # cc_intermediates c"

record chain_sink =
  cs_inner :: "captured_chain list"
  cs_max :: nat

definition sink_new :: "nat \<Rightarrow> chain_sink" where
  "sink_new m = \<lparr>cs_inner = [], cs_max = m\<rparr>"

definition sink_push :: "captured_chain \<Rightarrow> chain_sink \<Rightarrow> chain_sink" where
  "sink_push chain sink =
     (let q = cs_inner sink;
          q = (if cs_max sink \<le> length q then drop 1 q else q)
      in sink\<lparr>cs_inner := q @ [chain]\<rparr>)"

text \<open>\<open>Iterator::rposition\<close> and \<open>VecDeque::remove\<close>.\<close>

definition rposition :: "('a \<Rightarrow> bool) \<Rightarrow> 'a list \<Rightarrow> nat option" where
  "rposition P xs = (let js = filter (\<lambda>i. P (xs ! i)) [0..<length xs] in if js = [] then None else Some (last js))"

definition remove_at :: "nat \<Rightarrow> 'a list \<Rightarrow> 'a list" where
  "remove_at i xs = take i xs @ drop (Suc i) xs"

definition take_for :: "string \<Rightarrow> chain_sink \<Rightarrow> captured_chain option \<times> chain_sink" where
  "take_for server sink =
     (case rposition (\<lambda>c. cc_server c = server) (cs_inner sink) of
        None \<Rightarrow> (None, sink)
      | Some idx \<Rightarrow> (Some (cs_inner sink ! idx), sink\<lparr>cs_inner := remove_at idx (cs_inner sink)\<rparr>))"

section \<open>The capturing verifier\<close>

text \<open>A server name with the text \<open>to_string\<close> (or \<open>Debug\<close>, for further variants) gives it.\<close>

datatype server_name = DnsName string | IpAddress string | OtherName string

fun server_text :: "server_name \<Rightarrow> string" where
  "server_text (DnsName dns) = dns"
| "server_text (IpAddress ip) = ip"
| "server_text (OtherName dbg) = dbg"

record handshake =
  hs_end_entity :: bytes
  hs_intermediates :: "bytes list"
  hs_server_name :: server_name
  hs_scts :: "bytes list"
  hs_ocsp :: bytes
  hs_now :: nat

type_synonym 'e webpki = "handshake \<Rightarrow> 'e + unit"

definition verify_server_cert :: "'e webpki \<Rightarrow> handshake \<Rightarrow> chain_sink \<Rightarrow> ('e + unit) \<times> chain_sink" where
  "verify_server_cert webpki h sink =
     (case webpki h of
        Inl e \<Rightarrow> (Err e, sink)
      | Inr verified \<Rightarrow>
          (Ok verified, sink_push \<lparr>cc_server = server_text (hs_server_name h),
             cc_end_entity = hs_end_entity h, cc_intermediates = hs_intermediates h\<rparr> sink))"

section \<open>The proxy\<close>

record raw_response =
  rr_status :: nat
  rr_body :: bytes

datatype proxy_error = NotHttps string | BadUrl string | TlsError string | HttpError string | StatusError nat

fun proxy_error_display :: "proxy_error \<Rightarrow> string" where
  "proxy_error_display (NotHttps u) = ''refusing non-https URL: '' @ u"
| "proxy_error_display (BadUrl u) = ''invalid URL: '' @ u"
| "proxy_error_display (TlsError e) = ''TLS handshake failed: '' @ e"
| "proxy_error_display (HttpError e) = ''HTTP request failed: '' @ e"
| "proxy_error_display (StatusError s) = ''server returned HTTP '' @ show_nat s"

text \<open>
  What the client stack provides: \<open>Uri::from_str\<close>, building a GET request from a URI and headers,
  and sending it: the handshakes made, then an error or a status and the outcome of reading the
  body.
\<close>

record ('e, 'uri, 'req) http_stack =
  http_webpki :: "'e webpki"
  http_uri :: "string \<Rightarrow> string + 'uri"
  http_request :: "'uri \<Rightarrow> (string \<times> string) list \<Rightarrow> string + 'req"
  http_send :: "'req \<Rightarrow> handshake list \<times> (string + (nat \<times> (string + bytes)))"

definition proxy_sink_max :: nat where
  "proxy_sink_max = 64"

definition proxy_new :: "chain_sink" where
  "proxy_new = sink_new proxy_sink_max"

definition extract_ca_certificate_chain :: "string \<Rightarrow> chain_sink \<Rightarrow> captured_chain option \<times> chain_sink" where
  "extract_ca_certificate_chain server sink = take_for server sink"

definition starts_with :: "string \<Rightarrow> string \<Rightarrow> bool" where
  "starts_with s p \<longleftrightarrow> take (length p) s = p"

fun handshakes :: "'e webpki \<Rightarrow> handshake list \<Rightarrow> chain_sink \<Rightarrow> chain_sink" where
  "handshakes webpki [] sink = sink"
| "handshakes webpki (h # hs) sink = handshakes webpki hs (snd (verify_server_cert webpki h sink))"

definition proxy_get :: "('e, 'uri, 'req) http_stack \<Rightarrow> string \<Rightarrow> (string \<times> string) list \<Rightarrow> chain_sink
    \<Rightarrow> (proxy_error + raw_response) \<times> chain_sink" where
  "proxy_get net url headers sink =
     (if \<not> starts_with url ''https://'' then (Err (NotHttps url), sink)
      else case map_err BadUrl (http_uri net url) of
        Inl e \<Rightarrow> (Err e, sink)
      | Inr uri \<Rightarrow>
          (case map_err HttpError (http_request net uri headers) of
             Inl e \<Rightarrow> (Err e, sink)
           | Inr req \<Rightarrow>
               (case http_send net req of (hs, response) \<Rightarrow>
                 (res_bind (map_err HttpError response) (\<lambda>(status, body).
                    res_bind (map_err HttpError body) (\<lambda>body. Ok \<lparr>rr_status = status, rr_body = body\<rparr>)),
                  handshakes (http_webpki net) hs sink))))"

section \<open>Calls and histories\<close>

text \<open>
  Everything that can happen to a sink: a handshake, or a call of \<open>take_for\<close>. The chains a
  history validated, in order.
\<close>

datatype sink_op = Handshake handshake | Take string

fun sink_step :: "'e webpki \<Rightarrow> sink_op \<Rightarrow> chain_sink \<Rightarrow> chain_sink" where
  "sink_step webpki (Handshake h) sink = snd (verify_server_cert webpki h sink)"
| "sink_step webpki (Take server) sink = snd (take_for server sink)"

definition presented :: "handshake \<Rightarrow> captured_chain" where
  "presented h = \<lparr>cc_server = server_text (hs_server_name h), cc_end_entity = hs_end_entity h,
     cc_intermediates = hs_intermediates h\<rparr>"

fun validated :: "'e webpki \<Rightarrow> sink_op list \<Rightarrow> captured_chain list" where
  "validated webpki [] = []"
| "validated webpki (Handshake h # xs) = (case webpki h of Inl _ \<Rightarrow> [] | Inr _ \<Rightarrow> [presented h]) @ validated webpki xs"
| "validated webpki (Take _ # xs) = validated webpki xs"

definition sink_bounded :: "nat \<Rightarrow> chain_sink \<Rightarrow> bool" where
  "sink_bounded m sink \<longleftrightarrow> cs_max sink = m \<and> length (cs_inner sink) \<le> max 1 m"

section \<open>Lemmas\<close>

lemma verify_server_cert_simps [simp]:
  "webpki h = Err e \<Longrightarrow> verify_server_cert webpki h sink = (Err e, sink)"
  "webpki h = Ok u \<Longrightarrow> verify_server_cert webpki h sink = (Ok u, sink_push (presented h) sink)"
  by (simp_all add: verify_server_cert_def presented_def)

lemma rposition_None: "rposition P xs = None \<longleftrightarrow> (\<forall>x\<in>set xs. \<not> P x)"
  by (auto simp: rposition_def Let_def filter_empty_conv in_set_conv_nth intro!: bexI nth_mem)

lemma rposition_SomeD:
  assumes "rposition P xs = Some i"
  shows "i < length xs \<and> P (xs ! i) \<and> (\<forall>x\<in>set (drop (Suc i) xs). \<not> P x)"
proof -
  let ?js = "filter (\<lambda>i. P (xs ! i)) [0..<length xs]"
  have ne: "?js \<noteq> []" and i: "i = last ?js"
    using assms by (auto simp: rposition_def Let_def split: if_splits)
  have mem: "i \<in> set ?js" unfolding i by (rule last_in_set [OF ne])
  have "j \<le> i" if "j \<in> set ?js" for j
  proof -
    have "sorted ?js" by (rule sorted_filter [of id, simplified]) simp
    moreover have "?js = butlast ?js @ [i]" using ne i by simp
    ultimately have "\<forall>x\<in>set (butlast ?js). x \<le> i" by (metis sorted_append list.set_intros(1))
    then show ?thesis using that \<open>?js = butlast ?js @ [i]\<close>
      by (metis Un_iff empty_iff list.set(1,2) insert_iff order_refl set_append)
  qed
  then have "\<not> P (xs ! j)" if "i < j" "j < length xs" for j using that by fastforce
  then have "\<forall>x\<in>set (drop (Suc i) xs). \<not> P x"
    by (auto simp: in_set_conv_nth)
  with mem show ?thesis by simp
qed

lemma rposition_snoc: "rposition P (xs @ [x]) = (if P x then Some (length xs) else rposition P xs)"
proof -
  have "filter (\<lambda>i. P ((xs @ [x]) ! i)) [0..<length xs] = filter (\<lambda>i. P (xs ! i)) [0..<length xs]"
    by (rule filter_cong) (simp_all add: nth_append)
  then show ?thesis by (simp add: rposition_def Let_def)
qed

lemma remove_at_split: "i < length xs \<Longrightarrow> \<exists>ys zs. xs = ys @ xs ! i # zs \<and> remove_at i xs = ys @ zs \<and> zs = drop (Suc i) xs"
  by (intro exI [of _ "take i xs"] exI [of _ "drop (Suc i) xs"]) (simp add: remove_at_def id_take_nth_drop)

lemma subseq_remove_at: "subseq (remove_at i xs) xs"
  unfolding remove_at_def
  by (metis append_take_drop_id list_emb_append_mono subseq_order.refl suffix_drop
      suffix_imp_subseq Cons_nth_drop_Suc drop_all linorder_le_less_linear append_Nil2 subseq_Cons' Suc_leD nat_le_linear not_less_eq_eq)

lemma length_remove_at: "length (remove_at i xs) \<le> length xs"
  by (rule list_emb_length [OF subseq_remove_at])

text \<open>The newest entry of a server, with what is before and after it.\<close>

lemma take_for_cases:
  obtains (none) "\<forall>c\<in>set (cs_inner sink). cc_server c \<noteq> server" "take_for server sink = (None, sink)"
  | (some) ys c zs where "cs_inner sink = ys @ c # zs" "cc_server c = server" "\<forall>d\<in>set zs. cc_server d \<noteq> server"
      "take_for server sink = (Some c, sink\<lparr>cs_inner := ys @ zs\<rparr>)"
proof (cases "rposition (\<lambda>c. cc_server c = server) (cs_inner sink)")
  case None
  then have "take_for server sink = (None, sink)" by (simp add: take_for_def)
  moreover have "\<forall>c\<in>set (cs_inner sink). cc_server c \<noteq> server" using None by (simp add: rposition_None)
  ultimately show thesis by (intro none)
next
  case (Some i)
  note d = rposition_SomeD [OF Some]
  then obtain ys zs where "cs_inner sink = ys @ cs_inner sink ! i # zs" "remove_at i (cs_inner sink) = ys @ zs"
    "zs = drop (Suc i) (cs_inner sink)" using remove_at_split by blast
  with d Some show thesis by (intro some [of ys "cs_inner sink ! i" zs]) (simp_all add: take_for_def)
qed

lemma sink_push_bounded: "sink_bounded m sink \<Longrightarrow> sink_bounded m (sink_push c sink)"
  by (auto simp: sink_bounded_def sink_push_def Let_def)

lemma take_for_bounded: "sink_bounded m sink \<Longrightarrow> sink_bounded m (snd (take_for server sink))"
  by (rule take_for_cases [of sink server]) (auto simp: sink_bounded_def)

interpretation cs: machine "sink_step webpki" "sink_new m" "sink_bounded m" for webpki m
proof
  show "sink_bounded m (sink_new m)" by (simp add: sink_bounded_def sink_new_def)
  show "sink_bounded m (sink_step webpki x s)" if "sink_bounded m s" for x s
  proof (cases x)
    case (Handshake h)
    then show ?thesis using that by (cases "webpki h") (simp_all add: sink_push_bounded)
  qed (simp add: that take_for_bounded)
qed

lemma subseq_trans2: "subseq xs ys \<Longrightarrow> subseq ys' xs \<Longrightarrow> subseq ys' ys"
  by (rule subseq_order.trans)

lemma sink_push_subseq: "subseq (cs_inner sink) log \<Longrightarrow> subseq (cs_inner (sink_push c sink)) (log @ [c])"
  by (auto simp: sink_push_def Let_def intro!: list_emb_append_mono
      intro: subseq_order.trans [OF suffix_imp_subseq [OF suffix_drop]])

lemma take_for_subseq: "subseq (cs_inner sink) log \<Longrightarrow> subseq (cs_inner (snd (take_for server sink))) log"
proof (rule take_for_cases [of sink server])
  fix ys c zs
  assume "subseq (cs_inner sink) log" "cs_inner sink = ys @ c # zs"
    "take_for server sink = (Some c, sink\<lparr>cs_inner := ys @ zs\<rparr>)"
  moreover have "subseq (ys @ zs) (ys @ c # zs)" by (intro list_emb_append_mono) auto
  ultimately show ?thesis by (auto intro: subseq_order.trans)
qed simp

lemma run_subseq: "subseq (cs_inner sink) log \<Longrightarrow>
    subseq (cs_inner (run_ops (sink_step webpki) xs sink)) (log @ validated webpki xs)"
proof (induction xs arbitrary: sink log)
  case (Cons x xs)
  show ?case
  proof (cases x)
    case (Take server)
    then show ?thesis using Cons.IH [OF take_for_subseq [OF Cons.prems]] by simp
  next
    case (Handshake h)
    then show ?thesis
      using Cons.IH [OF Cons.prems] Cons.IH [OF sink_push_subseq [OF Cons.prems]] by (cases "webpki h") simp_all
  qed
qed simp

lemma take_for_push: "take_for server (sink_push c sink) =
    (if cc_server c = server
     then (Some c, sink\<lparr>cs_inner := (if cs_max sink \<le> length (cs_inner sink) then drop 1 (cs_inner sink) else cs_inner sink)\<rparr>)
     else take_for server (sink_push c sink))"
  by (simp add: take_for_def sink_push_def Let_def rposition_snoc remove_at_def)

text \<open>A second call for the same server returns the older chain, which the first call left in
  place.\<close>

lemma take_for_leaves_older:
  assumes "cs_max sink = m" "2 \<le> m" "length (cs_inner sink) + 2 \<le> m" "cc_server c = server" "cc_server d = server"
  shows "fst (take_for server (snd (take_for server (sink_push d (sink_push c sink))))) = Some c"
proof -
  have "cs_inner (sink_push c sink) = cs_inner sink @ [c]" "cs_max (sink_push c sink) = m"
    using assms by (simp_all add: sink_push_def Let_def)
  then have "snd (take_for server (sink_push d (sink_push c sink))) = sink_push c sink"
    using assms by (simp add: take_for_push)
  then show ?thesis using assms by (simp add: take_for_push)
qed

lemma handshakes_snoc: "handshakes w (hs @ [h]) sink = snd (verify_server_cert w h (handshakes w hs sink))"
  by (induction hs arbitrary: sink) simp_all

lemma proxy_get_Ok: "proxy_get net url headers sink = (Ok resp, sink') \<longleftrightarrow>
    (\<exists>uri req hs. starts_with url ''https://'' \<and> http_uri net url = Ok uri \<and> http_request net uri headers = Ok req
      \<and> http_send net req = (hs, Ok (rr_status resp, Ok (rr_body resp))) \<and> sink' = handshakes (http_webpki net) hs sink)"
  by (cases resp; cases "http_uri net url")
    (auto simp: proxy_get_def res_simps split: sum.splits prod.splits)

text \<open>\<open>Tls\<close> and \<open>Status\<close> are never returned: a failed handshake is an \<open>Http\<close> error, and every
  status is a response.\<close>

lemma proxy_get_errors:
  assumes "proxy_get net url headers sink = (Err e, sink')"
  shows "(\<exists>u. e = NotHttps u) \<or> (\<exists>t. e = BadUrl t) \<or> (\<exists>t. e = HttpError t)"
proof (cases "starts_with url ''https://''")
  case True
  show ?thesis
  proof (cases "http_uri net url")
    case (Inr uri)
    show ?thesis
    proof (cases "http_request net uri headers")
      case (Inr req)
      obtain hs response where r: "http_send net req = (hs, response)" by fastforce
      show ?thesis
      proof (cases response)
        case (Inr sb)
        obtain st body where "sb = (st, body)" by fastforce
        then show ?thesis
          using assms True \<open>http_uri net url = Inr uri\<close> \<open>http_request net uri headers = Inr req\<close> r Inr
          by (cases body) (auto simp: proxy_get_def)
      qed (use assms True \<open>http_uri net url = Inr uri\<close> Inr r in \<open>auto simp: proxy_get_def\<close>)
    qed (use assms True Inr in \<open>auto simp: proxy_get_def\<close>)
  qed (use assms True in \<open>auto simp: proxy_get_def\<close>)
qed (use assms in \<open>auto simp: proxy_get_def\<close>)

section \<open>A network that meets the assumptions\<close>

definition w_handshake :: handshake where
  "w_handshake = \<lparr>hs_end_entity = [48, 1], hs_intermediates = [[48, 2]], hs_server_name = DnsName ''api.example'',
     hs_scts = [], hs_ocsp = [], hs_now = 0\<rparr>"

definition w_net :: "(unit, string, string) http_stack" where
  "w_net = \<lparr>http_webpki = (\<lambda>h. if hs_end_entity h = [48, 1] then Inr () else Inl ()), http_uri = Inr,
     http_request = (\<lambda>uri headers. Inr uri), http_send = (\<lambda>req. ([w_handshake], Inr (200, Inr [123, 125])))\<rparr>"

section \<open>Properties\<close>



text \<open>A fetch never leaves https, answers with exactly the status and body of the network, and
  touches the sink by its handshakes alone. When its last handshake was validated,
  extracting for the name of that handshake gives exactly the chain the server presented; when it reused a
  pooled connection the sink is unchanged, so extraction gives only what an earlier fetch left
  there, and nothing when that was already taken.\<close>

lemma fetch_then_extract:
  assumes "proxy_get net url headers sink = (result, sink')"
  shows "(\<not> starts_with url ''https://'' \<longrightarrow> result = Err (NotHttps url) \<and> sink' = sink)
    \<and> (\<forall>resp. result = Ok resp \<longrightarrow>
        (\<exists>uri req hs. starts_with url ''https://'' \<and> http_uri net url = Ok uri \<and> http_request net uri headers = Ok req
          \<and> http_send net req = (hs, Ok (rr_status resp, Ok (rr_body resp))) \<and> sink' = handshakes (http_webpki net) hs sink
          \<and> (\<forall>h hs'. hs = hs' @ [h] \<longrightarrow> http_webpki net h = Ok () \<longrightarrow>
               fst (extract_ca_certificate_chain (server_text (hs_server_name h)) sink') = Some (presented h))
          \<and> (\<forall>server. hs = [] \<longrightarrow> extract_ca_certificate_chain server sink' = take_for server sink)))"
proof (intro conjI allI impI)
  assume "\<not> starts_with url ''https://''"
  then show "result = Err (NotHttps url)" "sink' = sink" using assms by (simp_all add: proxy_get_def)
next
  fix resp assume "result = Ok resp"
  with assms obtain uri req hs where "starts_with url ''https://''" "http_uri net url = Ok uri"
    "http_request net uri headers = Ok req" "http_send net req = (hs, Ok (rr_status resp, Ok (rr_body resp)))"
    "sink' = handshakes (http_webpki net) hs sink"
    using proxy_get_Ok by metis
  moreover have "fst (extract_ca_certificate_chain (server_text (hs_server_name h)) (handshakes (http_webpki net) (hs' @ [h]) sink))
      = Some (presented h)" if "http_webpki net h = Ok ()" for h hs'
    using that by (simp add: extract_ca_certificate_chain_def handshakes_snoc take_for_push presented_def)
  moreover have "extract_ca_certificate_chain server (handshakes (http_webpki net) [] sink) = take_for server sink" for server
    by (simp add: extract_ca_certificate_chain_def)
  ultimately show "\<exists>uri req hs. starts_with url ''https://'' \<and> http_uri net url = Ok uri \<and> http_request net uri headers = Ok req
          \<and> http_send net req = (hs, Ok (rr_status resp, Ok (rr_body resp))) \<and> sink' = handshakes (http_webpki net) hs sink
          \<and> (\<forall>h hs'. hs = hs' @ [h] \<longrightarrow> http_webpki net h = Ok () \<longrightarrow>
               fst (extract_ca_certificate_chain (server_text (hs_server_name h)) sink') = Some (presented h))
          \<and> (\<forall>server. hs = [] \<longrightarrow> extract_ca_certificate_chain server sink' = take_for server sink)"
    by blast
qed

lemma fetch_then_extract_witness:
  "fst (extract_ca_certificate_chain ''api.example'' (snd (proxy_get w_net ''https://api.example/data'' [] proxy_new)))
      = Some (presented w_handshake)
    \<and> fst (proxy_get w_net ''http://api.example/data'' [] proxy_new) = Err (NotHttps ''http://api.example/data'')"
proof -
  have r: "proxy_get w_net ''https://api.example/data'' [] proxy_new
      = (Ok \<lparr>rr_status = 200, rr_body = [123, 125]\<rparr>, handshakes (http_webpki w_net) [w_handshake] proxy_new)"
    by (simp add: proxy_get_def w_net_def starts_with_def)
  from fetch_then_extract [OF r] have "\<forall>h hs'. [w_handshake] = hs' @ [h] \<longrightarrow> http_webpki w_net h = Ok () \<longrightarrow>
      fst (extract_ca_certificate_chain (server_text (hs_server_name h)) (handshakes (http_webpki w_net) [w_handshake] proxy_new))
        = Some (presented h)" by (auto simp: w_net_def)
  from this [rule_format, of "[]" w_handshake]
  have a: "fst (extract_ca_certificate_chain ''api.example'' (handshakes (http_webpki w_net) [w_handshake] proxy_new))
      = Some (presented w_handshake)" by (simp add: w_net_def w_handshake_def)
  have "fst (proxy_get w_net ''http://api.example/data'' [] proxy_new) = Err (NotHttps ''http://api.example/data'')"
    by (simp add: proxy_get_def starts_with_def)
  with a r show ?thesis by simp
qed

end
