(* ===== verification/ZkTls.thy ===== *)
theory ZkTls
  imports TlsProxy MpcSigner
begin

text \<open>
  \<open>zktls/proof_generator.rs\<close>: evaluating a jq selector, the signed payload, the wire format
  of a proof, recovery of its signer, and the generator with its redaction check. The jq
  engine (jaq), the curve and Keccak (\<open>k256\<close>), SHA-256, the text of a curve error and the wall
  clock are parameters. An option as the result of the generator is a panic.
\<close>

definition PROOF_VERSION :: u8 where
  "PROOF_VERSION = 1"

datatype zk_error = InvalidJson string | JqCompile string | EmptySelection string | BuildError string | DecodeError string

fun zk_error_display :: "zk_error \<Rightarrow> string" where
  "zk_error_display (InvalidJson e) = ''response is not valid JSON: '' @ e"
| "zk_error_display (JqCompile e) = ''jq filter failed to compile: '' @ e"
| "zk_error_display (EmptySelection s) = ''jq selector produced no output: '' @ s"
| "zk_error_display (BuildError e) = ''proof build failed: '' @ e"
| "zk_error_display (DecodeError e) = ''proof decode failed: '' @ e"

section \<open>Selection\<close>

text \<open>
  The functions of jaq the code calls: compiling to a filter or to reports (with their
  text), reading the inputs, the outputs of a filter on one input, unwrapping an output,
  writing a value, and the driver \<open>run\<close>, which is given the handler of an input error and the
  handler of an output; the state they share is the buffer \<open>out\<close> and the flag \<open>wrote\<close>.
\<close>

type_synonym select_state = "bytes \<times> bool"

record ('f, 'v, 'x) jaq =
  jq_compile :: "string \<Rightarrow> string list + 'f"
  jq_parse_many :: "bytes \<Rightarrow> (string + 'v) list"
  jq_outputs :: "'f \<Rightarrow> 'v \<Rightarrow> 'x list"
  jq_unwrap :: "'x \<Rightarrow> string + 'v"
  jq_write :: "'v \<Rightarrow> string + bytes"
  jq_run :: "'f \<Rightarrow> (string + 'v) list \<Rightarrow> (string \<Rightarrow> zk_error)
    \<Rightarrow> ('x \<Rightarrow> select_state \<Rightarrow> zk_error + select_state) \<Rightarrow> select_state \<Rightarrow> zk_error + select_state"

fun join :: "string \<Rightarrow> string list \<Rightarrow> string" where
  "join sep [] = []"
| "join sep [x] = x"
| "join sep (x # xs) = x @ sep @ join sep xs"

definition on_output :: "('f, 'v, 'x) jaq \<Rightarrow> 'x \<Rightarrow> select_state \<Rightarrow> zk_error + select_state" where
  "on_output jq v st =
     res_bind (map_err BuildError (jq_unwrap jq v)) (\<lambda>v.
     res_bind (map_err BuildError (jq_write jq v)) (\<lambda>buf. Ok (fst st @ buf, True)))"

definition jq_select :: "('f, 'v, 'x) jaq \<Rightarrow> bytes \<Rightarrow> string \<Rightarrow> zk_error + bytes" where
  "jq_select jq json selector =
     res_bind (map_err (\<lambda>reports. JqCompile (join ''; '' reports)) (jq_compile jq selector)) (\<lambda>flt.
     res_bind (map_err (\<lambda>e. BuildError (''jq run failed: '' @ zk_error_display e))
       (jq_run jq flt (jq_parse_many jq json) BuildError (on_output jq) ([], False))) (\<lambda>(out, wrote).
     if \<not> wrote then Err (EmptySelection selector) else Ok out))"

section \<open>Payload and wire format\<close>

type_synonym sha256_fn = "bytes \<Rightarrow> bytes"

definition canonical_payload :: "u8 \<Rightarrow> bytes \<Rightarrow> bytes \<Rightarrow> bytes \<Rightarrow> bytes \<Rightarrow> u64 \<Rightarrow> bytes \<Rightarrow> bytes" where
  "canonical_payload version url_hash data_hash response_hash fingerprint timestamp nonce =
     [version] @ url_hash @ data_hash @ response_hash @ fingerprint @ u64_to_be_bytes timestamp @ nonce"

record zktls_proof =
  zp_version :: u8
  zp_url_hash :: bytes
  zp_data_hash :: bytes
  zp_response_hash :: bytes
  zp_cert_fingerprint :: bytes
  zp_timestamp :: u64
  zp_nonce :: bytes
  zp_r :: bytes
  zp_s :: bytes
  zp_v :: u8

definition zp_to_bytes :: "zktls_proof \<Rightarrow> bytes" where
  "zp_to_bytes p = [zp_version p] @ zp_url_hash p @ zp_data_hash p @ zp_response_hash p @ zp_cert_fingerprint p
     @ u64_to_be_bytes (zp_timestamp p) @ zp_nonce p @ zp_r p @ zp_s p @ [zp_v p]"

definition slice :: "bytes \<Rightarrow> nat \<Rightarrow> nat \<Rightarrow> bytes" where
  "slice bs i j = take (j - i) (drop i bs)"

definition HDR :: nat where
  "HDR = 1 + 32 * 4 + 8 + 16"

definition zp_from_bytes :: "bytes \<Rightarrow> zk_error + zktls_proof" where
  "zp_from_bytes bs =
     (if length bs \<noteq> HDR + 32 + 32 + 1
      then Err (DecodeError (''expected '' @ show_nat (HDR + 65) @ '' bytes, got '' @ show_nat (length bs)))
      else Ok \<lparr>zp_version = bs ! 0, zp_url_hash = slice bs 1 33, zp_data_hash = slice bs 33 65,
        zp_response_hash = slice bs 65 97, zp_cert_fingerprint = slice bs 97 129,
        zp_timestamp = u64_from_be_bytes (slice bs 129 137), zp_nonce = slice bs 137 153,
        zp_r = slice bs HDR (HDR + 32), zp_s = slice bs (HDR + 32) (HDR + 64), zp_v = bs ! (HDR + 64)\<rparr>)"

definition zp_payload :: "zktls_proof \<Rightarrow> bytes" where
  "zp_payload p = canonical_payload (zp_version p) (zp_url_hash p) (zp_data_hash p) (zp_response_hash p)
     (zp_cert_fingerprint p) (zp_timestamp p) (zp_nonce p)"

definition signed_digest :: "'p k256 \<Rightarrow> zktls_proof \<Rightarrow> bytes" where
  "signed_digest k p = k_keccak k (zp_payload p)"

definition recover_signer :: "'p k256 \<Rightarrow> string \<Rightarrow> zktls_proof \<Rightarrow> zk_error + bytes" where
  "recover_signer k ecdsa_err p =
     res_bind (ok_or (DecodeError ''bad v'') (recovery_id (unat (zp_v p)))) (\<lambda>recid.
     let r = be_nat (zp_r p); s = be_nat (zp_s p) in
     res_bind (if 0 < r \<and> r < k_order k \<and> 0 < s \<and> s < k_order k then Ok (r, s) else Err (DecodeError ecdsa_err)) (\<lambda>sig.
     res_bind (ok_or (DecodeError ecdsa_err) (k_recover k (k_keccak k (zp_payload p)) sig recid)) (\<lambda>vk.
     Ok (drop 12 (k_keccak k (drop 1 (k_sec1 k False vk)))))))"

definition cert_fingerprint :: "sha256_fn \<Rightarrow> captured_chain \<Rightarrow> bytes" where
  "cert_fingerprint sha chain = sha (concat (all_der chain))"

section \<open>The generator\<close>

text \<open>
  \<open>windows(n).any(..)\<close> over the serialized proof; \<open>windows(0)\<close> panics. The check goes through the
  secrets in order and stops at the first that occurs.
\<close>

definition window_any :: "bytes \<Rightarrow> bytes \<Rightarrow> bool" where
  "window_any serialized w = list_ex (\<lambda>i. slice serialized i (i + length w) = w) [0..<length serialized + 1 - length w]"

fun redact_check :: "bytes \<Rightarrow> string list \<Rightarrow> (zk_error + unit) option" where
  "redact_check serialized [] = Some (Ok ())"
| "redact_check serialized (secret # secrets) =
     (if bytes_of secret = [] then None
      else if window_any serialized (bytes_of secret)
      then Some (Err (BuildError ''request header value leaked into proof payload''))
      else redact_check serialized secrets)"

record ('p, 'f, 'v, 'x) zk_env =
  ze_curve :: "'p k256"
  ze_sha :: sha256_fn
  ze_jaq :: "('f, 'v, 'x) jaq"

definition zk_sign :: "'p k256 \<Rightarrow> nat \<Rightarrow> bytes \<Rightarrow> bytes \<times> bytes \<times> u8" where
  "zk_sign k signer payload =
     (case k_sign k signer (k_keccak k payload) of (signature, recid) \<Rightarrow>
       let signature = (case normalize_s k signature of Some sg \<Rightarrow> sg | None \<Rightarrow> signature)
       in (be_bytes 32 (fst signature), be_bytes 32 (snd signature), word_of_nat recid))"

definition zk_generate_proof :: "('p, 'f, 'v, 'x) zk_env \<Rightarrow> string + u64 \<Rightarrow> string \<Rightarrow> bytes \<Rightarrow> string \<Rightarrow> captured_chain
    \<Rightarrow> nat \<Rightarrow> bytes \<Rightarrow> string list option \<Rightarrow> (zk_error + zktls_proof) option" where
  "zk_generate_proof env clock url response_body selector chain signer nonce redact =
     (let sha = ze_sha env in
      case jq_select (ze_jaq env) response_body selector of
        Inl e \<Rightarrow> Some (Err e)
      | Inr selected \<Rightarrow>
          let url_hash = sha (bytes_of url);
              data_hash = sha selected;
              response_hash = sha response_body;
              fingerprint = cert_fingerprint sha chain
          in case clock of
               Inl e \<Rightarrow> Some (Err (BuildError e))
             | Inr timestamp \<Rightarrow>
                 let payload = canonical_payload PROOF_VERSION url_hash data_hash response_hash fingerprint timestamp nonce
                 in (case zk_sign (ze_curve env) signer payload of (r, s, v) \<Rightarrow>
                   let proof = \<lparr>zp_version = PROOF_VERSION, zp_url_hash = url_hash, zp_data_hash = data_hash,
                         zp_response_hash = response_hash, zp_cert_fingerprint = fingerprint,
                         zp_timestamp = timestamp, zp_nonce = nonce, zp_r = r, zp_s = s, zp_v = v\<rparr>
                   in case redact of
                        None \<Rightarrow> Some (Ok proof)
                      | Some secrets \<Rightarrow> map_option (\<lambda>res. res_bind res (\<lambda>_. Ok proof))
                          (redact_check (zp_to_bytes proof) secrets)))"

section \<open>What the libraries promise\<close>

text \<open>
  \<open>run\<close> reads the inputs in order, hands every output of the filter to the output handler and
  stops at the first error.
\<close>

fun jq_fold :: "('x \<Rightarrow> 's \<Rightarrow> 'e + 's) \<Rightarrow> 'x list \<Rightarrow> 's \<Rightarrow> 'e + 's" where
  "jq_fold cb [] st = Ok st"
| "jq_fold cb (x # xs) st = res_bind (cb x st) (jq_fold cb xs)"

fun jq_drive :: "('v \<Rightarrow> 'x list) \<Rightarrow> (string + 'v) list \<Rightarrow> (string \<Rightarrow> 'e) \<Rightarrow> ('x \<Rightarrow> 's \<Rightarrow> 'e + 's) \<Rightarrow> 's \<Rightarrow> 'e + 's" where
  "jq_drive outs [] fi cb st = Ok st"
| "jq_drive outs (Inl e # ins) fi cb st = Err (fi e)"
| "jq_drive outs (Inr v # ins) fi cb st = res_bind (jq_fold cb (outs v) st) (jq_drive outs ins fi cb)"

definition jaq_ok :: "('f, 'v, 'x) jaq \<Rightarrow> bool" where
  "jaq_ok jq \<longleftrightarrow> (\<forall>flt ins fi cb st. jq_run jq flt ins fi cb st = jq_drive (jq_outputs jq flt) ins fi cb st)"

text \<open>The curve library returns low \<open>s\<close> values and 65-byte uncompressed points.\<close>

definition low_s :: "'p k256 \<Rightarrow> bool" where
  "low_s k \<longleftrightarrow> (\<forall>d z r s v. k_sign k d z = ((r, s), v) \<longrightarrow> s \<le> k_order k div 2)"

definition hash32 :: "(bytes \<Rightarrow> bytes) \<Rightarrow> bool" where
  "hash32 h \<longleftrightarrow> (\<forall>bs. length (h bs) = 32)"

definition zp_wf :: "zktls_proof \<Rightarrow> bool" where
  "zp_wf p \<longleftrightarrow> length (zp_url_hash p) = 32 \<and> length (zp_data_hash p) = 32 \<and> length (zp_response_hash p) = 32
    \<and> length (zp_cert_fingerprint p) = 32 \<and> length (zp_nonce p) = 16 \<and> length (zp_r p) = 32 \<and> length (zp_s p) = 32"

definition address_of :: "'p k256 \<Rightarrow> nat \<Rightarrow> bytes" where
  "address_of k d = drop 12 (k_keccak k (drop 1 (k_sec1 k False (k_mul_g k d))))"

section \<open>Codec lemmas\<close>

lemma slice_append: "length xs = i \<Longrightarrow> length ys = j - i \<Longrightarrow> slice (xs @ ys @ zs) i j = ys"
  by (simp add: slice_def)

lemma zp_fields_inject: "zp_wf p \<Longrightarrow> zp_from_bytes (zp_to_bytes p) = Ok p"
proof -
  assume "zp_wf p"
  then have l: "length (zp_url_hash p) = 32" "length (zp_data_hash p) = 32" "length (zp_response_hash p) = 32"
    "length (zp_cert_fingerprint p) = 32" "length (zp_nonce p) = 16" "length (zp_r p) = 32" "length (zp_s p) = 32"
    by (simp_all add: zp_wf_def)
  let ?v = "[zp_version p]" and ?t = "u64_to_be_bytes (zp_timestamp p)"
  have "length (zp_to_bytes p) = 218" using l by (simp add: zp_to_bytes_def)
  moreover have "zp_to_bytes p ! 0 = zp_version p" by (simp add: zp_to_bytes_def)
  moreover have "slice (zp_to_bytes p) 1 33 = zp_url_hash p"
    "slice (zp_to_bytes p) 33 65 = zp_data_hash p" "slice (zp_to_bytes p) 65 97 = zp_response_hash p"
    "slice (zp_to_bytes p) 97 129 = zp_cert_fingerprint p" "slice (zp_to_bytes p) 129 137 = ?t"
    "slice (zp_to_bytes p) 137 153 = zp_nonce p" "slice (zp_to_bytes p) 153 185 = zp_r p" "slice (zp_to_bytes p) 185 217 = zp_s p"
    using l by (simp_all add: zp_to_bytes_def slice_def)
  moreover have "zp_to_bytes p ! 217 = zp_v p" using l by (simp add: zp_to_bytes_def nth_append)
  ultimately show ?thesis by (simp add: zp_from_bytes_def HDR_def u64_be_roundtrip)
qed

interpretation zp: codec zp_to_bytes zp_from_bytes zp_wf
  by unfold_locales (rule zp_fields_inject)

lemma slice_step: "i \<le> j \<Longrightarrow> j \<le> length bs \<Longrightarrow> slice bs i j @ drop j bs = drop i bs"
  unfolding slice_def by (metis append_take_drop_id drop_drop le_add_diff_inverse2)

lemma u64_to_from: "length bs = 8 \<Longrightarrow> u64_to_be_bytes (u64_from_be_bytes bs) = bs"
proof -
  assume l: "length bs = 8"
  have "be_nat bs < 2 ^ 64" using be_nat_bound [of bs] by (simp add: l)
  then have "unat (word_of_nat (be_nat bs) :: u64) = be_nat bs" by (simp add: unat_of_nat)
  then show ?thesis using be_bytes_be_nat [of bs] by (simp add: u64_to_be_bytes_def u64_from_be_bytes_def l)
qed

lemma zp_from_bytes_complete:
  assumes "length bs = 218"
  shows "\<exists>p. zp_from_bytes bs = Ok p \<and> zp_wf p \<and> zp_to_bytes p = bs"
proof -
  have t: "length (slice bs 129 137) = 8" using assms by (simp add: slice_def)
  have e: "drop 217 bs = [bs ! 217]" "[bs ! 0] @ drop 1 bs = bs"
    using Cons_nth_drop_Suc [of 217 bs] Cons_nth_drop_Suc [of 0 bs] assms by simp_all
  have "[bs ! 0] @ slice bs 1 33 @ slice bs 33 65 @ slice bs 65 97 @ slice bs 97 129 @ slice bs 129 137
      @ slice bs 137 153 @ slice bs 153 185 @ slice bs 185 217 @ drop 217 bs = bs"
    using assms by (simp only: slice_step e(2))
  then show ?thesis
    using assms t by (simp add: zp_from_bytes_def HDR_def zp_wf_def zp_to_bytes_def u64_to_from e(1)) (simp add: slice_def)
qed

lemma zp_from_bytes_length: "length bs \<noteq> 218 \<Longrightarrow>
    zp_from_bytes bs = Err (DecodeError (''expected 218 bytes, got '' @ show_nat (length bs)))"
proof -
  have "show_nat 218 = ''218''" by code_simp
  then show "length bs \<noteq> 218 \<Longrightarrow> ?thesis" by (simp add: zp_from_bytes_def HDR_def)
qed

lemma zp_payload_inject:
  assumes "zp_wf p" "zp_wf q"
  shows "zp_payload p = zp_payload q \<longleftrightarrow> p\<lparr>zp_r := [], zp_s := [], zp_v := 0\<rparr> = q\<lparr>zp_r := [], zp_s := [], zp_v := 0\<rparr>"
proof -
  have "length (u64_to_be_bytes t) = 8" for t by simp
  then show ?thesis
    using assms by (cases p; cases q) (simp add: zp_wf_def zp_payload_def canonical_payload_def del: length_u64_to_be_bytes)
qed

section \<open>Selection lemmas\<close>

definition written :: "('f, 'v, 'x) jaq \<Rightarrow> 'x \<Rightarrow> string + bytes" where
  "written jq x = res_bind (jq_unwrap jq x) (jq_write jq)"

lemma on_output_written: "on_output jq x st = (case written jq x of Inl e \<Rightarrow> Err (BuildError e) | Inr buf \<Rightarrow> Ok (fst st @ buf, True))"
proof (cases "jq_unwrap jq x")
  case (Inr v)
  then show ?thesis by (cases "jq_write jq v") (simp_all add: on_output_def written_def)
qed (simp add: on_output_def written_def)

lemma jq_fold_Ok: "jq_fold (on_output jq) xs st = Ok st' \<longleftrightarrow>
    (\<exists>bs. map (written jq) xs = map Ok bs \<and> st' = (fst st @ concat bs, snd st \<or> bs \<noteq> []))"
proof (induction xs arbitrary: st)
  case Nil
  then show ?case by (cases st) auto
next
  case (Cons x xs)
  show ?case
  proof (cases "written jq x")
    case (Inr buf)
    then have "jq_fold (on_output jq) (x # xs) st = jq_fold (on_output jq) xs (fst st @ buf, True)"
      by (simp add: on_output_written [of jq x st])
    then show ?thesis using Inr by (auto simp: Cons.IH Cons_eq_map_conv)
  qed (auto simp: on_output_written [of jq x st])
qed

lemma jq_drive_Ok: "jq_drive outs ins BuildError (on_output jq) st = Ok st' \<longleftrightarrow>
    (\<exists>vs bs. ins = map Ok vs \<and> map (written jq) (concat (map outs vs)) = map Ok bs
      \<and> st' = (fst st @ concat bs, snd st \<or> bs \<noteq> []))"
proof (induction ins arbitrary: st)
  case Nil
  then show ?case by (cases st) auto
next
  case (Cons i ins)
  show ?case
  proof (cases i)
    case (Inr v)
    show ?thesis
    proof
      assume "jq_drive outs (i # ins) BuildError (on_output jq) st = Ok st'"
      then obtain st1 bs1 vs bs2 where "map (written jq) (outs v) = map Ok bs1"
        "st1 = (fst st @ concat bs1, snd st \<or> bs1 \<noteq> [])" "ins = map Ok vs"
        "map (written jq) (concat (map outs vs)) = map Ok bs2" "st' = (fst st1 @ concat bs2, snd st1 \<or> bs2 \<noteq> [])"
        using Inr by (auto simp: res_simps jq_fold_Ok Cons.IH)
      then show "\<exists>vs bs. i # ins = map Ok vs \<and> map (written jq) (concat (map outs vs)) = map Ok bs
          \<and> st' = (fst st @ concat bs, snd st \<or> bs \<noteq> [])"
        using Inr by (intro ex2I [of _ "v # vs" "bs1 @ bs2"]) auto
    next
      assume "\<exists>vs bs. i # ins = map Ok vs \<and> map (written jq) (concat (map outs vs)) = map Ok bs
          \<and> st' = (fst st @ concat bs, snd st \<or> bs \<noteq> [])"
      then obtain vs bs where b: "ins = map Ok vs" "st' = (fst st @ concat bs, snd st \<or> bs \<noteq> [])"
        "map (written jq) (outs v) @ map (written jq) (concat (map outs vs)) = map Ok bs"
        using Inr by (auto simp: Cons_eq_map_conv)
      from b(3) obtain bs1 bs2 where c: "bs = bs1 @ bs2" "map (written jq) (outs v) = map Ok bs1"
        "map (written jq) (concat (map outs vs)) = map Ok bs2"
        by (auto simp: append_eq_map_conv)
      have "jq_fold (on_output jq) (outs v) st = Ok (fst st @ concat bs1, snd st \<or> bs1 \<noteq> [])"
        using c(2) by (auto simp: jq_fold_Ok)
      moreover have "jq_drive outs ins BuildError (on_output jq) (fst st @ concat bs1, snd st \<or> bs1 \<noteq> []) = Ok st'"
        by (intro Cons.IH [THEN iffD2] ex2I [of _ vs bs2] conjI b(1) c(3)) (simp add: b(2) c(1) disj_assoc)
      ultimately show "jq_drive outs (i # ins) BuildError (on_output jq) st = Ok st'"
        using Inr by simp
    qed
  qed auto
qed

lemma jq_fold_Err: "jq_fold (on_output jq) xs st = Err e \<Longrightarrow> \<exists>m. e = BuildError m"
proof (induction xs arbitrary: st)
  case (Cons x xs)
  then show ?case by (cases "written jq x") (auto simp: on_output_written)
qed simp

lemma jq_drive_Err: "jq_drive outs ins BuildError (on_output jq) st = Err e \<Longrightarrow> \<exists>m. e = BuildError m"
proof (induction ins arbitrary: st)
  case (Cons i ins)
  show ?case
  proof (cases i)
    case (Inr v)
    then show ?thesis
      using Cons jq_fold_Err [of jq "outs v" st e] by (cases "jq_fold (on_output jq) (outs v) st") auto
  qed (use Cons in auto)
qed simp

section \<open>Generator lemmas\<close>

lemma window_any_sublist: "window_any bs w \<longleftrightarrow> sublist w bs"
proof
  assume "window_any bs w"
  then obtain i where "take (length w) (drop i bs) = w"
    by (auto simp: window_any_def list_ex_iff slice_def)
  then have "bs = take i bs @ w @ drop (length w) (drop i bs)" by (metis append_take_drop_id)
  then show "sublist w bs" by (metis sublist_appendI)
next
  assume "sublist w bs"
  then obtain ps ss where "bs = ps @ w @ ss" by (auto simp: sublist_def)
  then show "window_any bs w"
    by (auto simp: window_any_def list_ex_iff slice_def intro!: bexI [of _ "length ps"])
qed

lemma redact_check_Ok: "redact_check bs secrets = Some (Ok u) \<longleftrightarrow>
    (\<forall>s\<in>set secrets. s \<noteq> [] \<and> \<not> sublist (bytes_of s) bs)"
  by (induction secrets) (auto simp: window_any_sublist bytes_of_def)

lemma redact_check_Err: "redact_check bs secrets = Some (Err e) \<Longrightarrow>
    e = BuildError ''request header value leaked into proof payload''"
  by (induction secrets) (auto split: if_splits)

lemma redact_check_None: "redact_check bs secrets = None \<longleftrightarrow>
    (\<exists>before after. secrets = before @ [] # after \<and> (\<forall>s\<in>set before. s \<noteq> [] \<and> \<not> sublist (bytes_of s) bs))"
proof (induction secrets)
  case (Cons s secrets)
  show ?case
  proof (cases "s = []")
    case True
    then show ?thesis by (auto simp: bytes_of_def intro: exI [of _ "[]"])
  next
    case False
    have "(\<exists>before after. s # secrets = before @ [] # after \<and> (\<forall>t\<in>set before. t \<noteq> [] \<and> \<not> sublist (bytes_of t) bs))
        \<longleftrightarrow> \<not> sublist (bytes_of s) bs
          \<and> (\<exists>before after. secrets = before @ [] # after \<and> (\<forall>t\<in>set before. t \<noteq> [] \<and> \<not> sublist (bytes_of t) bs))"
      (is "?l \<longleftrightarrow> ?r")
    proof
      assume ?l
      then obtain before after where "s # secrets = before @ [] # after"
        "\<forall>t\<in>set before. t \<noteq> [] \<and> \<not> sublist (bytes_of t) bs" by blast
      with False obtain before' where "before = s # before'" "secrets = before' @ [] # after"
        by (cases before) auto
      with \<open>\<forall>t\<in>set before. t \<noteq> [] \<and> \<not> sublist (bytes_of t) bs\<close> show ?r by auto
    next
      assume r: ?r
      then obtain before after where "secrets = before @ [] # after" "\<forall>t\<in>set before. t \<noteq> [] \<and> \<not> sublist (bytes_of t) bs"
        by blast
      with r False show ?l by (intro ex2I [of _ "s # before" after]) simp
    qed
    note step = this
    show ?thesis unfolding step using False by (simp add: window_any_sublist Cons.IH bytes_of_def)
  qed
qed simp

text \<open>The proof a call builds, before the redaction check.\<close>

definition proof_of :: "('p, 'f, 'v, 'x) zk_env \<Rightarrow> u64 \<Rightarrow> string \<Rightarrow> bytes \<Rightarrow> bytes \<Rightarrow> captured_chain \<Rightarrow> nat \<Rightarrow> bytes \<Rightarrow> zktls_proof" where
  "proof_of env t url body selected chain signer nonce =
     (let sha = ze_sha env;
          payload = canonical_payload PROOF_VERSION (sha (bytes_of url)) (sha selected) (sha body) (cert_fingerprint sha chain) t nonce
      in case zk_sign (ze_curve env) signer payload of (r, s, v) \<Rightarrow>
        \<lparr>zp_version = PROOF_VERSION, zp_url_hash = sha (bytes_of url), zp_data_hash = sha selected,
         zp_response_hash = sha body, zp_cert_fingerprint = cert_fingerprint sha chain,
         zp_timestamp = t, zp_nonce = nonce, zp_r = r, zp_s = s, zp_v = v\<rparr>)"

lemma zk_generate_proof_eq: "zk_generate_proof env clock url body selector chain signer nonce redact =
    (case jq_select (ze_jaq env) body selector of
       Inl e \<Rightarrow> Some (Err e)
     | Inr selected \<Rightarrow> (case clock of Inl e \<Rightarrow> Some (Err (BuildError e))
         | Inr t \<Rightarrow> (let p = proof_of env t url body selected chain signer nonce in
             case redact of None \<Rightarrow> Some (Ok p)
             | Some secrets \<Rightarrow> map_option (\<lambda>res. res_bind res (\<lambda>_. Ok p)) (redact_check (zp_to_bytes p) secrets))))"
  by (simp add: zk_generate_proof_def proof_of_def Let_def split: sum.split prod.split)

lemma proof_of_wf:
  assumes "hash32 (ze_sha env)" "length nonce = 16"
  shows "zp_wf (proof_of env t url body selected chain signer nonce)"
  using assms by (auto simp: proof_of_def Let_def zp_wf_def hash32_def cert_fingerprint_def zk_sign_def split: prod.split)

lemma proof_of_signer:
  fixes env :: "('p, 'f, 'v, 'x) zk_env"
  assumes "k256_ok (ze_curve env)" "low_s (ze_curve env)" "0 < d" "d < k_order (ze_curve env)"
  shows "recover_signer (ze_curve env) emsg (proof_of env t url body selected chain d nonce) = Ok (address_of (ze_curve env) d)"
proof -
  let ?k = "ze_curve env" and ?p = "proof_of env t url body selected chain d nonce"
  obtain r s v where sg: "k_sign ?k d (k_keccak ?k (zp_payload ?p)) = ((r, s), v)" by (metis surj_pair)
  have low: "s \<le> k_order ?k div 2" using assms(2) sg unfolding low_s_def by blast
  note ok = k256_sign [OF assms(1,3,4) sg]
  have "zp_payload ?p = canonical_payload PROOF_VERSION (ze_sha env (bytes_of url)) (ze_sha env selected) (ze_sha env body)
      (cert_fingerprint (ze_sha env) chain) t nonce"
    by (simp add: zp_payload_def proof_of_def Let_def split: prod.split)
  then have "zp_r ?p = be_bytes 32 r" "zp_s ?p = be_bytes 32 s" "zp_v ?p = word_of_nat v"
    using sg low by (simp_all add: proof_of_def zk_sign_def Let_def normalize_s_def)
  moreover have "be_nat (be_bytes 32 r) = r" "be_nat (be_bytes 32 s) = s"
    using be_nat_bytes32 [OF _ assms(1)] ok by blast+
  moreover have "recovery_id (unat (word_of_nat v :: u8)) = Some v"
    using ok by (simp add: recovery_id_def unat_of_nat)
  ultimately show ?thesis using ok by (simp add: recover_signer_def address_of_def Let_def)
qed

text \<open>The selector itself is not bound: two selectors that select the same bytes give the same
  proof.\<close>

lemma selector_unbound:
  assumes "jq_select (ze_jaq env) body selector = jq_select (ze_jaq env) body selector'"
  shows "zk_generate_proof env clock url body selector chain signer nonce redact
    = zk_generate_proof env clock url body selector' chain signer nonce redact"
  by (simp add: zk_generate_proof_eq assms)

section \<open>Instances that meet the assumptions\<close>

text \<open>The toy curve with low \<open>s\<close> values, a padding hash, and a jq whose filters select the whole
  payload (or nothing, for the empty selector).\<close>

definition w_low_k256 :: "nat k256" where
  "w_low_k256 = w_k256\<lparr>k_sign := (\<lambda>d z. if d \<le> 3 then ((1, d), 0) else ((1, 7 - d), 1))\<rparr>"

lemma w_low_k256_ok: "k256_ok w_low_k256 \<and> low_s w_low_k256"
proof
  have u: "unat (word_of_nat a :: u8) = a" if "a < 7" for a using that by (simp add: unat_of_nat)
  have o7: "(7 :: nat) \<le> 256 ^ 32" by simp
  have ne: "7 - d \<noteq> d" for d :: nat by presburger
  show "k256_ok w_low_k256"
    unfolding k256_ok_def w_low_k256_def w_k256_def k256.simps using u o7 ne
    by (intro conjI allI impI) (auto split: if_splits)
  show "low_s w_low_k256" by (auto simp: low_s_def w_low_k256_def w_k256_def split: if_splits)
qed

definition w_sha :: "bytes \<Rightarrow> bytes" where
  "w_sha bs = take 32 (bs @ replicate 32 0)"

definition w_jaq :: "(string, bytes, bytes) jaq" where
  "w_jaq = \<lparr>jq_compile = (\<lambda>sel. if sel = ''['' then Inl [''e1'', ''e2''] else Inr sel), jq_parse_many = (\<lambda>bs. [Inr bs]),
     jq_outputs = (\<lambda>flt v. if flt = ''empty'' then [] else [v]), jq_unwrap = Inr, jq_write = (\<lambda>v. Inr (v @ [10])),
     jq_run = (\<lambda>flt ins fi cb st. jq_drive (\<lambda>v. if flt = ''empty'' then [] else [v]) ins fi cb st)\<rparr>"

lemma w_jaq_ok: "jaq_ok w_jaq"
  by (simp add: jaq_ok_def w_jaq_def)

definition w_zk_env :: "(nat, string, bytes, bytes) zk_env" where
  "w_zk_env = \<lparr>ze_curve = w_low_k256, ze_sha = w_sha, ze_jaq = w_jaq\<rparr>"

lemma w_zk_env_ok: "k256_ok (ze_curve w_zk_env)" "low_s (ze_curve w_zk_env)" "hash32 (ze_sha w_zk_env)"
  using w_low_k256_ok by (simp_all add: w_zk_env_def hash32_def w_sha_def) arith

definition w_chain :: captured_chain where
  "w_chain = \<lparr>cc_server = ''api.example'', cc_end_entity = [48, 1], cc_intermediates = []\<rparr>"

section \<open>Properties\<close>

text \<open>A selection succeeds exactly when the selector compiles, every input parses and every
  output can be written, and there is an output; the result is the concatenation of all
  outputs over all inputs, in order. Every failure has its own error: the joined reports for
  a selector that does not compile, an empty selection only when nothing failed and nothing
  was produced, otherwise a build error, also for a response that is not JSON.\<close>

lemma jq_select_exact:
  assumes "jaq_ok jq"
  shows "(jq_select jq body selector = Ok out \<longleftrightarrow>
      (\<exists>flt vs bs. jq_compile jq selector = Ok flt \<and> jq_parse_many jq body = map Ok vs
        \<and> map (written jq) (concat (map (jq_outputs jq flt) vs)) = map Ok bs \<and> bs \<noteq> [] \<and> out = concat bs))
    \<and> (jq_select jq body selector = Err e \<longrightarrow>
        (\<exists>reports. jq_compile jq selector = Err reports \<and> e = JqCompile (join ''; '' reports))
      \<or> (\<exists>flt vs. jq_compile jq selector = Ok flt \<and> jq_parse_many jq body = map Ok vs
          \<and> concat (map (jq_outputs jq flt) vs) = [] \<and> e = EmptySelection selector)
      \<or> (\<exists>m. e = BuildError (''jq run failed: proof build failed: '' @ m)))"
proof (cases "jq_compile jq selector")
  case (Inl reports)
  then show ?thesis by (auto simp: jq_select_def)
next
  case (Inr flt)
  let ?run = "jq_drive (jq_outputs jq flt) (jq_parse_many jq body) BuildError (on_output jq) ([], False)"
  have sel: "jq_select jq body selector = res_bind (map_err (\<lambda>e. BuildError (''jq run failed: '' @ zk_error_display e)) ?run)
      (\<lambda>(out, wrote). if \<not> wrote then Err (EmptySelection selector) else Ok out)"
    using assms Inr by (simp add: jq_select_def jaq_ok_def)
  show ?thesis
  proof (cases ?run)
    case (Inl e')
    then obtain m where "e' = BuildError m" using jq_drive_Err by blast
    moreover have "\<not> (\<exists>vs bs. jq_parse_many jq body = map Ok vs
        \<and> map (written jq) (concat (map (jq_outputs jq flt) vs)) = map Ok bs)"
      using Inl jq_drive_Ok [of "jq_outputs jq flt" "jq_parse_many jq body" jq "([], False)"] by auto
    ultimately show ?thesis using Inl \<open>jq_compile jq selector = Inr flt\<close> by (auto simp: sel)
  next
    case (Inr st)
    then obtain vs bs where b: "jq_parse_many jq body = map Ok vs"
      "map (written jq) (concat (map (jq_outputs jq flt) vs)) = map Ok bs" "st = (concat bs, bs \<noteq> [])"
      using jq_drive_Ok [of "jq_outputs jq flt" "jq_parse_many jq body" jq "([], False)"] by auto
    have inj: "map Ok xs = map Ok ys \<longleftrightarrow> xs = ys" for xs ys :: "'z list" by (simp add: inj_map_eq_map)
    have "bs = [] \<longleftrightarrow> concat (map (jq_outputs jq flt) vs) = []" using b(2) by (metis map_is_Nil_conv)
    then show ?thesis using Inr b \<open>jq_compile jq selector = Inr flt\<close>
      by (simp add: sel) (metis inj)
  qed
qed

lemma jq_select_exact_witness:
  "jq_select w_jaq [123, 125] ''.'' = Ok [123, 125, 10] \<and> jq_select w_jaq [123, 125] ''empty'' \<noteq> Ok []"
proof -
  have "jq_select w_jaq [123, 125] ''.'' = Ok [123, 125, 10]"
    by (rule jq_select_exact [OF w_jaq_ok, THEN conjunct1, THEN iffD2])
      (intro ex3I [of _ "''.''" "[[123, 125]]" "[[123, 125, 10]]"], simp add: w_jaq_def written_def)
  moreover have "jq_select w_jaq [123, 125] ''empty'' \<noteq> Ok []"
    unfolding jq_select_exact [OF w_jaq_ok, THEN conjunct1] by (auto simp: w_jaq_def Cons_eq_map_conv)
  ultimately show ?thesis by blast
qed

text \<open>C37: the wire format is a bijection between the well-formed proofs and the byte strings of
  length 218: decoding inverts encoding, every string of that length decodes to a proof that
  encodes to it, any other length is refused with that length in the error, and the signed
  payload determines everything but the signature.\<close>

theorem zk_wire_exact:
  assumes "zp_wf p" "zp_wf q"
  shows "zp_from_bytes (zp_to_bytes p) = Ok p
    \<and> (zp_to_bytes p = zp_to_bytes q \<longleftrightarrow> p = q)
    \<and> (zp_payload p = zp_payload q \<longleftrightarrow> p\<lparr>zp_r := [], zp_s := [], zp_v := 0\<rparr> = q\<lparr>zp_r := [], zp_s := [], zp_v := 0\<rparr>)
    \<and> (if length bs = 218 then \<exists>p'. zp_from_bytes bs = Ok p' \<and> zp_wf p' \<and> zp_to_bytes p' = bs
       else zp_from_bytes bs = Err (DecodeError (''expected 218 bytes, got '' @ show_nat (length bs))))"
  using assms zp_from_bytes_complete [of bs] zp_from_bytes_length [of bs]
  by (simp add: zp.dec_enc zp.enc_inject zp_payload_inject)

theorem zk_wire_exact_witness:
  "zp_to_bytes (proof_of w_zk_env 5 ''u'' [1] [2] w_chain 3 (replicate 16 0))
      \<noteq> zp_to_bytes (proof_of w_zk_env 5 ''v'' [1] [2] w_chain 3 (replicate 16 0))
    \<and> zp_from_bytes [] = Err (DecodeError ''expected 218 bytes, got 0'')"
proof -
  let ?p = "proof_of w_zk_env 5 ''u'' [1] [2] w_chain 3 (replicate 16 0)"
  let ?q = "proof_of w_zk_env 5 ''v'' [1] [2] w_chain 3 (replicate 16 0)"
  have wf: "zp_wf ?p" "zp_wf ?q" by (rule proof_of_wf [OF w_zk_env_ok(3)], simp)+
  have "zp_url_hash ?p \<noteq> zp_url_hash ?q"
    by (simp add: proof_of_def Let_def w_zk_env_def w_sha_def bytes_of_def split: prod.split)
  then have "?p \<noteq> ?q" by metis
  moreover have "show_nat 0 = ''0''" by code_simp
  ultimately show ?thesis using zk_wire_exact [OF wf, of "[]"] by simp
qed

text \<open>C9: a proof the generator returns is what it claims to be: the hashes are those of the URL,
  of what the selector selected from the body, of the body and of the presented chain, the
  timestamp and nonce are the clock's and the caller's, the signer recovered from it is the
  address of the enclave key, it survives the wire format, and no secret it was told to keep
  out occurs anywhere in its bytes.\<close>

theorem zk_proof_sound:
  assumes "k256_ok (ze_curve env)" "low_s (ze_curve env)" "hash32 (ze_sha env)"
    and "0 < signer" "signer < k_order (ze_curve env)" "length nonce = 16"
    and "zk_generate_proof env clock url body selector chain signer nonce redact = Some (Ok p)"
  shows "(\<exists>selected. jq_select (ze_jaq env) body selector = Ok selected \<and> zp_data_hash p = ze_sha env selected)
    \<and> zp_version p = 1 \<and> zp_url_hash p = ze_sha env (bytes_of url) \<and> zp_response_hash p = ze_sha env body
    \<and> zp_cert_fingerprint p = ze_sha env (concat (all_der chain)) \<and> clock = Ok (zp_timestamp p) \<and> zp_nonce p = nonce
    \<and> recover_signer (ze_curve env) emsg p = Ok (address_of (ze_curve env) signer)
    \<and> zp_from_bytes (zp_to_bytes p) = Ok p
    \<and> (\<forall>secrets. redact = Some secrets \<longrightarrow> (\<forall>s\<in>set secrets. s \<noteq> [] \<and> \<not> sublist (bytes_of s) (zp_to_bytes p)))"
proof -
  obtain selected t where g: "jq_select (ze_jaq env) body selector = Ok selected" "clock = Ok t"
    "p = proof_of env t url body selected chain signer nonce"
    and r: "\<And>secrets. redact = Some secrets \<Longrightarrow> redact_check (zp_to_bytes p) secrets = Some (Ok ())"
    using assms(7) by (auto simp: zk_generate_proof_eq Let_def res_simps split: sum.splits option.splits)
  have fields: "zp_version p = PROOF_VERSION" "zp_url_hash p = ze_sha env (bytes_of url)" "zp_data_hash p = ze_sha env selected"
    "zp_response_hash p = ze_sha env body" "zp_cert_fingerprint p = cert_fingerprint (ze_sha env) chain"
    "zp_timestamp p = t" "zp_nonce p = nonce"
    by (simp_all add: g(3) proof_of_def Let_def split: prod.split)
  have "zp_from_bytes (zp_to_bytes p) = Ok p"
    unfolding g(3) by (rule zp.dec_enc [OF proof_of_wf [OF assms(3,6)]])
  moreover have "recover_signer (ze_curve env) emsg p = Ok (address_of (ze_curve env) signer)"
    unfolding g(3) by (rule proof_of_signer [OF assms(1,2,4,5)])
  ultimately show ?thesis
    using g(1,2) fields r by (auto simp: PROOF_VERSION_def cert_fingerprint_def redact_check_Ok)
qed

theorem zk_proof_sound_witness:
  "\<exists>p. zk_generate_proof w_zk_env (Ok 5) ''https://a'' [123, 125] ''.'' w_chain 5 (replicate 16 0) (Some [''Bearer'']) = Some (Ok p)
    \<and> recover_signer w_low_k256 ''signature error'' p = Ok (address_of w_low_k256 5)
    \<and> \<not> sublist (bytes_of ''Bearer'') (zp_to_bytes p)"
proof -
  have s: "jq_select (ze_jaq w_zk_env) [123, 125] ''.'' = Ok [123, 125, 10]"
    by (simp add: jq_select_def w_zk_env_def w_jaq_def on_output_def)
  let ?p = "proof_of w_zk_env 5 ''https://a'' [123, 125] [123, 125, 10] w_chain 5 (replicate 16 0)"
  have red: "redact_check (zp_to_bytes ?p) [''Bearer''] = Some (Ok ())" by code_simp
  then have g: "zk_generate_proof w_zk_env (Ok 5) ''https://a'' [123, 125] ''.'' w_chain 5 (replicate 16 0) (Some [''Bearer''])
      = Some (Ok ?p)" by (simp only: zk_generate_proof_eq s red sum.case option.case Let_def option.map res_bind.simps)
  have o: "0 < (5 :: nat)" "5 < k_order (ze_curve w_zk_env)" "length (replicate 16 (0 :: u8)) = 16"
    by (simp_all add: w_zk_env_def w_low_k256_def w_k256_def)
  note c = zk_proof_sound [OF w_zk_env_ok o g, of "''signature error''"]
  have "ze_curve w_zk_env = w_low_k256" by (simp add: w_zk_env_def)
  with g c show ?thesis by auto
qed

text \<open>Once selection and clock succeed, the generator panics exactly when some secret is empty and
  none before it leaked, returns the proof exactly when no secret is empty or occurs in its
  bytes, and otherwise returns the leak error; without a redaction list it returns the proof.\<close>

lemma zk_generate_outcome:
  fixes env :: "('p, 'f, 'v, 'x) zk_env" and url selector chain signer nonce body
  assumes "jq_select (ze_jaq env) body selector = Ok selected" "clock = Ok t"
  defines "p \<equiv> proof_of env t url body selected chain signer nonce"
  shows "(zk_generate_proof env clock url body selector chain signer nonce (Some secrets) = None \<longleftrightarrow>
        (\<exists>before after. secrets = before @ [] # after \<and> (\<forall>s\<in>set before. s \<noteq> [] \<and> \<not> sublist (bytes_of s) (zp_to_bytes p))))
    \<and> (zk_generate_proof env clock url body selector chain signer nonce (Some secrets) = Some (Ok p) \<longleftrightarrow>
        (\<forall>s\<in>set secrets. s \<noteq> [] \<and> \<not> sublist (bytes_of s) (zp_to_bytes p)))
    \<and> zk_generate_proof env clock url body selector chain signer nonce (Some secrets)
        \<in> {None, Some (Ok p), Some (Err (BuildError ''request header value leaked into proof payload''))}
    \<and> zk_generate_proof env clock url body selector chain signer nonce None = Some (Ok p)"
proof -
  have gen: "zk_generate_proof env clock url body selector chain signer nonce (Some secrets)
      = map_option (\<lambda>res. res_bind res (\<lambda>_. Ok p)) (redact_check (zp_to_bytes p) secrets)"
    and plain: "zk_generate_proof env clock url body selector chain signer nonce None = Some (Ok p)"
    using assms by (simp_all add: zk_generate_proof_eq Let_def)
  note none = redact_check_None [of "zp_to_bytes p" secrets] and ok = redact_check_Ok [of "zp_to_bytes p" secrets "()"]
  show ?thesis
  proof (cases "redact_check (zp_to_bytes p) secrets")
    case None
    with ok have "\<not> (\<forall>s\<in>set secrets. s \<noteq> [] \<and> \<not> sublist (bytes_of s) (zp_to_bytes p))" by simp
    then show ?thesis using None none gen plain by simp
  next
    case (Some res)
    note notnone = none [unfolded Some]
    show ?thesis
    proof (cases res)
      case (Inl e)
      then have e: "res_bind res (\<lambda>_. Ok p) = Err (BuildError ''request header value leaked into proof payload'')"
        using redact_check_Err Some by auto
      then show ?thesis unfolding gen Some using notnone ok [unfolded Some] plain Inl by simp
    next
      case (Inr u)
      then show ?thesis unfolding gen Some using notnone ok [unfolded Some] plain by simp
    qed
  qed
qed

lemma zk_generate_outcome_witness:
  "zk_generate_proof w_zk_env (Ok 5) ''https://a'' [123, 125] ''.'' w_chain 5 (replicate 16 0) (Some [[]]) = None"
proof -
  have s: "jq_select (ze_jaq w_zk_env) [123, 125] ''.'' = Ok [123, 125, 10]"
    by (simp add: jq_select_def w_zk_env_def w_jaq_def on_output_def)
  show ?thesis
    by (rule zk_generate_outcome [OF s refl, THEN conjunct1, THEN iffD2]) (intro ex2I [of _ "[]" "[]"], simp)
qed

end
