(* ===== verification/TlsClient.thy ===== *)
theory TlsClient
  imports TlsProxy
begin

text \<open>
  The configuration of the zkTLS client: the root store of \<open>zktls/cert_verifier.rs\<close>, the parts of
  the capturing verifier that only delegate, and the two constructors of the proxy of
  \<open>zktls/proxy.rs\<close>. The \<open>Arc\<close> of the chain sink is a reference to one of the sinks of a heap, so that
  sharing is visible. The bundle of anchors and webpki's checks are parameters.
\<close>

section \<open>Roots\<close>

record trust_anchor =
  ta_subject :: bytes
  ta_spki :: bytes
  ta_name_constraints :: "bytes option"

type_synonym root_store = "trust_anchor list"

definition add_trust_anchors :: "trust_anchor list \<Rightarrow> root_store \<Rightarrow> root_store" where
  "add_trust_anchors anchors roots = roots @ anchors"

definition mozilla_root_store :: "trust_anchor list \<Rightarrow> root_store" where
  "mozilla_root_store TLS_SERVER_ROOTS = add_trust_anchors (map (\<lambda>ta. \<lparr>ta_subject = ta_subject ta, ta_spki = ta_spki ta,
     ta_name_constraints = ta_name_constraints ta\<rparr>) TLS_SERVER_ROOTS) []"

section \<open>The verifier\<close>

type_synonym sinks = "nat \<Rightarrow> chain_sink"

text \<open>\<open>WebPkiVerifier\<close> over a root store: certificate and signature checks, and its schemes.\<close>

record 'e webpki_lib =
  wp_cert :: "root_store \<Rightarrow> 'e webpki"
  wp_tls12 :: "root_store \<Rightarrow> bytes \<Rightarrow> bytes \<Rightarrow> bytes \<Rightarrow> 'e + unit"
  wp_tls13 :: "root_store \<Rightarrow> bytes \<Rightarrow> bytes \<Rightarrow> bytes \<Rightarrow> 'e + unit"
  wp_schemes :: "root_store \<Rightarrow> nat list"

record capturing_verifier =
  cv_inner :: root_store
  cv_sink :: nat

definition capturing_verifier_new :: "root_store \<Rightarrow> nat \<Rightarrow> capturing_verifier" where
  "capturing_verifier_new roots sink = \<lparr>cv_inner = roots, cv_sink = sink\<rparr>"

text \<open>The verifier on the shared sink: what \<open>verify_server_cert\<close> of \<open>TlsProxy\<close> does to the one it refers to.\<close>

definition verifier_check :: "'e webpki_lib \<Rightarrow> capturing_verifier \<Rightarrow> handshake \<Rightarrow> sinks \<Rightarrow> ('e + unit) \<times> sinks" where
  "verifier_check lib v h sinks =
     (case verify_server_cert (wp_cert lib (cv_inner v)) h (sinks (cv_sink v)) of
        (r, sink) \<Rightarrow> (r, sinks(cv_sink v := sink)))"

definition verify_tls12_signature :: "'e webpki_lib \<Rightarrow> capturing_verifier \<Rightarrow> bytes \<Rightarrow> bytes \<Rightarrow> bytes \<Rightarrow> 'e + unit" where
  "verify_tls12_signature lib v message cert dss = wp_tls12 lib (cv_inner v) message cert dss"

definition verify_tls13_signature :: "'e webpki_lib \<Rightarrow> capturing_verifier \<Rightarrow> bytes \<Rightarrow> bytes \<Rightarrow> bytes \<Rightarrow> 'e + unit" where
  "verify_tls13_signature lib v message cert dss = wp_tls13 lib (cv_inner v) message cert dss"

definition supported_verify_schemes :: "'e webpki_lib \<Rightarrow> capturing_verifier \<Rightarrow> nat list" where
  "supported_verify_schemes lib v = wp_schemes lib (cv_inner v)"

section \<open>The configuration and the proxy\<close>

datatype tls_version = TLS12 | TLS13

record client_config =
  cf_versions :: "tls_version list"
  cf_verifier :: capturing_verifier
  cf_client_auth :: bool

text \<open>The parameter tells whether the safe-default suites support a list of versions; \<open>None\<close> is the panic
  of the \<open>expect\<close>.\<close>

definition client_config_with_roots :: "(tls_version list \<Rightarrow> bool) \<Rightarrow> root_store \<Rightarrow> nat \<Rightarrow> client_config option" where
  "client_config_with_roots suites_support roots sink =
     (let verifier = capturing_verifier_new roots sink
      in if suites_support [TLS13] then Some \<lparr>cf_versions = [TLS13], cf_verifier = verifier, cf_client_auth = False\<rparr> else None)"

record zk_tls_proxy =
  px_config :: client_config
  px_https_only :: bool
  px_http1 :: bool
  px_pool_idle_secs :: nat
  px_sink :: nat

definition proxy_with_config :: "client_config \<Rightarrow> nat \<Rightarrow> zk_tls_proxy" where
  "proxy_with_config config sink = \<lparr>px_config = config, px_https_only = True, px_http1 = True, px_pool_idle_secs = 60, px_sink = sink\<rparr>"

text \<open>A new sink of 64 entries at a reference nobody uses yet, shared by the verifier and the proxy.\<close>

definition proxy_with_roots :: "(tls_version list \<Rightarrow> bool) \<Rightarrow> root_store \<Rightarrow> nat \<Rightarrow> sinks \<Rightarrow> (zk_tls_proxy \<times> sinks) option" where
  "proxy_with_roots suites_support roots sink sinks =
     map_option (\<lambda>config. (proxy_with_config config sink, sinks(sink := sink_new 64))) (client_config_with_roots suites_support roots sink)"

definition zk_tls_proxy_new :: "(tls_version list \<Rightarrow> bool) \<Rightarrow> trust_anchor list \<Rightarrow> nat \<Rightarrow> sinks \<Rightarrow> (zk_tls_proxy \<times> sinks) option" where
  "zk_tls_proxy_new suites_support TLS_SERVER_ROOTS sink sinks =
     proxy_with_roots suites_support (mozilla_root_store TLS_SERVER_ROOTS) sink sinks"

definition proxy_take :: "zk_tls_proxy \<Rightarrow> string \<Rightarrow> sinks \<Rightarrow> captured_chain option \<times> sinks" where
  "proxy_take px server sinks =
     (case extract_ca_certificate_chain server (sinks (px_sink px)) of (c, sink) \<Rightarrow> (c, sinks(px_sink px := sink)))"

section \<open>Lemmas\<close>

lemma mozilla_root_store_exact: "mozilla_root_store anchors = anchors"
proof -
  have "(\<lambda>ta. \<lparr>ta_subject = ta_subject ta, ta_spki = ta_spki ta, ta_name_constraints = ta_name_constraints ta\<rparr>) = (\<lambda>ta :: trust_anchor. ta)"
    by (rule ext) simp
  then show ?thesis unfolding mozilla_root_store_def add_trust_anchors_def by simp
qed

text \<open>
  A new proxy trusts exactly the given anchors, speaks TLS 1.3 only, never plain HTTP, and drains the
  very sink its verifier fills: right after a handshake that passes validation, its chain is
  the one handed out for that server, and no other sink has changed.
\<close>

lemma new_proxy_shares_sink:
  assumes "zk_tls_proxy_new suites anchors i sinks = Some (px, sinks')"
  shows "cv_sink (cf_verifier (px_config px)) = px_sink px \<and> cv_inner (cf_verifier (px_config px)) = anchors
    \<and> cf_versions (px_config px) = [TLS13] \<and> px_https_only px \<and> sinks' (px_sink px) = proxy_new"
  using assms
  by (auto simp: zk_tls_proxy_new_def proxy_with_roots_def proxy_with_config_def client_config_with_roots_def
      capturing_verifier_new_def mozilla_root_store_exact Let_def proxy_new_def proxy_sink_max_def split: if_splits)

lemma take_for_pushed: "fst (take_for (cc_server c) (sink_push c sink)) = Some c"
proof -
  let ?q = "cs_inner (sink_push c sink)"
  obtain q where q: "?q = q @ [c]" by (simp add: sink_push_def Let_def)
  have "filter (\<lambda>i. cc_server (?q ! i) = cc_server c) [0..<length ?q]
      = filter (\<lambda>i. cc_server (?q ! i) = cc_server c) [0..<length q] @ [length q]" by (simp add: q)
  then have "rposition (\<lambda>d. cc_server d = cc_server c) ?q = Some (length q)" by (simp add: rposition_def Let_def)
  then show ?thesis by (simp add: take_for_def q)
qed

lemma proxy_captures:
  assumes "zk_tls_proxy_new suites anchors i sinks = Some (px, sinks')" "wp_cert lib anchors h = Ok ()"
    and "verifier_check lib (cf_verifier (px_config px)) h s = (r, s')"
  shows "r = Ok () \<and> fst (proxy_take px (server_text (hs_server_name h)) s') = Some (presented h)
    \<and> (\<forall>j. j \<noteq> px_sink px \<longrightarrow> s' j = s j)"
proof -
  note px = new_proxy_shares_sink [OF assms(1)]
  have "r = Ok ()" "s' = s(px_sink px := sink_push (presented h) (s (px_sink px)))"
    using assms(2,3) px by (auto simp: verifier_check_def)
  moreover have "fst (take_for (cc_server (presented h)) (sink_push (presented h) (s (px_sink px)))) = Some (presented h)"
    by (rule take_for_pushed)
  ultimately show ?thesis
    by (auto simp: proxy_take_def extract_ca_certificate_chain_def presented_def split: prod.split)
qed

end
