(* ===== verification/RustText.thy ===== *)
theory RustText
  imports Prelude "HOL-Library.Sublist"
begin

text \<open>
  The string functions of the standard library that several components call, on UTF-8 bytes:
  Unicode white space, \<open>trim\<close>, \<open>split_whitespace\<close>, \<open>find\<close> and the trimming of a suffix character.
\<close>

section \<open>White space\<close>

text \<open>
  The number of bytes of the white-space character a byte string starts with, zero if it starts
  with none: U+0009 to U+000D, U+0020, U+0085, U+00A0, U+1680, U+2000 to U+200A, U+2028, U+2029,
  U+202F, U+205F, U+3000.
\<close>

definition ws2 :: "nat \<Rightarrow> nat \<Rightarrow> bool" where
  "ws2 a b \<longleftrightarrow> a = 194 \<and> (b = 133 \<or> b = 160)"

definition ws3 :: "nat \<Rightarrow> nat \<Rightarrow> nat \<Rightarrow> bool" where
  "ws3 a b c \<longleftrightarrow> a = 225 \<and> b = 154 \<and> c = 128
    \<or> a = 226 \<and> b = 128 \<and> (128 \<le> c \<and> c \<le> 138 \<or> c = 168 \<or> c = 169 \<or> c = 175)
    \<or> a = 226 \<and> b = 129 \<and> c = 159 \<or> a = 227 \<and> b = 128 \<and> c = 128"

fun ws_code :: "nat list \<Rightarrow> nat" where
  "ws_code [] = 0"
| "ws_code (a # s) =
     (if a = 32 \<or> 9 \<le> a \<and> a \<le> 13 then 1
      else case s of
        [] \<Rightarrow> 0
      | b # s' \<Rightarrow> if ws2 a b then 2
          else case s' of [] \<Rightarrow> 0 | c # s'' \<Rightarrow> if ws3 a b c then 3 else 0)"

definition ws_len :: "string \<Rightarrow> nat" where
  "ws_len s = ws_code (map of_char s)"

lemma ws_code_pos: "0 < ws_code s \<Longrightarrow> s \<noteq> [] \<and> ws_code s \<le> length s"
  by (induction s rule: ws_code.induct) (auto split: list.splits if_splits)

lemma ws_len_pos: "0 < ws_len s \<Longrightarrow> s \<noteq> [] \<and> ws_len s \<le> length s"
  using ws_code_pos [of "map of_char s"] by (simp add: ws_len_def)

function trim_start :: "string \<Rightarrow> string" where
  "trim_start s = (if ws_len s = 0 then s else trim_start (drop (ws_len s) s))"
  by auto
termination
  by (relation "measure length") (use ws_len_pos in \<open>auto simp: \<close>)

declare trim_start.simps [simp del]

text \<open>\<open>s.trim().is_empty()\<close>: nothing is left after the leading white space.\<close>

definition is_blank :: "string \<Rightarrow> bool" where
  "is_blank s \<longleftrightarrow> trim_start s = []"

fun split_ws :: "string \<Rightarrow> string \<Rightarrow> string list" where
  "split_ws acc [] = (if acc = [] then [] else [acc])"
| "split_ws acc (c # s) =
     (if ws_len (c # s) = 0 then split_ws (acc @ [c]) s
      else (if acc = [] then [] else [acc]) @ split_ws [] (drop (ws_len (c # s) - 1) s))"

definition split_whitespace :: "string \<Rightarrow> string list" where
  "split_whitespace s = split_ws [] s"

fun join_with :: "string \<Rightarrow> string list \<Rightarrow> string" where
  "join_with sep [] = []"
| "join_with sep [x] = x"
| "join_with sep (x # xs) = x @ sep @ join_with sep xs"

section \<open>Searching\<close>

text \<open>\<open>str::find\<close>, \<open>str::strip_prefix\<close>, \<open>trim_end_matches\<close> of a character.\<close>

fun str_find :: "string \<Rightarrow> string \<Rightarrow> nat option" where
  "str_find needle [] = (if needle = [] then Some 0 else None)"
| "str_find needle (c # s) =
     (if take (length needle) (c # s) = needle then Some 0 else map_option Suc (str_find needle s))"

definition trim_end_matches :: "char \<Rightarrow> string \<Rightarrow> string" where
  "trim_end_matches c s = rev (dropWhile (\<lambda>d. d = c) (rev s))"

section \<open>Lemmas\<close>

lemma ws_code_append: "0 < ws_code xs \<Longrightarrow> ws_code (xs @ ys) = ws_code xs"
  by (cases xs rule: ws_code.cases) (auto split: list.splits if_splits)

lemma ws_code_space: "xs \<noteq> [] \<Longrightarrow> ws_code (xs @ 32 # ys) = ws_code xs"
  by (cases xs rule: ws_code.cases) (auto simp: ws2_def ws3_def split: list.splits if_splits)

lemma ws_len_append: "ws_len (s @ t) = 0 \<Longrightarrow> ws_len s = 0"
  using ws_code_append [of "map of_char s" "map of_char t"] by (auto simp: ws_len_def)

lemma ws_len_space: "s \<noteq> [] \<Longrightarrow> ws_len (s @ CHR '' '' # t) = ws_len s"
  using ws_code_space [of "map of_char s" "map of_char t"] by (simp add: ws_len_def)

lemma ws_len_of_space [simp]: "ws_len (CHR '' '' # t) = 1"
  by (simp add: ws_len_def)

text \<open>A word: not empty, and no white space starts inside it.\<close>

definition is_word :: "string \<Rightarrow> bool" where
  "is_word w \<longleftrightarrow> w \<noteq> [] \<and> (\<forall>i<length w. ws_len (drop i w) = 0)"

lemma split_ws_words:
  "(\<forall>i<length acc. ws_len (drop i acc @ s) = 0) \<Longrightarrow> w \<in> set (split_ws acc s) \<Longrightarrow> is_word w"
proof (induction acc s rule: split_ws.induct)
  case (1 acc)
  then show ?case by (auto simp: is_word_def split: if_splits)
next
  case (2 acc c s)
  show ?case
  proof (cases "ws_len (c # s) = 0")
    case True
    have "ws_len (drop i (acc @ [c]) @ s) = 0" if "i < length (acc @ [c])" for i
      using 2(3) True that by (cases "i = length acc") (auto simp: less_Suc_eq)
    then show ?thesis using 2(1,4) True by auto
  next
    case False
    have "is_word acc" if "acc \<noteq> []"
      using 2(3) ws_len_append that by (auto simp: is_word_def)
    then show ?thesis using 2(2,4) False by (auto split: if_splits)
  qed
qed

lemma split_whitespace_words: "w \<in> set (split_whitespace s) \<Longrightarrow> is_word w"
  using split_ws_words [of "[]" s w] by (simp add: split_whitespace_def)

lemma split_ws_word:
  "\<forall>i<length w. ws_len (drop i w @ s) = 0 \<Longrightarrow> split_ws acc (w @ s) = split_ws (acc @ w) s"
proof (induction w arbitrary: acc)
  case (Cons c w)
  have "ws_len (c # w @ s) = 0" using Cons.prems [rule_format, of 0] by simp
  moreover have "\<forall>i<length w. ws_len (drop i w @ s) = 0"
    using Cons.prems [rule_format, of "Suc _"] by simp
  ultimately show ?case using Cons.IH [of "acc @ [c]"] by simp
qed simp

lemma split_ws_space: "split_ws acc (CHR '' '' # s) = (if acc = [] then [] else [acc]) @ split_ws [] s"
  by simp

text \<open>Joining words with single spaces and splitting again gives the words back.\<close>

lemma split_join: "\<forall>w\<in>set ws. is_word w \<Longrightarrow> split_whitespace (join_with '' '' ws) = ws"
proof (induction ws rule: induct_list012)
  case 1
  then show ?case by (simp add: split_whitespace_def)
next
  case (2 w)
  then show ?case using split_ws_word [of w "[]" "[]"] by (simp add: split_whitespace_def is_word_def)
next
  case (3 x y zs)
  have "\<forall>i<length x. ws_len (drop i x @ CHR '' '' # join_with '' '' (y # zs)) = 0"
    using 3(3) by (simp add: is_word_def ws_len_space)
  then have "split_ws [] (x @ CHR '' '' # join_with '' '' (y # zs)) = split_ws x (CHR '' '' # join_with '' '' (y # zs))"
    using split_ws_word [of x "CHR '' '' # join_with '' '' (y # zs)" "[]"] by simp
  then show ?case using 3 by (simp add: split_whitespace_def is_word_def)
qed

text \<open>A text is blank exactly when it has no words.\<close>

lemma split_ws_nonempty: "acc \<noteq> [] \<Longrightarrow> split_ws acc s \<noteq> []"
  by (induction acc s rule: split_ws.induct) auto

lemma is_blank_words: "is_blank s \<longleftrightarrow> split_whitespace s = []"
proof (induction s rule: trim_start.induct)
  case (1 s)
  show ?case
  proof (cases s)
    case Nil
    then show ?thesis by (simp add: is_blank_def split_whitespace_def trim_start.simps ws_len_def)
  next
    case (Cons c t)
    show ?thesis
    proof (cases "ws_len s = 0")
      case True
      then have "trim_start s = s" by (simp add: trim_start.simps [of s])
      then show ?thesis using split_ws_nonempty [of "[c]" t] Cons True
        by (simp add: is_blank_def split_whitespace_def)
    next
      case False
      then obtain n where n: "ws_len s = Suc n" by (cases "ws_len s") auto
      then have "trim_start s = trim_start (drop n t)" using Cons n by (subst trim_start.simps) simp
      moreover have "split_ws [] s = split_ws [] (drop n t)" using n Cons by simp
      moreover have "(trim_start (drop n t) = []) = (split_ws [] (drop n t) = [])"
        using 1 [OF False] n Cons by (simp add: is_blank_def split_whitespace_def)
      ultimately show ?thesis by (simp add: is_blank_def split_whitespace_def)
    qed
  qed
qed

lemma join_with_nonempty: "is_word w \<Longrightarrow> join_with sep (w # ws) \<noteq> []"
  by (cases ws) (auto simp: is_word_def)

text \<open>\<open>find\<close> gives the first occurrence.\<close>

lemma str_find_Some: "str_find needle s = Some i \<Longrightarrow> s = take i s @ needle @ drop (i + length needle) s \<and> i + length needle \<le> length s"
proof (induction s arbitrary: i)
  case (Cons c s)
  show ?case
  proof (cases "take (length needle) (c # s) = needle")
    case True
    then have "length needle \<le> length (c # s)" by (metis length_take min.cobounded1 min_def)
    then show ?thesis using True Cons.prems append_take_drop_id [of "length needle" "c # s"] by auto
  next
    case False
    then show ?thesis using Cons by auto
  qed
qed (auto split: if_splits)

lemma str_find_first:
  assumes "\<And>xs ys. pre @ needle @ s \<noteq> xs @ needle @ ys \<or> length pre \<le> length xs"
  shows "str_find needle (pre @ needle @ s) = Some (length pre)"
  using assms
proof (induction pre)
  case Nil
  have "take (length needle) (needle @ s) = needle" by simp
  then show ?case by (cases "needle @ s") (simp_all del: append_is_Nil_conv append_eq_Cons_conv)
next
  case (Cons c pre)
  have "take (length needle) (c # pre @ needle @ s) \<noteq> needle"
  proof
    assume "take (length needle) (c # pre @ needle @ s) = needle"
    then have "(c # pre) @ needle @ s = [] @ needle @ drop (length needle) (c # pre @ needle @ s)"
      by (metis append_Cons append_Nil append_take_drop_id)
    with Cons.prems [of "[]"] show False by auto
  qed
  moreover have "pre @ needle @ s \<noteq> xs @ needle @ ys \<or> length pre \<le> length xs" for xs ys
    using Cons.prems [of "c # xs" ys] by auto
  ultimately show ?case using Cons.IH by simp
qed

end
