(* ===== verification/KmsClient.thy ===== *)
theory KmsClient
  imports Ticker RustText
begin

text \<open>
  \<open>kms/client.rs\<close>: the configuration, the POST helper, the hand-written JSON field extraction and
  the two-step release of the key shard. The HTTP stack (hyper) and base64 are parameters; the
  requests sent are logged, so that what went out, to whom and with which credentials can be
  stated.
\<close>

section \<open>Configuration and errors\<close>

definition STS_TOKEN_URL :: string where "STS_TOKEN_URL = ''https://sts.googleapis.com/v1/token''"
definition KMS_BASE_URL :: string where "KMS_BASE_URL = ''https://cloudkms.googleapis.com''"

datatype kms_error = Transport string | HttpStatus nat string | ParseError string | MissingToken
  | Unconfigured string | MissingEat

fun kms_error_display :: "kms_error \<Rightarrow> string" where
  "kms_error_display (Transport e) = ''KMS transport error: '' @ e"
| "kms_error_display (HttpStatus st body) = ''KMS HTTP '' @ show_nat st @ '': '' @ body"
| "kms_error_display (ParseError e) = ''KMS response parse error: '' @ e"
| "kms_error_display MissingToken = ''STS exchange returned no access token''"
| "kms_error_display (Unconfigured what) = ''KMS client unconfigured: '' @ what"
| "kms_error_display MissingEat = ''EAT token required but not supplied''"

record kms_config =
  kc_crypto_key_name :: string
  kc_wip_audience :: string
  kc_kms_base_url :: string
  kc_sts_token_url :: string
  kc_timeout :: nat

definition or_default :: "string option \<Rightarrow> string \<Rightarrow> string" where
  "or_default x d = (case x of Some s \<Rightarrow> s | None \<Rightarrow> d)"

definition config_from_env :: "(string \<Rightarrow> string option) \<Rightarrow> kms_error + kms_config" where
  "config_from_env var =
     res_bind (ok_or (Unconfigured ''ENCLAVE_KMS_CRYPTO_KEY is not set'') (var ''ENCLAVE_KMS_CRYPTO_KEY'')) (\<lambda>crypto_key_name.
     res_bind (ok_or (Unconfigured ''ENCLAVE_WIP_AUDIENCE is not set'') (var ''ENCLAVE_WIP_AUDIENCE'')) (\<lambda>wip_audience.
     Ok \<lparr>kc_crypto_key_name = crypto_key_name, kc_wip_audience = wip_audience,
       kc_kms_base_url = or_default (var ''ENCLAVE_KMS_BASE_URL'') KMS_BASE_URL,
       kc_sts_token_url = or_default (var ''ENCLAVE_STS_TOKEN_URL'') STS_TOKEN_URL,
       kc_timeout = 10000000000\<rparr>))"

section \<open>Requests\<close>

text \<open>
  Building a POST request from a URL, headers and a body; sending it within a time, and reading
  the response body within a time (\<open>None\<close>: the time ran out).
\<close>

record ('req, 'body) http_client =
  hc_request :: "string \<Rightarrow> (string \<times> string) list \<Rightarrow> string \<Rightarrow> string + 'req"
  hc_send :: "'req \<Rightarrow> nat \<Rightarrow> (string + (nat \<times> 'body)) option"
  hc_read :: "'body \<Rightarrow> nat \<Rightarrow> (string + string) option"

type_synonym sent = "string \<times> string option \<times> string"

definition post_json :: "('req, 'body) http_client \<Rightarrow> string \<Rightarrow> string option \<Rightarrow> string \<Rightarrow> nat
    \<Rightarrow> sent list \<Rightarrow> (kms_error + (nat \<times> string)) \<times> sent list" where
  "post_json hc url bearer body timeout trace =
     (let headers = (''content-type'', ''application/json'')
            # (case bearer of Some tok \<Rightarrow> [(''authorization'', ''Bearer '' @ tok)] | None \<Rightarrow> [])
      in case hc_request hc url headers body of
           Inl e \<Rightarrow> (Err (Transport e), trace)
         | Inr req \<Rightarrow>
             (res_bind (case hc_send hc req timeout of None \<Rightarrow> Err (Transport ''request timed out'')
                | Some r \<Rightarrow> map_err Transport r) (\<lambda>(status, resp_body).
              res_bind (case hc_read hc resp_body timeout of None \<Rightarrow> Err (Transport ''response read timed out'')
                | Some r \<Rightarrow> map_err Transport r) (\<lambda>bytes.
              Ok (status, utf8_lossy bytes))), trace @ [(url, bearer, body)]))"

section \<open>JSON fields\<close>

definition dq :: "string \<Rightarrow> string" where
  "dq s = CHR 0x22 # s @ [CHR 0x22]"

definition json_str_field :: "string \<Rightarrow> string \<Rightarrow> string option" where
  "json_str_field body key =
     (let needle = dq key @ '':'' in
      case str_find needle body of
        None \<Rightarrow> None
      | Some idx \<Rightarrow>
          let rest = trim_start (drop (idx + length needle) body) in
          case rest of
            [] \<Rightarrow> None
          | c # v \<Rightarrow> if c = CHR 0x22 then map_option (\<lambda>n. take n v) (str_find [CHR 0x22] v) else None)"

section \<open>The client\<close>

definition exchange_body :: "kms_config \<Rightarrow> string \<Rightarrow> string" where
  "exchange_body config eat_token =
     ''{'' @ dq ''audience'' @ '':'' @ dq (kc_wip_audience config)
     @ '','' @ dq ''grantType'' @ '':'' @ dq ''urn:ietf:params:oauth:grant-type:token-exchange''
     @ '','' @ dq ''requestedTokenType'' @ '':'' @ dq ''urn:ietf:params:oauth:token-type:access_token''
     @ '','' @ dq ''scope'' @ '':'' @ dq ''https://www.googleapis.com/auth/cloudkms''
     @ '','' @ dq ''subjectTokenType'' @ '':'' @ dq ''urn:ietf:params:oauth:token-type:jwt''
     @ '','' @ dq ''subjectToken'' @ '':'' @ dq eat_token @ ''}''"

definition exchange_eat_for_access_token :: "('req, 'body) http_client \<Rightarrow> kms_config \<Rightarrow> string
    \<Rightarrow> sent list \<Rightarrow> (kms_error + string) \<times> sent list" where
  "exchange_eat_for_access_token hc config eat_token trace =
     (if is_blank eat_token then (Err MissingEat, trace)
      else case post_json hc (kc_sts_token_url config) None (exchange_body config eat_token) (kc_timeout config) trace of
        (r, trace) \<Rightarrow>
          (res_bind r (\<lambda>(status, text).
             if status \<noteq> 200 then Err (HttpStatus status text)
             else ok_or MissingToken (json_str_field text ''access_token'')), trace))"

definition decrypt_url :: "kms_config \<Rightarrow> string" where
  "decrypt_url config = trim_end_matches (CHR ''/'') (kc_kms_base_url config) @ ''/v1/'' @ kc_crypto_key_name config @ '':decrypt''"

definition decrypt_key_shard :: "('req, 'body) http_client \<Rightarrow> (string \<Rightarrow> string + bytes) \<Rightarrow> kms_config \<Rightarrow> string \<Rightarrow> string
    \<Rightarrow> sent list \<Rightarrow> (kms_error + bytes) \<times> sent list" where
  "decrypt_key_shard hc base64 config access_token shard_ciphertext_b64 trace =
     (case post_json hc (decrypt_url config) (Some access_token) (''{'' @ dq ''ciphertext'' @ '':'' @ dq shard_ciphertext_b64 @ ''}'')
         (kc_timeout config) trace of
        (r, trace) \<Rightarrow>
          (res_bind r (\<lambda>(status, text).
             if status \<noteq> 200 then Err (HttpStatus status text)
             else res_bind (ok_or (ParseError ''no plaintext field in decrypt response'') (json_str_field text ''plaintext'')) (\<lambda>b64.
               map_err (\<lambda>e. ParseError (''plaintext is not valid base64: '' @ e)) (base64 b64))), trace))"

definition release_enclave_shard :: "('req, 'body) http_client \<Rightarrow> (string \<Rightarrow> string + bytes) \<Rightarrow> kms_config \<Rightarrow> string \<Rightarrow> string
    \<Rightarrow> sent list \<Rightarrow> (kms_error + bytes) \<times> sent list" where
  "release_enclave_shard hc base64 config eat_token shard_ciphertext_b64 trace =
     (case exchange_eat_for_access_token hc config eat_token trace of
        (Inl e, trace) \<Rightarrow> (Err e, trace)
      | (Inr access_token, trace) \<Rightarrow> decrypt_key_shard hc base64 config access_token shard_ciphertext_b64 trace)"

section \<open>Searching a rendered object\<close>

lemma str_find_skip: "(\<And>i. i < length s \<Longrightarrow> take (length needle) (drop i (s @ t)) \<noteq> needle) \<Longrightarrow>
    str_find needle (s @ t) = map_option ((+) (length s)) (str_find needle t)"
proof (induction s)
  case Nil
  show ?case by (cases "str_find needle t") simp_all
next
  case (Cons c s)
  have "take (length needle) (c # s @ t) \<noteq> needle" using Cons.prems [of 0] by simp
  moreover have "str_find needle (s @ t) = map_option ((+) (length s)) (str_find needle t)"
    using Cons.prems [of "Suc _"] by (intro Cons.IH) simp
  ultimately show ?case by (simp add: option.map_comp comp_def)
qed

text \<open>A text that starts with a quote is not found in text without quotes.\<close>

lemma str_find_skip_plain: "CHR 0x22 \<notin> set s \<Longrightarrow> str_find (CHR 0x22 # needle) (s @ t)
    = map_option ((+) (length s)) (str_find (CHR 0x22 # needle) t)"
proof (rule str_find_skip)
  fix i assume q: "CHR 0x22 \<notin> set s" and i: "i < length s"
  then have "drop i (s @ t) = s ! i # drop (Suc i) (s @ t)"
    by (simp add: Cons_nth_drop_Suc)
  moreover have "s ! i \<noteq> CHR 0x22" using q i by (metis nth_mem)
  ultimately show "take (length (CHR 0x22 # needle)) (drop i (s @ t)) \<noteq> CHR 0x22 # needle" by simp
qed

lemma str_find_skip_quote: "take (length needle) t \<noteq> needle \<Longrightarrow> str_find (CHR 0x22 # needle) (CHR 0x22 # t)
    = map_option Suc (str_find (CHR 0x22 # needle) t)"
  by simp

text \<open>What follows the first occurrence.\<close>

definition after_first :: "string \<Rightarrow> string \<Rightarrow> string option" where
  "after_first needle body = map_option (\<lambda>i. drop (i + length needle) body) (str_find needle body)"

lemma after_first_skip: "str_find needle (s @ t) = map_option ((+) (length s)) (str_find needle t) \<Longrightarrow>
    after_first needle (s @ t) = after_first needle t"
  by (cases "str_find needle t") (simp_all add: after_first_def)

lemma after_first_plain: "CHR 0x22 \<notin> set s \<Longrightarrow> after_first (CHR 0x22 # needle) (s @ t) = after_first (CHR 0x22 # needle) t"
  by (rule after_first_skip [OF str_find_skip_plain])

lemma after_first_quote: "take (length needle) t \<noteq> needle \<Longrightarrow>
    after_first (CHR 0x22 # needle) (CHR 0x22 # t) = after_first (CHR 0x22 # needle) t"
  using after_first_skip [of "CHR 0x22 # needle" "[CHR 0x22]" t] by (cases "str_find (CHR 0x22 # needle) t") simp_all

lemma after_first_here: "after_first needle (needle @ t) = Some t"
proof (cases "needle @ t")
  case (Cons c s)
  have "take (length needle) (needle @ t) = needle" by simp
  then have "str_find needle (needle @ t) = Some 0" using Cons by simp
  then show ?thesis by (simp add: after_first_def)
qed (simp add: after_first_def)

fun parse_str_value :: "string \<Rightarrow> string option" where
  "parse_str_value [] = None"
| "parse_str_value (c # v) = (if c = CHR 0x22 then map_option (\<lambda>n. take n v) (str_find [CHR 0x22] v) else None)"

lemma json_str_field_eq: "json_str_field body key =
    Option.bind (after_first (dq key @ '':'') body) (\<lambda>rest. parse_str_value (trim_start rest))"
proof -
  have "parse_str_value r = (case r of [] \<Rightarrow> None
      | c # v \<Rightarrow> if c = CHR 0x22 then map_option (\<lambda>n. take n v) (str_find [CHR 0x22] v) else None)" for r
    by (cases r) simp_all
  then show ?thesis
    by (cases "str_find (dq key @ '':'') body") (simp_all add: json_str_field_def after_first_def Let_def)
qed

section \<open>Flat objects\<close>

text \<open>
  A flat JSON object as the services send it: keys and text values without quotation marks,
  spaces after the colon, and other values (numbers, booleans) that start with a visible
  character.
\<close>

datatype json_value = JText string | JRaw string

type_synonym json_fields = "(string \<times> string \<times> json_value) list"

fun render_value :: "json_value \<Rightarrow> string" where
  "render_value (JText s) = dq s"
| "render_value (JRaw s) = s"

fun render_fields :: "json_fields \<Rightarrow> string" where
  "render_fields [] = ''}''"
| "render_fields ((k, pad, v) # fs) = dq k @ '':'' @ pad @ render_value v @ (if fs = [] then '''' else '','') @ render_fields fs"

definition render_object :: "json_fields \<Rightarrow> string" where
  "render_object fs = ''{'' @ render_fields fs"

definition visible :: "char \<Rightarrow> bool" where
  "visible c \<longleftrightarrow> 33 \<le> (of_char c :: nat) \<and> (of_char c :: nat) < 127 \<and> c \<noteq> CHR 0x22"

fun value_ok :: "json_value \<Rightarrow> bool" where
  "value_ok (JText s) = (CHR 0x22 \<notin> set s)"
| "value_ok (JRaw s) = (CHR 0x22 \<notin> set s \<and> s \<noteq> [] \<and> visible (hd s))"

definition fields_ok :: "json_fields \<Rightarrow> bool" where
  "fields_ok fs \<longleftrightarrow> (\<forall>(k, pad, v)\<in>set fs. CHR 0x22 \<notin> set k \<and> set pad \<subseteq> {CHR '' ''} \<and> value_ok v)"

text \<open>A field name: not empty, without quotation marks and separators.\<close>

definition name_ok :: "string \<Rightarrow> bool" where
  "name_ok key \<longleftrightarrow> key \<noteq> [] \<and> set key \<inter> {CHR 0x22, CHR '':'', CHR '','', CHR ''}''} = {}"

fun field_text :: "json_value option \<Rightarrow> string option" where
  "field_text (Some (JText s)) = Some s"
| "field_text _ = None"

lemma trim_pad: "set pad \<subseteq> {CHR '' ''} \<Longrightarrow> trim_start (pad @ s) = trim_start s"
proof (induction pad)
  case (Cons c pad)
  then have "c = CHR '' ''" by simp
  then have "trim_start ((c # pad) @ s) = trim_start (pad @ s)" by (subst trim_start.simps) simp
  with Cons show ?case by simp
qed simp

lemma trim_visible: "33 \<le> (of_char c :: nat) \<Longrightarrow> (of_char c :: nat) < 127 \<Longrightarrow> trim_start (c # s) = c # s"
  by (subst trim_start.simps) (auto simp: ws_len_def ws2_def ws3_def split: list.splits)

lemma str_find_quote: "CHR 0x22 \<notin> set s \<Longrightarrow> str_find [CHR 0x22] (s @ CHR 0x22 # t) = Some (length s)"
  using str_find_skip_plain [of s "[]" "CHR 0x22 # t"] by simp

lemma quoted_prefix:
  assumes "CHR 0x22 \<notin> set k" "CHR 0x22 \<notin> set key" "take (length (key @ CHR 0x22 # u)) (k @ CHR 0x22 # t) = key @ CHR 0x22 # u"
  shows "k = key \<and> take (length u) t = u"
proof -
  from assms(3) obtain r where "k @ CHR 0x22 # t = (key @ CHR 0x22 # u) @ r" by (metis append_take_drop_id)
  then have e: "k @ CHR 0x22 # t = key @ CHR 0x22 # (u @ r)" by simp
  have "takeWhile (\<lambda>c. c \<noteq> CHR 0x22) (k @ CHR 0x22 # t) = k" "takeWhile (\<lambda>c. c \<noteq> CHR 0x22) (key @ CHR 0x22 # (u @ r)) = key"
    using assms(1,2) by (auto simp: takeWhile_append)
  with e have "k = key" by simp
  with e show ?thesis by simp
qed

text \<open>One field that is not the one searched for is passed over.\<close>

lemma after_first_field:
  assumes "name_ok key" "CHR 0x22 \<notin> set k" "k \<noteq> key" "set pad \<subseteq> {CHR '' ''}" "value_ok v" "sep = CHR '','' \<or> sep = CHR ''}''"
  shows "after_first (dq key @ '':'') (dq k @ '':'' @ pad @ render_value v @ sep # t) = after_first (dq key @ '':'') (sep # t)"
proof -
  let ?n = "key @ CHR 0x22 # '':''"
  have n: "dq key @ '':'' = CHR 0x22 # ?n" by (simp add: dq_def)
  have key: "CHR 0x22 \<notin> set key" "key \<noteq> []" "hd key \<noteq> CHR '':''" "hd key \<noteq> CHR '',''" "hd key \<noteq> CHR ''}''"
    using assms(1) by (auto simp: name_ok_def dest: hd_in_set)
  have closing: "take (length ?n) (c # u) \<noteq> ?n" if "hd key \<noteq> c" for c u
    using that key(2) by (cases key) auto
  have past: "after_first (CHR 0x22 # ?n) (render_value v @ sep # t) = after_first (CHR 0x22 # ?n) (sep # t)"
  proof (cases v)
    case (JText s)
    then have s: "CHR 0x22 \<notin> set s" using assms(5) by simp
    have o: "take (length ?n) (s @ CHR 0x22 # sep # t) \<noteq> ?n"
      using quoted_prefix [OF s key(1), of "'':''" "sep # t"] assms(6) by auto
    have "after_first (CHR 0x22 # ?n) (render_value v @ sep # t) = after_first (CHR 0x22 # ?n) (CHR 0x22 # sep # t)"
      using JText after_first_quote [OF o] after_first_plain [OF s, of ?n "CHR 0x22 # sep # t"] by (simp add: dq_def)
    also have "\<dots> = after_first (CHR 0x22 # ?n) (sep # t)"
      using closing [of sep t] key(4,5) assms(6) by (intro after_first_quote) auto
    finally show ?thesis .
  next
    case (JRaw s)
    then show ?thesis using assms(5) by (simp add: after_first_plain)
  qed
  have "CHR 0x22 \<notin> set ('':'' @ pad)" using assms(4) by auto
  from after_first_plain [OF this] have colon: "after_first (CHR 0x22 # ?n) (CHR '':'' # pad @ u) = after_first (CHR 0x22 # ?n) u" for u
    by simp
  have o: "take (length ?n) (k @ CHR 0x22 # CHR '':'' # pad @ render_value v @ sep # t) \<noteq> ?n"
    using quoted_prefix [OF assms(2) key(1), of "'':''"] assms(3) by blast
  have "after_first (CHR 0x22 # ?n) (dq k @ '':'' @ pad @ render_value v @ sep # t)
      = after_first (CHR 0x22 # ?n) (CHR 0x22 # CHR '':'' # pad @ render_value v @ sep # t)"
    using after_first_quote [OF o] after_first_plain [OF assms(2), of ?n "CHR 0x22 # CHR '':'' # pad @ render_value v @ sep # t"]
    by (simp add: dq_def)
  also have "\<dots> = after_first (CHR 0x22 # ?n) (CHR '':'' # pad @ render_value v @ sep # t)"
    by (rule after_first_quote [OF closing [OF key(3)]])
  also have "\<dots> = after_first (CHR 0x22 # ?n) (sep # t)" by (simp only: colon past)
  finally show ?thesis unfolding n .
qed

lemma json_str_field_fields:
  assumes "name_ok key"
  shows "fields_ok fs \<Longrightarrow> json_str_field (render_fields fs) key = field_text (map_of (map (\<lambda>(k, pad, v). (k, v)) fs) key)"
proof (induction fs)
  case Nil
  have "str_find (dq key @ '':'') ''}'' = None" by (simp add: dq_def)
  then show ?case by (simp add: json_str_field_eq after_first_def)
next
  case (Cons f fs)
  obtain k pad v where f: "f = (k, pad, v)" by (cases f)
  have ok: "CHR 0x22 \<notin> set k" "set pad \<subseteq> {CHR '' ''}" "value_ok v" "fields_ok fs"
    using Cons.prems by (auto simp: fields_ok_def f)
  obtain sep t where t: "(if fs = [] then '''' else '','') @ render_fields fs = sep # t" "sep = CHR '','' \<or> sep = CHR ''}''"
    "after_first (dq key @ '':'') (sep # t) = after_first (dq key @ '':'') (render_fields fs)"
  proof (cases "fs = []")
    case False
    have "after_first (dq key @ '':'') ('','' @ render_fields fs) = after_first (dq key @ '':'') (render_fields fs)"
      using after_first_plain [of "'',''" "key @ CHR 0x22 # '':''" "render_fields fs"] by (simp add: dq_def)
    with False show thesis using that [of "CHR '',''" "render_fields fs"] by simp
  qed (use that [of "CHR ''}''" "[]"] in simp)
  have r: "render_fields (f # fs) = dq k @ '':'' @ pad @ render_value v @ sep # t"
    unfolding f render_fields.simps t(1) ..
  show ?case
  proof (cases "k = key")
    case False
    have "json_str_field (render_fields (f # fs)) key = json_str_field (render_fields fs) key"
      unfolding json_str_field_eq r after_first_field [OF assms ok(1) False ok(2,3) t(2)] t(3) ..
    then show ?thesis using Cons.IH [OF ok(4)] False by (simp add: f)
  next
    case True
    have a: "after_first (dq key @ '':'') (render_fields (f # fs)) = Some (pad @ render_value v @ sep # t)"
      unfolding r True using after_first_here [of "dq key @ '':''"] by simp
    have j: "json_str_field (render_fields (f # fs)) key = parse_str_value (trim_start (pad @ render_value v @ sep # t))"
      unfolding json_str_field_eq a by simp
    show ?thesis
    proof (cases v)
      case (JText s)
      then have "parse_str_value (trim_start (pad @ render_value v @ sep # t)) = Some s"
        using ok(2,3) by (simp add: trim_pad dq_def trim_visible str_find_quote)
      with j show ?thesis using True JText by (simp only: f) simp
    next
      case (JRaw s)
      then obtain c s' where c: "s = c # s'" "visible c" using ok(3) by (cases s) auto
      then have "parse_str_value (trim_start (pad @ render_value v @ sep # t)) = None"
        using ok(2) JRaw by (simp add: trim_pad trim_visible visible_def)
      with j show ?thesis using True JRaw by (simp only: f) simp
    qed
  qed
qed

section \<open>Requests sent\<close>

lemma post_json_cases: "post_json hc url bearer body timeout trace = (r, trace') \<Longrightarrow>
    trace' = trace @ [(url, bearer, body)] \<or> trace' = trace \<and> (\<exists>e. r = Err (Transport e))"
  by (auto simp: post_json_def Let_def split: sum.splits)

definition sts_request :: "kms_config \<Rightarrow> string \<Rightarrow> sent" where
  "sts_request config eat = (kc_sts_token_url config, None, exchange_body config eat)"

definition kms_request :: "kms_config \<Rightarrow> string \<Rightarrow> string \<Rightarrow> sent" where
  "kms_request config tok ciphertext = (decrypt_url config, Some tok, ''{'' @ dq ''ciphertext'' @ '':'' @ dq ciphertext @ ''}'')"

definition post :: "('req, 'body) http_client \<Rightarrow> kms_config \<Rightarrow> sent \<Rightarrow> kms_error + (nat \<times> string)" where
  "post hc config req = (case req of (url, bearer, body) \<Rightarrow> fst (post_json hc url bearer body (kc_timeout config) []))"

lemma post_json_fst: "fst (post_json hc url bearer body timeout trace) = fst (post_json hc url bearer body timeout [])"
  by (simp add: post_json_def Let_def split: sum.split)

lemma exchange_cases:
  assumes "exchange_eat_for_access_token hc config eat trace = (r, trace')"
  shows "is_blank eat \<and> r = Err MissingEat \<and> trace' = trace
    \<or> \<not> is_blank eat \<and> (trace' = trace @ [sts_request config eat] \<or> trace' = trace \<and> (\<exists>e. r = Err e))
      \<and> (\<forall>tok. r = Ok tok \<longrightarrow> trace' = trace @ [sts_request config eat]
           \<and> (\<exists>text. post hc config (sts_request config eat) = Ok (200, text) \<and> json_str_field text ''access_token'' = Some tok))"
proof (cases "is_blank eat")
  case False
  obtain p trace1 where p: "post_json hc (kc_sts_token_url config) None (exchange_body config eat) (kc_timeout config) trace = (p, trace1)"
    by fastforce
  have post: "post hc config (sts_request config eat) = p"
    using p post_json_fst [of hc "kc_sts_token_url config" None "exchange_body config eat" "kc_timeout config" trace]
    by (simp add: post_def sts_request_def)
  show ?thesis
    using assms False p post_json_cases [OF p]
    by (auto simp: exchange_eat_for_access_token_def post [unfolded sts_request_def] sts_request_def res_simps split: if_splits)
qed (use assms in \<open>simp add: exchange_eat_for_access_token_def\<close>)

lemma decrypt_cases:
  assumes "decrypt_key_shard hc base64 config tok ciphertext trace = (r, trace')"
  shows "(trace' = trace @ [kms_request config tok ciphertext] \<or> trace' = trace \<and> (\<exists>e. r = Err e))
    \<and> (\<forall>shard. r = Ok shard \<longrightarrow> trace' = trace @ [kms_request config tok ciphertext]
         \<and> (\<exists>text b64. post hc config (kms_request config tok ciphertext) = Ok (200, text)
              \<and> json_str_field text ''plaintext'' = Some b64 \<and> base64 b64 = Ok shard))"
proof -
  let ?body = "''{'' @ dq ''ciphertext'' @ '':'' @ dq ciphertext @ ''}''"
  obtain p trace1 where p: "post_json hc (decrypt_url config) (Some tok) ?body (kc_timeout config) trace = (p, trace1)"
    by fastforce
  have post: "post hc config (kms_request config tok ciphertext) = p"
    using p post_json_fst [of hc "decrypt_url config" "Some tok" ?body "kc_timeout config" trace]
    by (simp add: post_def kms_request_def)
  show ?thesis
    using assms p post_json_cases [OF p]
    by (auto simp: decrypt_key_shard_def post [unfolded kms_request_def append_Cons append_Nil] kms_request_def res_simps split: if_splits)
qed

text \<open>An escaped quotation mark ends the value: the extraction knows no escapes.\<close>

lemma json_escape_truncates:
  "json_str_field (''{'' @ dq ''plaintext'' @ '':'' @ CHR 0x22 # ''ab'' @ [CHR 0x5C, CHR 0x22] @ ''cd'' @ [CHR 0x22, CHR ''}'']) ''plaintext''
    = Some (''ab'' @ [CHR 0x5C])"
  by code_simp

section \<open>A service that meets the assumptions\<close>

definition w_config :: kms_config where
  "w_config = \<lparr>kc_crypto_key_name = ''key'', kc_wip_audience = ''aud'', kc_kms_base_url = ''http://kms/'',
     kc_sts_token_url = ''http://sts'', kc_timeout = 1\<rparr>"

definition w_fields :: json_fields where
  "w_fields = [(''expires_in'', '' '', JRaw ''3600''), (''access_token'', '' '', JText ''tok''), (''plaintext'', '''', JText ''AQ=='')]"

definition w_http :: "(string, string) http_client" where
  "w_http = \<lparr>hc_request = (\<lambda>url headers body. Ok url), hc_send = (\<lambda>req t. Some (Ok (200, render_object w_fields))),
     hc_read = (\<lambda>body t. Some (Ok body))\<rparr>"

section \<open>Properties\<close>

text \<open>On the flat objects the services answer with, the extraction gives exactly the field: the text
  of the first field with that name, and nothing when there is none or its value is not a
  text, however the other fields' names and texts relate to it.\<close>

lemma json_str_field_exact:
  assumes "name_ok key" "fields_ok fs"
  shows "json_str_field (render_object fs) key = field_text (map_of (map (\<lambda>(k, pad, v). (k, v)) fs) key)"
proof -
  have "after_first (dq key @ '':'') (render_object fs) = after_first (dq key @ '':'') (render_fields fs)"
    using after_first_plain [of "''{''" "key @ CHR 0x22 # '':''" "render_fields fs"] by (simp add: dq_def render_object_def)
  then have "json_str_field (render_object fs) key = json_str_field (render_fields fs) key"
    by (simp only: json_str_field_eq)
  with json_str_field_fields [OF assms] show ?thesis by simp
qed

lemma json_str_field_exact_witness:
  "json_str_field (render_object w_fields) ''access_token'' = Some ''tok''
    \<and> json_str_field (render_object w_fields) ''expires_in'' = None"
proof -
  have "name_ok ''access_token''" "name_ok ''expires_in''" "fields_ok w_fields"
    by (simp_all add: name_ok_def fields_ok_def w_fields_def visible_def)
  from json_str_field_exact [OF this(1,3)] json_str_field_exact [OF this(2,3)] show ?thesis by (simp add: w_fields_def)
qed

text \<open>C15: the release of the key shard fails closed: at most two requests leave the client, the exchange and then the
  decryption, with the access token going nowhere but to the decryption endpoint and only as
  the exchange returned it; a shard comes out only when both answered 200 with their field and
  the plaintext decodes; a blank token sends nothing.\<close>

theorem release_fail_closed:
  assumes "release_enclave_shard hc base64 config eat ciphertext [] = (result, trace)"
  shows "(is_blank eat \<longrightarrow> result = Err MissingEat \<and> trace = [])
    \<and> (trace = [] \<or> trace = [sts_request config eat]
       \<or> (\<exists>tok text. trace = [sts_request config eat, kms_request config tok ciphertext]
           \<and> post hc config (sts_request config eat) = Ok (200, text) \<and> json_str_field text ''access_token'' = Some tok))
    \<and> (\<forall>shard. result = Ok shard \<longrightarrow> (\<exists>tok b64 text text'.
         trace = [sts_request config eat, kms_request config tok ciphertext]
         \<and> post hc config (sts_request config eat) = Ok (200, text) \<and> json_str_field text ''access_token'' = Some tok
         \<and> post hc config (kms_request config tok ciphertext) = Ok (200, text') \<and> json_str_field text' ''plaintext'' = Some b64
         \<and> base64 b64 = Ok shard))"
proof -
  obtain r trace1 where e: "exchange_eat_for_access_token hc config eat [] = (r, trace1)" by fastforce
  note x = exchange_cases [OF e]
  show ?thesis
  proof (cases r)
    case (Inl err)
    then have "result = Err err" "trace = trace1" using assms e by (simp_all add: release_enclave_shard_def)
    with x Inl show ?thesis by auto
  next
    case (Inr tok)
    then have d: "decrypt_key_shard hc base64 config tok ciphertext trace1 = (result, trace)"
      using assms e by (simp add: release_enclave_shard_def)
    from x Inr obtain body where t: "\<not> is_blank eat" "trace1 = [sts_request config eat]"
      "post hc config (sts_request config eat) = Ok (200, body)" "json_str_field body ''access_token'' = Some tok" by auto
    have "trace = [sts_request config eat, kms_request config tok ciphertext] \<or> trace = [sts_request config eat]"
      using decrypt_cases [OF d] t(2) by auto
    moreover have "\<exists>tok b64 text text'. trace = [sts_request config eat, kms_request config tok ciphertext]
         \<and> post hc config (sts_request config eat) = Ok (200, text) \<and> json_str_field text ''access_token'' = Some tok
         \<and> post hc config (kms_request config tok ciphertext) = Ok (200, text') \<and> json_str_field text' ''plaintext'' = Some b64
         \<and> base64 b64 = Ok shard" if "result = Ok shard" for shard
    proof -
      from conjunct2 [OF decrypt_cases [OF d], rule_format, OF that] t(2) obtain body' b64
        where "trace = [sts_request config eat, kms_request config tok ciphertext]"
          "post hc config (kms_request config tok ciphertext) = Ok (200, body')" "json_str_field body' ''plaintext'' = Some b64"
          "base64 b64 = Ok shard" by auto
      with t(3,4) show ?thesis by blast
    qed
    ultimately show ?thesis using t by blast
  qed
qed

theorem release_fail_closed_witness:
  "\<exists>trace. release_enclave_shard w_http (\<lambda>s. Ok [1]) w_config ''eat'' ''ct'' [] = (Ok [1], trace)
    \<and> trace = [sts_request w_config ''eat'', (''http://kms/v1/key:decrypt'', Some ''tok'', ''{'' @ dq ''ciphertext'' @ '':'' @ dq ''ct'' @ ''}'')]"
proof -
  have f: "json_str_field (render_object w_fields) ''access_token'' = Some ''tok''"
    "json_str_field (render_object w_fields) ''plaintext'' = Some ''AQ==''" "utf8_lossy (render_object w_fields) = render_object w_fields"
    by code_simp+
  have nb: "\<not> is_blank ''eat''" unfolding is_blank_words split_whitespace_def by code_simp
  obtain trace where r: "release_enclave_shard w_http (\<lambda>s. Ok [1]) w_config ''eat'' ''ct'' [] = (Ok [1], trace)"
    by (simp add: release_enclave_shard_def exchange_eat_for_access_token_def decrypt_key_shard_def post_json_def w_http_def
        nb f Let_def)
  from release_fail_closed [OF r] obtain tok body where t: "trace = [sts_request w_config ''eat'', kms_request w_config tok ''ct'']"
    "post w_http w_config (sts_request w_config ''eat'') = Ok (200, body)" "json_str_field body ''access_token'' = Some tok" by auto
  have "body = render_object w_fields" using t(2) by (simp add: post_def sts_request_def post_json_def w_http_def Let_def f)
  with t f have "tok = ''tok''" by simp
  moreover have "decrypt_url w_config = ''http://kms/v1/key:decrypt''" by code_simp
  ultimately show ?thesis using r t(1) by (simp add: kms_request_def)
qed

end
