(* ===== verification/TeeDevice.thy ===== *)
theory TeeDevice
  imports Prelude
begin

text \<open>
  \<open>attestation/tdx.rs\<close> and \<open>attestation/sev_snp.rs\<close>: the requests made to the two guest devices, the
  ioctl numbers, and how every failure becomes a typed error. The operating system is a
  parameter: opening a device, and an ioctl, which returns a code and the memory of the
  request as the kernel left it.
\<close>

definition TDX_REPORTDATA_LEN :: nat where "TDX_REPORTDATA_LEN = 64"
definition TDX_REPORT_LEN :: nat where "TDX_REPORT_LEN = 1024"
definition SNP_USER_DATA_SIZE :: nat where "SNP_USER_DATA_SIZE = 64"
definition SNP_RESP_DATA_LEN :: nat where "SNP_RESP_DATA_LEN = 4000"

text \<open>\<open>_IOWR(type, nr, size)\<close>.\<close>

definition iowr :: "u8 \<Rightarrow> u64 \<Rightarrow> nat \<Rightarrow> u64" where
  "iowr ty nr sz = push_bit 30 3 OR push_bit 8 (ucast ty) OR nr OR push_bit 16 (word_of_nat sz)"

definition TDX_CMD_GET_REPORT0 :: u64 where
  "TDX_CMD_GET_REPORT0 = push_bit 30 3 OR push_bit 8 84 OR 1 OR push_bit 16 (word_of_nat (TDX_REPORTDATA_LEN + TDX_REPORT_LEN))"

definition SNP_GET_EXT_REPORT :: u64 where
  "SNP_GET_EXT_REPORT = iowr 83 2 32"

section \<open>Requests\<close>

record tdx_report_req =
  td_reportdata :: bytes
  td_tdreport :: bytes

record snp_report_req =
  snp_user_data :: bytes
  snp_vmpl :: u32
  snp_rsvd :: bytes

record snp_ext_report_req =
  ext_data :: snp_report_req
  ext_certs_address :: u64
  ext_certs_len :: u32
  ext_pad :: u32

record snp_guest_request_ioctl =
  io_msg_version :: u8
  io_pad :: bytes
  io_req_data :: u64
  io_resp_data :: u64
  io_exitinfo2 :: u64

definition tdx_report_req_default :: tdx_report_req where
  "tdx_report_req_default = \<lparr>td_reportdata = replicate TDX_REPORTDATA_LEN 0, td_tdreport = replicate TDX_REPORT_LEN 0\<rparr>"

definition snp_report_req_default :: snp_report_req where
  "snp_report_req_default = \<lparr>snp_user_data = replicate SNP_USER_DATA_SIZE 0, snp_vmpl = 0, snp_rsvd = replicate 28 0\<rparr>"

definition snp_report_resp_default :: bytes where
  "snp_report_resp_default = replicate SNP_RESP_DATA_LEN 0"

definition snp_guest_request_default :: snp_guest_request_ioctl where
  "snp_guest_request_default = \<lparr>io_msg_version = 1, io_pad = replicate 7 0, io_req_data = 0, io_resp_data = 0, io_exitinfo2 = 0\<rparr>"

definition snp_ext_report_req_default :: snp_ext_report_req where
  "snp_ext_report_req_default = \<lparr>ext_data = snp_report_req_default, ext_certs_address = 0, ext_certs_len = 0, ext_pad = 0\<rparr>"

section \<open>Errors\<close>

datatype tee_error = DeviceNotFound | OpenError string | IoctlError string | Firmware u32 | UnsupportedPlatform string

fun tee_error_display :: "tee_error \<Rightarrow> string" where
  "tee_error_display DeviceNotFound =
     ''no TEE device (/dev/tdx-guest) '' @ [char_of (226 :: nat), char_of (128 :: nat), char_of (148 :: nat)]
     @ '' not running inside an Intel TDX guest''"
| "tee_error_display (OpenError e) = ''failed to open /dev/tdx-guest: '' @ e"
| "tee_error_display (IoctlError e) = ''TDX_CMD_GET_REPORT0 ioctl failed: '' @ e"
| "tee_error_display (Firmware code) = ''SEV-SNP firmware error: '' @ show_nat (unat code) @ '' (see psp-sev.h)''"
| "tee_error_display (UnsupportedPlatform os) =
     ''TDX attestation unavailable on this platform ('' @ os @ ''); requires Linux + /dev/tdx-guest''"

datatype sev_error = SevDeviceNotFound | SevOpen string | SevIoctl string | SevFirmware u32 | SevUnsupported string

fun sev_error_display :: "sev_error \<Rightarrow> string" where
  "sev_error_display SevDeviceNotFound =
     ''no TEE device (/dev/sev-guest) '' @ [char_of (226 :: nat), char_of (128 :: nat), char_of (148 :: nat)]
     @ '' not running inside an AMD SEV-SNP guest''"
| "sev_error_display (SevOpen e) = ''failed to open /dev/sev-guest: '' @ e"
| "sev_error_display (SevIoctl e) = ''SNP_GET_EXT_REPORT ioctl failed: '' @ e"
| "sev_error_display (SevFirmware code) = ''SEV-SNP firmware error: '' @ show_nat (unat code) @ '' (see psp-sev.h)''"
| "sev_error_display (SevUnsupported os) =
     ''SEV-SNP attestation unavailable on this platform ('' @ os @ ''); requires Linux + /dev/sev-guest''"

fun tee_of_sev :: "sev_error \<Rightarrow> tee_error" where
  "tee_of_sev SevDeviceNotFound = DeviceNotFound"
| "tee_of_sev (SevOpen err) = OpenError err"
| "tee_of_sev (SevIoctl err) = IoctlError err"
| "tee_of_sev (SevFirmware code) = Firmware code"
| "tee_of_sev (SevUnsupported os) = UnsupportedPlatform os"

section \<open>The devices\<close>

text \<open>
  The kernel: the result of opening a path (\<open>Inl\<close> tells whether the error kind is \<open>NotFound\<close>, and
  the text of the error), the two ioctls, the text of the last error, and the addresses of
  the buffers. An ioctl on the SEV device sees the four objects its pointers reach.
\<close>

record snp_memory =
  mem_ioctl :: snp_guest_request_ioctl
  mem_req :: snp_ext_report_req
  mem_resp :: bytes
  mem_certs :: bytes

record kernel =
  kn_linux :: bool
  kn_os :: string
  kn_open :: "string \<Rightarrow> (bool \<times> string) + unit"
  kn_tdx_ioctl :: "u64 \<Rightarrow> tdx_report_req \<Rightarrow> int \<times> tdx_report_req"
  kn_snp_ioctl :: "u64 \<Rightarrow> snp_memory \<Rightarrow> int \<times> snp_memory"
  kn_last_error :: string
  kn_address :: "nat \<Rightarrow> u64"

definition get_tdreport :: "kernel \<Rightarrow> bytes \<Rightarrow> tee_error + bytes" where
  "get_tdreport kn reportdata =
     (if \<not> kn_linux kn then Err (UnsupportedPlatform (kn_os kn))
      else res_bind (map_err (\<lambda>(not_found, e). if not_found then DeviceNotFound else OpenError e)
        (kn_open kn ''/dev/tdx-guest'')) (\<lambda>fd.
        let req = \<lparr>td_reportdata = reportdata, td_tdreport = replicate TDX_REPORT_LEN 0\<rparr>
        in case kn_tdx_ioctl kn TDX_CMD_GET_REPORT0 req of (ret, req) \<Rightarrow>
          if ret \<noteq> 0 then Err (IoctlError (kn_last_error kn)) else Ok (td_tdreport req)))"

definition get_snp_attestation_report :: "kernel \<Rightarrow> bytes \<Rightarrow> bytes \<Rightarrow> sev_error + (bytes \<times> bytes)" where
  "get_snp_attestation_report kn user_data certs =
     (if \<not> kn_linux kn then Err (SevUnsupported (kn_os kn))
      else res_bind (map_err (\<lambda>(not_found, e). if not_found then SevDeviceNotFound else SevOpen e)
        (kn_open kn ''/dev/sev-guest'')) (\<lambda>fd.
        let resp = snp_report_resp_default;
            req = \<lparr>ext_data = \<lparr>snp_user_data = user_data, snp_vmpl = 0, snp_rsvd = replicate 28 0\<rparr>,
              ext_certs_address = kn_address kn 0, ext_certs_len = word_of_nat (length certs), ext_pad = 0\<rparr>;
            ioctl_req = snp_guest_request_default\<lparr>io_msg_version := 1, io_req_data := kn_address kn 1, io_resp_data := kn_address kn 2\<rparr>
        in case kn_snp_ioctl kn SNP_GET_EXT_REPORT \<lparr>mem_ioctl = ioctl_req, mem_req = req, mem_resp = resp, mem_certs = certs\<rparr> of (ret, mem) \<Rightarrow>
          if ret \<noteq> 0
          then let fw_err = ucast (io_exitinfo2 (mem_ioctl mem) AND 0xFFFFFFFF) :: u32
            in if fw_err \<noteq> 0 \<and> fw_err \<noteq> - 1 then Err (SevFirmware fw_err) else Err (SevIoctl (kn_last_error kn))
          else let cert_len = unat (min (ext_certs_len (mem_req mem)) (word_of_nat (length (mem_certs mem))))
            in Ok (mem_resp mem, take cert_len (mem_certs mem))))"

section \<open>What the kernel keeps\<close>

text \<open>The structures have fixed sizes, so an ioctl keeps the length of every buffer.\<close>

definition kernel_ok :: "kernel \<Rightarrow> bool" where
  "kernel_ok kn \<longleftrightarrow>
     (\<forall>cmd req. length (td_tdreport (snd (kn_tdx_ioctl kn cmd req))) = length (td_tdreport req))
     \<and> (\<forall>cmd mem. length (mem_resp (snd (kn_snp_ioctl kn cmd mem))) = length (mem_resp mem)
          \<and> length (mem_certs (snd (kn_snp_ioctl kn cmd mem))) = length (mem_certs mem))"

section \<open>Lemmas\<close>

text \<open>The command numbers are those of the kernel headers.\<close>

lemma command_values: "TDX_CMD_GET_REPORT0 = 0xC4405401" "SNP_GET_EXT_REPORT = 0xC0205302"
  "TDX_CMD_GET_REPORT0 = iowr 84 1 (TDX_REPORTDATA_LEN + TDX_REPORT_LEN)"
  by (simp_all add: TDX_CMD_GET_REPORT0_def SNP_GET_EXT_REPORT_def iowr_def TDX_REPORTDATA_LEN_def TDX_REPORT_LEN_def)

lemma get_tdreport_Ok: "get_tdreport kn rd = Ok report \<longleftrightarrow>
    kn_linux kn \<and> kn_open kn ''/dev/tdx-guest'' = Inr ()
    \<and> (\<exists>req. kn_tdx_ioctl kn TDX_CMD_GET_REPORT0 \<lparr>td_reportdata = rd, td_tdreport = replicate TDX_REPORT_LEN 0\<rparr> = (0, req)
          \<and> report = td_tdreport req)"
  by (auto simp: get_tdreport_def res_simps Let_def split: prod.splits)

lemma get_tdreport_length:
  assumes "kernel_ok kn" "get_tdreport kn rd = Ok report"
  shows "length report = 1024"
proof -
  from assms(2) obtain req where "kn_tdx_ioctl kn TDX_CMD_GET_REPORT0 \<lparr>td_reportdata = rd, td_tdreport = replicate TDX_REPORT_LEN 0\<rparr> = (0, req)"
    "report = td_tdreport req" by (auto simp: get_tdreport_Ok)
  with assms(1) show ?thesis
    unfolding kernel_ok_def by (metis TDX_REPORT_LEN_def length_replicate snd_conv tdx_report_req.select_convs(2))
qed

lemma unat_min_le: "unat (min (a :: u32) (word_of_nat n)) \<le> n"
proof -
  have "unat (min a (word_of_nat n)) \<le> unat (word_of_nat n :: u32)"
    by (simp add: min_def word_le_nat_alt)
  also have "\<dots> \<le> n" by (simp add: unat_of_nat take_bit_eq_mod)
  finally show ?thesis .
qed

lemma get_snp_Ok:
  assumes "kernel_ok kn" "get_snp_attestation_report kn ud certs = Ok (report, blob)"
  shows "length report = 4000 \<and> length blob \<le> length certs"
proof -
  obtain mem0 mem where "kn_snp_ioctl kn SNP_GET_EXT_REPORT mem0 = (0, mem)" "mem_resp mem0 = snp_report_resp_default"
    "mem_certs mem0 = certs" "report = mem_resp mem"
    "blob = take (unat (min (ext_certs_len (mem_req mem)) (word_of_nat (length (mem_certs mem))))) (mem_certs mem)"
    using assms(2)
    by (fastforce simp: get_snp_attestation_report_def res_simps Let_def split: prod.splits if_splits)
  moreover from this(1) have "length (mem_resp mem) = length (mem_resp mem0)" "length (mem_certs mem) = length (mem_certs mem0)"
    using assms(1) unfolding kernel_ok_def by (metis snd_conv)+
  ultimately show ?thesis by (simp add: snp_report_resp_default_def SNP_RESP_DATA_LEN_def min_le_iff_disj)
qed

end
