(* ===== verification/Eat.thy ===== *)
theory Eat
  imports TeeDevice RustText "HOL-Library.Countable"
begin

text \<open>
  \<open>attestation/eat_builder.rs\<close> and \<open>attestation/verifier.rs\<close>: the claim set of a token, its
  COSE_Sign1 envelope, parsing, signature verification and the policy checks. The CBOR
  codec (ciborium), ES256 (p256) and SHA-256 are parameters; a CBOR value is ciborium's \<open>Value\<close>.
\<close>

section \<open>CBOR values and the libraries\<close>

datatype cbor = CInt int | CBytes bytes | CFloat u64 | CText string | CBool bool | CNull
  | CTag u64 cbor | CArray "cbor list" | CMap "(cbor \<times> cbor) list"

record cbor_codec =
  cb_ser :: "cbor \<Rightarrow> string + bytes"
  cb_de :: "bytes \<Rightarrow> string + cbor"

record ('sk, 'vk, 'sig) es256 =
  es_sign :: "'sk \<Rightarrow> bytes \<Rightarrow> 'sig"
  es_to_bytes :: "'sig \<Rightarrow> bytes"
  es_from_slice :: "bytes \<Rightarrow> string + 'sig"
  es_verify :: "'vk \<Rightarrow> bytes \<Rightarrow> 'sig \<Rightarrow> string + unit"
  es_public :: "'sk \<Rightarrow> 'vk"

text \<open>
  Writing a value whose integers are in CBOR's range and reading it back gives the value.
  A signature is 64 bytes, survives its encoding and verifies under its key.
\<close>

fun cbor_wf :: "cbor \<Rightarrow> bool" where
  "cbor_wf (CInt i) = (- (2 ^ 64) \<le> i \<and> i < 2 ^ 64)"
| "cbor_wf (CTag n v) = cbor_wf v"
| "cbor_wf (CArray vs) = (\<forall>v\<in>set vs. cbor_wf v)"
| "cbor_wf (CMap kvs) = (\<forall>kv\<in>set kvs. cbor_wf (fst kv) \<and> cbor_wf (snd kv))"
| "cbor_wf _ = True"

definition cbor_ok :: "cbor_codec \<Rightarrow> bool" where
  "cbor_ok cb \<longleftrightarrow> (\<forall>v. cbor_wf v \<longrightarrow> (\<exists>bs. cb_ser cb v = Ok bs \<and> cb_de cb bs = Ok v))"

definition es256_ok :: "('sk, 'vk, 'sig) es256 \<Rightarrow> bool" where
  "es256_ok es \<longleftrightarrow> (\<forall>sk m. length (es_to_bytes es (es_sign es sk m)) = 64
     \<and> es_from_slice es (es_to_bytes es (es_sign es sk m)) = Ok (es_sign es sk m)
     \<and> es_verify es (es_public es sk) m (es_sign es sk m) = Ok ())"

section \<open>Claims\<close>

definition CLAIM_IAT :: int where "CLAIM_IAT = 6"
definition CLAIM_NONCE :: int where "CLAIM_NONCE = 10"
definition CLAIM_UEID :: int where "CLAIM_UEID = 256"
definition CLAIM_SUBMODS :: int where "CLAIM_SUBMODS = 266"
definition CLAIM_SWNAME :: int where "CLAIM_SWNAME = 342"
definition ALG_ES256 :: int where "ALG_ES256 = - 7"
definition COSE_HEADER_ALG :: int where "COSE_HEADER_ALG = 1"
definition COSE_HEADER_KID :: int where "COSE_HEADER_KID = 4"
definition DEFAULT_SWNAME :: string where "DEFAULT_SWNAME = ''CONFIDENTIAL_SPACE''"

record eat_claims =
  ec_nonce :: bytes
  ec_swname :: string
  ec_image_digest :: string
  ec_hardware :: string
  ec_instance_id :: bytes
  ec_iat :: u64
  ec_measurements :: "bytes list"

definition eat_claims_default :: eat_claims where
  "eat_claims_default = \<lparr>ec_nonce = [], ec_swname = DEFAULT_SWNAME, ec_image_digest = [], ec_hardware = ''unknown'',
     ec_instance_id = replicate 16 0, ec_iat = 0, ec_measurements = []\<rparr>"

datatype eat_error = Cbor string | CborDe string | SignError string | Tee tee_error
  | IncompleteClaims string | Malformed string

fun eat_error_display :: "eat_error \<Rightarrow> string" where
  "eat_error_display (Cbor e) = ''cbor encode error: '' @ e"
| "eat_error_display (CborDe e) = ''cbor decode error: '' @ e"
| "eat_error_display (SignError e) = ''ES256 signing error: '' @ e"
| "eat_error_display (Tee e) = ''TEE error: '' @ tee_error_display e"
| "eat_error_display (IncompleteClaims msg) = ''incomplete claims: '' @ msg"
| "eat_error_display (Malformed msg) = ''malformed token: '' @ msg"

text \<open>\<open>Integer::from(i as i64)\<close>: the cast keeps the low 64 bits, read as a signed number.\<close>

definition cint :: "int \<Rightarrow> cbor" where
  "cint i = CInt (sint (word_of_int i :: u64))"

definition encode_claims :: "eat_claims \<Rightarrow> cbor" where
  "encode_claims claims =
     (let container = [(CText ''image_digest'', CText (ec_image_digest claims)),
            (CText ''hardware'', CText (ec_hardware claims)),
            (CText ''instance_id'', CBytes (ec_instance_id claims))]
          @ map (\<lambda>(i, m). (CText (''rtmr'' @ show_nat i), CBytes m)) (enumerate 0 (ec_measurements claims));
          submods = [(CText ''container'', CMap container)]
      in CMap ([(cint CLAIM_IAT, cint (uint (ec_iat claims)))]
           @ (if ec_nonce claims = [] then [] else [(cint CLAIM_NONCE, CBytes (ec_nonce claims))])
           @ [(cint CLAIM_UEID, CBytes (2 # ec_instance_id claims)),
              (cint CLAIM_SWNAME, CText (ec_swname claims)),
              (cint CLAIM_SUBMODS, CMap submods)]))"

definition cbor :: "cbor_codec \<Rightarrow> cbor \<Rightarrow> eat_error + bytes" where
  "cbor cb v = map_err Cbor (cb_ser cb v)"

definition sig_structure :: "bytes \<Rightarrow> bytes \<Rightarrow> cbor" where
  "sig_structure protected payload = CArray [CText ''Signature1'', CBytes protected, CBytes [], CBytes payload]"

definition protected_header :: cbor where
  "protected_header = CMap [(cint COSE_HEADER_ALG, cint ALG_ES256), (cint COSE_HEADER_KID, CBytes (bytes_of ''enclave-v1''))]"

definition build_eat :: "cbor_codec \<Rightarrow> ('sk, 'vk, 'sig) es256 \<Rightarrow> eat_claims \<Rightarrow> 'sk \<Rightarrow> eat_error + bytes" where
  "build_eat cb es claims key =
     (if is_blank (ec_swname claims) then Err (IncompleteClaims ''swname must not be empty'')
      else if is_blank (ec_image_digest claims) then Err (IncompleteClaims ''image_digest must not be empty'')
      else res_bind (cbor cb protected_header) (\<lambda>protected_bytes.
        res_bind (cbor cb (encode_claims claims)) (\<lambda>payload_bytes.
        res_bind (cbor cb (sig_structure protected_bytes payload_bytes)) (\<lambda>sig_input.
        let signature_vec = es_to_bytes es (es_sign es key sig_input)
        in cbor cb (CArray [CBytes protected_bytes, CMap [], CBytes payload_bytes, CBytes signature_vec])))))"

section \<open>Parsing\<close>

record parsed_cose_sign1 =
  pc_protected :: bytes
  pc_protected_map :: cbor
  pc_payload :: bytes
  pc_signature :: bytes

definition parse_cose_sign1 :: "cbor_codec \<Rightarrow> bytes \<Rightarrow> eat_error + parsed_cose_sign1" where
  "parse_cose_sign1 cb token =
     res_bind (map_err CborDe (cb_de cb token)) (\<lambda>v.
     res_bind (case v of CArray parts \<Rightarrow> (if length parts = 4 then Ok parts
         else Err (Malformed ''COSE_Sign1 must be an array of 4 elements''))
       | _ \<Rightarrow> Err (Malformed ''COSE_Sign1 must be an array of 4 elements'')) (\<lambda>parts.
     res_bind (case parts ! 0 of CBytes b \<Rightarrow> Ok b | _ \<Rightarrow> Err (Malformed ''protected must be a bstr'')) (\<lambda>protected.
     res_bind (map_err CborDe (cb_de cb protected)) (\<lambda>protected_map.
     res_bind (case parts ! 2 of CBytes b \<Rightarrow> Ok b | _ \<Rightarrow> Err (Malformed ''payload must be a bstr'')) (\<lambda>payload.
     res_bind (case parts ! 3 of CBytes b \<Rightarrow> Ok b | _ \<Rightarrow> Err (Malformed ''signature must be a bstr'')) (\<lambda>signature.
     Ok \<lparr>pc_protected = protected, pc_protected_map = protected_map, pc_payload = payload, pc_signature = signature\<rparr>))))))"

definition decode_claims :: "cbor_codec \<Rightarrow> bytes \<Rightarrow> eat_error + cbor" where
  "decode_claims cb payload = map_err CborDe (cb_de cb payload)"

text \<open>\<open>out[..digest.len()].copy_from_slice(&digest)\<close> into 64 zero bytes.\<close>

definition nonce_to_reportdata :: "(bytes \<Rightarrow> bytes) \<Rightarrow> bytes \<Rightarrow> bytes" where
  "nonce_to_reportdata sha nonce =
     (let digest = sha nonce in digest @ drop (length digest) (replicate TDX_REPORTDATA_LEN 0))"

section \<open>Verification\<close>

datatype eat_verify_error = VMalformed string | UnsupportedAlg int | BadSignature string | Policy string | MissingClaim string

fun eat_verify_error_display :: "eat_verify_error \<Rightarrow> string" where
  "eat_verify_error_display (VMalformed m) = ''malformed EAT: '' @ m"
| "eat_verify_error_display (UnsupportedAlg a) = ''unsupported COSE alg '' @ (if a < 0 then ''-'' else '''') @ show_nat (nat \<bar>a\<bar>)
     @ '' (expected ES256)''"
| "eat_verify_error_display (BadSignature e) = ''EAT signature verification failed: '' @ e"
| "eat_verify_error_display (Policy m) = ''EAT policy check failed: '' @ m"
| "eat_verify_error_display (MissingClaim m) = ''EAT missing claim: '' @ m"

record verified_eat =
  ve_nonce :: bytes
  ve_swname :: string
  ve_image_digest :: string
  ve_hardware :: string
  ve_iat :: u64

fun map_entries :: "cbor \<Rightarrow> (cbor \<times> cbor) list option" where
  "map_entries (CMap entries) = Some entries"
| "map_entries _ = None"

text \<open>The first entry with a key.\<close>

definition cbor_get :: "cbor \<Rightarrow> cbor \<Rightarrow> cbor option" where
  "cbor_get v key = Option.bind (map_entries v) (\<lambda>entries. map_option snd (find (\<lambda>kv. fst kv = key) entries))"

fun as_text :: "cbor \<Rightarrow> string option" where
  "as_text (CText s) = Some s"
| "as_text _ = None"

fun as_bytes :: "cbor \<Rightarrow> bytes option" where
  "as_bytes (CBytes b) = Some b"
| "as_bytes _ = None"

fun as_int :: "cbor \<Rightarrow> int option" where
  "as_int (CInt i) = Some i"
| "as_int _ = None"

definition verify_cose_sign1 :: "cbor_codec \<Rightarrow> ('sk, 'vk, 'sig) es256 \<Rightarrow> bytes \<Rightarrow> 'vk \<Rightarrow> eat_verify_error + bytes" where
  "verify_cose_sign1 cb es token verifying_key =
     res_bind (map_err (\<lambda>_. VMalformed ''parse failed'') (parse_cose_sign1 cb token)) (\<lambda>parsed.
     res_bind (ok_or (VMalformed ''protected header missing alg'')
       (cbor_get (pc_protected_map parsed) (cint COSE_HEADER_ALG))) (\<lambda>alg.
     res_bind (ok_or (VMalformed ''alg must be an integer'') (as_int alg)) (\<lambda>alg_val.
     if alg_val \<noteq> ALG_ES256 then Err (UnsupportedAlg alg_val)
     else res_bind (map_err (\<lambda>_. VMalformed ''sig structure encode failed'')
         (cb_ser cb (sig_structure (pc_protected parsed) (pc_payload parsed)))) (\<lambda>sig_input_bytes.
       if length (pc_signature parsed) \<noteq> 64 then Err (VMalformed ''signature must be 64 bytes (r||s)'')
       else res_bind (map_err (\<lambda>_. VMalformed ''invalid signature encoding'') (es_from_slice es (pc_signature parsed))) (\<lambda>signature.
         res_bind (map_err BadSignature (es_verify es verifying_key sig_input_bytes signature)) (\<lambda>_.
         Ok (pc_payload parsed)))))))"

definition claim :: "cbor \<Rightarrow> int \<Rightarrow> cbor option" where
  "claim claims key = cbor_get claims (cint key)"

text \<open>
  \<open>submods.container\<close>, then the first entry of that name, if its value is a text. The \<open>match\<close>
  inside \<open>find_map\<close> goes on to a later entry of the same name when the first is not a text.
\<close>

fun find_map :: "('a \<Rightarrow> 'b option) \<Rightarrow> 'a list \<Rightarrow> 'b option" where
  "find_map f [] = None"
| "find_map f (x # xs) = (case f x of Some y \<Rightarrow> Some y | None \<Rightarrow> find_map f xs)"

definition container_text :: "cbor \<Rightarrow> string \<Rightarrow> string option" where
  "container_text claims name =
     Option.bind (claim claims CLAIM_SUBMODS) (\<lambda>submods.
     Option.bind (cbor_get submods (CText ''container'')) (\<lambda>container.
     Option.bind (map_entries container)
       (find_map (\<lambda>(k, v). if k = CText name then as_text v else None))))"

definition container_digest :: "cbor \<Rightarrow> string option" where
  "container_digest claims = container_text claims ''image_digest''"

definition container_hardware :: "cbor \<Rightarrow> string option" where
  "container_hardware claims = container_text claims ''hardware''"

definition iat_value :: "cbor \<Rightarrow> u64 option" where
  "iat_value v = (case as_int v of None \<Rightarrow> None | Some n \<Rightarrow> if 0 \<le> n then Some (word_of_int n) else None)"

definition check_policy :: "'a option \<Rightarrow> 'a \<Rightarrow> string \<Rightarrow> eat_verify_error + unit" where
  "check_policy expected actual msg =
     (case expected of Some x \<Rightarrow> if actual \<noteq> x then Err (Policy msg) else Ok () | None \<Rightarrow> Ok ())"

definition validate_claims :: "cbor_codec \<Rightarrow> bytes \<Rightarrow> string \<Rightarrow> string option \<Rightarrow> bytes option
    \<Rightarrow> eat_verify_error + verified_eat" where
  "validate_claims cb payload expected_swname expected_digest expected_nonce =
     res_bind (map_err (\<lambda>_. VMalformed ''claims decode failed'') (decode_claims cb payload)) (\<lambda>claims.
     res_bind (ok_or (MissingClaim ''swname'') (Option.bind (claim claims CLAIM_SWNAME) as_text)) (\<lambda>swname.
     if swname \<noteq> expected_swname then Err (Policy ''swname does not match expected value'')
     else
     res_bind (ok_or (MissingClaim ''submods.container.image_digest'') (container_digest claims)) (\<lambda>image_digest.
     res_bind (check_policy expected_digest image_digest ''image_digest does not match expected build digest'') (\<lambda>_.
     res_bind (ok_or (MissingClaim ''nonce'') (Option.bind (claim claims CLAIM_NONCE) as_bytes)) (\<lambda>nonce.
     res_bind (check_policy expected_nonce nonce ''nonce does not match session nonce'') (\<lambda>_.
     res_bind (ok_or (MissingClaim ''iat'') (Option.bind (claim claims CLAIM_IAT) iat_value)) (\<lambda>iat.
     Ok \<lparr>ve_nonce = nonce, ve_swname = swname, ve_image_digest = image_digest,
       ve_hardware = (case container_hardware claims of Some h \<Rightarrow> h | None \<Rightarrow> ''''), ve_iat = iat\<rparr>)))))))"

definition verify_eat :: "cbor_codec \<Rightarrow> ('sk, 'vk, 'sig) es256 \<Rightarrow> bytes \<Rightarrow> 'vk \<Rightarrow> string \<Rightarrow> string option \<Rightarrow> bytes option
    \<Rightarrow> eat_verify_error + verified_eat" where
  "verify_eat cb es token verifying_key expected_swname expected_digest expected_nonce =
     res_bind (verify_cose_sign1 cb es token verifying_key) (\<lambda>payload.
     validate_claims cb payload expected_swname expected_digest expected_nonce)"

section \<open>Lemmas\<close>

lemmas claim_numbers = CLAIM_IAT_def CLAIM_NONCE_def CLAIM_UEID_def CLAIM_SUBMODS_def CLAIM_SWNAME_def
  ALG_ES256_def COSE_HEADER_ALG_def COSE_HEADER_KID_def

lemma cint_claim [simp]: "cint 1 = CInt 1" "cint 4 = CInt 4" "cint 6 = CInt 6" "cint 10 = CInt 10" "cint 256 = CInt 256"
  "cint 266 = CInt 266" "cint 342 = CInt 342" "cint (- 7) = CInt (- 7)"
  by (simp_all add: cint_def)

lemma sint_range: "- (2 ^ 63) \<le> sint (w :: u64)" "sint (w :: u64) < 2 ^ 63"
  using sint_range_size [of w] by (simp_all add: word_size)

lemma cbor_wf_cint [simp]: "cbor_wf (cint i)"
  using sint_range [of "word_of_int i"] by (simp add: cint_def)

lemma encode_claims_wf: "cbor_wf (encode_claims claims)"
  by (auto simp: encode_claims_def Let_def in_set_enumerate_eq)

lemma protected_header_wf: "cbor_wf protected_header"
  by (simp add: protected_header_def)

lemma cbor_okD: "cbor_ok cb \<Longrightarrow> cbor_wf v \<Longrightarrow> \<exists>bs. cb_ser cb v = Ok bs \<and> cb_de cb bs = Ok v"
  by (simp add: cbor_ok_def)

lemma cbor_ser_inject: "cbor_ok cb \<Longrightarrow> cbor_wf v \<Longrightarrow> cbor_wf w \<Longrightarrow> cb_ser cb v = Ok bs \<Longrightarrow> cb_ser cb w = Ok bs \<Longrightarrow> v = w"
  using cbor_okD [of cb v] cbor_okD [of cb w] by auto

lemma claim_simps [simp]:
  "claim (encode_claims c) CLAIM_IAT = Some (cint (uint (ec_iat c)))"
  "claim (encode_claims c) CLAIM_NONCE = (if ec_nonce c = [] then None else Some (CBytes (ec_nonce c)))"
  "claim (encode_claims c) CLAIM_SWNAME = Some (CText (ec_swname c))"
  by (simp_all add: claim_def cbor_get_def encode_claims_def Let_def claim_numbers)

lemma find_map_append: "find_map f (xs @ ys) = (case find_map f xs of Some y \<Rightarrow> Some y | None \<Rightarrow> find_map f ys)"
  by (induction xs) (auto split: option.split)

lemma container_simps [simp]:
  "container_digest (encode_claims c) = Some (ec_image_digest c)"
  "container_hardware (encode_claims c) = Some (ec_hardware c)"
  by (simp_all add: container_digest_def container_hardware_def container_text_def claim_def cbor_get_def
      encode_claims_def Let_def claim_numbers)

lemma mod_shift: "0 \<le> u \<Longrightarrow> u < 2 * h \<Longrightarrow> (u + h) mod (2 * h) - h = (if u < h then u else u - 2 * h)" for u h :: int
proof (cases "u < h")
  case False
  assume "0 \<le> u" "u < 2 * h"
  with False have "(u - h) mod (2 * h) = u - h" by (intro mod_pos_pos_trivial) auto
  moreover have "u + h = (u - h) + 2 * h" by simp
  ultimately have "(u + h) mod (2 * h) = u - h" by (metis mod_add_self2)
  with False show ?thesis by simp
qed (simp add: mod_pos_pos_trivial)

lemma sint_of_u64: "sint (word_of_int (uint (w :: u64)) :: u64) = (if uint w < 2 ^ 63 then uint w else uint w - 2 ^ 64)"
proof -
  have b: "0 \<le> uint w" "uint w < 2 * 2 ^ 63" using uint_bounded [of w] by simp_all
  have "sint (word_of_int (uint w) :: u64) = (uint w + 2 ^ 63) mod (2 * 2 ^ 63) - 2 ^ 63"
    using int_word_sint [of "uint w", where ?'a = 64] by simp
  then show ?thesis using mod_shift [OF b] by simp
qed

lemma iat_value_cint: "iat_value (cint (uint (w :: u64))) = (if uint w < 2 ^ 63 then Some w else None)"
proof -
  have "\<not> 0 \<le> uint w - 2 ^ 64" using uint_bounded [of w] by simp
  moreover have "0 \<le> uint w" using uint_bounded [of w] by simp
  ultimately show ?thesis unfolding iat_value_def cint_def as_int.simps sint_of_u64 by simp
qed

section \<open>Building and verifying\<close>

text \<open>The verdict of the policy checks on the claims of a built token.\<close>

definition expected_verdict :: "eat_claims \<Rightarrow> string \<Rightarrow> string option \<Rightarrow> bytes option \<Rightarrow> eat_verify_error + verified_eat" where
  "expected_verdict c sw dig nonce =
     (if ec_swname c \<noteq> sw then Err (Policy ''swname does not match expected value'')
      else if \<exists>d. dig = Some d \<and> d \<noteq> ec_image_digest c then Err (Policy ''image_digest does not match expected build digest'')
      else if ec_nonce c = [] then Err (MissingClaim ''nonce'')
      else if \<exists>n. nonce = Some n \<and> n \<noteq> ec_nonce c then Err (Policy ''nonce does not match session nonce'')
      else if 2 ^ 63 \<le> uint (ec_iat c) then Err (MissingClaim ''iat'')
      else Ok \<lparr>ve_nonce = ec_nonce c, ve_swname = ec_swname c, ve_image_digest = ec_image_digest c,
        ve_hardware = ec_hardware c, ve_iat = ec_iat c\<rparr>)"

lemma validate_encoded:
  assumes "cb_de cb payload = Ok (encode_claims c)"
  shows "validate_claims cb payload sw dig nonce = expected_verdict c sw dig nonce"
proof -
  have pol: "check_policy x y m = (if \<exists>d. x = Some d \<and> d \<noteq> y then Err (Policy m) else Ok ())" for x and y :: 'a and m
    by (cases x) (auto simp: check_policy_def)
  show ?thesis
    unfolding validate_claims_def decode_claims_def assms expected_verdict_def pol
    by (simp add: iat_value_cint) blast
qed

lemma build_eat_Ok: "build_eat cb es c key = Ok token \<longleftrightarrow>
    \<not> is_blank (ec_swname c) \<and> \<not> is_blank (ec_image_digest c)
    \<and> (\<exists>p q m. cb_ser cb protected_header = Ok p \<and> cb_ser cb (encode_claims c) = Ok q \<and> cb_ser cb (sig_structure p q) = Ok m
        \<and> cb_ser cb (CArray [CBytes p, CMap [], CBytes q, CBytes (es_to_bytes es (es_sign es key m))]) = Ok token)"
  by (auto simp: build_eat_def cbor_def res_simps Let_def)

lemma parse_cases:
  "(case v of CBytes b \<Rightarrow> Ok b | _ \<Rightarrow> Err e) = Ok x \<longleftrightarrow> v = CBytes x"
  "(case v of CArray parts \<Rightarrow> (if length parts = 4 then Ok parts else Err e) | _ \<Rightarrow> Err e) = Ok xs \<longleftrightarrow> v = CArray xs \<and> length xs = 4"
  "as_int v = Some i \<longleftrightarrow> v = CInt i"
  by (cases v; auto)+

lemma parse_cose_Ok: "parse_cose_sign1 cb token = Ok p \<longleftrightarrow>
    (\<exists>u. cb_de cb token = Ok (CArray [CBytes (pc_protected p), u, CBytes (pc_payload p), CBytes (pc_signature p)]))
    \<and> cb_de cb (pc_protected p) = Ok (pc_protected_map p)"
proof
  assume "parse_cose_sign1 cb token = Ok p"
  then obtain parts where parts: "cb_de cb token = Ok (CArray parts)" "length parts = 4" "parts ! 0 = CBytes (pc_protected p)"
    "parts ! 2 = CBytes (pc_payload p)" "parts ! 3 = CBytes (pc_signature p)"
    "cb_de cb (pc_protected p) = Ok (pc_protected_map p)"
    by (auto simp: parse_cose_sign1_def res_simps parse_cases)
  then obtain a b c d where "parts = [a, b, c, d]" by (auto simp: length_Suc_conv eval_nat_numeral)
  with parts show "(\<exists>u. cb_de cb token = Ok (CArray [CBytes (pc_protected p), u, CBytes (pc_payload p), CBytes (pc_signature p)]))
    \<and> cb_de cb (pc_protected p) = Ok (pc_protected_map p)" by simp
next
  assume "(\<exists>u. cb_de cb token = Ok (CArray [CBytes (pc_protected p), u, CBytes (pc_payload p), CBytes (pc_signature p)]))
    \<and> cb_de cb (pc_protected p) = Ok (pc_protected_map p)"
  then show "parse_cose_sign1 cb token = Ok p" by (cases p) (auto simp: parse_cose_sign1_def)
qed

lemma verify_cose_parsed: "verify_cose_sign1 cb es token vk = Ok payload \<longleftrightarrow>
    (\<exists>p sig m. parse_cose_sign1 cb token = Ok p \<and> pc_payload p = payload
      \<and> cbor_get (pc_protected_map p) (CInt 1) = Some (CInt (- 7))
      \<and> cb_ser cb (sig_structure (pc_protected p) payload) = Ok m \<and> length (pc_signature p) = 64
      \<and> es_from_slice es (pc_signature p) = Ok sig \<and> es_verify es vk m sig = Ok ())"
proof -
  have c1: "cint COSE_HEADER_ALG = CInt 1" by (simp add: COSE_HEADER_ALG_def)
  show ?thesis
    unfolding verify_cose_sign1_def c1 by (auto simp: res_simps parse_cases ALG_ES256_def split: if_splits)
qed

lemma verify_cose_Ok: "verify_cose_sign1 cb es token vk = Ok payload \<longleftrightarrow>
    (\<exists>protected u sigb h sig m. cb_de cb token = Ok (CArray [CBytes protected, u, CBytes payload, CBytes sigb])
      \<and> cb_de cb protected = Ok h \<and> cbor_get h (CInt 1) = Some (CInt (- 7))
      \<and> cb_ser cb (sig_structure protected payload) = Ok m \<and> length sigb = 64
      \<and> es_from_slice es sigb = Ok sig \<and> es_verify es vk m sig = Ok ())"
proof
  assume "verify_cose_sign1 cb es token vk = Ok payload"
  then show "\<exists>protected u sigb h sig m. cb_de cb token = Ok (CArray [CBytes protected, u, CBytes payload, CBytes sigb])
      \<and> cb_de cb protected = Ok h \<and> cbor_get h (CInt 1) = Some (CInt (- 7))
      \<and> cb_ser cb (sig_structure protected payload) = Ok m \<and> length sigb = 64
      \<and> es_from_slice es sigb = Ok sig \<and> es_verify es vk m sig = Ok ()"
    unfolding verify_cose_parsed parse_cose_Ok by blast
next
  assume "\<exists>protected u sigb h sig m. cb_de cb token = Ok (CArray [CBytes protected, u, CBytes payload, CBytes sigb])
      \<and> cb_de cb protected = Ok h \<and> cbor_get h (CInt 1) = Some (CInt (- 7))
      \<and> cb_ser cb (sig_structure protected payload) = Ok m \<and> length sigb = 64
      \<and> es_from_slice es sigb = Ok sig \<and> es_verify es vk m sig = Ok ()"
  then obtain protected u sigb h sig m where a: "cb_de cb token = Ok (CArray [CBytes protected, u, CBytes payload, CBytes sigb])"
    "cb_de cb protected = Ok h" "cbor_get h (CInt 1) = Some (CInt (- 7))"
    "cb_ser cb (sig_structure protected payload) = Ok m" "length sigb = 64" "es_from_slice es sigb = Ok sig" "es_verify es vk m sig = Ok ()"
    by blast
  let ?p = "\<lparr>pc_protected = protected, pc_protected_map = h, pc_payload = payload, pc_signature = sigb\<rparr>"
  have "parse_cose_sign1 cb token = Ok ?p" unfolding parse_cose_Ok using a by auto
  then show "verify_cose_sign1 cb es token vk = Ok payload"
    unfolding verify_cose_parsed using a by (intro ex3I [of _ ?p sig m]) simp
qed

text \<open>A built token parses, and it verifies when its signature does.\<close>

lemma built_parts:
  assumes "cbor_ok cb" "build_eat cb es c key = Ok token"
  obtains p q m where "cb_ser cb (sig_structure p q) = Ok m" "cb_de cb p = Ok protected_header" "cb_de cb q = Ok (encode_claims c)"
    "cb_de cb token = Ok (CArray [CBytes p, CMap [], CBytes q, CBytes (es_to_bytes es (es_sign es key m))])"
proof -
  from assms(2) obtain p q m where b: "cb_ser cb protected_header = Ok p" "cb_ser cb (encode_claims c) = Ok q"
    "cb_ser cb (sig_structure p q) = Ok m"
    "cb_ser cb (CArray [CBytes p, CMap [], CBytes q, CBytes (es_to_bytes es (es_sign es key m))]) = Ok token"
    by (auto simp: build_eat_Ok)
  have "cb_de cb p = Ok protected_header" using cbor_okD [OF assms(1) protected_header_wf] b(1) by auto
  moreover have "cb_de cb q = Ok (encode_claims c)" using cbor_okD [OF assms(1) encode_claims_wf [of c]] b(2) by auto
  moreover have "cb_de cb token = Ok (CArray [CBytes p, CMap [], CBytes q, CBytes (es_to_bytes es (es_sign es key m))])"
    using cbor_okD [OF assms(1), of "CArray [CBytes p, CMap [], CBytes q, CBytes (es_to_bytes es (es_sign es key m))]"] b(4) by auto
  ultimately show thesis using that b(3) by blast
qed

lemma built_verifies:
  assumes "cb_ser cb (sig_structure p q) = Ok m" "cb_de cb p = Ok protected_header"
    "cb_de cb token = Ok (CArray [CBytes p, CMap [], CBytes q, CBytes sigb])"
    "length sigb = 64" "es_from_slice es sigb = Ok sig" "es_verify es vk m sig = Ok ()"
  shows "verify_cose_sign1 cb es token vk = Ok q"
proof -
  have "cbor_get protected_header (CInt 1) = Some (CInt (- 7))"
    by (simp add: protected_header_def cbor_get_def claim_numbers)
  then show ?thesis unfolding verify_cose_Ok using assms by blast
qed

lemma built_verifies_all:
  assumes "cbor_ok cb" "es256_ok es" "build_eat cb es c key = Ok token"
  shows "verify_eat cb es token (es_public es key) sw dig nonce = expected_verdict c sw dig nonce"
proof -
  from built_parts [OF assms(1,3)] obtain p q m where b: "cb_ser cb (sig_structure p q) = Ok m"
    "cb_de cb p = Ok protected_header" "cb_de cb q = Ok (encode_claims c)"
    "cb_de cb token = Ok (CArray [CBytes p, CMap [], CBytes q, CBytes (es_to_bytes es (es_sign es key m))])" by blast
  have "verify_cose_sign1 cb es token (es_public es key) = Ok q"
    using assms(2) unfolding es256_ok_def by (intro built_verifies [OF b(1,2,4)]) blast+
  then show ?thesis by (simp add: verify_eat_def validate_encoded [OF b(3)])
qed

lemma build_eat_total:
  assumes "cbor_ok cb" "\<not> is_blank (ec_swname c)" "\<not> is_blank (ec_image_digest c)"
  shows "\<exists>token. build_eat cb es c key = Ok token"
proof -
  obtain p where p: "cb_ser cb protected_header = Ok p" using cbor_okD [OF assms(1) protected_header_wf] by blast
  obtain q where q: "cb_ser cb (encode_claims c) = Ok q" using cbor_okD [OF assms(1) encode_claims_wf] by blast
  obtain m where m: "cb_ser cb (sig_structure p q) = Ok m"
    using cbor_okD [OF assms(1), of "sig_structure p q"] by (auto simp: sig_structure_def)
  obtain token where "cb_ser cb (CArray [CBytes p, CMap [], CBytes q, CBytes (es_to_bytes es (es_sign es key m))]) = Ok token"
    using cbor_okD [OF assms(1), of "CArray [CBytes p, CMap [], CBytes q, CBytes (es_to_bytes es (es_sign es key m))]"] by auto
  then show ?thesis unfolding build_eat_Ok using assms(2,3) p q m by blast
qed

text \<open>Verification succeeds only with every part in place.\<close>

lemma check_policy_Ok: "check_policy expected actual msg = Ok u \<longleftrightarrow> (\<forall>x. expected = Some x \<longrightarrow> actual = x)"
  by (auto simp: check_policy_def split: option.split)

lemma validate_Ok:
  assumes "validate_claims cb payload sw dig nonce = Ok v"
  shows "\<exists>claims. cb_de cb payload = Ok claims \<and> ve_swname v = sw \<and> claim claims CLAIM_SWNAME = Some (CText sw)
    \<and> container_digest claims = Some (ve_image_digest v) \<and> claim claims CLAIM_NONCE = Some (CBytes (ve_nonce v))
    \<and> Option.bind (claim claims CLAIM_IAT) iat_value = Some (ve_iat v)
    \<and> (\<forall>d. dig = Some d \<longrightarrow> ve_image_digest v = d) \<and> (\<forall>n. nonce = Some n \<longrightarrow> ve_nonce v = n)"
proof -
  have t: "as_text x = Some s \<longleftrightarrow> x = CText s" "as_bytes x = Some b \<longleftrightarrow> x = CBytes b" for x s b
    by (cases x; auto)+
  show ?thesis
    using assms unfolding validate_claims_def decode_claims_def
    by (auto simp: res_simps check_policy_Ok bind_eq_Some_conv t split: if_splits)
qed

section \<open>Instances that meet the assumptions\<close>

text \<open>A codec by the countability of the values, and signature schemes that accept everything, or one
  message only.\<close>

instance cbor :: countable
  by countable_datatype

definition w_cbor :: cbor_codec where
  "w_cbor = \<lparr>cb_ser = (\<lambda>v. Ok (replicate (to_nat v) 0)), cb_de = (\<lambda>bs. Ok (from_nat (length bs)))\<rparr>"

lemma w_cbor_ok: "cbor_ok w_cbor"
  by (simp add: cbor_ok_def w_cbor_def)

definition w_es :: "(unit, unit, unit) es256" where
  "w_es = \<lparr>es_sign = (\<lambda>_ _. ()), es_to_bytes = (\<lambda>_. replicate 64 1), es_from_slice = (\<lambda>_. Ok ()),
     es_verify = (\<lambda>_ _ _. Ok ()), es_public = (\<lambda>_. ())\<rparr>"

lemma w_es_ok: "es256_ok w_es"
  by (simp add: es256_ok_def w_es_def)

definition w_claims :: eat_claims where
  "w_claims = eat_claims_default\<lparr>ec_nonce := [1, 2], ec_image_digest := ''sha256:ab'', ec_iat := 5\<rparr>"

lemma w_claims_ok: "\<not> is_blank (ec_swname w_claims)" "\<not> is_blank (ec_image_digest w_claims)"
  unfolding is_blank_words split_whitespace_def by code_simp+

section \<open>Properties\<close>

text \<open>What the builder mints the verifier accepts: building succeeds for every claim set whose
  software name and image digest are not blank, and verifying the token under the signing
  key's public key gives exactly the verdict of the policy on the claims. In particular a
  token with an empty nonce, or issued at or after \<open>2 ^ 63\<close>, is minted and never accepted.\<close>

lemma eat_roundtrip:
  assumes "cbor_ok cb" "es256_ok es" "\<not> is_blank (ec_swname c)" "\<not> is_blank (ec_image_digest c)"
  shows "\<exists>token. build_eat cb es c key = Ok token
    \<and> verify_eat cb es token (es_public es key) sw dig nonce = expected_verdict c sw dig nonce"
  using build_eat_total [OF assms(1,3,4), of es key] built_verifies_all [OF assms(1,2)] by blast

lemma eat_roundtrip_witness:
  "\<exists>token. build_eat w_cbor w_es w_claims () = Ok token
    \<and> verify_eat w_cbor w_es token () ''CONFIDENTIAL_SPACE'' (Some ''sha256:ab'') (Some [1, 2])
      = Ok \<lparr>ve_nonce = [1, 2], ve_swname = ''CONFIDENTIAL_SPACE'', ve_image_digest = ''sha256:ab'',
          ve_hardware = ''unknown'', ve_iat = 5\<rparr>
    \<and> verify_eat w_cbor w_es token () ''CONFIDENTIAL_SPACE'' None (Some [3])
      = Err (Policy ''nonce does not match session nonce'')"
proof -
  have v: "expected_verdict w_claims ''CONFIDENTIAL_SPACE'' (Some ''sha256:ab'') (Some [1, 2])
      = Ok \<lparr>ve_nonce = [1, 2], ve_swname = ''CONFIDENTIAL_SPACE'', ve_image_digest = ''sha256:ab'', ve_hardware = ''unknown'', ve_iat = 5\<rparr>"
    "expected_verdict w_claims ''CONFIDENTIAL_SPACE'' None (Some [3]) = Err (Policy ''nonce does not match session nonce'')"
    by (simp_all add: expected_verdict_def w_claims_def eat_claims_default_def DEFAULT_SWNAME_def)
  have pub: "es_public w_es () = ()" by simp
  note r = eat_roundtrip [OF w_cbor_ok w_es_ok w_claims_ok, of "()", unfolded pub]
  obtain token where t: "build_eat w_cbor w_es w_claims () = Ok token"
    using r [of "''CONFIDENTIAL_SPACE''" None None] by blast
  show ?thesis using r [of "''CONFIDENTIAL_SPACE''" "Some ''sha256:ab''" "Some [1, 2]"]
      r [of "''CONFIDENTIAL_SPACE''" None "Some [3]"] t by (simp add: v)
qed



text \<open>C11: when only the signatures of minted tokens verify under a key, every accepted token carries the
  claims of one of them, whatever bytes the token has: nonce, software name, image digest,
  hardware and issue time are those of a minted claim set.\<close>

theorem accepted_was_minted:
  assumes "cbor_ok cb"
    and unforgeable: "\<And>m sig. es_verify es vk m sig = Ok () \<Longrightarrow>
      \<exists>c\<in>minted. \<exists>p q. cb_ser cb protected_header = Ok p \<and> cb_ser cb (encode_claims c) = Ok q \<and> cb_ser cb (sig_structure p q) = Ok m"
    and "verify_eat cb es token vk sw dig nonce = Ok v"
  shows "\<exists>c\<in>minted. v = \<lparr>ve_nonce = ec_nonce c, ve_swname = ec_swname c, ve_image_digest = ec_image_digest c,
    ve_hardware = ec_hardware c, ve_iat = ec_iat c\<rparr> \<and> ec_swname c = sw"
proof -
  from assms(3) obtain payload where ver: "verify_cose_sign1 cb es token vk = Ok payload"
    "validate_claims cb payload sw dig nonce = Ok v" by (auto simp: verify_eat_def res_simps)
  then obtain protected sig m where "cb_ser cb (sig_structure protected payload) = Ok m" "es_verify es vk m sig = Ok ()"
    unfolding verify_cose_Ok by blast
  moreover from unforgeable [OF this(2)] obtain c p q where c: "c \<in> minted" "cb_ser cb (encode_claims c) = Ok q"
    "cb_ser cb (sig_structure p q) = Ok m" by blast
  ultimately have "sig_structure protected payload = sig_structure p q"
    by (intro cbor_ser_inject [OF assms(1)]) (simp_all add: sig_structure_def)
  then have "payload = q" by (simp add: sig_structure_def)
  then have "cb_de cb payload = Ok (encode_claims c)" using cbor_okD [OF assms(1) encode_claims_wf, of c] c(2) by auto
  from ver(2) [unfolded validate_encoded [OF this]] c(1) show ?thesis
    by (auto simp: expected_verdict_def split: if_splits)
qed

definition w_minted_msg :: bytes where
  "w_minted_msg = replicate (to_nat (sig_structure (replicate (to_nat protected_header) 0) (replicate (to_nat (encode_claims w_claims)) 0))) 0"

definition w_one_es :: "(unit, unit, unit) es256" where
  "w_one_es = w_es\<lparr>es_verify := (\<lambda>_ m _. if m = w_minted_msg then Ok () else Err ''bad'')\<rparr>"

theorem accepted_was_minted_witness:
  "\<exists>token v. verify_eat w_cbor w_one_es token () ''CONFIDENTIAL_SPACE'' None None = Ok v
    \<and> ve_nonce v = ec_nonce w_claims \<and> ve_iat v = 5"
proof -
  have unf: "\<exists>c\<in>{w_claims}. \<exists>p q. cb_ser w_cbor protected_header = Ok p \<and> cb_ser w_cbor (encode_claims c) = Ok q
      \<and> cb_ser w_cbor (sig_structure p q) = Ok m" if "es_verify w_one_es () m sig = Ok ()" for m sig
    using that by (simp add: w_one_es_def w_cbor_def w_minted_msg_def split: if_splits)
  obtain token where "build_eat w_cbor w_one_es w_claims () = Ok token"
    using build_eat_total [OF w_cbor_ok w_claims_ok, of w_one_es "()"] by blast
  from this [unfolded build_eat_Ok] obtain p q m where b: "cb_ser w_cbor protected_header = Ok p"
    "cb_ser w_cbor (encode_claims w_claims) = Ok q" "cb_ser w_cbor (sig_structure p q) = Ok m"
    "cb_ser w_cbor (CArray [CBytes p, CMap [], CBytes q, CBytes (es_to_bytes w_one_es (es_sign w_one_es () m))]) = Ok token" by blast
  then have m: "m = w_minted_msg" by (auto simp: w_cbor_def w_minted_msg_def)
  have d: "cb_de w_cbor p = Ok protected_header" "cb_de w_cbor q = Ok (encode_claims w_claims)"
    "cb_de w_cbor token = Ok (CArray [CBytes p, CMap [], CBytes q, CBytes (es_to_bytes w_one_es (es_sign w_one_es () m))])"
    using b(1,2,4) by (auto simp: w_cbor_def)
  have "verify_cose_sign1 w_cbor w_one_es token () = Ok q"
    by (rule built_verifies [OF b(3) d(1,3)]) (simp_all add: w_one_es_def w_es_def m)
  moreover have "\<exists>v. expected_verdict w_claims ''CONFIDENTIAL_SPACE'' None None = Ok v"
    by (simp add: expected_verdict_def w_claims_def eat_claims_default_def DEFAULT_SWNAME_def)
  ultimately obtain v where v: "verify_eat w_cbor w_one_es token () ''CONFIDENTIAL_SPACE'' None None = Ok v"
    by (auto simp: verify_eat_def validate_encoded [OF d(2)])
  from accepted_was_minted [OF w_cbor_ok unf v] have "ve_nonce v = ec_nonce w_claims \<and> ve_iat v = 5"
    by (simp add: w_claims_def)
  with v show ?thesis by blast
qed

end
