(* ===== verification/RateLimit.thy ===== *)
theory RateLimit
  imports F64
begin

text \<open>
  \<open>middleware/rate_limit.rs\<close>: the token bucket of the ingress interceptor, with the f64 arithmetic
  of the code. Instants are nanoseconds.
\<close>

section \<open>The code\<close>

definition DEFAULT_RATE_PER_SEC :: nat where
  "DEFAULT_RATE_PER_SEC = 100"

record bucket =
  b_capacity :: nat
  b_rate_per_sec :: nat
  b_tokens :: f64
  b_last_refill :: nat

definition bucket_new :: "nat \<Rightarrow> nat \<Rightarrow> nat \<Rightarrow> bucket" where
  "bucket_new now rate_per_sec burst = \<lparr>b_capacity = burst, b_rate_per_sec = rate_per_sec,
     b_tokens = of_u64 burst, b_last_refill = now\<rparr>"

text \<open>\<open>Duration::as_secs_f64\<close> and the saturating \<open>duration_since\<close>.\<close>

definition as_secs_f64 :: "nat \<Rightarrow> f64" where
  "as_secs_f64 d = fadd (of_u64 (d div 1000000000)) (fdiv (of_u64 (d mod 1000000000)) 1000000000)"

definition refilled :: "nat \<Rightarrow> bucket \<Rightarrow> f64" where
  "refilled now b = fmin (fadd (b_tokens b) (fmul (as_secs_f64 (now - b_last_refill b)) (of_u64 (b_rate_per_sec b))))
     (of_u64 (b_capacity b))"

definition try_acquire :: "nat \<Rightarrow> bucket \<Rightarrow> bool \<times> bucket" where
  "try_acquire now b =
     (let b = b\<lparr>b_tokens := refilled now b, b_last_refill := now\<rparr>
      in if fle (Fin 1) (b_tokens b) then (True, b\<lparr>b_tokens := fadd (b_tokens b) (Fin (- 1))\<rparr>)
         else (False, b))"

definition default_ingress_bucket :: "nat \<Rightarrow> bucket" where
  "default_ingress_bucket now = bucket_new now DEFAULT_RATE_PER_SEC DEFAULT_RATE_PER_SEC"

datatype status = InvalidArgument string | FailedPrecondition string | ResourceExhausted string
  | Internal string | Unavailable string

definition rate_limit_interceptor :: "nat \<Rightarrow> 'req \<Rightarrow> bucket \<Rightarrow> (status + 'req) \<times> bucket" where
  "rate_limit_interceptor now req b =
     (case try_acquire now b of
        (True, b') \<Rightarrow> (Ok req, b')
      | (False, b') \<Rightarrow> (Err (ResourceExhausted
          (''rate limit exceeded ('' @ show_nat DEFAULT_RATE_PER_SEC @ '' req/s)'')), b'))"

text \<open>A sequence of requests at the given instants, all on the one shared bucket.\<close>

fun acquire_all :: "nat list \<Rightarrow> bucket \<Rightarrow> bool list \<times> bucket" where
  "acquire_all [] b = ([], b)"
| "acquire_all (now # nows) b =
     (case try_acquire now b of (g, b') \<Rightarrow>
        (case acquire_all nows b' of (gs, b'') \<Rightarrow> (g # gs, b'')))"

section \<open>The invariant\<close>

text \<open>Capacities and rates a test or the service configures: integers an f64 holds.\<close>

definition bucket_ok :: "nat \<Rightarrow> nat \<Rightarrow> bucket \<Rightarrow> bool" where
  "bucket_ok rate cap b \<longleftrightarrow> rate < 2 ^ 64 \<and> b_rate_per_sec b = rate \<and> b_capacity b = cap
     \<and> (\<exists>x. b_tokens b = Fin x \<and> repr x \<and> 0 \<le> x \<and> x \<le> of_nat cap)"

lemma of_u64_fnat: "n \<le> 2 ^ 53 \<Longrightarrow> of_u64 n = fnat n"
  using rnd_repr [of "of_nat n"] repr_nat_div [of n] by (simp add: of_u64_def fnat_def)

lemma fpos_rnd: "0 \<le> x \<Longrightarrow> fpos (rnd x)"
  using rnd_mono [of 0 x] by (simp add: fpos_def)

lemma fpos_of_u64: "fpos (of_u64 n)"
  by (simp add: of_u64_def fpos_rnd)

lemma fpos_fdiv: "fpos a \<Longrightarrow> 0 < c \<Longrightarrow> fpos (fdiv a c)"
  by (elim fpos_cases) (simp_all add: fpos_rnd, simp add: fpos_def fok_def)

lemma fpos_as_secs: "fpos (as_secs_f64 d)"
proof -
  have "fpos (fdiv (of_u64 (d mod 1000000000)) 1000000000)" by (rule fpos_fdiv [OF fpos_of_u64]) simp
  from fadd_pos [OF fpos_of_u64 this] show ?thesis by (simp add: as_secs_f64_def)
qed

text \<open>A rate of zero and an infinite wait do not meet: a \<open>u64\<close> of seconds is finite.\<close>

lemma fmul_nonneg: "fpos a \<Longrightarrow> a \<noteq> PosInf \<Longrightarrow> fpos b \<Longrightarrow> b \<noteq> PosInf \<Longrightarrow> fpos (fmul a b)"
  by (elim fpos_cases) (simp_all add: fpos_rnd)

lemma fmin_le: "a \<noteq> NaN \<Longrightarrow> b \<noteq> NaN \<Longrightarrow> fmin a b = min a b"
  by (simp add: fmin_def)

lemma minus_one_exact:
  assumes "repr x" "1 \<le> x" "x \<le> 2 ^ 53"
  shows "rnd (x - 1) = Fin (x - 1)"
proof -
  obtain m e where me: "x = of_int m * 2 powi e" "\<bar>m\<bar> \<le> 2 ^ 53" "- 1074 \<le> e"
    using assms(1) unfolding repr_def by blast
  show ?thesis
  proof (cases "e \<le> 0")
    case True
    have one: "(1 :: rat) = of_int (2 ^ nat (- e)) * 2 powi e"
      using powi_split [OF True] by simp
    have d: "x - 1 = of_int (m - 2 ^ nat (- e)) * 2 powi e"
      unfolding me(1) by (subst one) (simp only: of_int_diff left_diff_distrib)
    have "0 \<le> x - 1" using assms(2) by simp
    then have "0 \<le> m - 2 ^ nat (- e)" unfolding d by (metis not_le mult_neg_pos powi_pos2 of_int_less_0_iff)
    moreover have "m \<le> 2 ^ 53" "(0 :: int) \<le> 2 ^ nat (- e)" using me(2) by auto
    ultimately have "\<bar>m - 2 ^ nat (- e)\<bar> \<le> 2 ^ 53" by linarith
    from rnd_repr [OF repr_scaled [OF this me(3) True]] show ?thesis unfolding d .
  next
    case False
    then have "x = of_int (m * 2 ^ nat e)" unfolding me(1) by (simp add: power_int_def)
    then obtain n where n: "x = of_int n" by blast
    have "of_int n \<le> (of_int (2 ^ 53) :: rat)" "of_int 1 \<le> (of_int n :: rat)" using assms(2,3) n by simp_all
    then have "n \<le> 2 ^ 53" "1 \<le> n" by (simp_all only: of_int_le_iff)
    then have "\<bar>n - 1\<bar> \<le> 2 ^ 53" by linarith
    from rnd_repr [OF repr_of_int [OF this]] show ?thesis by (simp add: n)
  qed
qed

text \<open>Elapsed times whose seconds fit a \<open>u64\<close>, as every \<open>Duration\<close> does.\<close>

definition duration_ok :: "nat \<Rightarrow> bool" where
  "duration_ok d \<longleftrightarrow> d div 1000000000 < 2 ^ 64"

lemma repr_pow2: "n < 1024 \<Longrightarrow> repr (2 ^ n)"
proof -
  assume "n < 1024"
  then have "\<bar>2 ^ n :: rat\<bar> < 2 ^ 1024" using power_strict_increasing [of n 1024 "2 :: rat"] by simp
  moreover have "(2 ^ n :: rat) = of_int 1 * 2 powi int n" by simp
  moreover have "\<bar>1 :: int\<bar> \<le> 2 ^ 53" "- 1074 \<le> int n" by simp_all
  ultimately show ?thesis unfolding repr_def by blast
qed

lemma of_u64_finite: "n < 2 ^ 64 \<Longrightarrow> of_u64 n \<le> Fin (2 ^ 64)"
proof -
  assume "n < 2 ^ 64"
  then have "(of_nat n :: rat) \<le> of_nat (2 ^ 64)" by (simp only: of_nat_le_iff)
  then have "rnd (of_nat n) \<le> rnd (2 ^ 64)" by (intro rnd_mono) simp
  then show ?thesis unfolding of_u64_def rnd_repr [OF repr_pow2 [of 64, simplified]] using rnd_repr [OF repr_pow2 [of 64]] by simp
qed

lemma as_secs_finite:
  assumes "duration_ok d"
  shows "\<exists>e. as_secs_f64 d = Fin e \<and> 0 \<le> e"
proof -
  let ?q = "d div 1000000000" and ?r = "d mod 1000000000"
  have p: "rnd (2 ^ 64 + 1) \<le> Fin (2 ^ 65)"
    using rnd_repr [OF repr_pow2 [of 65]] rnd_mono [of "2 ^ 64 + 1" "2 ^ 65"] by simp
  have q: "rnd (of_nat ?q) \<le> Fin (2 ^ 64)" using of_u64_finite assms by (simp add: duration_ok_def of_u64_def)
  have r: "rnd (of_nat ?r) = Fin (of_nat ?r)"
    using rnd_repr [OF conjunct1 [OF repr_nat_div [of ?r]]] by (simp add: less_imp_le order_less_le_trans [of ?r 1000000000])
  have "?r \<le> 1000000000" by (simp add: less_imp_le)
  then have "(of_nat ?r :: rat) \<le> of_nat 1000000000" by (simp only: of_nat_le_iff)
  then have "rnd (of_nat ?r / 1000000000) \<le> Fin 1"
    using rnd_mono [of "of_nat ?r / 1000000000" 1] rnd_repr [OF repr_of_int [of 1]] by simp
  then obtain x y where xy: "rnd (of_nat ?q) = Fin x" "rnd (of_nat ?r / 1000000000) = Fin y" "x \<le> 2 ^ 64" "y \<le> 1"
    using q fpos_rnd [of "of_nat ?q"] fpos_rnd [of "of_nat ?r / 1000000000"]
    by (cases "rnd (of_nat ?q)"; cases "rnd (of_nat ?r / 1000000000)") (auto simp: fpos_def)
  have "as_secs_f64 d = rnd (x + y)" by (simp add: as_secs_f64_def of_u64_def r xy)
  moreover have "rnd (x + y) \<le> Fin (2 ^ 65)"
    using rnd_mono [of "x + y" "2 ^ 64 + 1"] p xy(3,4) by (meson add_mono order_trans)
  ultimately show ?thesis using fpos_as_secs [of d] by (cases "rnd (x + y)") (auto simp: fpos_def)
qed

lemma refilled_ok:
  assumes "bucket_ok rate cap b" "cap \<le> 2 ^ 53" "duration_ok (now - b_last_refill b)"
  shows "\<exists>x. refilled now b = Fin x \<and> repr x \<and> 0 \<le> x \<and> x \<le> of_nat cap
    \<and> refilled now b = min (fadd (b_tokens b) (fmul (as_secs_f64 (now - b_last_refill b)) (of_u64 rate))) (fnat cap)
    \<and> fpos (fmul (as_secs_f64 (now - b_last_refill b)) (of_u64 rate))"
proof -
  let ?m = "fmul (as_secs_f64 (now - b_last_refill b)) (of_u64 rate)"
  obtain x where x: "b_tokens b = Fin x" "repr x" "0 \<le> x" "x \<le> of_nat cap" "b_rate_per_sec b = rate" "b_capacity b = cap"
    using assms(1) by (auto simp: bucket_ok_def)
  obtain e where e: "as_secs_f64 (now - b_last_refill b) = Fin e" "0 \<le> e" using as_secs_finite [OF assms(3)] by blast
  have t: "fpos (b_tokens b)" using x by (simp add: fpos_def fok_def)
  have m: "fpos ?m"
  proof (rule fmul_nonneg [OF fpos_as_secs _ fpos_of_u64])
    show "of_u64 rate \<noteq> PosInf" using of_u64_finite [of rate] assms(1) by (auto simp: bucket_ok_def)
  qed (simp add: e)
  have f: "fpos (fadd (b_tokens b) ?m)" using fadd_pos [OF t m] by simp
  have c: "of_u64 cap = fnat cap" "fpos (fnat cap)" using assms(2) by (simp_all add: of_u64_fnat fpos_fnat)
  have r: "refilled now b = min (fadd (b_tokens b) ?m) (fnat cap)"
    using f c by (simp add: refilled_def x(5,6) fmin_le fpos_def)
  have "fpos (refilled now b)" "refilled now b \<le> fnat cap" unfolding r using f c(2) by (auto simp: min_def)
  then obtain y where "refilled now b = Fin y" "repr y" "0 \<le> y" "y \<le> of_nat cap"
    by (cases "refilled now b") (auto simp: fpos_def fok_def fnat_def)
  then show ?thesis using r m by blast
qed

lemma refilled_ge: "bucket_ok rate cap b \<Longrightarrow> cap \<le> 2 ^ 53 \<Longrightarrow> duration_ok (now - b_last_refill b) \<Longrightarrow>
    b_tokens b \<le> refilled now b"
proof -
  assume b: "bucket_ok rate cap b" "cap \<le> 2 ^ 53" "duration_ok (now - b_last_refill b)"
  let ?m = "fmul (as_secs_f64 (now - b_last_refill b)) (of_u64 rate)"
  have "fpos (b_tokens b)" "b_tokens b \<le> fnat cap" using b(1) by (auto simp: bucket_ok_def fpos_def fok_def fnat_def)
  moreover have "refilled now b = min (fadd (b_tokens b) ?m) (fnat cap)" "fpos ?m" using refilled_ok [OF b] by blast+
  ultimately show ?thesis using fadd_pos by simp
qed

lemma try_acquire_ok:
  assumes "bucket_ok rate cap b" "cap \<le> 2 ^ 53" "duration_ok (now - b_last_refill b)"
  obtains x where "refilled now b = Fin x" "0 \<le> x" "x \<le> of_nat cap"
    "try_acquire now b = (1 \<le> x, b\<lparr>b_tokens := Fin (if 1 \<le> x then x - 1 else x), b_last_refill := now\<rparr>)"
    "bucket_ok rate cap (snd (try_acquire now b))"
proof -
  obtain x where x: "refilled now b = Fin x" "repr x" "0 \<le> x" "x \<le> of_nat cap" using refilled_ok [OF assms] by blast
  have "(of_nat cap :: rat) \<le> of_nat (2 ^ 53)" using assms(2) by (simp only: of_nat_le_iff)
  then have le: "x \<le> 2 ^ 53" using x(4) by simp
  have m: "rnd (x - 1) = Fin (x - 1)" "repr (x - 1)" if "1 \<le> x"
    using minus_one_exact [OF x(2) that le] rnd_repr_result by blast+
  have t: "try_acquire now b = (1 \<le> x, b\<lparr>b_tokens := Fin (if 1 \<le> x then x - 1 else x), b_last_refill := now\<rparr>)"
    using m by (simp add: try_acquire_def x fle_def Let_def)
  have "bucket_ok rate cap (snd (try_acquire now b))" using assms(1) x m by (auto simp: t bucket_ok_def)
  with x t show ?thesis using that by blast
qed

lemma bucket_new_ok: "rate < 2 ^ 64 \<Longrightarrow> burst \<le> 2 ^ 53 \<Longrightarrow> bucket_ok rate burst (bucket_new now rate burst)"
  using repr_nat_div [of burst] by (simp add: bucket_ok_def bucket_new_def of_u64_fnat fnat_def)

lemma last_refill_acquire [simp]: "b_last_refill (snd (try_acquire now b)) = now"
  by (simp add: try_acquire_def Let_def)

lemma acquire_all_Cons: "acquire_all (now # nows) b =
    (fst (try_acquire now b) # fst (acquire_all nows (snd (try_acquire now b))),
     snd (acquire_all nows (snd (try_acquire now b))))"
  by (simp split: prod.splits)

declare acquire_all.simps(2) [simp del]

text \<open>The instants of a run are all representable.\<close>

lemma acquire_all_ok:
  assumes "bucket_ok rate cap b" "cap \<le> 2 ^ 53" "\<forall>now\<in>set nows. duration_ok now"
  shows "bucket_ok rate cap (snd (acquire_all nows b))"
  using assms
proof (induction nows arbitrary: b)
  case (Cons now nows)
  have "(now - b_last_refill b) div 1000000000 \<le> now div 1000000000" by (intro div_le_mono) simp
  then have d: "duration_ok (now - b_last_refill b)" using Cons.prems(3) by (auto simp: duration_ok_def)
  have "bucket_ok rate cap (snd (try_acquire now b))" by (rule try_acquire_ok [OF Cons.prems(1,2) d])
  then have "bucket_ok rate cap (snd (acquire_all nows (snd (try_acquire now b))))" using Cons by simp
  then show ?case by (simp add: acquire_all_Cons)
qed simp

text \<open>At one instant nothing is refilled.\<close>

lemma refilled_now: "bucket_ok rate cap b \<Longrightarrow> cap \<le> 2 ^ 53 \<Longrightarrow> b_last_refill b = now \<Longrightarrow> refilled now b = b_tokens b"
proof -
  assume b: "bucket_ok rate cap b" "cap \<le> 2 ^ 53" "b_last_refill b = now"
  obtain x where x: "b_tokens b = Fin x" "rnd x = Fin x" "x \<le> of_nat cap"
    using b(1) by (auto simp: bucket_ok_def rnd_repr)
  have d: "duration_ok (now - b_last_refill b)" using b(3) by (simp add: duration_ok_def)
  have z: "as_secs_f64 0 = Fin 0" by (simp add: as_secs_f64_def of_u64_def)
  have r: "refilled now b = min (fadd (b_tokens b) (fmul (as_secs_f64 0) (of_u64 rate))) (fnat cap)"
    "fpos (fmul (as_secs_f64 0) (of_u64 rate))"
    using refilled_ok [OF b(1,2) d] b(3) by auto
  have "fmul (Fin 0) (of_u64 rate) = Fin 0" using r(2) fpos_of_u64 [of rate] unfolding z
    by (cases "of_u64 rate") (auto simp: fpos_def)
  then show ?thesis using x by (simp add: r(1) z fnat_def min_def)
qed

lemma acquire_same_instant:
  assumes "bucket_ok rate cap b" "cap \<le> 2 ^ 53" "b_last_refill b = now" "b_tokens b = fnat k"
  shows "fst (acquire_all (replicate n now) b) = replicate (min n k) True @ replicate (n - k) False"
  using assms
proof (induction n arbitrary: b k)
  case (Suc n)
  have "duration_ok (now - b_last_refill b)" using Suc.prems(3) by (simp add: duration_ok_def)
  from try_acquire_ok [OF Suc.prems(1,2) this]
  obtain x where x: "refilled now b = Fin x"
    "try_acquire now b = (1 \<le> x, b\<lparr>b_tokens := Fin (if 1 \<le> x then x - 1 else x), b_last_refill := now\<rparr>)"
    "bucket_ok rate cap (snd (try_acquire now b))" by blast
  have xk: "x = of_nat k" using x(1) refilled_now [OF Suc.prems(1-3)] Suc.prems(4) by (simp add: fnat_def)
  show ?case
  proof (cases k)
    case 0
    then have t: "try_acquire now b = (False, b)" using x(2) xk Suc.prems(3,4) by (simp add: fnat_def)
    then have "fst (acquire_all (replicate n now) b) = replicate n False" using Suc.IH [OF Suc.prems] 0 by simp
    then show ?thesis using 0 t by (simp add: acquire_all_Cons)
  next
    case (Suc j)
    then have t: "try_acquire now b = (True, b\<lparr>b_tokens := fnat j, b_last_refill := now\<rparr>)"
      using x(2) xk by (simp add: fnat_def)
    have "fst (acquire_all (replicate n now) (b\<lparr>b_tokens := fnat j, b_last_refill := now\<rparr>))
        = replicate (min n j) True @ replicate (n - j) False"
      using x(3) Suc.prems(2) by (intro Suc.IH) (simp_all add: t)
    then show ?thesis using t Suc by (simp add: acquire_all_Cons)
  qed
qed simp

section \<open>Properties\<close>

lemma requests_ok: "\<forall>now\<in>set nows. duration_ok now \<Longrightarrow> rate < 2 ^ 64 \<Longrightarrow> burst \<le> 2 ^ 53 \<Longrightarrow>
    bucket_ok rate burst (snd (acquire_all nows (bucket_new now0 rate burst)))"
  using acquire_all_ok [OF bucket_new_ok] by blast

text \<open>After any requests at any instants, also out of order, the number of tokens is finite,
  at least zero and at most the burst, with all rounding; and a request at the last instant is
  let through exactly when the interceptor passes it on unchanged, that is when a whole token
  is left, otherwise it is answered with the status of an exhausted resource.\<close>

lemma bucket_bounds:
  assumes "rate < 2 ^ 64" "burst \<le> 2 ^ 53" "\<forall>now\<in>set nows. duration_ok now" "duration_ok now"
    and "b = snd (acquire_all nows (bucket_new now0 rate burst))"
  shows "Fin 0 \<le> b_tokens b \<and> b_tokens b \<le> fnat burst
    \<and> fst (rate_limit_interceptor now req b) = (if Fin 1 \<le> refilled now b then Ok req
        else Err (ResourceExhausted ''rate limit exceeded (100 req/s)''))
    \<and> b_tokens b \<le> refilled now b \<and> refilled now b \<le> fnat burst"
proof -
  have b: "bucket_ok rate burst b" unfolding assms(5) using requests_ok assms(1-3) by blast
  have "(now - b_last_refill b) div 1000000000 \<le> now div 1000000000" by (intro div_le_mono) simp
  then have d: "duration_ok (now - b_last_refill b)" using assms(4) by (simp add: duration_ok_def)
  obtain x where x: "refilled now b = Fin x" "x \<le> of_nat burst"
    "try_acquire now b = (1 \<le> x, b\<lparr>b_tokens := Fin (if 1 \<le> x then x - 1 else x), b_last_refill := now\<rparr>)"
    using try_acquire_ok [OF b assms(2) d] by blast
  have "show_nat 100 = ''100''" by code_simp
  then have "fst (rate_limit_interceptor now req b) = (if Fin 1 \<le> refilled now b then Ok req
      else Err (ResourceExhausted ''rate limit exceeded (100 req/s)''))"
    using x by (simp add: rate_limit_interceptor_def DEFAULT_RATE_PER_SEC_def)
  moreover have "Fin 0 \<le> b_tokens b" "b_tokens b \<le> fnat burst" using b by (auto simp: bucket_ok_def fnat_def)
  moreover have "b_tokens b \<le> refilled now b" using refilled_ge [OF b assms(2) d] .
  ultimately show ?thesis using x by (simp add: fnat_def)
qed

lemma bucket_bounds_witness:
  "b_tokens (snd (acquire_all [5, 3, 2000000000] (default_ingress_bucket 0))) \<le> fnat 100"
  using bucket_bounds [where rate = 100 and burst = 100 and nows = "[5, 3, 2000000000]" and now = 2000000000
      and ?now0.0 = 0 and req = "()", OF _ _ _ _ refl]
  by (simp add: default_ingress_bucket_def DEFAULT_RATE_PER_SEC_def duration_ok_def)

text \<open>A burst is exact: a fresh bucket lets through exactly the first \<open>burst\<close> of any number of
  requests at one instant and refuses all others.\<close>

lemma burst_exact:
  assumes "rate < 2 ^ 64" "burst \<le> 2 ^ 53"
  shows "fst (acquire_all (replicate n now) (bucket_new now rate burst))
    = replicate (min n burst) True @ replicate (n - burst) False"
  using assms by (intro acquire_same_instant [OF bucket_new_ok]) (simp_all add: bucket_new_def of_u64_fnat)

lemma burst_exact_witness:
  "fst (acquire_all (replicate 102 7) (default_ingress_bucket 7)) = replicate 100 True @ [False, False]"
proof -
  have "replicate 2 False = [False, False]" by (simp add: numeral_2_eq_2)
  with burst_exact [of 100 100 102 7] show ?thesis
    by (simp add: default_ingress_bucket_def DEFAULT_RATE_PER_SEC_def)
qed

text \<open>C36: no client is locked out: with a rate and a burst of at least one, a request a second or
  more after the last one is always let through, whatever came before.\<close>

theorem refill_liveness:
  assumes "rate < 2 ^ 64" "burst \<le> 2 ^ 53" "1 \<le> rate" "1 \<le> burst" "\<forall>now\<in>set nows. duration_ok now" "duration_ok now"
    and "b = snd (acquire_all nows (bucket_new now0 rate burst))" "b_last_refill b + 1000000000 \<le> now"
  shows "fst (try_acquire now b)"
proof -
  have b: "bucket_ok rate burst b" unfolding assms(7) using requests_ok assms(1,2,5) by blast
  let ?d = "now - b_last_refill b"
  have "?d div 1000000000 \<le> now div 1000000000" by (intro div_le_mono) simp
  then have d: "duration_ok ?d" using assms(6) by (simp add: duration_ok_def)
  have one: "rnd 1 = Fin 1" using rnd_repr [OF repr_of_int [of 1]] by simp
  have ge1: "Fin 1 \<le> of_u64 n" if "1 \<le> n" for n using rnd_mono [of 1 "of_nat n"] that one by (simp add: of_u64_def)
  have "1 \<le> ?d div 1000000000" using assms(8) div_le_mono [of 1000000000 ?d 1000000000] by simp
  moreover have "fpos (fdiv (of_u64 (?d mod 1000000000)) 1000000000)" by (rule fpos_fdiv [OF fpos_of_u64]) simp
  ultimately have "Fin 1 \<le> as_secs_f64 ?d"
    using ge1 [of "?d div 1000000000"] fadd_pos [OF fpos_of_u64] unfolding as_secs_f64_def by (meson order_trans)
  then obtain e where e: "as_secs_f64 ?d = Fin e" "1 \<le> e" using as_secs_finite [OF d] by auto
  obtain r where r: "of_u64 rate = Fin r" "1 \<le> r"
    using ge1 [OF assms(3)] of_u64_finite [OF assms(1)] by (cases "of_u64 rate") auto
  have "1 \<le> e * r" using mult_mono [OF e(2) r(2)] e(2) by simp
  then have "Fin 1 \<le> fmul (as_secs_f64 ?d) (of_u64 rate)" using rnd_mono [of 1 "e * r"] one by (simp add: e r)
  moreover have "fpos (b_tokens b)" using b by (auto simp: bucket_ok_def fpos_def fok_def)
  moreover have rf: "refilled now b = min (fadd (b_tokens b) (fmul (as_secs_f64 ?d) (of_u64 rate))) (fnat burst)"
    "fpos (fmul (as_secs_f64 ?d) (of_u64 rate))" using refilled_ok [OF b assms(2) d] by blast+
  ultimately have "Fin 1 \<le> fadd (b_tokens b) (fmul (as_secs_f64 ?d) (of_u64 rate))" using fadd_pos by (meson order_trans)
  then have "Fin 1 \<le> refilled now b" using assms(4) unfolding rf(1) by (simp add: fnat_def)
  then show ?thesis using try_acquire_ok [OF b assms(2) d] by fastforce
qed

theorem refill_liveness_witness:
  "fst (try_acquire 1000000007 (snd (acquire_all (replicate 3 7) (bucket_new 7 3 2))))"
proof -
  have l: "b_last_refill (snd (acquire_all (replicate 3 7) (bucket_new 7 3 2))) = 7"
    by (simp add: acquire_all_Cons numeral_3_eq_3)
  show ?thesis by (rule refill_liveness [of 3 2 "replicate 3 7" _ _ 7]) (simp_all add: duration_ok_def l)
qed

end
