(* ===== verification/GrpcServer.thy ===== *)
theory GrpcServer
  imports Eat RateLimit
begin

text \<open>
  \<open>grpc_server.rs\<close>: the state of the enclave service, its three handlers and the router with the
  rate-limited ingress. SHA-256, the kernel, the CBOR codec, ES256, the random values and the
  clock are parameters. The lock around the state can be poisoned; the counters of
  \<open>metrics.rs\<close> that the handlers touch are part of the state.
\<close>

section \<open>State\<close>

record 'feed enclave_state =
  es_started_at :: nat
  es_query_count :: u64
  es_feeds :: "string \<Rightarrow> 'feed option"
  es_image_digest :: string

definition enclave_state_new :: "nat \<Rightarrow> string option \<Rightarrow> 'feed enclave_state" where
  "enclave_state_new now image_digest = \<lparr>es_started_at = now, es_query_count = 0, es_feeds = (\<lambda>_. None),
     es_image_digest = (case image_digest of Some d \<Rightarrow> d | None \<Rightarrow> '''')\<rparr>"

definition uptime_secs :: "nat \<Rightarrow> 'feed enclave_state \<Rightarrow> nat" where
  "uptime_secs now st = (now - es_started_at st) div 1000000000"

record 'feed service =
  sv_state :: "'feed enclave_state"
  sv_poisoned :: bool
  sv_queries_total :: nat
  sv_query_latency :: "(string \<times> nat) list"

text \<open>\<open>RwLock::write\<close> and \<open>read\<close>: the state, or the status of a poisoned lock.\<close>

definition lock_state :: "'feed service \<Rightarrow> status + 'feed enclave_state" where
  "lock_state sv = (if sv_poisoned sv then Err (Internal ''enclave state lock poisoned'') else Ok (sv_state sv))"

definition observe_query :: "nat \<Rightarrow> 'feed service \<Rightarrow> 'feed service" where
  "observe_query elapsed sv = sv\<lparr>sv_queries_total := sv_queries_total sv + 1,
     sv_query_latency := sv_query_latency sv @ [(''execute_query'', elapsed)]\<rparr>"

section \<open>ExecuteQuery\<close>

record query_request =
  qr_document_id :: string
  qr_prompt :: string
  qr_encrypted_payload :: bytes

record query_response =
  qs_output :: string
  qs_proof :: bytes
  qs_doc_hash :: bytes
  qs_prompt_hash :: bytes
  qs_output_hash :: bytes
  qs_latency_ms :: u64

definition deterministic_output :: "string \<Rightarrow> string" where
  "deterministic_output prompt = join_with '' '' (split_whitespace prompt)"

definition saturating_add :: "u64 \<Rightarrow> u64 \<Rightarrow> u64" where
  "saturating_add a b = (if unat a + unat b < 2 ^ 64 then a + b else - 1)"

text \<open>The two readings of the stopwatch are parameters: when observing, and for the response.\<close>

definition execute_query :: "(bytes \<Rightarrow> bytes) \<Rightarrow> nat \<Rightarrow> nat \<Rightarrow> query_request \<Rightarrow> 'feed service
    \<Rightarrow> (status + query_response) \<times> 'feed service" where
  "execute_query sha observed elapsed req sv =
     (if is_blank (qr_prompt req)
      then (Err (InvalidArgument ''prompt must not be empty''), observe_query observed sv)
      else let out = deterministic_output (qr_prompt req);
               doc_hash = sha (bytes_of (qr_document_id req));
               prompt_hash = sha (bytes_of (qr_prompt req));
               output_hash = sha (bytes_of out)
           in case lock_state sv of
                Inl e \<Rightarrow> (Err e, sv)
              | Inr state \<Rightarrow>
                  let sv = sv\<lparr>sv_state := state\<lparr>es_query_count := saturating_add (es_query_count state) 1\<rparr>\<rparr>;
                      sv = observe_query observed sv
                  in (Ok \<lparr>qs_output = out, qs_proof = [], qs_doc_hash = doc_hash, qs_prompt_hash = prompt_hash,
                        qs_output_hash = output_hash, qs_latency_ms = word_of_nat (elapsed div 1000000)\<rparr>, sv))"

section \<open>GetAttestationToken\<close>

definition hex_digit :: "nat \<Rightarrow> char" where
  "hex_digit n = char_of (if n < 10 then 48 + n else 87 + n)"

definition hex_encode :: "bytes \<Rightarrow> string" where
  "hex_encode bs = concat (map (\<lambda>b. [hex_digit (unat b div 16), hex_digit (unat b mod 16)]) bs)"

definition sha256_hex :: "(bytes \<Rightarrow> bytes) \<Rightarrow> bytes \<Rightarrow> string" where
  "sha256_hex sha bs = hex_encode (sha bs)"

definition hardware_report :: "kernel \<Rightarrow> bytes \<Rightarrow> tee_error + (string \<times> bytes)" where
  "hardware_report kn reportdata =
     (case get_tdreport kn reportdata of
        Inr report \<Rightarrow> Ok (''intel-tdx'', report)
      | Inl DeviceNotFound \<Rightarrow>
          (case get_snp_attestation_report kn reportdata (replicate 8192 0) of
             Inr (report, _) \<Rightarrow> Ok (''amd-sev-snp'', report)
           | Inl e \<Rightarrow> Err (tee_of_sev e))
      | Inl e \<Rightarrow> Err e)"

record attestation_request =
  ar_nonce :: string
  ar_audience :: string

record attestation_response =
  as_eat_token :: bytes
  as_swname :: string
  as_image_digest :: string
  as_hardware :: string
  as_instance_id :: string

definition em_dash :: string where
  "em_dash = [char_of (226 :: nat), char_of (128 :: nat), char_of (148 :: nat)]"

text \<open>The report as an array of 32 bytes, or zeros when it has another length.\<close>

definition measurement_of :: "bytes \<Rightarrow> bytes" where
  "measurement_of report = (if length report = 32 then report else replicate 32 0)"

record ('sk, 'vk, 'sig) attest_env =
  ae_sha :: "bytes \<Rightarrow> bytes"
  ae_kernel :: kernel
  ae_cbor :: cbor_codec
  ae_es256 :: "('sk, 'vk, 'sig) es256"

definition get_attestation_token :: "('sk, 'vk, 'sig) attest_env \<Rightarrow> u64 option \<Rightarrow> bytes \<Rightarrow> 'sk \<Rightarrow> attestation_request
    \<Rightarrow> 'feed service \<Rightarrow> status + attestation_response" where
  "get_attestation_token env now instance_id signing_key req sv =
     (if is_blank (ar_nonce req) then Err (InvalidArgument ''nonce must not be empty'')
      else let nonce_hash = sha256_hex (ae_sha env) (bytes_of (ar_nonce req));
               reportdata = nonce_to_reportdata (ae_sha env) (bytes_of (ar_nonce req))
           in case hardware_report (ae_kernel env) reportdata of
                Inl e \<Rightarrow> Err (Unavailable (''hardware attestation unavailable (fail-closed): '' @ tee_error_display e))
              | Inr (hardware, report) \<Rightarrow>
                  res_bind (lock_state sv) (\<lambda>state.
                  let image_digest = es_image_digest state in
                  if image_digest = '''' then Err (FailedPrecondition
                    (''ENCLAVE_IMAGE_DIGEST not configured '' @ em_dash @ '' cannot bind EAT to a build digest''))
                  else let claims = \<lparr>ec_nonce = bytes_of nonce_hash, ec_swname = DEFAULT_SWNAME, ec_image_digest = image_digest,
                         ec_hardware = hardware, ec_instance_id = instance_id,
                         ec_iat = (case now of Some t \<Rightarrow> t | None \<Rightarrow> 0), ec_measurements = [measurement_of report]\<rparr>
                    in res_bind (map_err (\<lambda>e. Internal (''EAT build failed: '' @ eat_error_display e))
                         (build_eat (ae_cbor env) (ae_es256 env) claims signing_key)) (\<lambda>eat_token.
                       Ok \<lparr>as_eat_token = eat_token, as_swname = ec_swname claims, as_image_digest = ec_image_digest claims,
                         as_hardware = ec_hardware claims, as_instance_id = hex_encode (ec_instance_id claims)\<rparr>)))"

section \<open>StreamFtsoFeeds\<close>

record feeds_request =
  fr_feed_ids :: "string list"
  fr_max_updates :: u32

text \<open>\<open>try_send\<close> into a bounded channel nobody reads yet: a full channel drops the item.\<close>

definition CHANNEL_CAPACITY :: nat where
  "CHANNEL_CAPACITY = 64"

definition try_send :: "'a \<Rightarrow> 'a list \<Rightarrow> 'a list" where
  "try_send x queue = (if length queue < CHANNEL_CAPACITY then queue @ [x] else queue)"

fun send_feeds :: "('feed enclave_state) \<Rightarrow> string list \<Rightarrow> 'feed list \<Rightarrow> 'feed list" where
  "send_feeds state [] queue = queue"
| "send_feeds state (feed_id # ids) queue =
     send_feeds state ids (case es_feeds state feed_id of Some feed \<Rightarrow> try_send feed queue | None \<Rightarrow> queue)"

definition stream_ftso_feeds :: "feeds_request \<Rightarrow> 'feed service \<Rightarrow> status + 'feed list" where
  "stream_ftso_feeds req sv =
     res_bind (lock_state sv) (\<lambda>state. Ok (send_feeds state (fr_feed_ids req) []))"

section \<open>The router\<close>

text \<open>
  The service behind the interceptor of the shared bucket; health checks pass without it. A call
  carries the instant at which it reaches the interceptor and the two stopwatch readings.
\<close>

record 'feed router =
  ro_service :: "'feed service"
  ro_bucket :: bucket

definition build_router :: "nat \<Rightarrow> string option \<Rightarrow> 'feed router" where
  "build_router now image_digest = \<lparr>ro_service = \<lparr>sv_state = enclave_state_new now image_digest, sv_poisoned = False,
     sv_queries_total = 0, sv_query_latency = []\<rparr>, ro_bucket = default_ingress_bucket now\<rparr>"

datatype call = CallQuery nat nat query_request | CallAttest attestation_request | CallFeeds feeds_request | HealthCheck

fun route :: "(bytes \<Rightarrow> bytes) \<Rightarrow> nat \<times> call \<Rightarrow> 'feed router \<Rightarrow> 'feed router" where
  "route sha (now, HealthCheck) ro = ro"
| "route sha (now, c) ro =
     (case rate_limit_interceptor now () (ro_bucket ro) of
        (Inl e, b) \<Rightarrow> ro\<lparr>ro_bucket := b\<rparr>
      | (Inr _, b) \<Rightarrow>
          (case c of
             CallQuery observed elapsed req \<Rightarrow>
               ro\<lparr>ro_bucket := b, ro_service := snd (execute_query sha observed elapsed req (ro_service ro))\<rparr>
           | _ \<Rightarrow> ro\<lparr>ro_bucket := b\<rparr>))"

section \<open>Lemmas\<close>

text \<open>Normalising a prompt keeps its words and is idempotent.\<close>

lemma output_words: "split_whitespace (deterministic_output prompt) = split_whitespace prompt"
  unfolding deterministic_output_def using split_whitespace_words by (intro split_join) blast

lemma output_idempotent: "deterministic_output (deterministic_output prompt) = deterministic_output prompt"
  by (simp add: deterministic_output_def [of "deterministic_output prompt"] output_words)
    (simp add: deterministic_output_def)

lemma output_eq_iff: "deterministic_output p = deterministic_output q \<longleftrightarrow> split_whitespace p = split_whitespace q"
  by (metis deterministic_output_def output_words)

lemma output_blank: "is_blank (deterministic_output p) \<longleftrightarrow> is_blank p"
  by (simp add: is_blank_words output_words)

lemma send_feeds_eq: "length queue \<le> CHANNEL_CAPACITY \<Longrightarrow>
    send_feeds state ids queue = take CHANNEL_CAPACITY (queue @ List.map_filter (es_feeds state) ids)"
proof (induction ids arbitrary: queue)
  case (Cons i ids)
  show ?case
  proof (cases "es_feeds state i")
    case (Some feed)
    show ?thesis
    proof (cases "length queue < CHANNEL_CAPACITY")
      case True
      then show ?thesis using Cons.IH [of "queue @ [feed]"] Some by (simp add: try_send_def)
    next
      case False
      then show ?thesis using Cons.IH [of queue] Cons.prems Some by (simp add: try_send_def)
    qed
  qed (use Cons in simp)
qed simp

lemma of_char_hex_digit: "a < 16 \<Longrightarrow> of_char (hex_digit a) = (if a < 10 then 48 + a else 87 + a :: nat)"
  by (simp add: hex_digit_def)

lemma hex_digit_inject:
  assumes "a < 16" "b < 16"
  shows "hex_digit a = hex_digit b \<longleftrightarrow> a = b"
proof
  assume "hex_digit a = hex_digit b"
  then have "(of_char (hex_digit a) :: nat) = of_char (hex_digit b)" by simp
  then have "(if a < 10 then 48 + a else 87 + a) = (if b < 10 then 48 + b else 87 + b)"
    by (simp only: of_char_hex_digit [OF assms(1)] of_char_hex_digit [OF assms(2)])
  then show "a = b" by presburger
qed simp

lemma hex_encode_inject: "hex_encode xs = hex_encode ys \<Longrightarrow> xs = ys"
proof (induction xs arbitrary: ys)
  case (Cons x xs)
  then obtain y ys' where ys: "ys = y # ys'" by (cases ys) (simp_all add: hex_encode_def)
  have b: "unat x < 256" "unat y < 256" using unat_byte_less by blast+
  have "hex_digit (unat x div 16) = hex_digit (unat y div 16)" "hex_digit (unat x mod 16) = hex_digit (unat y mod 16)"
    "hex_encode xs = hex_encode ys'" using Cons.prems by (simp_all add: hex_encode_def ys)
  then have "unat x div 16 = unat y div 16" "unat x mod 16 = unat y mod 16" "xs = ys'"
    using b hex_digit_inject Cons.IH by auto
  then show ?case by (metis div_mult_mod_eq word_unat_eq_iff ys)
qed (simp add: hex_encode_def split: list.splits)

lemma hardware_report_Ok: "hardware_report kn rd = Ok (hardware, report) \<Longrightarrow>
    hardware = ''intel-tdx'' \<and> get_tdreport kn rd = Ok report
    \<or> hardware = ''amd-sev-snp'' \<and> get_tdreport kn rd = Err DeviceNotFound
      \<and> (\<exists>certs. get_snp_attestation_report kn rd (replicate 8192 0) = Ok (report, certs))"
  by (auto simp: hardware_report_def split: sum.splits tee_error.splits prod.splits)

text \<open>A report is 1024 or 4000 bytes long, so it is never the measurement.\<close>

lemma measurement_zero:
  assumes "kernel_ok kn" "hardware_report kn rd = Ok (hardware, report)"
  shows "measurement_of report = replicate 32 0"
proof -
  from hardware_report_Ok [OF assms(2)] have "length report = 1024 \<or> length report = 4000"
    using get_tdreport_length [OF assms(1)] get_snp_Ok [OF assms(1)] by blast
  then show ?thesis by (auto simp: measurement_of_def)
qed

section \<open>Calls\<close>

text \<open>The calls the limiter saw, and those of them it admitted.\<close>

fun is_query :: "nat \<times> call \<Rightarrow> bool" where
  "is_query (now, CallQuery observed elapsed req) = True"
| "is_query _ = False"

fun is_valid_query :: "nat \<times> call \<Rightarrow> bool" where
  "is_valid_query (now, CallQuery observed elapsed req) = (\<not> is_blank (qr_prompt req))"
| "is_valid_query _ = False"

definition limited :: "(nat \<times> call) list \<Rightarrow> (nat \<times> call) list" where
  "limited calls = filter (\<lambda>c. snd c \<noteq> HealthCheck) calls"

definition admitted :: "bucket \<Rightarrow> (nat \<times> call) list \<Rightarrow> (nat \<times> call) list" where
  "admitted b calls = map fst (filter snd (zip (limited calls) (fst (acquire_all (map fst (limited calls)) b))))"

lemma admitted_Nil [simp]: "admitted b [] = []"
  by (simp add: admitted_def limited_def)

lemma admitted_Cons: "admitted b (c # calls) =
    (if snd c = HealthCheck then admitted b calls
     else (if fst (try_acquire (fst c) b) then [c] else []) @ admitted (snd (try_acquire (fst c) b)) calls)"
  by (simp add: admitted_def limited_def acquire_all_Cons)

lemma interceptor_bucket: "snd (rate_limit_interceptor now req b) = snd (try_acquire now b)"
  "(\<exists>e. fst (rate_limit_interceptor now req b) = Err e) \<longleftrightarrow> \<not> fst (try_acquire now b)"
  by (auto simp: rate_limit_interceptor_def split: prod.splits bool.splits)

lemma route_admitted: "route sha (now, c) ro =
    (if c = HealthCheck then ro
     else (case c of
        CallQuery observed elapsed req \<Rightarrow>
          if fst (try_acquire now (ro_bucket ro))
          then ro\<lparr>ro_bucket := snd (try_acquire now (ro_bucket ro)), ro_service := snd (execute_query sha observed elapsed req (ro_service ro))\<rparr>
          else ro\<lparr>ro_bucket := snd (try_acquire now (ro_bucket ro))\<rparr>
      | _ \<Rightarrow> ro\<lparr>ro_bucket := snd (try_acquire now (ro_bucket ro))\<rparr>))"
  by (cases c) (auto simp: rate_limit_interceptor_def split: prod.splits bool.splits)

definition service_ok :: "'feed service \<Rightarrow> bool" where
  "service_ok sv \<longleftrightarrow> \<not> sv_poisoned sv \<and> es_feeds (sv_state sv) = (\<lambda>_. None) \<and> length (sv_query_latency sv) = sv_queries_total sv"

lemma execute_query_ok:
  assumes "service_ok sv"
  shows "service_ok (snd (execute_query sha t u req sv)) \<and> sv_queries_total (snd (execute_query sha t u req sv)) = sv_queries_total sv + 1
    \<and> es_query_count (sv_state (snd (execute_query sha t u req sv)))
      = (if is_blank (qr_prompt req) then es_query_count (sv_state sv) else saturating_add (es_query_count (sv_state sv)) 1)"
  using assms by (auto simp: execute_query_def service_ok_def lock_state_def observe_query_def Let_def)

text \<open>The service of the router satisfies its invariant after any calls.\<close>

definition router_ok :: "'feed router \<Rightarrow> bool" where
  "router_ok ro = service_ok (ro_service ro)"

lemma router_ok_step: "router_ok ro \<Longrightarrow> router_ok (route sha c ro)"
  using execute_query_ok [of "ro_service ro"] by (cases c) (auto simp: route_admitted router_ok_def split: call.split)

interpretation ro: machine "route sha" "build_router now digest" "router_ok :: 'feed router \<Rightarrow> bool" for sha now digest
  by unfold_locales
    (simp_all add: router_ok_step, simp add: router_ok_def build_router_def service_ok_def enclave_state_new_def)

lemma saturating_add_one: "unat (saturating_add a 1) = min (2 ^ 64 - 1) (unat a + 1)"
proof -
  have "unat a < 2 ^ 64" using unsigned_less [of a, where ?'a = nat] by simp
  moreover have "unat (- 1 :: u64) = 2 ^ 64 - 1" by (simp add: unsigned_minus_1_eq_mask mask_eq_exp_minus_1)
  moreover have "unat (a + 1) = unat a + 1" if "unat a + 1 < 2 ^ 64"
    using that by (simp add: unat_word_ariths)
  ultimately show ?thesis by (auto simp: saturating_add_def)
qed

declare route.simps [simp del]

lemma min_min_add: "min M (min M a + n) = min M (a + n)" for M a n :: nat
  by (simp add: min_def)

lemma route_counts:
  assumes "service_ok (ro_service ro)" "M = 2 ^ 64 - 1"
  shows "sv_queries_total (ro_service (run_ops (route sha) calls ro))
      = sv_queries_total (ro_service ro) + length (filter is_query (admitted (ro_bucket ro) calls))
    \<and> unat (es_query_count (sv_state (ro_service (run_ops (route sha) calls ro))))
      = min M (unat (es_query_count (sv_state (ro_service ro))) + length (filter is_valid_query (admitted (ro_bucket ro) calls)))"
  using assms(1)
proof (induction calls arbitrary: ro)
  case Nil
  have "unat (es_query_count (sv_state (ro_service ro))) \<le> M"
    using unsigned_less [of "es_query_count (sv_state (ro_service ro))", where ?'a = nat] assms(2) by simp
  then show ?case by simp
next
  case (Cons c calls)
  obtain now cl where c: "c = (now, cl)" by fastforce
  let ?ro = "route sha c ro"
  have ok: "service_ok (ro_service ?ro)" using router_ok_step [of ro sha c] Cons.prems by (simp add: router_ok_def)
  note sat = saturating_add_one [folded assms(2)]
  note ih = Cons.IH [OF ok]
  have step: "run_ops (route sha) (c # calls) ro = run_ops (route sha) calls ?ro" by simp
  show ?case
  proof (cases cl)
    case (CallQuery t u req)
    show ?thesis
    proof (cases "fst (try_acquire now (ro_bucket ro))")
      case True
      then have ro: "?ro = ro\<lparr>ro_bucket := snd (try_acquire now (ro_bucket ro)),
          ro_service := snd (execute_query sha t u req (ro_service ro))\<rparr>"
        by (simp add: c CallQuery route_admitted)
      have adm: "admitted (ro_bucket ro) (c # calls) = c # admitted (snd (try_acquire now (ro_bucket ro))) calls"
        using True by (simp add: admitted_Cons c CallQuery)
      have "unat (es_query_count (sv_state (ro_service ?ro)))
          = min M (unat (es_query_count (sv_state (ro_service ro))) + (if is_blank (qr_prompt req) then 0 else 1))"
        using execute_query_ok [OF Cons.prems, of sha t u req] unsigned_less [of "es_query_count (sv_state (ro_service ro))", where ?'a = nat] assms(2)
        by (simp add: ro sat)
      moreover have "sv_queries_total (ro_service ?ro) = sv_queries_total (ro_service ro) + 1"
        "ro_bucket ?ro = snd (try_acquire now (ro_bucket ro))"
        using execute_query_ok [OF Cons.prems, of sha t u req] by (simp_all add: ro)
      ultimately show ?thesis unfolding step adm using ih by (simp add: c CallQuery min_min_add)
    next
      case False
      then have ro: "?ro = ro\<lparr>ro_bucket := snd (try_acquire now (ro_bucket ro))\<rparr>"
        by (simp add: c CallQuery route_admitted)
      have adm: "admitted (ro_bucket ro) (c # calls) = admitted (snd (try_acquire now (ro_bucket ro))) calls"
        using False by (simp add: admitted_Cons c CallQuery)
      show ?thesis unfolding step adm using ih by (simp add: ro)
    qed
  next
    case HealthCheck
    then show ?thesis using ih by (simp add: c admitted_Cons route_admitted)
  qed (use ih in \<open>simp_all add: c admitted_Cons route_admitted\<close>)
qed

text \<open>A burst at one instant.\<close>

lemma admitted_length: "length (admitted b calls) = length (filter id (fst (acquire_all (map fst (limited calls)) b)))"
proof -
  have "length (fst (acquire_all nows b)) = length nows" for nows
    by (induction nows arbitrary: b) (simp_all add: acquire_all_Cons)
  then have l: "length (limited calls) = length (fst (acquire_all (map fst (limited calls)) b))" by simp
  have "length (filter snd (zip xs ys)) = length (filter id ys)" if "length xs = length ys" for xs :: "(nat \<times> call) list" and ys
    using that by (induction xs ys rule: list_induct2) simp_all
  from this [OF l] show ?thesis by (simp add: admitted_def)
qed

lemma admitted_burst:
  assumes "\<forall>c\<in>set calls. fst c = now"
  shows "length (admitted (default_ingress_bucket now) calls) \<le> 100"
proof -
  let ?n = "length (limited calls)"
  have "map fst (limited calls) = replicate ?n now"
    using assms by (intro replicate_eqI) (auto simp: limited_def)
  moreover have "fst (acquire_all (replicate ?n now) (bucket_new now 100 100)) = replicate (min ?n 100) True @ replicate (?n - 100) False"
    by (rule acquire_same_instant [OF bucket_new_ok]) (simp_all add: bucket_new_def of_u64_fnat)
  ultimately show ?thesis
    by (simp add: admitted_length default_ingress_bucket_def DEFAULT_RATE_PER_SEC_def)
qed

text \<open>The token does not depend on what the hardware measured.\<close>

lemma attestation_ignores_report:
  assumes "kernel_ok (ae_kernel env)" "kernel_ok kn"
    and "hardware_report (ae_kernel env) (nonce_to_reportdata (ae_sha env) (bytes_of (ar_nonce req))) = Ok (hardware, report)"
    and "hardware_report kn (nonce_to_reportdata (ae_sha env) (bytes_of (ar_nonce req))) = Ok (hardware, report')"
  shows "get_attestation_token (env\<lparr>ae_kernel := kn\<rparr>) now iid key req sv = get_attestation_token env now iid key req sv"
  using assms(3,4) measurement_zero [OF assms(1,3)] measurement_zero [OF assms(2,4)]
  by (simp add: get_attestation_token_def Let_def cong: if_cong)

section \<open>Instances that meet the assumptions\<close>

definition w_kernel :: kernel where
  "w_kernel = \<lparr>kn_linux = True, kn_os = ''linux'', kn_open = (\<lambda>path. Inr ()), kn_tdx_ioctl = (\<lambda>cmd req. (0, req)),
     kn_snp_ioctl = (\<lambda>cmd mem. (0, mem)), kn_last_error = ''none'', kn_address = (\<lambda>n. 0)\<rparr>"

lemma w_kernel_ok: "kernel_ok w_kernel"
  by (simp add: kernel_ok_def w_kernel_def)

definition w_attest :: "(unit, unit, unit) attest_env" where
  "w_attest = \<lparr>ae_sha = (\<lambda>bs. take 32 (bs @ replicate 32 0)), ae_kernel = w_kernel, ae_cbor = w_cbor, ae_es256 = w_es\<rparr>"

definition w_service :: "unit service" where
  "w_service = \<lparr>sv_state = enclave_state_new 0 (Some ''sha256:ab''), sv_poisoned = False, sv_queries_total = 0, sv_query_latency = []\<rparr>"

section \<open>Properties\<close>

text \<open>A query that is answered had a prompt that is not blank; the output has exactly the words of
  the prompt, single-spaced, so it is its own normal form and depends on nothing else; the
  three digests are those of the document id, the prompt and the output; the proof is empty;
  the query is counted, saturating. Every other query fails with the state unchanged: with an
  invalid argument exactly when the prompt is blank, else because the lock is poisoned.\<close>

lemma execute_query_exact:
  assumes "execute_query sha observed elapsed req sv = (result, sv')"
  shows "(\<forall>resp. result = Ok resp \<longrightarrow> \<not> is_blank (qr_prompt req)
        \<and> split_whitespace (qs_output resp) = split_whitespace (qr_prompt req)
        \<and> deterministic_output (qs_output resp) = qs_output resp
        \<and> (\<forall>p. split_whitespace p = split_whitespace (qr_prompt req) \<longrightarrow> deterministic_output p = qs_output resp)
        \<and> qs_doc_hash resp = sha (bytes_of (qr_document_id req)) \<and> qs_prompt_hash resp = sha (bytes_of (qr_prompt req))
        \<and> qs_output_hash resp = sha (bytes_of (qs_output resp)) \<and> qs_proof resp = []
        \<and> unat (es_query_count (sv_state sv')) = min (2 ^ 64 - 1) (unat (es_query_count (sv_state sv)) + 1))
    \<and> (\<forall>e. result = Err e \<longrightarrow> sv_state sv' = sv_state sv
        \<and> e = (if is_blank (qr_prompt req) then InvalidArgument ''prompt must not be empty''
               else Internal ''enclave state lock poisoned''))"
  using assms by (auto simp: execute_query_def lock_state_def observe_query_def Let_def output_words output_idempotent
      output_eq_iff saturating_add_one split: if_splits)

lemma execute_query_exact_witness:
  "\<exists>resp sv'. execute_query id 1 2 \<lparr>qr_document_id = ''d'', qr_prompt = '' what   is it '', qr_encrypted_payload = []\<rparr> w_service
      = (Ok resp, sv') \<and> split_whitespace (qs_output resp) = [''what'', ''is'', ''it'']"
proof -
  let ?req = "\<lparr>qr_document_id = ''d'', qr_prompt = '' what   is it '', qr_encrypted_payload = []\<rparr>"
  have w: "split_whitespace '' what   is it '' = [''what'', ''is'', ''it'']"
    unfolding split_whitespace_def by code_simp
  then have "\<not> is_blank (qr_prompt ?req)" by (simp add: is_blank_words)
  then obtain resp sv' where r: "execute_query id 1 2 ?req w_service = (Ok resp, sv')"
    by (simp add: execute_query_def lock_state_def w_service_def Let_def)
  from execute_query_exact [OF r] w r show ?thesis by auto
qed

text \<open>C12: a token is issued only with hardware behind it and is the one the caller asked for: the device
  answered with a report for exactly the digest of the nonce, the image digest is the
  configured one, and the token verifies offline under the signing key with that digest and
  the nonce's digest in hexadecimal, naming the device. But it is the token with 32 zero
  bytes for its measurement, whatever the report says.\<close>

theorem attestation_token_exact:
  assumes "cbor_ok (ae_cbor env)" "es256_ok (ae_es256 env)" "kernel_ok (ae_kernel env)" "\<forall>bs. length (ae_sha env bs) = 32"
    and "uint t < 2 ^ 63" "get_attestation_token env (Some t) iid key req sv = Ok resp"
  shows "\<exists>report. hardware_report (ae_kernel env) (ae_sha env (bytes_of (ar_nonce req)) @ replicate 32 0) = Ok (as_hardware resp, report)
    \<and> \<not> is_blank (ar_nonce req) \<and> as_image_digest resp = es_image_digest (sv_state sv)
    \<and> (let nonce = bytes_of (sha256_hex (ae_sha env) (bytes_of (ar_nonce req)))
       in verify_eat (ae_cbor env) (ae_es256 env) (as_eat_token resp) (es_public (ae_es256 env) key) ''CONFIDENTIAL_SPACE''
            (Some (as_image_digest resp)) (Some nonce)
          = Ok \<lparr>ve_nonce = nonce, ve_swname = ''CONFIDENTIAL_SPACE'', ve_image_digest = as_image_digest resp,
              ve_hardware = as_hardware resp, ve_iat = t\<rparr>
        \<and> build_eat (ae_cbor env) (ae_es256 env) \<lparr>ec_nonce = nonce, ec_swname = ''CONFIDENTIAL_SPACE'', ec_image_digest = as_image_digest resp,
            ec_hardware = as_hardware resp, ec_instance_id = iid, ec_iat = t, ec_measurements = [replicate 32 0]\<rparr> key
          = Ok (as_eat_token resp))"
proof -
  let ?h = "ae_sha env (bytes_of (ar_nonce req))"
  let ?nonce = "bytes_of (sha256_hex (ae_sha env) (bytes_of (ar_nonce req)))"
  have rd: "nonce_to_reportdata (ae_sha env) (bytes_of (ar_nonce req)) = ?h @ replicate 32 0"
    using assms(4) by (simp add: nonce_to_reportdata_def Let_def TDX_REPORTDATA_LEN_def)
  have "\<not> is_blank (ar_nonce req)" using assms(6) by (auto simp: get_attestation_token_def)
  with assms(6) obtain hardware report where hw: "hardware_report (ae_kernel env) (?h @ replicate 32 0) = Ok (hardware, report)"
    by (auto simp: get_attestation_token_def Let_def rd split: sum.splits)
  note z = measurement_zero [OF assms(3) hw]
  let ?c = "\<lparr>ec_nonce = ?nonce, ec_swname = ''CONFIDENTIAL_SPACE'', ec_image_digest = es_image_digest (sv_state sv),
      ec_hardware = hardware, ec_instance_id = iid, ec_iat = t, ec_measurements = [replicate 32 0]\<rparr>"
  have b: "build_eat (ae_cbor env) (ae_es256 env) ?c key = Ok (as_eat_token resp)"
    "as_hardware resp = hardware" "as_image_digest resp = es_image_digest (sv_state sv)"
    using assms(6) \<open>\<not> is_blank (ar_nonce req)\<close> hw z
    by (auto simp: get_attestation_token_def Let_def rd res_simps lock_state_def DEFAULT_SWNAME_def split: if_splits)
  have "\<not> is_blank (ec_swname ?c)" "\<not> is_blank (ec_image_digest ?c)" using b(1) by (simp_all add: build_eat_Ok)
  from built_verifies_all [OF assms(1,2) b(1), of "''CONFIDENTIAL_SPACE''" "Some (es_image_digest (sv_state sv))" "Some ?nonce"]
  have "verify_eat (ae_cbor env) (ae_es256 env) (as_eat_token resp) (es_public (ae_es256 env) key) ''CONFIDENTIAL_SPACE''
      (Some (es_image_digest (sv_state sv))) (Some ?nonce) = expected_verdict ?c ''CONFIDENTIAL_SPACE'' (Some (es_image_digest (sv_state sv))) (Some ?nonce)" .
  moreover have "?nonce \<noteq> []"
  proof
    assume "?nonce = []"
    then have "hex_encode ?h = hex_encode []" by (simp add: sha256_hex_def bytes_of_def hex_encode_def)
    then have "?h = []" by (rule hex_encode_inject)
    with assms(4) show False by (metis length_0_conv zero_neq_numeral)
  qed
  ultimately show ?thesis using b hw \<open>\<not> is_blank (ar_nonce req)\<close> assms(5)
    by (intro exI [of _ report]) (simp add: expected_verdict_def Let_def)
qed

lemma w_attest_report: "hardware_report w_kernel rd = Ok (''intel-tdx'', replicate 1024 0)"
  by (simp add: hardware_report_def get_tdreport_def w_kernel_def TDX_REPORT_LEN_def)

lemma w_attest_issues:
  "\<exists>resp. get_attestation_token w_attest (Some 5) (replicate 16 7) () \<lparr>ar_nonce = ''n'', ar_audience = []\<rparr> w_service = Ok resp"
proof -
  let ?req = "\<lparr>ar_nonce = ''n'', ar_audience = []\<rparr>"
  have nb: "\<not> is_blank ''n''" "\<not> is_blank ''sha256:ab''" "\<not> is_blank ''CONFIDENTIAL_SPACE''"
    unfolding is_blank_words split_whitespace_def by code_simp+
  let ?c = "\<lparr>ec_nonce = bytes_of (sha256_hex (ae_sha w_attest) (bytes_of ''n'')), ec_swname = DEFAULT_SWNAME,
      ec_image_digest = ''sha256:ab'', ec_hardware = ''intel-tdx'', ec_instance_id = replicate 16 7, ec_iat = 5,
      ec_measurements = [measurement_of (replicate 1024 0)]\<rparr>"
  have "\<not> is_blank (ec_swname ?c)" "\<not> is_blank (ec_image_digest ?c)" using nb by (simp_all add: DEFAULT_SWNAME_def)
  from build_eat_total [OF w_cbor_ok this, of w_es "()"] obtain token where "build_eat w_cbor w_es ?c () = Ok token" by blast
  then show "\<exists>resp. get_attestation_token w_attest (Some 5) (replicate 16 7) () ?req w_service = Ok resp"
    using nb w_attest_report by (simp add: get_attestation_token_def w_attest_def w_service_def lock_state_def enclave_state_new_def Let_def)
qed

theorem attestation_token_exact_witness:
  "\<exists>resp report. get_attestation_token w_attest (Some 5) (replicate 16 7) () \<lparr>ar_nonce = ''n'', ar_audience = []\<rparr> w_service = Ok resp
    \<and> hardware_report w_kernel (bytes_of ''n'' @ replicate 63 0) = Ok (as_hardware resp, report) \<and> as_image_digest resp = ''sha256:ab''"
proof -
  let ?req = "\<lparr>ar_nonce = ''n'', ar_audience = []\<rparr>"
  obtain resp where r: "get_attestation_token w_attest (Some 5) (replicate 16 7) () ?req w_service = Ok resp"
    using w_attest_issues by blast
  have a: "cbor_ok (ae_cbor w_attest)" "es256_ok (ae_es256 w_attest)" "kernel_ok (ae_kernel w_attest)"
    "\<forall>bs. length (ae_sha w_attest bs) = 32" "uint (5 :: u64) < 2 ^ 63"
    by (simp_all add: w_attest_def w_cbor_ok w_es_ok w_kernel_ok) arith
  from attestation_token_exact [OF a r] obtain report where
    "hardware_report (ae_kernel w_attest) (ae_sha w_attest (bytes_of ''n'') @ replicate 32 0) = Ok (as_hardware resp, report)"
    "as_image_digest resp = es_image_digest (sv_state w_service)" by auto
  with r w_attest_report show ?thesis by (simp add: w_attest_def w_service_def enclave_state_new_def)
qed

text \<open>C39: the router counts exactly what it served: whatever calls arrive, the telemetry counter is the
  number of queries the limiter admitted and the state's counter, up to saturation, the
  number of those with a prompt that is not blank; health checks are not limited; no call
  poisons the lock; and a burst of calls at the start executes at most a hundred queries.\<close>

theorem router_counts:
  fixes calls now digest sha
  defines "ro \<equiv> run_ops (route sha) calls (build_router now digest :: 'feed router)"
    and "served \<equiv> admitted (default_ingress_bucket now) calls"
  shows "sv_queries_total (ro_service ro) = length (filter is_query served)
    \<and> unat (es_query_count (sv_state (ro_service ro))) = min (2 ^ 64 - 1) (length (filter is_valid_query served))
    \<and> length (sv_query_latency (ro_service ro)) = sv_queries_total (ro_service ro) \<and> \<not> sv_poisoned (ro_service ro)
    \<and> ((\<forall>c\<in>set calls. fst c = now) \<longrightarrow> sv_queries_total (ro_service ro) \<le> 100)"
proof -
  have ok: "service_ok (ro_service (build_router now digest :: 'feed router))" and ok': "service_ok (ro_service ro)"
    using ro.inv_init [of now digest] ro.inv_run [of sha calls now digest] by (simp_all add: router_ok_def ro_def)
  note c = route_counts [OF ok refl, of sha calls]
  have z: "sv_queries_total (ro_service (build_router now digest :: 'feed router)) = 0"
    "es_query_count (sv_state (ro_service (build_router now digest :: 'feed router))) = 0"
    "ro_bucket (build_router now digest :: 'feed router) = default_ingress_bucket now"
    by (simp_all add: build_router_def enclave_state_new_def)
  have total: "sv_queries_total (ro_service ro) = length (filter is_query served)"
    "unat (es_query_count (sv_state (ro_service ro))) = min (2 ^ 64 - 1) (length (filter is_valid_query served))"
    using c by (simp_all add: z ro_def served_def)
  moreover have "sv_queries_total (ro_service ro) \<le> 100" if "\<forall>c\<in>set calls. fst c = now"
    using order_trans [OF length_filter_le [of is_query] admitted_burst [OF that]] total(1) by (simp only: served_def)
  ultimately show ?thesis using ok' by (simp add: service_ok_def)
qed

theorem router_counts_witness:
  "sv_queries_total (ro_service (run_ops (route id) (replicate 5 (7, CallAttest \<lparr>ar_nonce = ''n'', ar_audience = []\<rparr>))
      (build_router 7 None :: unit router))) \<le> 100"
proof -
  have "\<forall>c\<in>set (replicate 5 (7 :: nat, CallAttest \<lparr>ar_nonce = ''n'', ar_audience = []\<rparr>)). fst c = 7" by simp
  with router_counts [where ?'feed = unit, of id "replicate 5 (7, CallAttest \<lparr>ar_nonce = ''n'', ar_audience = []\<rparr>)" 7 None]
  show ?thesis by blast
qed

text \<open>The feed stream holds the cached values of the requested feeds in the order of the request,
  unknown feeds skipped, and ends after the sixty-fourth whatever the caller's limit; and the
  cache of a running service is always empty.\<close>

lemma stream_feeds_exact:
  "stream_ftso_feeds req sv = (if sv_poisoned sv then Err (Internal ''enclave state lock poisoned'')
      else Ok (take 64 (List.map_filter (es_feeds (sv_state sv)) (fr_feed_ids req))))
    \<and> stream_ftso_feeds req (ro_service (run_ops (route sha) calls (build_router now digest :: 'feed router))) = Ok []"
proof -
  have e: "stream_ftso_feeds req sv = (if sv_poisoned sv then Err (Internal ''enclave state lock poisoned'')
      else Ok (take 64 (List.map_filter (es_feeds (sv_state sv)) (fr_feed_ids req))))" for sv :: "'f service"
    using send_feeds_eq [of "[]" "sv_state sv" "fr_feed_ids req"]
    by (simp add: stream_ftso_feeds_def lock_state_def CHANNEL_CAPACITY_def)
  have "service_ok (ro_service (run_ops (route sha) calls (build_router now digest :: 'feed router)))"
    using ro.inv_run [of sha calls now digest] by (simp add: router_ok_def)
  then have "stream_ftso_feeds req (ro_service (run_ops (route sha) calls (build_router now digest :: 'feed router))) = Ok []"
    by (simp add: e service_ok_def List.map_filter_def)
  then show ?thesis using e by blast
qed

end
