(* ===== verification/TlsServer.thy ===== *)
theory TlsServer
  imports Prelude
begin

text \<open>
  \<open>tls_config.rs\<close>: loading the server identity and the client authorities. Files, PEM parsing and
  rustls are parameters.
\<close>

section \<open>The configuration\<close>

datatype tls_config_error = TlsIo string | Rustls string | MissingCertChain | MissingPrivateKey | MissingClientCa

fun tls_config_error_display :: "tls_config_error \<Rightarrow> string" where
  "tls_config_error_display (TlsIo e) = ''io error: '' @ e"
| "tls_config_error_display (Rustls e) = ''rustls error: '' @ e"
| "tls_config_error_display MissingCertChain = ''no certificate found in cert file''"
| "tls_config_error_display MissingPrivateKey = ''no private key found in key file''"
| "tls_config_error_display MissingClientCa = ''no CA certificates found in client CA file''"

datatype pem_item = X509Certificate bytes | PKCS8Key bytes | RSAKey bytes | ECKey bytes | OtherPem

record server_config =
  sc_certs :: "bytes list"
  sc_key :: bytes
  sc_client_roots :: "bytes list"

text \<open>Reading a file as PEM items; accepting a root certificate; accepting a chain with its key.\<close>

record tls_lib =
  tl_read_pem :: "string \<Rightarrow> string + pem_item list"
  tl_add_root :: "bytes \<Rightarrow> string + unit"
  tl_single_cert :: "bytes list \<Rightarrow> bytes \<Rightarrow> string + unit"

definition read_pem_items :: "tls_lib \<Rightarrow> string \<Rightarrow> tls_config_error + pem_item list" where
  "read_pem_items lib path = map_err TlsIo (tl_read_pem lib path)"

fun cert_of :: "pem_item \<Rightarrow> bytes option" where
  "cert_of (X509Certificate der) = Some der"
| "cert_of _ = None"

fun key_of :: "pem_item \<Rightarrow> bytes option" where
  "key_of (PKCS8Key der) = Some der"
| "key_of (RSAKey der) = Some der"
| "key_of (ECKey der) = Some der"
| "key_of _ = None"

fun first_key :: "pem_item list \<Rightarrow> bytes option" where
  "first_key [] = None"
| "first_key (i # items) = (case key_of i of Some k \<Rightarrow> Some k | None \<Rightarrow> first_key items)"

fun add_roots :: "tls_lib \<Rightarrow> pem_item list \<Rightarrow> bytes list \<Rightarrow> tls_config_error + bytes list" where
  "add_roots lib [] roots = Ok roots"
| "add_roots lib (i # items) roots =
     (case cert_of i of
        None \<Rightarrow> add_roots lib items roots
      | Some der \<Rightarrow> res_bind (map_err Rustls (tl_add_root lib der)) (\<lambda>_. add_roots lib items (roots @ [der])))"

definition load_server_config :: "tls_lib \<Rightarrow> string \<Rightarrow> string \<Rightarrow> string \<Rightarrow> tls_config_error + server_config" where
  "load_server_config lib cert_path key_path client_ca_path =
     res_bind (read_pem_items lib cert_path) (\<lambda>cert_items.
     let certs = List.map_filter cert_of cert_items in
     if certs = [] then Err MissingCertChain
     else res_bind (read_pem_items lib key_path) (\<lambda>key_items.
     res_bind (ok_or MissingPrivateKey (first_key key_items)) (\<lambda>key.
     res_bind (read_pem_items lib client_ca_path) (\<lambda>ca_items.
     res_bind (add_roots lib ca_items []) (\<lambda>roots.
     if roots = [] then Err MissingClientCa
     else res_bind (map_err Rustls (tl_single_cert lib certs key)) (\<lambda>_.
     Ok \<lparr>sc_certs = certs, sc_key = key, sc_client_roots = roots\<rparr>))))))"

text \<open>\<open>TlsAcceptor::from\<close> keeps the configuration; the handshake itself is rustls.\<close>

datatype tls_acceptor = TlsAcceptor server_config

definition tls_acceptor :: "server_config \<Rightarrow> tls_acceptor" where
  "tls_acceptor config = TlsAcceptor config"

section \<open>Lemmas\<close>

lemma map_filter_set: "y \<in> set (List.map_filter f xs) \<longleftrightarrow> (\<exists>x\<in>set xs. f x = Some y)"
  by (force simp: List.map_filter_def)

lemma first_key_Some: "first_key items = Some k \<Longrightarrow> \<exists>i\<in>set items. key_of i = Some k"
  by (induction items) (auto split: option.splits)

lemma add_roots_Ok: "add_roots lib items roots = Ok rs \<longleftrightarrow>
    rs = roots @ List.map_filter cert_of items \<and> (\<forall>der\<in>set (List.map_filter cert_of items). tl_add_root lib der = Ok ())"
proof (induction items arbitrary: roots)
  case (Cons i items)
  show ?case
  proof (cases "cert_of i")
    case (Some der)
    then show ?thesis by (auto simp: res_simps Cons.IH)
  qed (simp add: Cons.IH)
qed auto

lemma load_server_config_Ok: "load_server_config lib cert key ca = Ok config \<Longrightarrow>
    sc_certs config \<noteq> [] \<and> sc_client_roots config \<noteq> [] \<and> tl_single_cert lib (sc_certs config) (sc_key config) = Ok ()
    \<and> (\<exists>items. tl_read_pem lib ca = Ok items \<and> sc_client_roots config = List.map_filter cert_of items)
    \<and> (\<forall>der\<in>set (sc_client_roots config). tl_add_root lib der = Ok ())"
  by (auto simp: load_server_config_def read_pem_items_def res_simps add_roots_Ok Let_def split: if_splits)

end
