(* ===== verification/Telemetry.thy ===== *)
theory Telemetry
  imports FtsoNodeProps
begin

text \<open>
  \<open>metrics.rs\<close> and the telemetry task of \<open>main_grpc.rs\<close>: the metrics and their registration, the HTTP
  service, and the task that mirrors the provider node into them, interleaved with the
  node's own steps. The registry and the text encoder are parameters.
\<close>

section \<open>Metrics\<close>

record 'r metrics =
  mx_registry :: 'r
  mx_queries_total :: u64
  mx_query_latency :: "(string \<times> f64) list"
  mx_ftso_submissions_total :: u64
  mx_ftso_reconnects_total :: u64
  mx_ftso_feed_stale :: int
  mx_ftso_feed_price_usd :: "string \<Rightarrow> f64 option"
  mx_ftso_feed_exchanges :: "string \<Rightarrow> f64 option"

text \<open>
  The registry of the prometheus crate: a new one, and registering a collector under its name. Names
  that are not taken can be registered.
\<close>

record 'r prometheus =
  pm_new :: 'r
  pm_register :: "string \<Rightarrow> 'r \<Rightarrow> string + 'r"

definition prometheus_ok :: "'r prometheus \<Rightarrow> bool" where
  "prometheus_ok pm \<longleftrightarrow> (\<exists>taken. taken (pm_new pm) = {} \<and> (\<forall>name r. name \<notin> taken r \<longrightarrow>
     (\<exists>r'. pm_register pm name r = Ok r' \<and> taken r' = insert name (taken r))))"

text \<open>A failure of a registration is turned into a panic, \<open>None\<close>.\<close>

fun register_all :: "'r prometheus \<Rightarrow> string list \<Rightarrow> 'r \<Rightarrow> 'r option" where
  "register_all pm [] registry = Some registry"
| "register_all pm (name # names) registry =
     (case pm_register pm name registry of Inl e \<Rightarrow> None | Inr registry \<Rightarrow> register_all pm names registry)"

definition metric_names :: "string list" where
  "metric_names = [''enclave_query_total'', ''enclave_query_seconds'', ''ftso_submissions_total'',
     ''ftso_ws_reconnects_total'', ''ftso_feed_stale'', ''ftso_feed_price_usd'', ''ftso_feed_exchanges'']"

definition metrics_new :: "'r prometheus \<Rightarrow> 'r metrics option" where
  "metrics_new pm = map_option (\<lambda>registry. \<lparr>mx_registry = registry, mx_queries_total = 0, mx_query_latency = [],
     mx_ftso_submissions_total = 0, mx_ftso_reconnects_total = 0, mx_ftso_feed_stale = 0,
     mx_ftso_feed_price_usd = (\<lambda>_. None), mx_ftso_feed_exchanges = (\<lambda>_. None)\<rparr>) (register_all pm metric_names (pm_new pm))"

text \<open>The process-wide handle is made at its first use.\<close>

definition metrics_global :: "'r prometheus \<Rightarrow> 'r metrics option \<Rightarrow> 'r metrics option" where
  "metrics_global pm cell = (case cell of Some mx \<Rightarrow> Some mx | None \<Rightarrow> metrics_new pm)"

definition metrics_service :: "('r metrics \<Rightarrow> string) \<Rightarrow> 'r metrics \<Rightarrow> string \<Rightarrow> nat \<times> (string \<times> string) list \<times> string" where
  "metrics_service render mx path =
     (if path = ''/metrics'' then (200, [(''content-type'', ''text/plain; version=0.0.4'')], render mx)
      else (404, [], ''not found''))"

section \<open>The mirror\<close>

definition saturating_sub :: "u64 \<Rightarrow> u64 \<Rightarrow> u64" where
  "saturating_sub a b = (if b \<le> a then a - b else 0)"

text \<open>One tick: the counter is given the difference to the last total; \<open>None\<close> is the panic of a snapshot.\<close>

definition mirror_tick :: "(string \<Rightarrow> exchange_id list) \<Rightarrow> node \<Rightarrow> u64 \<times> 'r metrics \<Rightarrow> (u64 \<times> 'r metrics) option" where
  "mirror_tick orders nd lm =
     (case lm of (last_reconnects, mx) \<Rightarrow>
       let total = reconnects_total nd;
           mx = mx\<lparr>mx_ftso_reconnects_total := mx_ftso_reconnects_total mx + saturating_sub total last_reconnects\<rparr>;
           mx = mx\<lparr>mx_ftso_feed_stale := (if is_stale nd then 1 else 0)\<rparr>
       in map_option (\<lambda>prices. (total, mx\<lparr>
            mx_ftso_feed_price_usd := (\<lambda>feed. case prices feed of Some (price, n) \<Rightarrow> Some price | None \<Rightarrow> mx_ftso_feed_price_usd mx feed),
            mx_ftso_feed_exchanges := (\<lambda>feed. case prices feed of Some (price, n) \<Rightarrow> Some (of_u64 n) | None \<Rightarrow> mx_ftso_feed_exchanges mx feed)\<rparr>))
          (snapshot orders nd))"

type_synonym 'r process = "daemon \<times> u64 \<times> 'r metrics"

inductive process_step :: "(string \<Rightarrow> json option) \<Rightarrow> 'r process \<Rightarrow> 'r process \<Rightarrow> bool" for json_of where
  node_step: "daemon_step json_of d d' \<Longrightarrow> process_step json_of (d, lm) (d', lm)"
| mirror: "mirror_tick orders (dm_node d) lm = Some lm' \<Longrightarrow> process_step json_of (d, lm) (d, lm')"

section \<open>Lemmas\<close>

lemma register_all_ok:
  assumes "\<forall>name r. name \<notin> taken r \<longrightarrow> (\<exists>r'. pm_register pm name r = Ok r' \<and> taken r' = insert name (taken r))"
    and "distinct names" "set names \<inter> taken r = {}"
  shows "\<exists>r'. register_all pm names r = Some r' \<and> taken r' = set names \<union> taken r"
  using assms(2,3)
proof (induction names arbitrary: r)
  case (Cons name names)
  then obtain r1 where "pm_register pm name r = Ok r1" "taken r1 = insert name (taken r)" using assms(1) by force
  then show ?case using Cons.IH [of r1] Cons.prems by auto
qed simp

text \<open>The names are different, so the metrics are made without a panic.\<close>

lemma metrics_new_ok: "prometheus_ok pm \<Longrightarrow> \<exists>mx. metrics_new pm = Some mx"
proof -
  assume "prometheus_ok pm"
  then obtain taken where t: "taken (pm_new pm) = {}"
    "\<forall>name r. name \<notin> taken r \<longrightarrow> (\<exists>r'. pm_register pm name r = Ok r' \<and> taken r' = insert name (taken r))"
    unfolding prometheus_ok_def by blast
  have "distinct metric_names" by (simp add: metric_names_def)
  with register_all_ok [OF t(2), of metric_names "pm_new pm"] t(1) show ?thesis by (auto simp: metrics_new_def)
qed

text \<open>An entry of the book is replaced, never removed: an exchange that once sent a ticker counts from
  then on, connected or not.\<close>

lemma stream_ended_frame:
  "nd_book (dm_node (stream_ended e tk r d)) = nd_book (dm_node d)"
  "nd_reconnects (dm_node (stream_ended e tk r d)) = nd_reconnects (dm_node d)
    \<or> nd_reconnects (dm_node (stream_ended e tk r d)) = nd_reconnects (dm_node d) + 1"
  by (cases r; simp add: stream_ended_def loop_round_def)+

lemma daemon_step_keeps: "daemon_step json_of d d' \<Longrightarrow> nd_book (dm_node d) feed ex \<noteq> None \<Longrightarrow> nd_book (dm_node d') feed ex \<noteq> None"
proof (induction rule: daemon_step.induct)
  case (receive d e tk msg)
  then show ?case by (auto simp: message_in_def on_message_def book_upsert_def split: option.split)
next
  case (ended d e tk r conn sent items book)
  from ended.prems show ?case by (simp add: stream_ended_frame(1))
qed (auto simp: set_phase_def monitor_tick_frame)

lemma length_filter_mono: "\<forall>x. P x \<longrightarrow> Q x \<Longrightarrow> length (filter P xs) \<le> length (filter Q xs)"
  by (induction xs) auto

lemma live_never_decreases:
  assumes "(daemon_step json_of)\<^sup>*\<^sup>* d d'"
  shows "live_exchanges order feed (dm_node d) \<le> live_exchanges order feed (dm_node d')"
proof -
  have "nd_book (dm_node d') feed ex \<noteq> None" if "nd_book (dm_node d) feed ex \<noteq> None" for ex
    using assms
  proof (induction rule: rtranclp_induct)
    case (step y z)
    show ?case by (rule daemon_step_keeps [OF step.hyps(2) step.IH])
  qed (rule that)
  then have "\<forall>ex. nd_book (dm_node d) feed ex \<noteq> None \<longrightarrow> nd_book (dm_node d') feed ex \<noteq> None" by blast
  then show ?thesis unfolding live_exchanges_def book_observations_def length_map_filter option.map_disc_iff
    by (rule length_filter_mono)
qed

text \<open>A step of the daemon adds at most one reconnect.\<close>

lemma daemon_step_reconnects: "daemon_step json_of d d' \<Longrightarrow>
    nd_reconnects (dm_node d') = nd_reconnects (dm_node d) \<or> nd_reconnects (dm_node d') = nd_reconnects (dm_node d) + 1"
proof (induction rule: daemon_step.induct)
  case (ended d e tk r conn sent items book)
  show ?case by (rule stream_ended_frame(2))
qed (auto simp: set_phase_def monitor_tick_frame message_in_def)

definition mirrored :: "nat \<Rightarrow> 'r process \<Rightarrow> bool" where
  "mirrored n p = (case p of (d, prev, mx) \<Rightarrow> daemon_ok d \<and> unat (nd_reconnects (dm_node d)) \<le> n
     \<and> prev \<le> nd_reconnects (dm_node d) \<and> mx_ftso_reconnects_total mx = prev)"

lemma mirror_tick_Some: "mirror_tick orders nd (prev, mx) = Some (prev', mx') \<Longrightarrow>
    prev' = nd_reconnects nd \<and> mx_ftso_reconnects_total mx' = mx_ftso_reconnects_total mx + saturating_sub (nd_reconnects nd) prev"
  by (auto simp: mirror_tick_def reconnects_total_def Let_def)

lemma mirrored_step:
  assumes "process_step json_of p q" "mirrored n p" "Suc n < 2 ^ 64" "\<forall>text v. json_of text = Some v \<longrightarrow> json_ok v"
  shows "mirrored (Suc n) q"
  using assms(1)
proof (cases rule: process_step.cases)
  case (node_step d d' lm)
  obtain prev mx where lm: "lm = (prev, mx)" by fastforce
  let ?r = "nd_reconnects (dm_node d)"
  have m: "daemon_ok d" "unat ?r \<le> n" "prev \<le> ?r" "mx_ftso_reconnects_total mx = prev"
    using assms(2) by (auto simp: mirrored_def node_step(1) lm)
  have "unat (?r + 1) = unat ?r + 1" using m(2) assms(3) by (simp add: unat_word_ariths)
  then have "unat (nd_reconnects (dm_node d')) \<le> Suc n \<and> prev \<le> nd_reconnects (dm_node d')"
    using daemon_step_reconnects [OF node_step(3)] m(2,3) by (auto simp: word_le_nat_alt)
  moreover have "daemon_ok d'" using daemon_step_ok [OF node_step(3) m(1) assms(4)] .
  ultimately show ?thesis using m(4) by (simp add: mirrored_def node_step(2) lm)
next
  case (mirror orders d lm lm')
  obtain prev mx prev' mx' where lm: "lm = (prev, mx)" "lm' = (prev', mx')" by fastforce
  have m: "daemon_ok d" "unat (nd_reconnects (dm_node d)) \<le> n" "prev \<le> nd_reconnects (dm_node d)" "mx_ftso_reconnects_total mx = prev"
    using assms(2) by (auto simp: mirrored_def mirror(1) lm)
  from mirror_tick_Some [OF mirror(3) [unfolded lm]] m show ?thesis
    by (simp add: mirrored_def mirror(2) lm saturating_sub_def)
qed

lemma mirrored_run:
  assumes "(process_step json_of ^^ n) (daemon_start now sa exchs, 0, mx) p" "n < 2 ^ 64"
    and "\<forall>text v. json_of text = Some v \<longrightarrow> json_ok v" "mx_ftso_reconnects_total mx = 0"
  shows "mirrored n p"
  using assms(1,2)
proof (induction n arbitrary: p)
  case 0
  then show ?case using assms(4) daemon_start_ok by (auto simp: mirrored_def daemon_start_def provider_new_def)
next
  case (Suc n)
  then obtain q where "(process_step json_of ^^ n) (daemon_start now sa exchs, 0, mx) q" "process_step json_of q p" by auto
  moreover have "n < 2 ^ 64" using Suc.prems(2) by linarith
  ultimately have "mirrored n q" using Suc.IH by blast
  with mirrored_step [OF \<open>process_step json_of q p\<close> this Suc.prems(2) assms(3)] show ?case by simp
qed

text \<open>C31: the telemetry is exact as of its last tick: after any interleaving of fewer than \<open>2 ^ 64\<close> steps of
  the node's tasks and of the mirror the counter equals the total at the last tick, so it never
  runs ahead and never loses an event; and the next tick cannot panic: it brings the counter to
  the node's total, the flag to the node's, and every feed with an observation to the
  snapshot's price and number of exchanges.\<close>

theorem telemetry_exact:
  assumes "\<forall>text v. json_of text = Some v \<longrightarrow> json_ok v" "metrics_new pm = Some mx0" "n < 2 ^ 64"
    and "(process_step json_of ^^ n) (daemon_start now sa exchs, 0, mx0) (d, prev, mx)"
  shows "mx_ftso_reconnects_total mx = prev \<and> prev \<le> nd_reconnects (dm_node d)
    \<and> (\<exists>mx' prices. mirror_tick orders (dm_node d) (prev, mx) = Some (nd_reconnects (dm_node d), mx')
        \<and> mx_ftso_reconnects_total mx' = nd_reconnects (dm_node d) \<and> mx_ftso_feed_stale mx' = (if nd_stale (dm_node d) then 1 else 0)
        \<and> snapshot orders (dm_node d) = Some prices
        \<and> (\<forall>feed price k. prices feed = Some (price, k) \<longrightarrow>
             mx_ftso_feed_price_usd mx' feed = Some price \<and> mx_ftso_feed_exchanges mx' feed = Some (of_u64 k)))"
proof -
  have z: "mx_ftso_reconnects_total mx0 = 0" using assms(2) by (auto simp: metrics_new_def)
  have m: "daemon_ok d" "prev \<le> nd_reconnects (dm_node d)" "mx_ftso_reconnects_total mx = prev"
    using mirrored_run [OF assms(4,3,1) z] by (auto simp: mirrored_def)
  have "distinct FEEDS" by code_simp
  then obtain prices where p: "snapshot orders (dm_node d) = Some prices"
    using snapshot_from_spec [of orders "nd_book (dm_node d)" FEEDS] observations_ok [of "dm_now d" "nd_book (dm_node d)"] m(1)
    unfolding snapshot_def daemon_ok_def by blast
  obtain mx' where t: "mirror_tick orders (dm_node d) (prev, mx) = Some (nd_reconnects (dm_node d), mx')"
    "mx_ftso_reconnects_total mx' = prev + saturating_sub (nd_reconnects (dm_node d)) prev"
    "mx_ftso_feed_stale mx' = (if nd_stale (dm_node d) then 1 else 0)"
    "\<forall>feed price k. prices feed = Some (price, k) \<longrightarrow>
       mx_ftso_feed_price_usd mx' feed = Some price \<and> mx_ftso_feed_exchanges mx' feed = Some (of_u64 k)"
    using p by (auto simp: mirror_tick_def reconnects_total_def Let_def is_stale_def m(3))
  have "mx_ftso_reconnects_total mx' = nd_reconnects (dm_node d)" using t(2) m(2) by (simp add: saturating_sub_def)
  with m t p show ?thesis by blast
qed

definition w_prometheus :: "string list prometheus" where
  "w_prometheus = \<lparr>pm_new = [], pm_register = (\<lambda>name names. if name \<in> set names then Err name else Ok (name # names))\<rparr>"

lemma w_prometheus_ok: "prometheus_ok w_prometheus"
  by (auto simp: prometheus_ok_def w_prometheus_def intro!: exI [of _ set])

theorem telemetry_exact_witness:
  "\<exists>d mx0 mx'. metrics_new w_prometheus = Some mx0 \<and> process_step w_json (daemon_start 7 5 [Coinbase], 0, mx0) (d, 0, mx0)
    \<and> mirror_tick (\<lambda>_. all_exchanges) (dm_node d) (0, mx0) = Some (1, mx') \<and> mx_ftso_reconnects_total mx' = 1"
proof -
  obtain mx0 where m: "metrics_new w_prometheus = Some mx0" using metrics_new_ok [OF w_prometheus_ok] by blast
  let ?d0 = "daemon_start 7 5 [Coinbase]" and ?tk = "\<lparr>tk_backoff = RECONNECT_BASE_DELAY, tk_phase = Trying\<rparr>"
  define d where "d = stream_ended Coinbase ?tk (Err ''refused'') ?d0"
  have "daemon_step w_json ?d0 d" unfolding d_def
    by (rule daemon_step.ended [where conn = "Some (Err ''refused'')" and sent = "Ok ()" and items = "[]" and book = "\<lambda>_ _. None"])
      (simp_all add: daemon_start_def stream_once_def)
  then have s: "process_step w_json (?d0, 0, mx0) (d, 0, mx0)" by (rule process_step.node_step)
  then have run: "(process_step w_json ^^ 1) (?d0, 0, mx0) (d, 0, mx0)" by auto
  have "nd_reconnects (dm_node d) = 1"
    by (simp add: d_def stream_ended_def loop_round_def daemon_start_def provider_new_def)
  moreover have "(1 :: nat) < 2 ^ 64" by simp
  ultimately show ?thesis using telemetry_exact [OF w_json_ok m _ run, of "\<lambda>_. all_exchanges"] s m by auto
qed

end
