(* ===== verification/GrpcMain.thy ===== *)
theory GrpcMain
  imports TlsServer Telemetry
begin

text \<open>
  \<open>main_grpc.rs\<close>: the start of the process as the sequence of its effects, the choice between
  mutual TLS and plaintext, and the stream of connections the router is served with. The
  environment, address parsing, sockets and the handshake are parameters.
\<close>

section \<open>The environment\<close>

text \<open>\<open>std::env::var\<close> fails for a variable that is not set and for one that is not Unicode; \<open>ok()\<close>
  keeps no difference.\<close>

datatype var_result = Value string | NotPresent | NotUnicode

fun var_ok :: "var_result \<Rightarrow> string option" where
  "var_ok (Value v) = Some v"
| "var_ok _ = None"

definition var_or :: "string \<Rightarrow> var_result \<Rightarrow> string" where
  "var_or fallback v = (case var_ok v of Some x \<Rightarrow> x | None \<Rightarrow> fallback)"

text \<open>A handshake that is accepted, rejected, or never finished by the peer.\<close>

datatype 'tls handshake = Accepted 'tls | Rejected string | Pending

record ('level, 'dsn, 'addr, 'conn, 'tls) host =
  ho_var :: "string \<Rightarrow> var_result"
  ho_tls :: tls_lib
  ho_parse_level :: "string \<Rightarrow> 'level option"
  ho_info :: 'level
  ho_parse_dsn :: "string \<Rightarrow> 'dsn option"
  ho_parse_addr :: "string \<Rightarrow> string + 'addr"
  ho_bind :: "'addr \<Rightarrow> string + unit"
  ho_accept :: "(string + 'conn) list"
  ho_handshake :: "tls_acceptor \<Rightarrow> 'conn \<Rightarrow> 'tls handshake"
  ho_serve_tls :: "'tls list \<Rightarrow> string + unit"
  ho_serve_plain :: "'addr \<Rightarrow> string + unit"

section \<open>Serving\<close>

text \<open>
  The \<open>unfold\<close> over the listener: a failed accept ends the stream, a rejected handshake is skipped, and
  a handshake that never ends leaves the loop waiting for it.
\<close>

fun mtls_incoming :: "('conn \<Rightarrow> 'tls handshake) \<Rightarrow> (string + 'conn) list \<Rightarrow> 'tls list" where
  "mtls_incoming accept [] = []"
| "mtls_incoming accept (Inl e # events) = []"
| "mtls_incoming accept (Inr conn # events) =
     (case accept conn of
        Accepted tls_stream \<Rightarrow> tls_stream # mtls_incoming accept events
      | Rejected e \<Rightarrow> mtls_incoming accept events
      | Pending \<Rightarrow> [])"

datatype serve_mode = MutualTls server_config | Plaintext

definition serve_mode_of :: "tls_lib \<Rightarrow> (string \<Rightarrow> var_result) \<Rightarrow> string + serve_mode" where
  "serve_mode_of lib var =
     (case (var_ok (var ''ENCLAVE_TLS_CERT''), var_ok (var ''ENCLAVE_TLS_KEY''), var_ok (var ''ENCLAVE_CLIENT_CA'')) of
        (Some cert, Some key, Some ca) \<Rightarrow>
          res_bind (map_err tls_config_error_display (load_server_config lib cert key ca)) (\<lambda>config. Ok (MutualTls config))
      | (None, None, None) \<Rightarrow> Ok Plaintext
      | _ \<Rightarrow> Err ''set ENCLAVE_TLS_CERT, ENCLAVE_TLS_KEY AND ENCLAVE_CLIENT_CA together'')"

text \<open>The effects of the process, in order, and how it ends.\<close>

datatype ('level, 'dsn, 'addr, 'tls) action = InitLogging 'level | InitSentry "'dsn option" | SetPanicHook
  | SpawnMetrics 'addr | StartProvider | SpawnMirror | BuildRouter | Bind 'addr
  | ServeTls "'tls list" | ServePlain 'addr | ShutdownComplete

datatype ending = ReturnedOk | ReturnedErr string | Panicked

type_synonym ('level, 'dsn, 'addr, 'tls) trace = "('level, 'dsn, 'addr, 'tls) action list \<times> ending"

definition emit :: "('level, 'dsn, 'addr, 'tls) action \<Rightarrow> ('level, 'dsn, 'addr, 'tls) trace \<Rightarrow> ('level, 'dsn, 'addr, 'tls) trace" where
  "emit a t = (a # fst t, snd t)"

definition attempt :: "string + 'a \<Rightarrow> ('a \<Rightarrow> ('level, 'dsn, 'addr, 'tls) trace) \<Rightarrow> ('level, 'dsn, 'addr, 'tls) trace" where
  "attempt r f = (case r of Inl e \<Rightarrow> ([], ReturnedErr e) | Inr x \<Rightarrow> f x)"

definition serve_mtls :: "('level, 'dsn, 'addr, 'conn, 'tls) host \<Rightarrow> 'addr \<Rightarrow> tls_acceptor
    \<Rightarrow> ('level, 'dsn, 'addr, 'tls) trace \<Rightarrow> ('level, 'dsn, 'addr, 'tls) trace" where
  "serve_mtls ho addr acceptor k =
     emit BuildRouter (attempt (ho_bind ho addr) (\<lambda>_. emit (Bind addr)
       (let incoming = mtls_incoming (ho_handshake ho acceptor) (ho_accept ho)
        in emit (ServeTls incoming) (attempt (ho_serve_tls ho incoming) (\<lambda>_. k)))))"

definition serve_plaintext :: "('level, 'dsn, 'addr, 'conn, 'tls) host \<Rightarrow> 'addr
    \<Rightarrow> ('level, 'dsn, 'addr, 'tls) trace \<Rightarrow> ('level, 'dsn, 'addr, 'tls) trace" where
  "serve_plaintext ho addr k =
     emit BuildRouter (emit (ServePlain addr) (attempt (ho_serve_plain ho addr) (\<lambda>_. k)))"

definition log_level :: "('level, 'dsn, 'addr, 'conn, 'tls) host \<Rightarrow> 'level" where
  "log_level ho = (case Option.bind (var_ok (ho_var ho ''RUST_LOG'')) (ho_parse_level ho) of
     Some l \<Rightarrow> l | None \<Rightarrow> ho_info ho)"

text \<open>No DSN is a client that does nothing; one that does not parse is a panic.\<close>

definition sentry_dsn :: "('level, 'dsn, 'addr, 'conn, 'tls) host \<Rightarrow> 'dsn option option" where
  "sentry_dsn ho = (case var_ok (ho_var ho ''SENTRY_DSN'') of
     None \<Rightarrow> Some None
   | Some d \<Rightarrow> (case ho_parse_dsn ho d of Some dsn \<Rightarrow> Some (Some dsn) | None \<Rightarrow> None))"

definition main_serve :: "('level, 'dsn, 'addr, 'conn, 'tls) host \<Rightarrow> 'addr \<Rightarrow> ('level, 'dsn, 'addr, 'tls) trace" where
  "main_serve ho addr =
     attempt (serve_mode_of (ho_tls ho) (ho_var ho)) (\<lambda>mode.
       (case mode of
          MutualTls config \<Rightarrow> serve_mtls ho addr (tls_acceptor config)
        | Plaintext \<Rightarrow> serve_plaintext ho addr) ([ShutdownComplete], ReturnedOk))"

definition main_run :: "('level, 'dsn, 'addr, 'conn, 'tls) host \<Rightarrow> ('level, 'dsn, 'addr, 'tls) trace" where
  "main_run ho =
     emit (InitLogging (log_level ho))
       (case sentry_dsn ho of
          None \<Rightarrow> ([], Panicked)
        | Some dsn \<Rightarrow> emit (InitSentry dsn) (emit SetPanicHook
            (attempt (ho_parse_addr ho (var_or ''127.0.0.1:8080'' (ho_var ho ''ENCLAVE_METRICS_ADDR''))) (\<lambda>metrics_addr.
             emit (SpawnMetrics metrics_addr) (emit StartProvider (emit SpawnMirror
               (attempt (ho_parse_addr ho (var_or ''[::1]:50051'' (ho_var ho ''ENCLAVE_GRPC_ADDR''))) (main_serve ho))))))))"

section \<open>The stream of connections\<close>

text \<open>
  Up to the first failed accept and the first handshake that does not end, exactly the accepted
  connections are served, in order. A peer that never finishes its handshake keeps every later
  connection out.
\<close>

definition goes_on :: "('conn \<Rightarrow> 'tls handshake) \<Rightarrow> string + 'conn \<Rightarrow> bool" where
  "goes_on accept ev = (case ev of Inl e \<Rightarrow> False | Inr conn \<Rightarrow> accept conn \<noteq> Pending)"

definition accepted :: "('conn \<Rightarrow> 'tls handshake) \<Rightarrow> string + 'conn \<Rightarrow> 'tls option" where
  "accepted accept ev = (case ev of Inl e \<Rightarrow> None | Inr conn \<Rightarrow> (case accept conn of Accepted t \<Rightarrow> Some t | _ \<Rightarrow> None))"

lemma mtls_incoming_exact:
  "mtls_incoming accept events = List.map_filter (accepted accept) (takeWhile (goes_on accept) events)"
  by (induction accept events rule: mtls_incoming.induct)
    (auto simp: goes_on_def accepted_def map_filter_simps split: handshake.split)

lemma pending_blocks:
  "accept conn = Pending \<Longrightarrow> mtls_incoming accept (events @ Inr conn # later) = mtls_incoming accept events"
  by (induction accept events rule: mtls_incoming.induct) (auto split: handshake.split)

lemma mtls_incoming_mem:
  "tls \<in> set (mtls_incoming accept events) \<Longrightarrow> \<exists>conn. Inr conn \<in> set events \<and> accept conn = Accepted tls"
  by (induction accept events rule: mtls_incoming.induct) (auto split: handshake.splits)

section \<open>The choice of mode\<close>

lemma serve_mode_Plaintext: "serve_mode_of lib var = Ok Plaintext \<longleftrightarrow>
    var_ok (var ''ENCLAVE_TLS_CERT'') = None \<and> var_ok (var ''ENCLAVE_TLS_KEY'') = None
    \<and> var_ok (var ''ENCLAVE_CLIENT_CA'') = None"
  by (auto simp: serve_mode_of_def res_simps split: option.splits)

lemma serve_mode_MutualTls: "serve_mode_of lib var = Ok (MutualTls config) \<longleftrightarrow>
    (\<exists>cert key ca. var_ok (var ''ENCLAVE_TLS_CERT'') = Some cert \<and> var_ok (var ''ENCLAVE_TLS_KEY'') = Some key
      \<and> var_ok (var ''ENCLAVE_CLIENT_CA'') = Some ca \<and> load_server_config lib cert key ca = Ok config)"
  by (auto simp: serve_mode_of_def res_simps split: option.splits)

section \<open>The run of the process\<close>

lemma emit_simps [simp]: "fst (emit a t) = a # fst t" "snd (emit a t) = snd t"
  by (simp_all add: emit_def)

lemma attempt_simps [simp]: "attempt (Inl e) f = ([], ReturnedErr e)" "attempt (Inr x) f = f x"
  by (simp_all add: attempt_def)

lemma attempt_mem: "a \<in> set (fst (attempt r f)) \<Longrightarrow> \<exists>x. r = Inr x \<and> a \<in> set (fst (f x))"
  by (cases r) auto

lemma attempt_ok: "snd (attempt r f) = ReturnedOk \<longleftrightarrow> (\<exists>x. r = Inr x \<and> snd (f x) = ReturnedOk)"
  by (cases r) auto

lemma serves_mem:
  assumes "a \<in> set (fst (main_run ho))" "a = ServePlain addr \<or> a = ServeTls incoming"
  shows "\<exists>addr. a \<in> set (fst (main_serve ho addr))"
  using assms by (auto simp: main_run_def split: option.splits dest!: attempt_mem)

lemma main_serve_plain:
  assumes "ServePlain a \<in> set (fst (main_serve ho addr))"
  shows "serve_mode_of (ho_tls ho) (ho_var ho) = Ok Plaintext"
  using assms
  by (auto simp: main_serve_def serve_mtls_def serve_plaintext_def Let_def split: serve_mode.splits dest!: attempt_mem)

lemma main_serve_tls:
  assumes "ServeTls incoming \<in> set (fst (main_serve ho addr))"
  shows "\<exists>config. serve_mode_of (ho_tls ho) (ho_var ho) = Ok (MutualTls config)
    \<and> incoming = mtls_incoming (ho_handshake ho (tls_acceptor config)) (ho_accept ho)"
  using assms
  by (auto simp: main_serve_def serve_mtls_def serve_plaintext_def Let_def split: serve_mode.splits dest!: attempt_mem)

text \<open>The law of the handshake: rustls accepts a connection only when the peer presents a chain that
  leads to a root of the configuration.\<close>

definition rustls_ok :: "('conn \<Rightarrow> bytes list option) \<Rightarrow> (bytes list \<Rightarrow> bytes list \<Rightarrow> bool)
    \<Rightarrow> (tls_acceptor \<Rightarrow> 'conn \<Rightarrow> 'tls handshake) \<Rightarrow> bool" where
  "rustls_ok presented leads_to handshake \<longleftrightarrow> (\<forall>config conn tls. handshake (TlsAcceptor config) conn = Accepted tls \<longrightarrow>
     (\<exists>chain. presented conn = Some chain \<and> leads_to chain (sc_client_roots config)))"


text \<open>A host with one authority, a peer that presents nothing, one that presents the authority's
  certificate, and one that never finishes.\<close>

definition w_lib :: tls_lib where
  "w_lib = \<lparr>tl_read_pem = (\<lambda>path. if path = ''key'' then Ok [PKCS8Key [7]] else if path = ''ca'' then Ok [OtherPem, X509Certificate [2]] else Ok [X509Certificate [1]]),
     tl_add_root = (\<lambda>_. Ok ()), tl_single_cert = (\<lambda>_ _. Ok ())\<rparr>"

definition w_tls_presented :: "nat \<Rightarrow> bytes list option" where
  "w_tls_presented conn = (if conn = 1 then Some [[2]] else None)"

definition w_tls_handshake :: "tls_acceptor \<Rightarrow> nat \<Rightarrow> nat handshake" where
  "w_tls_handshake acceptor conn = (case acceptor of TlsAcceptor config \<Rightarrow>
     if conn = 3 then Pending
     else case w_tls_presented conn of None \<Rightarrow> Rejected ''no certificate''
     | Some chain \<Rightarrow> if set chain \<subseteq> set (sc_client_roots config) then Accepted conn else Rejected ''unknown issuer'')"

definition w_host :: "(nat, nat, nat, nat, nat) host" where
  "w_host = \<lparr>ho_var = (\<lambda>name. if name = ''ENCLAVE_TLS_CERT'' then Value ''cert'' else if name = ''ENCLAVE_TLS_KEY'' then Value ''key''
       else if name = ''ENCLAVE_CLIENT_CA'' then Value ''ca'' else NotPresent),
     ho_tls = w_lib, ho_parse_level = (\<lambda>_. None), ho_info = 0, ho_parse_dsn = (\<lambda>_. None), ho_parse_addr = (\<lambda>_. Ok 5),
     ho_bind = (\<lambda>_. Ok ()), ho_accept = [Inr 0, Inr 1, Inr 3, Inr 1], ho_handshake = w_tls_handshake,
     ho_serve_tls = (\<lambda>_. Ok ()), ho_serve_plain = (\<lambda>_. Ok ())\<rparr>"

lemma w_rustls_ok: "rustls_ok w_tls_presented (\<lambda>chain roots. set chain \<subseteq> set roots) w_tls_handshake"
  by (auto simp: rustls_ok_def w_tls_handshake_def split: option.splits if_splits)

lemma w_host_run: "main_run w_host = ([InitLogging 0, InitSentry None, SetPanicHook, SpawnMetrics 5, StartProvider,
    SpawnMirror, BuildRouter, Bind 5, ServeTls [1], ShutdownComplete], ReturnedOk)"
  by code_simp


end
