(* ===== verification/CliText.thy ===== *)
theory CliText
  imports Prelude
begin

text \<open>
  What the command-line tools share: the lines a process prints on its two streams, signed
  numbers as text, and \<open>str::split\<close> at a character.
\<close>

datatype line = Out string | ErrOut string

fun is_out :: "line \<Rightarrow> bool" where
  "is_out (Out s) = True"
| "is_out (ErrOut s) = False"

definition newline :: string where
  "newline = [char_of (10 :: nat)]"

definition show_int :: "int \<Rightarrow> string" where
  "show_int i = (if i < 0 then ''-'' else '''') @ show_nat (nat \<bar>i\<bar>)"

fun split_on :: "char \<Rightarrow> string \<Rightarrow> string list" where
  "split_on c [] = [[]]"
| "split_on c (x # xs) = (if x = c then [] # split_on c xs
     else (case split_on c xs of [] \<Rightarrow> [[x]] | w # ws \<Rightarrow> (x # w) # ws))"

primrec join_on :: "char \<Rightarrow> string list \<Rightarrow> string" where
  "join_on c [] = []"
| "join_on c (w # ws) = (if ws = [] then w else w @ c # join_on c ws)"

lemma split_on_Cons: "\<exists>w ws. split_on c xs = w # ws"
  by (induction xs) (auto split: list.split)

text \<open>Splitting loses nothing, no part holds the separator, and no other list of parts does both.\<close>

lemma join_split: "join_on c (split_on c xs) = xs"
proof (induction xs)
  case (Cons x xs)
  obtain w ws where s: "split_on c xs = w # ws" using split_on_Cons by blast
  show ?case using Cons by (auto simp: s)
qed simp

lemma split_parts: "w \<in> set (split_on c xs) \<Longrightarrow> c \<notin> set w"
proof (induction xs arbitrary: w)
  case (Cons x xs)
  obtain v ws where s: "split_on c xs = v # ws" using split_on_Cons by blast
  show ?case using Cons by (auto simp: s split: if_splits)
qed simp

lemma split_no_sep: "c \<notin> set w \<Longrightarrow> split_on c w = [w]"
  by (induction w) auto

lemma split_append: "c \<notin> set w \<Longrightarrow> split_on c (w @ c # xs) = w # split_on c xs"
  by (induction w) auto

lemma split_on_join: "ws \<noteq> [] \<Longrightarrow> \<forall>w\<in>set ws. c \<notin> set w \<Longrightarrow> split_on c (join_on c ws) = ws"
  by (induction ws) (auto simp: split_no_sep split_append)

end
