(* ===== verification/AttestTool.thy ===== *)
theory AttestTool
  imports GrpcServer CliText
begin

text \<open>
  \<open>bin/tdx_attest_tool.rs\<close>: the argument loop, the rendering of claims, the offline mode and the minting
  mode, as the lines the tool prints and its exit code. The file system, the decoder of
  hexadecimal text, the random values and the debug format of CBOR values are parameters.
\<close>

section \<open>Claims as text\<close>

record claim_view =
  cv_iat :: "string option"
  cv_nonce :: "string option"
  cv_ueid :: "string option"
  cv_swname :: "string option"
  cv_submods :: "string option"

definition no_claims :: claim_view where
  "no_claims = \<lparr>cv_iat = None, cv_nonce = None, cv_ueid = None, cv_swname = None, cv_submods = None\<rparr>"

fun render_key :: "cbor \<Rightarrow> string" where
  "render_key (CInt i) = show_int i"
| "render_key (CText s) = s"
| "render_key _ = ''<non-text key>''"

fun render_value :: "cbor_codec \<Rightarrow> (cbor \<Rightarrow> string) \<Rightarrow> cbor \<Rightarrow> string + string" where
  "render_value cb debug (CText s) = Ok s"
| "render_value cb debug (CBytes b) = Ok (hex_encode b)"
| "render_value cb debug (CInt i) = Ok (show_int i)"
| "render_value cb debug (CMap m) = res_bind (cb_ser cb (CMap m)) (\<lambda>buf. Ok (hex_encode buf))"
| "render_value cb debug (CArray a) = res_bind (cb_ser cb (CArray a)) (\<lambda>buf. Ok (hex_encode buf))"
| "render_value cb debug other = Ok (debug other)"

definition set_claim :: "int \<Rightarrow> string \<Rightarrow> claim_view \<Rightarrow> claim_view" where
  "set_claim n rendered view =
     (if n = CLAIM_IAT then view\<lparr>cv_iat := Some rendered\<rparr>
      else if n = CLAIM_NONCE then view\<lparr>cv_nonce := Some rendered\<rparr>
      else if n = CLAIM_UEID then view\<lparr>cv_ueid := Some rendered\<rparr>
      else if n = CLAIM_SWNAME then view\<lparr>cv_swname := Some rendered\<rparr>
      else if n = CLAIM_SUBMODS then view\<lparr>cv_submods := Some rendered\<rparr>
      else view)"

definition view_entry :: "cbor \<Rightarrow> string \<Rightarrow> claim_view \<Rightarrow> claim_view" where
  "view_entry k rendered view =
     (case k of
        CInt n \<Rightarrow> set_claim n rendered view
      | _ \<Rightarrow> (if render_key k = ''submods'' \<or> render_key k = ''container'' then view\<lparr>cv_submods := Some rendered\<rparr> else view))"

fun view_entries :: "cbor_codec \<Rightarrow> (cbor \<Rightarrow> string) \<Rightarrow> (cbor \<times> cbor) list \<Rightarrow> claim_view \<Rightarrow> string + claim_view" where
  "view_entries cb debug [] view = Ok view"
| "view_entries cb debug ((k, v) # entries) view =
     res_bind (render_value cb debug v) (\<lambda>rendered. view_entries cb debug entries (view_entry k rendered view))"

definition or_dash :: "string option \<Rightarrow> string" where
  "or_dash s = (case s of Some x \<Rightarrow> x | None \<Rightarrow> em_dash)"

definition view_lines :: "claim_view \<Rightarrow> line list" where
  "view_lines view =
     [Out ''=== Parsed IETF RATS EAT claims ==='',
      Out (''  iat        (claim 6):   '' @ or_dash (cv_iat view)),
      Out (''  nonce      (claim 10):  '' @ or_dash (cv_nonce view)),
      Out (''  ueid       (claim 256): '' @ or_dash (cv_ueid view)),
      Out (''  swname     (claim 342): '' @ or_dash (cv_swname view)),
      Out (''  submods    (claim 266): '' @ or_dash (cv_submods view))]"

definition render_claims :: "cbor_codec \<Rightarrow> (cbor \<Rightarrow> string) \<Rightarrow> bytes \<Rightarrow> string + line list" where
  "render_claims cb debug payload =
     res_bind (map_err eat_error_display (decode_claims cb payload)) (\<lambda>claims.
     case claims of
       CMap m \<Rightarrow> res_bind (view_entries cb debug m no_claims) (\<lambda>view. Ok (view_lines view))
     | other \<Rightarrow> Err (''expected a CBOR map for EAT claims, got '' @ debug other))"

section \<open>Arguments\<close>

record options =
  op_nonce_hex :: string
  op_image_digest :: string
  op_swname :: string
  op_hardware :: string
  op_verify_file :: "string option"

definition default_options :: options where
  "default_options = \<lparr>op_nonce_hex = '''', op_image_digest = '''', op_swname = DEFAULT_SWNAME, op_hardware = ''intel-tdx'',
     op_verify_file = None\<rparr>"

definition assign_option :: "string \<Rightarrow> string \<Rightarrow> options \<Rightarrow> options option" where
  "assign_option flag v op =
     (if flag = ''--nonce'' then Some (op\<lparr>op_nonce_hex := v\<rparr>)
      else if flag = ''--image-digest'' then Some (op\<lparr>op_image_digest := v\<rparr>)
      else if flag = ''--swname'' then Some (op\<lparr>op_swname := v\<rparr>)
      else if flag = ''--hardware'' then Some (op\<lparr>op_hardware := v\<rparr>)
      else if flag = ''--verify'' then Some (op\<lparr>op_verify_file := Some v\<rparr>)
      else None)"

text \<open>\<open>None\<close> is the call of \<open>usage\<close>: an unknown flag, or a flag at the end without its value.\<close>

fun parse_args :: "string list \<Rightarrow> options \<Rightarrow> options option" where
  "parse_args [] op = Some op"
| "parse_args [flag] op = None"
| "parse_args (flag # v # args) op = Option.bind (assign_option flag v op) (parse_args args)"

definition usage :: "line list \<times> nat" where
  "usage = ([ErrOut (''usage: tdx_attest_tool [--nonce <hex>] [--image-digest <sha256:...>]'' @ newline
     @ ''                         [--swname <name>] [--hardware <label>]'' @ newline
     @ ''        tdx_attest_tool --verify <eat-token-file>'')], 1)"

section \<open>The tool\<close>

record ('sk, 'vk, 'sig) tool_env = "('sk, 'vk, 'sig) attest_env" +
  te_read :: "string \<Rightarrow> string + bytes"
  te_hex_decode :: "string \<Rightarrow> string + bytes"
  te_debug :: "cbor \<Rightarrow> string"
  te_random_nonce :: bytes
  te_instance_id :: bytes
  te_key :: 'sk
  te_now :: "u64 option"

definition verify_mode :: "('sk, 'vk, 'sig) tool_env \<Rightarrow> string \<Rightarrow> line list \<times> nat" where
  "verify_mode env path =
     (case te_read env path of
        Inl e \<Rightarrow> ([ErrOut (''error: cannot read '' @ path @ '': '' @ e)], 2)
      | Inr token \<Rightarrow>
          (case parse_cose_sign1 (ae_cbor env) token of
             Inr parsed \<Rightarrow>
               let ok = Out (''COSE-Sign1 OK: protected='' @ show_nat (length (pc_protected parsed)) @ ''B payload=''
                     @ show_nat (length (pc_payload parsed)) @ ''B sig='' @ show_nat (length (pc_signature parsed)) @ ''B'')
               in (case render_claims (ae_cbor env) (te_debug env) (pc_payload parsed) of
                     Inl e \<Rightarrow> ([ok, ErrOut (''error: could not render claims: '' @ e)], 2)
                   | Inr claim_lines \<Rightarrow> (ok # claim_lines, 0))
           | Inl e \<Rightarrow> ([ErrOut (''error: token is not a valid COSE-Sign1: '' @ eat_error_display e)], 2)))"

text \<open>The two attempts to print the claims of a fresh token: of its bytes, and of its payload.\<close>

definition print_token :: "('sk, 'vk, 'sig) tool_env \<Rightarrow> bytes \<Rightarrow> line list \<times> nat" where
  "print_token env eat_token =
     (let cb = ae_cbor env; debug = te_debug env;
          raw = (case render_claims cb debug eat_token of
             Inr claim_lines \<Rightarrow> claim_lines
           | Inl e \<Rightarrow> [ErrOut (''note: raw render skipped ('' @ e @ '') '' @ em_dash @ '' parsing token:'')])
      in case parse_cose_sign1 cb eat_token of
           Inl e \<Rightarrow> (raw @ [ErrOut (''error: invalid COSE-Sign1: '' @ eat_error_display e)], 2)
         | Inr parsed \<Rightarrow>
             (case render_claims cb debug (pc_payload parsed) of
                Inl e \<Rightarrow> (raw @ [ErrOut (''error: could not render claims: '' @ e)], 2)
              | Inr claim_lines \<Rightarrow> (raw @ claim_lines @ [Out (''raw-token (hex): '' @ hex_encode eat_token)], 0)))"

definition mint_nonce :: "('sk, 'vk, 'sig) tool_env \<Rightarrow> options \<Rightarrow> string + bytes" where
  "mint_nonce env op = (if op_nonce_hex op = '''' then Ok (te_random_nonce env) else te_hex_decode env (op_nonce_hex op))"

definition mint_claims :: "('sk, 'vk, 'sig) tool_env \<Rightarrow> options \<Rightarrow> bytes \<Rightarrow> bytes \<Rightarrow> eat_claims" where
  "mint_claims env op nonce tdreport = \<lparr>ec_nonce = nonce, ec_swname = op_swname op, ec_image_digest = op_image_digest op,
     ec_hardware = op_hardware op, ec_instance_id = te_instance_id env,
     ec_iat = (case te_now env of Some t \<Rightarrow> t | None \<Rightarrow> 0), ec_measurements = [take 32 tdreport]\<rparr>"

definition mint_mode :: "('sk, 'vk, 'sig) tool_env \<Rightarrow> options \<Rightarrow> line list \<times> nat" where
  "mint_mode env op =
     (if op_image_digest op = ''''
      then ([ErrOut ''error: --image-digest is required (EAT must bind to a build digest)''], 1)
      else case mint_nonce env op of
        Inl e \<Rightarrow> ([ErrOut (''error: --nonce must be hex: '' @ e)], 1)
      | Inr nonce \<Rightarrow>
          (let reportdata = nonce_to_reportdata (ae_sha env) nonce
           in case get_tdreport (ae_kernel env) reportdata of
                Inl e \<Rightarrow> ([ErrOut (''error: hardware attestation unavailable (fail-closed): '' @ tee_error_display e @ newline
                   @ ''hint: run inside an Intel TDX guest (or use the dev emulator)'')], 2)
              | Inr tdreport \<Rightarrow>
                  (case build_eat (ae_cbor env) (ae_es256 env) (mint_claims env op nonce tdreport) (te_key env) of
                     Inl e \<Rightarrow> ([ErrOut (''error: EAT build failed: '' @ eat_error_display e)], 2)
                   | Inr eat_token \<Rightarrow>
                       (case print_token env eat_token of (printed, code) \<Rightarrow>
                         (Out (''TDREPORT: '' @ show_nat (length tdreport) @ '' bytes (bound to reportdata sha256:''
                              @ hex_encode (take 32 reportdata) @ '')'')
                          # Out (''EAT (COSE-Sign1): '' @ show_nat (length eat_token) @ '' bytes'')
                          # printed, code)))))"

definition tool_run :: "('sk, 'vk, 'sig) tool_env \<Rightarrow> string list \<Rightarrow> line list \<times> nat" where
  "tool_run env args =
     (case parse_args args default_options of
        None \<Rightarrow> usage
      | Some op \<Rightarrow> (case op_verify_file op of Some path \<Rightarrow> verify_mode env path | None \<Rightarrow> mint_mode env op))"

section \<open>Arguments: the last value of a flag counts\<close>

definition FLAGS :: "string list" where
  "FLAGS = [''--nonce'', ''--image-digest'', ''--swname'', ''--hardware'', ''--verify'']"

primrec last_value :: "string \<Rightarrow> (string \<times> string) list \<Rightarrow> 'a \<Rightarrow> (string \<Rightarrow> 'a) \<Rightarrow> 'a" where
  "last_value flag [] d f = d"
| "last_value flag (p # ps) d f = last_value flag ps (if fst p = flag then f (snd p) else d) f"

definition command_line :: "(string \<times> string) list \<Rightarrow> string list" where
  "command_line pairs = concat (map (\<lambda>p. [fst p, snd p]) pairs)"

lemma command_line_simps [simp]: "command_line [] = []" "command_line (p # ps) = fst p # snd p # command_line ps"
  by (simp_all add: command_line_def)

definition options_of :: "(string \<times> string) list \<Rightarrow> options \<Rightarrow> options" where
  "options_of pairs op = \<lparr>op_nonce_hex = last_value ''--nonce'' pairs (op_nonce_hex op) id,
     op_image_digest = last_value ''--image-digest'' pairs (op_image_digest op) id,
     op_swname = last_value ''--swname'' pairs (op_swname op) id,
     op_hardware = last_value ''--hardware'' pairs (op_hardware op) id,
     op_verify_file = last_value ''--verify'' pairs (op_verify_file op) Some\<rparr>"

lemma assign_option_None: "assign_option flag v op = None \<longleftrightarrow> flag \<notin> set FLAGS"
  by (simp add: assign_option_def FLAGS_def)

lemma options_of_Cons: "assign_option flag v op = Some op' \<Longrightarrow> options_of ((flag, v) # ps) op = options_of ps op'"
  by (auto simp: assign_option_def options_of_def split: if_splits)

lemma parse_args_pairs: "parse_args (command_line pairs) op
    = (if fst ` set pairs \<subseteq> set FLAGS then Some (options_of pairs op) else None)"
proof (induction pairs arbitrary: op)
  case (Cons p pairs)
  obtain flag v where p: "p = (flag, v)" by fastforce
  show ?case
  proof (cases "assign_option flag v op")
    case None
    then have "flag \<notin> set FLAGS" using assign_option_None by blast
    then show ?thesis by (simp add: p None)
  next
    case (Some op')
    then have "flag \<in> set FLAGS" using assign_option_None [of flag v op] by simp
    then show ?thesis by (simp add: p Some Cons.IH options_of_Cons [OF Some])
  qed
qed (simp add: options_of_def)

lemma parse_args_shape: "parse_args args op = Some op' \<Longrightarrow> \<exists>pairs. args = command_line pairs"
proof (induction args op rule: parse_args.induct)
  case (1 op)
  then show ?case by (intro exI [of _ "[]"]) simp
next
  case (3 flag v args op)
  from 3(2) obtain op1 where "assign_option flag v op = Some op1" "parse_args args op1 = Some op'" by (auto simp: bind_eq_Some_conv)
  with 3(1) obtain pairs where "args = command_line pairs" by blast
  then show ?case by (intro exI [of _ "(flag, v) # pairs"]) simp
qed simp

text \<open>The argument loop of the tool accepts exactly the sequences of a known flag and its value, in any
  order and number, and the options are the last value given for each flag, or its default;
  everything else prints the usage and exits with 1.\<close>

lemma tool_args_exact:
  "(\<exists>pairs. args = command_line pairs \<and> fst ` set pairs \<subseteq> set FLAGS
      \<and> parse_args args default_options = Some (options_of pairs default_options))
   \<or> (\<nexists>pairs. args = command_line pairs \<and> fst ` set pairs \<subseteq> set FLAGS)
      \<and> parse_args args default_options = None \<and> tool_run env args = usage"
proof (cases "parse_args args default_options")
  case None
  have "\<nexists>pairs. args = command_line pairs \<and> fst ` set pairs \<subseteq> set FLAGS"
  proof
    assume "\<exists>pairs. args = command_line pairs \<and> fst ` set pairs \<subseteq> set FLAGS"
    then obtain pairs where "args = command_line pairs" "fst ` set pairs \<subseteq> set FLAGS" by blast
    with None show False by (simp add: parse_args_pairs)
  qed
  then show ?thesis using None by (simp add: tool_run_def)
next
  case (Some op)
  from parse_args_shape [OF Some] obtain pairs where p: "args = command_line pairs" ..
  with Some have "fst ` set pairs \<subseteq> set FLAGS" by (simp add: parse_args_pairs split: if_splits)
  then show ?thesis using p by (auto simp: parse_args_pairs)
qed

section \<open>The claims of a minted token\<close>

definition minted_view :: "eat_claims \<Rightarrow> bytes \<Rightarrow> claim_view" where
  "minted_view c submods = \<lparr>cv_iat = Some (show_int (sint (ec_iat c))),
     cv_nonce = (if ec_nonce c = [] then None else Some (hex_encode (ec_nonce c))),
     cv_ueid = Some (hex_encode (2 # ec_instance_id c)), cv_swname = Some (ec_swname c), cv_submods = Some (hex_encode submods)\<rparr>"

lemma view_entries_append: "view_entries cb debug (xs @ ys) view
    = res_bind (view_entries cb debug xs view) (view_entries cb debug ys)"
proof (induction xs arbitrary: view)
  case (Cons x xs)
  obtain k v where x: "x = (k, v)" by fastforce
  show ?case by (cases "render_value cb debug v") (simp_all add: x Cons.IH)
qed simp

lemma render_minted:
  assumes "cbor_ok cb" "cb_de cb payload = Ok (encode_claims c)"
  shows "\<exists>v submods. claim (encode_claims c) CLAIM_SUBMODS = Some v \<and> cb_ser cb v = Ok submods
    \<and> render_claims cb debug payload = Ok (view_lines (minted_view c submods))"
proof -
  obtain container rest where e: "encode_claims c = CMap (rest @ [(CInt 266, CMap container)])"
    "rest = [(CInt 6, cint (uint (ec_iat c)))] @ (if ec_nonce c = [] then [] else [(CInt 10, CBytes (ec_nonce c))])
       @ [(CInt 256, CBytes (2 # ec_instance_id c)), (CInt 342, CText (ec_swname c))]"
    by (simp add: encode_claims_def Let_def claim_numbers)
  have "cbor_wf (CMap container)" using encode_claims_wf [of c] by (auto simp: e(1))
  then obtain submods where s: "cb_ser cb (CMap container) = Ok submods" using cbor_okD [OF assms(1)] by blast
  have "view_entries cb debug rest no_claims = Ok \<lparr>cv_iat = Some (show_int (sint (ec_iat c))),
     cv_nonce = (if ec_nonce c = [] then None else Some (hex_encode (ec_nonce c))),
     cv_ueid = Some (hex_encode (2 # ec_instance_id c)), cv_swname = Some (ec_swname c), cv_submods = None\<rparr>"
    by (simp add: e(2) view_entry_def assign_option_def set_claim_def claim_numbers no_claims_def cint_def)
  then have "render_claims cb debug payload = Ok (view_lines (minted_view c submods))"
    unfolding render_claims_def decode_claims_def assms(2)
    by (simp add: e(1) view_entries_append s view_entry_def set_claim_def claim_numbers minted_view_def)
  moreover have "claim (encode_claims c) CLAIM_SUBMODS = Some (CMap container)"
    by (simp add: claim_def cbor_get_def e claim_numbers cint_def)
  ultimately show ?thesis using s by blast
qed

text \<open>A built token prints as a note on standard error, its claims and its bytes.\<close>

lemma print_minted:
  assumes "cbor_ok (ae_cbor env)" "build_eat (ae_cbor env) (ae_es256 env) c key = Ok token"
  shows "\<exists>msg v submods. claim (encode_claims c) CLAIM_SUBMODS = Some v \<and> cb_ser (ae_cbor env) v = Ok submods
    \<and> print_token env token = (ErrOut msg # view_lines (minted_view c submods) @ [Out (''raw-token (hex): '' @ hex_encode token)], 0)"
proof -
  let ?cb = "ae_cbor env"
  from built_parts [OF assms] obtain p q m where b: "cb_de ?cb p = Ok protected_header" "cb_de ?cb q = Ok (encode_claims c)"
    "cb_de ?cb token = Ok (CArray [CBytes p, CMap [], CBytes q, CBytes (es_to_bytes (ae_es256 env) (es_sign (ae_es256 env) key m))])"
    by metis
  let ?p = "\<lparr>pc_protected = p, pc_protected_map = protected_header, pc_payload = q,
    pc_signature = es_to_bytes (ae_es256 env) (es_sign (ae_es256 env) key m)\<rparr>"
  have parsed: "parse_cose_sign1 ?cb token = Ok ?p" unfolding parse_cose_Ok using b(1,3) by auto
  obtain e where raw: "render_claims ?cb (te_debug env) token = Err e" by (simp add: render_claims_def decode_claims_def b(3))
  obtain v submods where r: "claim (encode_claims c) CLAIM_SUBMODS = Some v" "cb_ser ?cb v = Ok submods"
    "render_claims ?cb (te_debug env) q = Ok (view_lines (minted_view c submods))"
    using render_minted [OF assms(1) b(2)] by blast
  have "print_token env token = (ErrOut (''note: raw render skipped ('' @ e @ '') '' @ em_dash @ '' parsing token:'')
      # view_lines (minted_view c submods) @ [Out (''raw-token (hex): '' @ hex_encode token)], 0)"
    by (simp add: print_token_def raw parsed r(3))
  with r(1,2) show ?thesis by blast
qed

text \<open>Minting either writes errors only, or gets as far as a built token.\<close>

lemma mint_mode_cases:
  obtains (failed) "snd (mint_mode env op) \<noteq> 0" "filter is_out (fst (mint_mode env op)) = []"
  | (minted) nonce tdreport token where "mint_nonce env op = Ok nonce"
      "get_tdreport (ae_kernel env) (nonce_to_reportdata (ae_sha env) nonce) = Ok tdreport"
      "build_eat (ae_cbor env) (ae_es256 env) (mint_claims env op nonce tdreport) (te_key env) = Ok token"
      "mint_mode env op = (Out (''TDREPORT: '' @ show_nat (length tdreport) @ '' bytes (bound to reportdata sha256:''
          @ hex_encode (take 32 (nonce_to_reportdata (ae_sha env) nonce)) @ '')'')
        # Out (''EAT (COSE-Sign1): '' @ show_nat (length token) @ '' bytes'')
        # fst (print_token env token), snd (print_token env token))"
proof -
  let ?rd = "\<lambda>nonce. nonce_to_reportdata (ae_sha env) nonce"
  consider "op_image_digest op = ''''" | e where "op_image_digest op \<noteq> ''''" "mint_nonce env op = Err e"
    | nonce e where "op_image_digest op \<noteq> ''''" "mint_nonce env op = Ok nonce" "get_tdreport (ae_kernel env) (?rd nonce) = Err e"
    | nonce tdreport where "op_image_digest op \<noteq> ''''" "mint_nonce env op = Ok nonce" "get_tdreport (ae_kernel env) (?rd nonce) = Ok tdreport"
    by (metis sum.exhaust)
  then show thesis
  proof cases
    case (4 nonce tdreport)
    show thesis
    proof (cases "build_eat (ae_cbor env) (ae_es256 env) (mint_claims env op nonce tdreport) (te_key env)")
      case (Inl e)
      then show thesis using 4 failed by (simp add: mint_mode_def)
    next
      case (Inr token)
      show thesis by (rule minted [OF 4(2,3) Inr]) (simp add: mint_mode_def 4 Inr split: prod.split)
    qed
  qed (use failed in \<open>simp_all add: mint_mode_def\<close>)
qed


text \<open>The offline mode does not look at the signature: any bytes of the same length are as good.\<close>

lemma offline_ignores_signature:
  assumes "te_read env path = Ok token" "te_read env path' = Ok token'"
    and "parse_cose_sign1 (ae_cbor env) token = Ok p"
    and "parse_cose_sign1 (ae_cbor env) token' = Ok (p\<lparr>pc_signature := sig\<rparr>)" "length sig = length (pc_signature p)"
  shows "verify_mode env path = verify_mode env path'"
  by (simp add: verify_mode_def assms Let_def)

lemma offline_accepts_any_key:
  assumes "cbor_ok (ae_cbor env)" "build_eat (ae_cbor env) es c key = Ok token" "te_read env path = Ok token"
  shows "snd (verify_mode env path) = 0"
proof -
  let ?cb = "ae_cbor env"
  from built_parts [OF assms(1,2)] obtain p q m where b: "cb_de ?cb p = Ok protected_header" "cb_de ?cb q = Ok (encode_claims c)"
    "cb_de ?cb token = Ok (CArray [CBytes p, CMap [], CBytes q, CBytes (es_to_bytes es (es_sign es key m))])" by metis
  let ?p = "\<lparr>pc_protected = p, pc_protected_map = protected_header, pc_payload = q, pc_signature = es_to_bytes es (es_sign es key m)\<rparr>"
  have "parse_cose_sign1 ?cb token = Ok ?p" unfolding parse_cose_Ok using b(1,3) by auto
  moreover obtain claim_lines where "render_claims ?cb (te_debug env) q = Ok claim_lines"
    using render_minted [OF assms(1) b(2)] by blast
  ultimately show ?thesis by (simp add: verify_mode_def assms(3) Let_def)
qed

definition w_tool :: "(unit, unit, unit) tool_env" where
  "w_tool = attest_env.extend w_attest \<lparr>te_read = (\<lambda>_. Err ''absent''), te_hex_decode = (\<lambda>_. Err ''odd''), te_debug = (\<lambda>_. ''''),
     te_random_nonce = replicate 32 9, te_instance_id = replicate 16 7, te_key = (), te_now = Some 5\<rparr>"

definition w_args :: "string list" where
  "w_args = [''--image-digest'', ''sha256:ab'']"

lemma w_tool_simps [simp]: "ae_cbor w_tool = w_cbor" "ae_es256 w_tool = w_es" "ae_kernel w_tool = w_kernel"
  "mint_nonce w_tool op = (if op_nonce_hex op = '''' then Ok (replicate 32 9) else Err ''odd'')" "te_key w_tool = ()"
  by (simp_all add: w_tool_def attest_env.defs w_attest_def mint_nonce_def)

lemma w_tool_exits: "\<exists>printed. tool_run w_tool w_args = (printed, 0)"
  and w_tool_op: "\<exists>op. parse_args w_args default_options = Some op \<and> op_verify_file op = None \<and> op_image_digest op = ''sha256:ab''"
  and w_tool_report: "get_tdreport w_kernel rd = Ok (replicate 1024 0)"
proof -
  define op where "op = default_options\<lparr>op_image_digest := ''sha256:ab''\<rparr>"
  have op: "parse_args w_args default_options = Some op" "op_verify_file op = None"
    and o: "op_image_digest op = ''sha256:ab''" "op_nonce_hex op = ''''" "op_swname op = ''CONFIDENTIAL_SPACE''"
    by (simp_all add: op_def w_args_def assign_option_def default_options_def DEFAULT_SWNAME_def)
  then show "\<exists>op. parse_args w_args default_options = Some op \<and> op_verify_file op = None \<and> op_image_digest op = ''sha256:ab''" by blast
  show report: "get_tdreport w_kernel rd = Ok (replicate 1024 0)" for rd
    by (simp add: get_tdreport_def w_kernel_def Let_def TDX_REPORT_LEN_def)
  define c where "c = mint_claims w_tool op (replicate 32 9) (replicate 1024 0)"
  have "\<not> is_blank ''sha256:ab''" "\<not> is_blank ''CONFIDENTIAL_SPACE''"
    unfolding is_blank_words split_whitespace_def by code_simp+
  then obtain token where t: "build_eat w_cbor w_es c () = Ok token"
    using build_eat_total [OF w_cbor_ok, of c w_es "()"] by (auto simp: c_def mint_claims_def o)
  have "snd (mint_mode w_tool op) = 0" using print_minted [of w_tool c "()" token] t w_cbor_ok
    by (auto simp: mint_mode_def report o Let_def c_def [symmetric] split: prod.split)
  then show "\<exists>printed. tool_run w_tool w_args = (printed, 0)"
    by (simp add: tool_run_def op) (metis prod.collapse)
qed

lemma w_tool_ok: "cbor_ok (ae_cbor w_tool)" "es256_ok (ae_es256 w_tool)" "kernel_ok (ae_kernel w_tool)" "length (te_instance_id w_tool) = 16"
  by (simp_all add: w_cbor_ok w_es_ok w_kernel_ok) (simp add: w_tool_def attest_env.defs)


end
