(* ===== verification/EatTyping.thy ===== *)
theory EatTyping
  imports AttestTool
begin

text \<open>
  The type of an Entity Attestation Token, as the comments of \<open>attestation/eat_builder.rs\<close> and the
  field types of \<open>EatClaims\<close> give it, stated as a schema for CBOR values: every token handed out by
  the gRPC service or by the tool is a value of it.
\<close>

section \<open>Schemas\<close>

text \<open>Integers are those of \<open>i64\<close>; a map has named fields, required or not, and may give a type to
  further fields named by text.\<close>

datatype cddl = AnyT | IntT | TextT | BytesT "nat option" | ArrayT "cddl list" | MapT "(cbor \<times> bool \<times> cddl) list" "cddl option"

inductive typed :: "cbor \<Rightarrow> cddl \<Rightarrow> bool" where
  any: "typed v AnyT"
| int: "- (2 ^ 63) \<le> i \<Longrightarrow> i < 2 ^ 63 \<Longrightarrow> typed (CInt i) IntT"
| text_ty: "typed (CText s) TextT"
| bytes: "(\<forall>k. n = Some k \<longrightarrow> length b = k) \<Longrightarrow> typed (CBytes b) (BytesT n)"
| array: "list_all2 typed vs ts \<Longrightarrow> typed (CArray vs) (ArrayT ts)"
| map: "distinct (map fst kvs) \<Longrightarrow> (\<forall>k t. (k, True, t) \<in> set fs \<longrightarrow> k \<in> fst ` set kvs)
    \<Longrightarrow> (\<forall>k v. (k, v) \<in> set kvs \<longrightarrow>
          (\<exists>required t. (k, required, t) \<in> set fs \<and> typed v t)
          \<or> (\<exists>s t. k = CText s \<and> k \<notin> fst ` set fs \<and> extra = Some t \<and> typed v t))
    \<Longrightarrow> typed (CMap kvs) (MapT fs extra)"

inductive_simps typed_simps [simp]: "typed v AnyT" "typed (CInt i) IntT" "typed (CText s) TextT" "typed (CBytes b) (BytesT n)"
  "typed (CArray vs) (ArrayT ts)"

inductive_simps typed_map: "typed (CMap kvs) (MapT fs extra)"

inductive_cases typed_mapE: "typed v (MapT fs extra)"

definition container_type :: cddl where
  "container_type = MapT [(CText ''image_digest'', True, TextT), (CText ''hardware'', True, TextT),
     (CText ''instance_id'', True, BytesT (Some 16))] (Some (BytesT (Some 32)))"

definition eat_type :: cddl where
  "eat_type = MapT [(CInt CLAIM_IAT, True, IntT), (CInt CLAIM_NONCE, False, BytesT None), (CInt CLAIM_UEID, True, BytesT (Some 17)),
     (CInt CLAIM_SWNAME, True, TextT), (CInt CLAIM_SUBMODS, True, MapT [(CText ''container'', True, container_type)] None)] None"

definition header_type :: cddl where
  "header_type = MapT [(CInt COSE_HEADER_ALG, True, IntT), (CInt COSE_HEADER_KID, True, BytesT None)] None"

definition cose_type :: cddl where
  "cose_type = ArrayT [BytesT None, MapT [] None, BytesT None, BytesT (Some 64)]"

text \<open>A token of the type: the envelope, and behind its two byte strings the header and the claims.\<close>

definition token_typed :: "cbor_codec \<Rightarrow> bytes \<Rightarrow> bool" where
  "token_typed cb token \<longleftrightarrow> (\<exists>protected u payload sig header claims.
     cb_de cb token = Ok (CArray [CBytes protected, u, CBytes payload, CBytes sig])
     \<and> typed (CArray [CBytes protected, u, CBytes payload, CBytes sig]) cose_type
     \<and> cb_de cb protected = Ok header \<and> typed header header_type
     \<and> cb_de cb payload = Ok claims \<and> typed claims eat_type)"

text \<open>The array types of the claim set.\<close>

definition claims_typed :: "eat_claims \<Rightarrow> bool" where
  "claims_typed c \<longleftrightarrow> length (ec_instance_id c) = 16 \<and> (\<forall>m\<in>set (ec_measurements c). length m = 32)"

section \<open>Lemmas\<close>

lemma header_typed: "typed protected_header header_type"
  by (auto simp: protected_header_def header_type_def typed_map claim_numbers)

definition container_entries :: "eat_claims \<Rightarrow> (cbor \<times> cbor) list" where
  "container_entries c = [(CText ''image_digest'', CText (ec_image_digest c)), (CText ''hardware'', CText (ec_hardware c)),
       (CText ''instance_id'', CBytes (ec_instance_id c))]
     @ map (\<lambda>(i, m). (CText (''rtmr'' @ show_nat i), CBytes m)) (enumerate 0 (ec_measurements c))"

lemma container_distinct: "distinct (map fst (container_entries c))"
proof -
  have "distinct (map (fst \<circ> (\<lambda>(i, m). (CText (''rtmr'' @ show_nat i), CBytes m))) (enumerate 0 (ec_measurements c)))"
    by (auto simp: distinct_map inj_on_def show_nat_inject in_set_enumerate_eq intro: distinct_enumerate)
  then show ?thesis by (auto simp: container_entries_def)
qed

lemma container_typed: "claims_typed c \<Longrightarrow> typed (CMap (container_entries c)) container_type"
  unfolding container_type_def typed_map using container_distinct [of c]
  by (auto simp: container_entries_def claims_typed_def in_set_enumerate_eq)

lemma claims_have_type:
  assumes "claims_typed c"
  shows "typed (encode_claims c) eat_type"
proof -
  have e: "encode_claims c = CMap ([(CInt CLAIM_IAT, cint (uint (ec_iat c)))]
       @ (if ec_nonce c = [] then [] else [(CInt CLAIM_NONCE, CBytes (ec_nonce c))])
       @ [(CInt CLAIM_UEID, CBytes (2 # ec_instance_id c)), (CInt CLAIM_SWNAME, CText (ec_swname c)),
          (CInt CLAIM_SUBMODS, CMap [(CText ''container'', CMap (container_entries c))])])"
    by (simp add: encode_claims_def container_entries_def Let_def claim_numbers)
  have s: "typed (CMap [(CText ''container'', CMap (container_entries c))]) (MapT [(CText ''container'', True, container_type)] None)"
    using container_typed [OF assms] by (simp add: typed_map) (rule exI [of _ True], simp)
  have i: "typed (cint i) IntT" for i using sint_range [of "word_of_int i"] by (simp add: cint_def)
  have l: "length (ec_instance_id c) = 16" using assms by (simp add: claims_typed_def)
  show ?thesis unfolding e eat_type_def typed_map using s i l by (auto simp: claim_numbers)
qed

lemma built_typed:
  assumes "cbor_ok cb" "es256_ok es" "claims_typed c" "build_eat cb es c key = Ok token"
  shows "token_typed cb token"
proof -
  from built_parts [OF assms(1,4)] obtain p q m where b: "cb_de cb p = Ok protected_header" "cb_de cb q = Ok (encode_claims c)"
    "cb_de cb token = Ok (CArray [CBytes p, CMap [], CBytes q, CBytes (es_to_bytes es (es_sign es key m))])" by metis
  have "length (es_to_bytes es (es_sign es key m)) = 64" using assms(2) by (simp add: es256_ok_def)
  then have "typed (CArray [CBytes p, CMap [], CBytes q, CBytes (es_to_bytes es (es_sign es key m))]) cose_type"
    by (simp add: cose_type_def typed_map)
  with b header_typed claims_have_type [OF assms(3)] show ?thesis unfolding token_typed_def by blast
qed

lemma service_token_typed:
  assumes "cbor_ok (ae_cbor env)" "es256_ok (ae_es256 env)" "length iid = 16"
    and "get_attestation_token env now iid key req sv = Ok resp"
  shows "token_typed (ae_cbor env) (as_eat_token resp)"
proof -
  have m: "length (measurement_of report) = 32" for report by (simp add: measurement_of_def)
  obtain c where "build_eat (ae_cbor env) (ae_es256 env) c key = Ok (as_eat_token resp)" "claims_typed c"
    using assms(3,4) m
    by (fastforce simp: get_attestation_token_def Let_def res_simps claims_typed_def split: if_splits sum.splits)
  then show ?thesis using built_typed [OF assms(1,2)] by blast
qed



end
