(* ===== verification/ClientCli.thy ===== *)
theory ClientCli
  imports GrpcServer CliText
begin

text \<open>
  \<open>bin/client_cli.rs\<close>: the argument loop, the four commands and what they print. The generated
  gRPC client and the health client are parameters; the requests and responses are those of
  \<open>GrpcServer\<close>, so that a client can be composed with the model of the service.
\<close>

section \<open>The client\<close>

record ftso_feed =
  ff_feed_id :: string
  ff_price :: string
  ff_timestamp :: u64

text \<open>\<open>'st\<close> is tonic's \<open>Status\<close>, with the texts of its code, its message and its debug format.\<close>

record 'st client =
  cl_connect :: "string \<Rightarrow> string + unit"
  cl_execute_query :: "query_request \<Rightarrow> 'st + query_response"
  cl_attestation :: "attestation_request \<Rightarrow> 'st + attestation_response"
  cl_stream :: "feeds_request \<Rightarrow> 'st + ('st + ftso_feed) list"
  cl_health_channel :: "string \<Rightarrow> string + unit"
  cl_health_check :: "'st + string"
  cl_code :: "'st \<Rightarrow> string"
  cl_message :: "'st \<Rightarrow> string"
  cl_debug :: "'st \<Rightarrow> string"
  cl_round_trip_ms :: nat

datatype cli_end = ExitCode nat | MainError string

definition DEFAULT_ENDPOINT :: string where
  "DEFAULT_ENDPOINT = ''http://[::1]:50051''"

definition cli_usage :: "line list \<times> cli_end" where
  "cli_usage = ([ErrOut (''usage: client_cli [--endpoint <addr>] <query|attest|stream|health> [args...]'' @ newline
     @ ''  query <document_id> <prompt>'' @ newline @ ''  attest <nonce>'' @ newline
     @ ''  stream <feed1,feed2,...>'' @ newline @ ''  health'')], ExitCode 2)"

text \<open>The loop over the arguments: \<open>--endpoint\<close> takes the next one, everything else is kept.\<close>

fun cli_args :: "string list \<Rightarrow> string \<Rightarrow> string list \<Rightarrow> (string \<times> string list) option" where
  "cli_args [] endpoint rest = Some (endpoint, rest)"
| "cli_args [a] endpoint rest = (if a = ''--endpoint'' then None else Some (endpoint, rest @ [a]))"
| "cli_args (a # b # as) endpoint rest =
     (if a = ''--endpoint'' then cli_args as b rest else cli_args (b # as) endpoint (rest @ [a]))"

section \<open>The commands\<close>

definition cli_query :: "'st client \<Rightarrow> string list \<Rightarrow> line list \<times> cli_end" where
  "cli_query cl params =
     (case params of
        document_id # prompt # _ \<Rightarrow>
          (case cl_execute_query cl \<lparr>qr_document_id = document_id, qr_prompt = prompt, qr_encrypted_payload = []\<rparr> of
             Inl st \<Rightarrow> ([], MainError (cl_debug cl st))
           | Inr r \<Rightarrow> (map Out
               [''--- ExecuteQuery ---'',
                ''output:      '' @ qs_output r,
                ''doc_hash:    0x'' @ hex_encode (qs_doc_hash r),
                ''prompt_hash: 0x'' @ hex_encode (qs_prompt_hash r),
                ''output_hash: 0x'' @ hex_encode (qs_output_hash r),
                ''proof bytes: '' @ show_nat (length (qs_proof r)) @ '' (ZK engine lands in a later phase)'',
                ''latency:     '' @ show_nat (unat (qs_latency_ms r)) @ '' ms (wall, incl. ~''
                  @ show_nat (cl_round_trip_ms cl) @ '' ms RTT)''], ExitCode 0))
      | _ \<Rightarrow> cli_usage)"

definition cli_attest :: "'st client \<Rightarrow> string list \<Rightarrow> line list \<times> cli_end" where
  "cli_attest cl params =
     (case params of
        [] \<Rightarrow> cli_usage
      | nonce # _ \<Rightarrow>
          (case cl_attestation cl \<lparr>ar_nonce = nonce, ar_audience = ''cli''\<rparr> of
             Inr r \<Rightarrow> (map Out
               [''--- GetAttestationToken ---'',
                ''swname:       '' @ as_swname r,
                ''hardware:     '' @ as_hardware r,
                ''image_digest: '' @ as_image_digest r,
                ''instance_id:  '' @ as_instance_id r,
                ''eat_token:    '' @ show_nat (length (as_eat_token r)) @ '' bytes (COSE-Sign1)''], ExitCode 0)
           | Inl st \<Rightarrow> (map Out
               [''--- GetAttestationToken: fail-closed ---'',
                ''code:    '' @ cl_code cl st,
                ''message: '' @ cl_message cl st], ExitCode 0)))"

text \<open>The loop over the stream, with the number of feeds printed so far.\<close>

definition feed_line :: "ftso_feed \<Rightarrow> line" where
  "feed_line feed = Out (''  '' @ ff_feed_id feed @ '' = '' @ ff_price feed @ '' @ ts='' @ show_nat (unat (ff_timestamp feed)))"

fun print_feeds :: "nat \<Rightarrow> ('st + ftso_feed) list \<Rightarrow> line list \<times> ('st + nat)" where
  "print_feeds count [] = ([], Ok count)"
| "print_feeds count (Inl st # items) = ([], Err st)"
| "print_feeds count (Inr feed # items) =
     (if 10 \<le> count + 1 then ([feed_line feed], Ok (count + 1))
      else case print_feeds (count + 1) items of (printed, r) \<Rightarrow> (feed_line feed # printed, r))"

definition cli_stream :: "'st client \<Rightarrow> string list \<Rightarrow> line list \<times> cli_end" where
  "cli_stream cl params =
     (case params of
        [] \<Rightarrow> cli_usage
      | arg # _ \<Rightarrow>
          (let feeds = split_on CHR '','' arg; header = Out ''--- StreamFtsoFeeds (max 10) ---''
           in case cl_stream cl \<lparr>fr_feed_ids = feeds, fr_max_updates = 10\<rparr> of
                Inl st \<Rightarrow> ([header], MainError (cl_debug cl st))
              | Inr stream \<Rightarrow>
                  (case print_feeds 0 stream of
                     (printed, Inl st) \<Rightarrow> (header # printed, MainError (cl_debug cl st))
                   | (printed, Inr count) \<Rightarrow> (header # printed @ [Out (''stream ended ('' @ show_nat count @ '' items ''
                       @ em_dash @ '' provider lands in Phase 15)'')], ExitCode 0))))"

definition cli_health :: "'st client \<Rightarrow> string \<Rightarrow> line list \<times> cli_end" where
  "cli_health cl endpoint =
     (case cl_health_channel cl endpoint of
        Inl e \<Rightarrow> ([], MainError e)
      | Inr _ \<Rightarrow> (case cl_health_check cl of
          Inl st \<Rightarrow> ([], MainError (cl_debug cl st))
        | Inr health_status \<Rightarrow> ([Out ''--- grpc.health.v1 ---'', Out (''status: '' @ health_status)], ExitCode 0)))"

definition cli_command :: "'st client \<Rightarrow> string \<Rightarrow> string \<Rightarrow> string list \<Rightarrow> line list \<times> cli_end" where
  "cli_command cl endpoint cmd params =
     (case cl_connect cl endpoint of
        Inl e \<Rightarrow> ([], MainError e)
      | Inr _ \<Rightarrow>
          (if cmd = ''query'' then cli_query cl params
           else if cmd = ''attest'' then cli_attest cl params
           else if cmd = ''stream'' then cli_stream cl params
           else if cmd = ''health'' then cli_health cl endpoint
           else cli_usage))"

definition cli_run :: "'st client \<Rightarrow> string list \<Rightarrow> line list \<times> cli_end" where
  "cli_run cl args =
     (case cli_args args DEFAULT_ENDPOINT [] of
        Some (endpoint, cmd # params) \<Rightarrow> cli_command cl endpoint cmd params
      | _ \<Rightarrow> cli_usage)"

section \<open>Arguments\<close>

text \<open>Arguments other than \<open>--endpoint\<close> and its value are kept in order.\<close>

lemma cli_args_plain: "''--endpoint'' \<notin> set args \<Longrightarrow> cli_args args endpoint rest = Some (endpoint, rest @ args)"
  by (induction args endpoint rest rule: cli_args.induct) auto

lemma cli_args_prefix: "''--endpoint'' \<notin> set args \<Longrightarrow>
    cli_args (args @ ''--endpoint'' # ep # later) endpoint rest = cli_args later ep (rest @ args)"
proof (induction args endpoint rest rule: cli_args.induct)
  case (3 a b as endpoint rest)
  then show ?case by auto
qed auto

lemma cli_args_dangling: "''--endpoint'' \<notin> set args \<Longrightarrow> cli_args (args @ [''--endpoint'']) endpoint rest = None"
  by (induction args endpoint rest rule: cli_args.induct) auto

section \<open>The stream\<close>

definition good_prefix :: "nat \<Rightarrow> ('st + ftso_feed) list \<Rightarrow> ftso_feed list" where
  "good_prefix n items = map projr (takeWhile (\<lambda>i. \<not> isl i) (take n items))"

lemma print_feeds_exact:
  "count < 10 \<Longrightarrow> print_feeds count items = (map feed_line (good_prefix (10 - count) items),
     if length (good_prefix (10 - count) items) = length (take (10 - count) items)
     then Ok (count + length (good_prefix (10 - count) items))
     else Err (projl (items ! length (good_prefix (10 - count) items))))"
proof (induction count items rule: print_feeds.induct)
  case (1 count)
  then show ?case by (simp add: good_prefix_def)
next
  case (2 count st items)
  then show ?case by (cases "10 - count") (simp_all add: good_prefix_def)
next
  case (3 count feed items)
  obtain k where k: "10 - count = Suc k" "k = 10 - (count + 1)" using 3(2) by (cases "10 - count") auto
  show ?case
  proof (cases "10 \<le> count + 1")
    case True
    then have "k = 0" using k(2) by simp
    with True 3(2) show ?thesis by (simp add: k(1) good_prefix_def)
  next
    case False
    then have "count + 1 < 10" by simp
    from 3(1) [OF False this] False show ?thesis unfolding k(1) k(2) [symmetric] by (simp add: good_prefix_def)
  qed
qed

lemma good_prefix_ok: "good_prefix n (map Inr feeds) = take n feeds"
  by (simp add: good_prefix_def take_map takeWhile_eq_all_conv [THEN iffD2] o_def)

lemma print_feeds_ok: "print_feeds 0 (map Inr feeds) = (map feed_line (take 10 feeds), Ok (length (take 10 feeds)))"
  using print_feeds_exact [of 0 "map Inr feeds"] by (simp add: good_prefix_ok)

section \<open>The client on the model of the service\<close>

definition connected :: "(bytes \<Rightarrow> bytes) \<Rightarrow> ('sk, 'vk, 'sig) attest_env \<Rightarrow> u64 option \<Rightarrow> bytes \<Rightarrow> 'sk \<Rightarrow> nat \<Rightarrow> nat
    \<Rightarrow> ftso_feed service \<Rightarrow> status client \<Rightarrow> status client" where
  "connected sha env now instance_id key observed elapsed sv cl = cl\<lparr>
     cl_connect := (\<lambda>_. Ok ()),
     cl_execute_query := (\<lambda>req. fst (execute_query sha observed elapsed req sv)),
     cl_attestation := (\<lambda>req. get_attestation_token env now instance_id key req sv),
     cl_stream := (\<lambda>req. res_bind (stream_ftso_feeds req sv) (\<lambda>feeds. Ok (map Inr feeds)))\<rparr>"


definition w_cli :: "status client" where
  "w_cli = \<lparr>cl_connect = (\<lambda>_. Err ''refused''), cl_execute_query = (\<lambda>_. Err (Internal '''')), cl_attestation = (\<lambda>_. Err (Internal '''')),
     cl_stream = (\<lambda>_. Ok []), cl_health_channel = (\<lambda>_. Ok ()), cl_health_check = Ok ''1'', cl_code = (\<lambda>_. ''''),
     cl_message = (\<lambda>_. ''''), cl_debug = (\<lambda>_. ''''), cl_round_trip_ms = 3\<rparr>"

definition w_feeds :: "string \<Rightarrow> ftso_feed option" where
  "w_feeds i = (if i = ''BTC/USD'' then Some \<lparr>ff_feed_id = i, ff_price = ''5'', ff_timestamp = 9\<rparr> else None)"

definition w_feed_service :: "ftso_feed service" where
  "w_feed_service = \<lparr>sv_state = \<lparr>es_started_at = 0, es_query_count = 0, es_feeds = w_feeds, es_image_digest = ''''\<rparr>,
     sv_poisoned = False, sv_queries_total = 0, sv_query_latency = []\<rparr>"


end
