(* ===== verification/GraphTests.thy ===== *)
theory GraphTests
  imports KGraph
begin

text \<open>
  The unit tests of \<open>graph.rs\<close>, run on the model by the kernel. A test is a Boolean function that
  makes the calls of its source in their order and is false where the source would panic: a call
  is followed by the rest of the test, which gets its result. Left out are the tests of run time
  and the two that build graphs of more than a thousand entities; where a test reads JSON the model
  starts from the payload it stands for.
\<close>

section \<open>Calls that must succeed\<close>

definition unwrap_entity :: "string \<Rightarrow> (nat \<Rightarrow> kg \<Rightarrow> bool) \<Rightarrow> kg \<Rightarrow> bool" where
  "unwrap_entity text k g = (case add_entity text g of (Ok i, g') \<Rightarrow> k i g' | _ \<Rightarrow> False)"

definition unwrap_relation :: "nat \<Rightarrow> string \<Rightarrow> nat \<Rightarrow> (kg \<Rightarrow> bool) \<Rightarrow> kg \<Rightarrow> bool" where
  "unwrap_relation s p ob k g = (case add_relation s p ob g of Some (Ok _, g') \<Rightarrow> k g' | _ \<Rightarrow> False)"

text \<open>A relation that must be refused with the given error (or any), leaving a graph to go on with.\<close>

definition refuse_relation :: "nat \<Rightarrow> string \<Rightarrow> nat \<Rightarrow> graph_error option \<Rightarrow> (kg \<Rightarrow> bool) \<Rightarrow> kg \<Rightarrow> bool" where
  "refuse_relation s p ob err k g = (case add_relation s p ob g of
     Some (Err e, g') \<Rightarrow> (case err of Some e' \<Rightarrow> e = e' | None \<Rightarrow> True) \<and> k g' | _ \<Rightarrow> False)"

definition refuse_entity :: "string \<Rightarrow> graph_error \<Rightarrow> (kg \<Rightarrow> bool) \<Rightarrow> kg \<Rightarrow> bool" where
  "refuse_entity text e k g = (case add_entity text g of (Err e', g') \<Rightarrow> e = e' \<and> k g' | _ \<Rightarrow> False)"

definition expect_path :: "string \<Rightarrow> string \<Rightarrow> (path \<Rightarrow> bool) \<Rightarrow> kg \<Rightarrow> bool" where
  "expect_path s p k g = (case find_path g s p of Some (Some pa) \<Rightarrow> k pa | _ \<Rightarrow> False)"

text \<open>Entities added one after the other, with the list of their identifiers.\<close>

fun collect_entities :: "string list \<Rightarrow> nat list \<Rightarrow> (nat list \<Rightarrow> kg \<Rightarrow> bool) \<Rightarrow> kg \<Rightarrow> bool" where
  "collect_entities [] ids k = k ids"
| "collect_entities (s # ss) ids k = unwrap_entity s (\<lambda>i. collect_entities ss (ids @ [i]) k)"

definition rel :: "nat \<Rightarrow> string \<Rightarrow> nat \<Rightarrow> relation" where
  "rel s p ob = \<lparr>rel_subject = s, rel_predicate = p, rel_object = ob\<rparr>"

definition diamond :: "(kg \<Rightarrow> bool) \<Rightarrow> bool" where
  "diamond k = unwrap_entity ''a'' (\<lambda>a. unwrap_entity ''b'' (\<lambda>b. unwrap_entity ''c'' (\<lambda>c. unwrap_entity ''d'' (\<lambda>d.
     unwrap_relation a ''rel'' b (unwrap_relation a ''rel'' c (
     unwrap_relation b ''rel'' d (unwrap_relation c ''rel'' d k))))))) kg_new"

definition abcd :: "(nat \<Rightarrow> nat \<Rightarrow> nat \<Rightarrow> nat \<Rightarrow> kg \<Rightarrow> bool) \<Rightarrow> bool" where
  "abcd k = unwrap_entity ''a'' (\<lambda>a. unwrap_entity ''b'' (\<lambda>b. unwrap_entity ''c'' (\<lambda>c. unwrap_entity ''d'' (\<lambda>d.
     k a b c d)))) kg_new"

definition alice_bob :: "(nat \<Rightarrow> nat \<Rightarrow> kg \<Rightarrow> bool) \<Rightarrow> bool" where
  "alice_bob k = unwrap_entity ''alice'' (\<lambda>a. unwrap_entity ''bob'' (\<lambda>b. k a b)) kg_new"

section \<open>Construction\<close>

definition empty_graph_has_no_entities_or_relations :: bool where
  "empty_graph_has_no_entities_or_relations \<longleftrightarrow> kg_is_empty kg_new \<and> kg_len kg_new = 0
     \<and> relation_count kg_new = 0 \<and> topological_order kg_new = Some [] \<and> reachable_from kg_new 0 = Some []"

definition add_entity_dedups_and_assigns_insertion_order_ids :: bool where
  "add_entity_dedups_and_assigns_insertion_order_ids \<longleftrightarrow>
     unwrap_entity ''flare'' (\<lambda>flare. unwrap_entity ''ftso'' (\<lambda>ftso g. flare = 0 \<and> ftso = 1
       \<and> unwrap_entity ''flare'' (\<lambda>i g. i = flare \<and> kg_len g = 2 \<and> entity_id g ''flare'' = Some flare
           \<and> entity_id g ''missing'' = None \<and> contains_entity g ''ftso'' \<and> \<not> contains_entity g ''missing'') g)) kg_new"

definition add_entity_rejects_empty_and_oversized_symbols_without_mutation :: bool where
  "add_entity_rejects_empty_and_oversized_symbols_without_mutation \<longleftrightarrow>
     (let huge = replicate (MAX_SYMBOL_LEN + 1) CHR ''x''; exact = replicate MAX_SYMBOL_LEN CHR ''y'' in
      refuse_entity [] EmptyEntity (refuse_entity huge (EntityTooLong (length huge) MAX_SYMBOL_LEN) (
        unwrap_entity exact (\<lambda>_ g. kg_len g = 1))) kg_new)"

definition add_relation_creates_predicate_edge :: bool where
  "add_relation_creates_predicate_edge \<longleftrightarrow> alice_bob (\<lambda>a b. unwrap_relation a ''likes'' b (\<lambda>g.
     has_relation g a ''likes'' b \<and> \<not> has_relation g b ''likes'' a \<and> relation_count g = 1
     \<and> outgoing g a = [(b, ''likes'')] \<and> incoming g b = [(a, ''likes'')]))"

definition add_relation_is_idempotent :: bool where
  "add_relation_is_idempotent \<longleftrightarrow> alice_bob (\<lambda>a b. unwrap_relation a ''likes'' b (
     unwrap_relation a ''likes'' b (\<lambda>g. relation_count g = 1)))"

definition add_relation_rejects_unknown_entities :: bool where
  "add_relation_rejects_unknown_entities \<longleftrightarrow> unwrap_entity ''alice'' (\<lambda>_.
     refuse_relation 0 ''likes'' 5 (Some (UnknownEntity 5)) (
     refuse_relation 5 ''likes'' 0 (Some (UnknownEntity 5)) (\<lambda>g. relation_count g = 0))) kg_new"

definition add_relation_rejects_self_loops :: bool where
  "add_relation_rejects_self_loops \<longleftrightarrow> unwrap_entity ''alice'' (\<lambda>a.
     refuse_relation a ''likes'' a (Some (SelfLoop a)) (\<lambda>g. relation_count g = 0)) kg_new"

definition add_relation_rejects_direct_cycles :: bool where
  "add_relation_rejects_direct_cycles \<longleftrightarrow> alice_bob (\<lambda>a b. unwrap_relation a ''likes'' b (
     refuse_relation b ''likes'' a (Some (Cycle b a)) (\<lambda>g. relation_count g = 1 \<and> has_relation g a ''likes'' b)))"

definition add_relation_rejects_indirect_cycles :: bool where
  "add_relation_rejects_indirect_cycles \<longleftrightarrow>
     unwrap_entity ''a'' (\<lambda>a. unwrap_entity ''b'' (\<lambda>b. unwrap_entity ''c'' (\<lambda>c.
       unwrap_relation a ''rel'' b (unwrap_relation b ''rel'' c (
         refuse_relation c ''rel'' a (Some (Cycle c a)) (\<lambda>g. relation_count g = 2)))))) kg_new"

definition add_relation_rejects_rank_violating_cycle :: bool where
  "add_relation_rejects_rank_violating_cycle \<longleftrightarrow> collect_entities [''a'', ''b'', ''c'', ''d''] [] (\<lambda>ids.
     unwrap_relation (ids ! 0) ''rel'' (ids ! 1) (unwrap_relation (ids ! 1) ''rel'' (ids ! 2) (
     unwrap_relation (ids ! 2) ''rel'' (ids ! 3) (refuse_relation (ids ! 3) ''rel'' (ids ! 0) None (
     refuse_relation (ids ! 3) ''rel'' (ids ! 1) None (\<lambda>g. relation_count g = 3)))))) kg_new"

definition add_relation_fast_path_accepts_forward_edges :: bool where
  "add_relation_fast_path_accepts_forward_edges \<longleftrightarrow> collect_entities (map show_nat [0..<5]) [] (\<lambda>ids.
     unwrap_relation (ids ! 0) ''next'' (ids ! 1) (unwrap_relation (ids ! 1) ''next'' (ids ! 2) (
     unwrap_relation (ids ! 2) ''next'' (ids ! 3) (unwrap_relation (ids ! 3) ''next'' (ids ! 4) (
     unwrap_relation (ids ! 0) ''next'' (ids ! 2) (unwrap_relation (ids ! 1) ''next'' (ids ! 3) (
     unwrap_relation (ids ! 0) ''next'' (ids ! 4) (\<lambda>g. relation_count g = 7
       \<and> topological_order g = Some [0..<5])))))))) kg_new"

text \<open>All of them hold.\<close>

lemma construction_tests:
  empty_graph_has_no_entities_or_relations
  add_entity_dedups_and_assigns_insertion_order_ids
  add_relation_creates_predicate_edge
  add_relation_is_idempotent
  add_relation_rejects_unknown_entities
  add_relation_rejects_self_loops
  add_relation_rejects_direct_cycles
  add_relation_rejects_indirect_cycles
  add_relation_rejects_rank_violating_cycle
  add_relation_fast_path_accepts_forward_edges
  by code_simp+

lemma symbol_length_test: add_entity_rejects_empty_and_oversized_symbols_without_mutation
  by (simp add: add_entity_rejects_empty_and_oversized_symbols_without_mutation_def refuse_entity_def
      unwrap_entity_def add_entity_def MAX_SYMBOL_LEN_def kg_new_def kg_len_def Let_def)

section \<open>Reading\<close>

definition diamond_dag_traverses_deterministically :: bool where
  "diamond_dag_traverses_deterministically \<longleftrightarrow> diamond (\<lambda>g.
     reachable_from g 0 = Some [1, 2, 3] \<and> ancestors_of g 3 = Some [1, 2, 0]
     \<and> reachable_from g 3 = Some [] \<and> ancestors_of g 0 = Some [])"

definition outgoing_and_incoming_are_sorted :: bool where
  "outgoing_and_incoming_are_sorted \<longleftrightarrow>
     unwrap_entity ''a'' (\<lambda>a. unwrap_entity ''b'' (\<lambda>b. unwrap_entity ''c'' (\<lambda>c.
       unwrap_relation a ''z_second'' c (unwrap_relation a ''a_first'' b (unwrap_relation a ''m_mid'' b (\<lambda>g.
         outgoing g a = [(b, ''a_first''), (b, ''m_mid''), (c, ''z_second'')]
         \<and> incoming g b = [(a, ''a_first''), (a, ''m_mid'')])))))) kg_new"

definition relations_flatten_in_deterministic_order :: bool where
  "relations_flatten_in_deterministic_order \<longleftrightarrow> diamond (\<lambda>g.
     relations g = [rel 0 ''rel'' 1, rel 0 ''rel'' 2, rel 1 ''rel'' 3, rel 2 ''rel'' 3])"

text \<open>The position of an entity in the order; the source's map panics at an absent one.\<close>

definition position_in :: "nat list \<Rightarrow> nat \<Rightarrow> nat option" where
  "position_in order i = map_of (zip order [0..<length order]) i"

definition topological_order_is_valid_and_deterministic :: bool where
  "topological_order_is_valid_and_deterministic \<longleftrightarrow> diamond (\<lambda>g. case topological_order g of
     None \<Rightarrow> False
   | Some order \<Rightarrow> list_all (\<lambda>r. case (position_in order (rel_subject r), position_in order (rel_object r)) of
         (Some i, Some j) \<Rightarrow> i < j | _ \<Rightarrow> False) (relations g)
       \<and> topological_order g = Some order)"

definition reachable_from_handles_unknown_ids_safely :: bool where
  "reachable_from_handles_unknown_ids_safely \<longleftrightarrow> diamond (\<lambda>g.
     reachable_from g 99 = Some [] \<and> ancestors_of g 99 = Some [])"

lemma reading_tests:
  diamond_dag_traverses_deterministically
  outgoing_and_incoming_are_sorted
  relations_flatten_in_deterministic_order
  topological_order_is_valid_and_deterministic
  reachable_from_handles_unknown_ids_safely
  by code_simp+

section \<open>The serialized form\<close>

definition round_trip_preserves_graph_and_caches :: bool where
  "round_trip_preserves_graph_and_caches \<longleftrightarrow> diamond (\<lambda>g. case deserialize (serialize g) of
     Some (Ok g2) \<Rightarrow> kg_eq g g2 \<and> entity_id g2 ''a'' = Some 0 \<and> reachable_from g2 0 = Some [1, 2, 3]
       \<and> ancestors_of g2 3 = Some [1, 2, 0] \<and> topological_order g2 = Some [0, 1, 2, 3]
   | _ \<Rightarrow> False)"

definition ent :: "nat \<Rightarrow> string \<Rightarrow> entity" where
  "ent i text = \<lparr>ent_id = i, ent_text = text\<rparr>"

definition deserialize_rejects_cyclic_payload :: bool where
  "deserialize_rejects_cyclic_payload \<longleftrightarrow>
     deserialize \<lparr>flat_nodes = [ent 0 ''a'', ent 1 ''b''], flat_edges = [rel 0 ''x'' 1, rel 1 ''y'' 0]\<rparr>
       = Some (Err (PayloadGraph CyclicPayload))"

fun is_err :: "('e + 'a) option \<Rightarrow> bool" where
  "is_err (Some (Inl e)) = True"
| "is_err _ = False"

definition deserialize_rejects_malformed_payloads :: bool where
  "deserialize_rejects_malformed_payloads \<longleftrightarrow>
     is_err (deserialize \<lparr>flat_nodes = [ent 0 ''a'', ent 1 ''a''], flat_edges = []\<rparr>)
     \<and> is_err (deserialize \<lparr>flat_nodes = [ent 3 ''a''], flat_edges = []\<rparr>)
     \<and> is_err (deserialize \<lparr>flat_nodes = [ent 0 ''a''], flat_edges = [rel 0 ''x'' 9]\<rparr>)
     \<and> is_err (deserialize \<lparr>flat_nodes = [ent 0 ''a''], flat_edges = [rel 0 ''x'' 0]\<rparr>)
     \<and> is_err (deserialize \<lparr>flat_nodes = [ent 0 ''a'', ent 1 ''b''],
         flat_edges = [rel 0 (replicate (MAX_SYMBOL_LEN + 1) CHR ''p'') 1]\<rparr>)
     \<and> is_err (deserialize \<lparr>flat_nodes = [ent 0 (replicate (MAX_SYMBOL_LEN + 1) CHR ''e'')], flat_edges = []\<rparr>)"

definition equality_is_semantic_not_construction_order :: bool where
  "equality_is_semantic_not_construction_order \<longleftrightarrow>
     collect_entities [''a'', ''b'', ''c'', ''d''] [] (\<lambda>ids.
       unwrap_relation (ids ! 0) ''rel'' (ids ! 1) (unwrap_relation (ids ! 0) ''rel'' (ids ! 2) (
       unwrap_relation (ids ! 1) ''rel'' (ids ! 3) (unwrap_relation (ids ! 2) ''rel'' (ids ! 3) (\<lambda>g1.
         collect_entities [''a'', ''b'', ''c'', ''d''] [] (\<lambda>ids2.
           unwrap_relation (ids2 ! 2) ''rel'' (ids2 ! 3) (unwrap_relation (ids2 ! 1) ''rel'' (ids2 ! 3) (
           unwrap_relation (ids2 ! 0) ''rel'' (ids2 ! 2) (unwrap_relation (ids2 ! 0) ''rel'' (ids2 ! 1) (\<lambda>g2.
             kg_eq g1 g2))))) kg_new))))) kg_new"

lemma serialized_tests:
  round_trip_preserves_graph_and_caches
  deserialize_rejects_cyclic_payload
  equality_is_semantic_not_construction_order
  by code_simp+

lemma malformed_test: deserialize_rejects_malformed_payloads
  unfolding deserialize_rejects_malformed_payloads_def
proof (intro conjI)
  show "is_err (deserialize \<lparr>flat_nodes = [ent 0 ''a'', ent 1 ''b''],
      flat_edges = [rel 0 (replicate (MAX_SYMBOL_LEN + 1) CHR ''p'') 1]\<rparr>)"
    by (simp add: deserialize_def ent_def rel_def MAX_SYMBOL_LEN_def kg_new_def Let_def)
  show "is_err (deserialize \<lparr>flat_nodes = [ent 0 (replicate (MAX_SYMBOL_LEN + 1) CHR ''e'')], flat_edges = []\<rparr>)"
    by (simp add: deserialize_def ent_def MAX_SYMBOL_LEN_def kg_new_def Let_def)
qed code_simp+

section \<open>Evidence paths\<close>

text \<open>The four arrays of a path.\<close>

definition path_arrays :: "path \<Rightarrow> nat list \<times> nat list \<times> relation list \<times> nat list" where
  "path_arrays p = (path_entities p, path_depths p, path_relations p, path_relation_depths p)"

definition find_path_extracts_exact_predicate_evidence :: bool where
  "find_path_extracts_exact_predicate_evidence \<longleftrightarrow> diamond (\<lambda>g. expect_path ''a'' ''rel'' (\<lambda>p.
     path_subject p = 0 \<and> path_predicate p = ''rel''
     \<and> path_arrays p = ([0, 1, 2, 3], [0, 1, 1, 2],
         [rel 0 ''rel'' 1, rel 0 ''rel'' 2, rel 1 ''rel'' 3, rel 2 ''rel'' 3], [0, 0, 1, 1])
     \<and> expect_path ''a'' ''rel'' (\<lambda>p'. p = p') g) g)"

definition find_path_returns_none_for_unknown_subject :: bool where
  "find_path_returns_none_for_unknown_subject \<longleftrightarrow> diamond (\<lambda>g. find_path g ''zzz'' ''rel'' = Some None)"

definition find_path_returns_anchor_only_when_no_edges_match :: bool where
  "find_path_returns_anchor_only_when_no_edges_match \<longleftrightarrow> diamond (\<lambda>g.
     expect_path ''a'' ''no_such_predicate'' (\<lambda>p. path_arrays p = ([0], [0], [], [])) g
     \<and> expect_path ''d'' ''rel'' (\<lambda>sink. path_entities sink = [3] \<and> path_depths sink = [0]
         \<and> path_relations sink = []) g)"

definition find_path_filters_by_exact_predicate :: bool where
  "find_path_filters_by_exact_predicate \<longleftrightarrow> abcd (\<lambda>a b c d.
     unwrap_relation a ''x'' b (unwrap_relation a ''y'' c (unwrap_relation b ''x'' d (\<lambda>g.
       expect_path ''a'' ''x'' (\<lambda>px. path_arrays px = ([0, 1, 3], [0, 1, 2], [rel 0 ''x'' 1, rel 1 ''x'' 3], [0, 1])) g
       \<and> expect_path ''a'' ''y'' (\<lambda>py. path_entities py = [0, 2] \<and> path_relations py = [rel 0 ''y'' 2]
           \<and> path_relation_depths py = [0]) g))))"

definition find_path_orders_by_depth_then_id :: bool where
  "find_path_orders_by_depth_then_id \<longleftrightarrow> abcd (\<lambda>a b c d.
     unwrap_relation a ''x'' b (unwrap_relation a ''x'' d (unwrap_relation b ''x'' c (
       expect_path ''a'' ''x'' (\<lambda>p. path_arrays p = ([0, 1, 3, 2], [0, 1, 1, 2],
         [rel 0 ''x'' 1, rel 0 ''x'' 3, rel 1 ''x'' 2], [0, 0, 1]))))))"

definition find_path_parallel_arrays_and_endpoints_are_consistent :: bool where
  "find_path_parallel_arrays_and_endpoints_are_consistent \<longleftrightarrow> diamond (expect_path ''a'' ''rel'' (\<lambda>p.
     length (path_entities p) = length (path_depths p) \<and> length (path_relations p) = length (path_relation_depths p)
     \<and> list_all (\<lambda>r. rel_subject r \<in> set (path_entities p) \<and> rel_object r \<in> set (path_entities p)
         \<and> rel_predicate r = ''rel'') (path_relations p)))"

definition find_path_predicate_matching_is_exact_not_substring_or_case :: bool where
  "find_path_predicate_matching_is_exact_not_substring_or_case \<longleftrightarrow> abcd (\<lambda>a b c d. unwrap_entity ''e'' (\<lambda>e.
     unwrap_relation a ''x'' b (unwrap_relation b ''x_longer'' c (
     unwrap_relation c ''pre_x'' d (unwrap_relation d ''X'' e (\<lambda>g.
       expect_path ''a'' ''x'' (\<lambda>p. path_arrays p = ([0, 1], [0, 1], [rel 0 ''x'' 1], [0])) g
       \<and> expect_path ''b'' ''x_longer'' (\<lambda>p. path_entities p = [1, 2]) g
       \<and> expect_path ''c'' ''pre_x'' (\<lambda>p. path_entities p = [2, 3]) g
       \<and> expect_path ''d'' ''X'' (\<lambda>p. path_entities p = [3, 4]) g))))))"

definition find_path_follows_only_queried_predicate_in_mixed_dag :: bool where
  "find_path_follows_only_queried_predicate_in_mixed_dag \<longleftrightarrow> abcd (\<lambda>a b c d.
     unwrap_relation a ''rel'' b (unwrap_relation b ''rel2'' c (
     unwrap_relation c ''rel'' d (unwrap_relation a ''rel'' d (\<lambda>g.
       expect_path ''a'' ''rel'' (\<lambda>p. path_arrays p = ([0, 1, 3], [0, 1, 1], [rel 0 ''rel'' 1, rel 0 ''rel'' 3], [0, 0])) g
       \<and> expect_path ''c'' ''rel'' (\<lambda>pc. path_entities pc = [2, 3] \<and> path_relations pc = [rel 2 ''rel'' 3]) g
       \<and> expect_path ''b'' ''rel2'' (\<lambda>p2. path_entities p2 = [1, 2] \<and> path_relations p2 = [rel 1 ''rel2'' 2]) g)))))"

definition find_path_is_outward_directed_from_the_anchor :: bool where
  "find_path_is_outward_directed_from_the_anchor \<longleftrightarrow> abcd (\<lambda>a b c d.
     unwrap_relation a ''rel'' b (unwrap_relation b ''rel'' c (
     unwrap_relation a ''other'' d (unwrap_relation d ''rel'' b (\<lambda>g.
       expect_path ''b'' ''rel'' (\<lambda>p. path_arrays p = ([1, 2], [0, 1], [rel 1 ''rel'' 2], [0])) g
       \<and> expect_path ''a'' ''other'' (\<lambda>p. path_entities p = [0, 3]) g)))))"

definition find_path_filters_by_exact_label_between_shared_endpoints :: bool where
  "find_path_filters_by_exact_label_between_shared_endpoints \<longleftrightarrow>
     unwrap_entity ''a'' (\<lambda>a. unwrap_entity ''b'' (\<lambda>b.
       unwrap_relation a ''x'' b (unwrap_relation a ''y'' b (\<lambda>g. relation_count g = 2
         \<and> expect_path ''a'' ''x'' (\<lambda>px. path_entities px = [0, 1] \<and> path_relations px = [rel 0 ''x'' 1]) g
         \<and> expect_path ''a'' ''y'' (\<lambda>py. path_relations py = [rel 0 ''y'' 1]) g
         \<and> expect_path ''b'' ''x'' (\<lambda>p. path_entities p = [1]) g)))) kg_new"

definition find_path_deduplicates_convergent_subgraph :: bool where
  "find_path_deduplicates_convergent_subgraph \<longleftrightarrow> abcd (\<lambda>a b c d. unwrap_entity ''e'' (\<lambda>e.
     unwrap_relation a ''x'' b (unwrap_relation a ''x'' c (unwrap_relation b ''x'' d (
     unwrap_relation c ''x'' d (unwrap_relation a ''x'' e (unwrap_relation e ''x'' d (
       expect_path ''a'' ''x'' (\<lambda>p. path_arrays p = ([0, 1, 2, 4, 3], [0, 1, 1, 1, 2],
           [rel 0 ''x'' 1, rel 0 ''x'' 2, rel 0 ''x'' 4, rel 1 ''x'' 3, rel 2 ''x'' 3, rel 4 ''x'' 3], [0, 0, 0, 1, 1, 1])
         \<and> length (filter (\<lambda>i. i = 3) (path_entities p)) = 1)))))))))"

definition find_path_empty_predicate_is_anchor_only :: bool where
  "find_path_empty_predicate_is_anchor_only \<longleftrightarrow> diamond (expect_path ''a'' [] (\<lambda>p. path_arrays p = ([0], [0], [], [])))"

definition find_path_is_deterministic_across_construction_order :: bool where
  "find_path_is_deterministic_across_construction_order \<longleftrightarrow>
     collect_entities [''a'', ''b'', ''c'', ''d''] [] (\<lambda>ids1.
       unwrap_relation (ids1 ! 0) ''rel'' (ids1 ! 1) (unwrap_relation (ids1 ! 0) ''rel'' (ids1 ! 2) (
       unwrap_relation (ids1 ! 1) ''rel'' (ids1 ! 3) (unwrap_relation (ids1 ! 2) ''rel'' (ids1 ! 3) (\<lambda>g1.
         collect_entities [''a'', ''b'', ''c'', ''d''] [] (\<lambda>ids2.
           unwrap_relation (ids2 ! 2) ''rel'' (ids2 ! 3) (unwrap_relation (ids2 ! 0) ''rel'' (ids2 ! 2) (
           unwrap_relation (ids2 ! 1) ''rel'' (ids2 ! 3) (unwrap_relation (ids2 ! 0) ''rel'' (ids2 ! 1) (\<lambda>g2.
             kg_eq g1 g2 \<and> find_path g1 ''a'' ''rel'' = find_path g2 ''a'' ''rel''
             \<and> expect_path ''a'' ''rel'' (\<lambda>expected. path_entities expected = [0, 1, 2, 3]
                 \<and> path_depths expected = [0, 1, 1, 2]) g1))))) kg_new))))) kg_new"

lemma path_tests:
  find_path_extracts_exact_predicate_evidence
  find_path_returns_none_for_unknown_subject
  find_path_returns_anchor_only_when_no_edges_match
  find_path_filters_by_exact_predicate
  find_path_orders_by_depth_then_id
  find_path_parallel_arrays_and_endpoints_are_consistent
  find_path_predicate_matching_is_exact_not_substring_or_case
  find_path_follows_only_queried_predicate_in_mixed_dag
  find_path_is_outward_directed_from_the_anchor
  find_path_filters_by_exact_label_between_shared_endpoints
  find_path_deduplicates_convergent_subgraph
  find_path_empty_predicate_is_anchor_only
  find_path_is_deterministic_across_construction_order
  by code_simp+

end
