(* ===== verification/TrieTests.thy ===== *)
theory TrieTests
  imports SymTrie "HOL-Library.Code_Target_Nat"
begin

text \<open>
  The unit tests of \<open>trie.rs\<close>, run on the model by the kernel. As in the tests of the graph a call is
  followed by the rest of the test, which gets its result, and a call that must succeed makes
  the test false where it does not. Left out are the tests of run time and the
  JSON half of the round trip.
\<close>

text \<open>The scalar values of an ASCII string, and of the other characters the tests use.\<close>

definition chars :: "string \<Rightarrow> key" where
  "chars s = map of_char s"

definition arrow :: nat where
  "arrow = 0x2192"

definition greek :: "nat \<Rightarrow> nat" where
  "greek i = 0x3B1 + i"

definition put :: "key \<Rightarrow> nat \<Rightarrow> (nat option \<Rightarrow> nat symbolic_trie \<Rightarrow> bool) \<Rightarrow> nat symbolic_trie \<Rightarrow> bool" where
  "put k v c t = (case trie_insert k v t of (Ok old, t') \<Rightarrow> c old t' | _ \<Rightarrow> False)"

fun put_all :: "(key \<times> nat) list \<Rightarrow> (nat symbolic_trie \<Rightarrow> bool) \<Rightarrow> nat symbolic_trie \<Rightarrow> bool" where
  "put_all [] c = c"
| "put_all ((k, v) # kvs) c = put k v (\<lambda>_. put_all kvs c)"

definition insert_and_exact_lookup :: bool where
  "insert_and_exact_lookup \<longleftrightarrow> put (chars ''price'') 1 (\<lambda>old t. old = None \<and> trie_contains t (chars ''price'')
     \<and> trie_lookup t (chars ''price'') = Some 1 \<and> \<not> trie_contains t (chars ''pric'')
     \<and> \<not> trie_contains t (chars ''prices'')) trie_new"

definition insert_overwrites_and_reports_previous :: bool where
  "insert_overwrites_and_reports_previous \<longleftrightarrow> put (chars ''price'') 1 (\<lambda>_. put (chars ''price'') 2 (\<lambda>old t.
     old = Some 1 \<and> trie_lookup t (chars ''price'') = Some 2 \<and> trie_size t = 1)) trie_new"

definition prefix_matches_in_lexicographic_order :: bool where
  "prefix_matches_in_lexicographic_order \<longleftrightarrow>
     put_all [(chars ''price_feed'', 2), (chars ''price'', 1), (chars ''price_index'', 3), (chars ''volume'', 4)] (\<lambda>t.
       prefix_matches t (chars ''price'') = [1, 2, 3] \<and> prefix_matches t (chars ''zzz'') = []) trie_new"

definition shared_prefixes_do_not_collide :: bool where
  "shared_prefixes_do_not_collide \<longleftrightarrow> put_all [(chars ''flare'', 1), (chars ''flr'', 2), (chars ''fl'', 3)] (\<lambda>t.
     trie_lookup t (chars ''flare'') = Some 1 \<and> trie_lookup t (chars ''flr'') = Some 2
     \<and> trie_lookup t (chars ''fl'') = Some 3 \<and> trie_size t = 3) trie_new"

definition determinism_across_insertion_orders :: bool where
  "determinism_across_insertion_orders \<longleftrightarrow>
     put_all [(chars ''zebra'', 1), (chars ''apple'', 2), (chars ''mango'', 3)] (\<lambda>a.
       put_all [(chars ''mango'', 3), (chars ''apple'', 2), (chars ''zebra'', 1)] (\<lambda>b.
         a = b \<and> prefix_matches a [] = [2, 3, 1]) trie_new) trie_new"

definition empty_key_and_empty_trie :: bool where
  "empty_key_and_empty_trie \<longleftrightarrow> (let t0 = trie_new :: nat symbolic_trie in
     trie_is_empty t0 \<and> trie_size t0 = 0 \<and> prefix_matches t0 (chars ''anything'') = []
     \<and> put [] 42 (\<lambda>_ t. \<not> trie_is_empty t \<and> trie_lookup t [] = Some 42 \<and> trie_clone t = Some t) t0)"

definition clone_of_branches :: bool where
  "clone_of_branches \<longleftrightarrow> put_all [(chars ''ftso'', 1), (chars ''fdc'', 2)] (\<lambda>t. trie_clone t = Some t) trie_new"

definition clamping_rejects_oversized_keys_without_mutation :: bool where
  "clamping_rejects_oversized_keys_without_mutation \<longleftrightarrow>
     (let oversized = replicate (SymTrie.MAX_KEY_LEN + 1) (of_char CHR ''a'') in
      case trie_insert oversized (1 :: nat) trie_new of
        (Err (KeyTooLong len maximum), t) \<Rightarrow> len = SymTrie.MAX_KEY_LEN + 1 \<and> maximum = SymTrie.MAX_KEY_LEN
          \<and> trie_is_empty t \<and> prefix_matches t (chars ''a'') = [] \<and> trie_lookup t oversized = None
      | _ \<Rightarrow> False)"

definition clamping_boundary_is_exactly_max_key_len :: bool where
  "clamping_boundary_is_exactly_max_key_len \<longleftrightarrow>
     (let at_limit = replicate SymTrie.MAX_KEY_LEN (of_char CHR ''k'');
          over_limit = replicate (SymTrie.MAX_KEY_LEN + 1) (of_char CHR ''k'') in
      put at_limit 1 (\<lambda>_ t. trie_contains t at_limit \<and> (case trie_insert over_limit 2 t of
        (Err _, t') \<Rightarrow> trie_size t' = 1 | _ \<Rightarrow> False)) trie_new)"

definition prefix_matches_returns_key_itself_and_extensions_in_order :: bool where
  "prefix_matches_returns_key_itself_and_extensions_in_order \<longleftrightarrow>
     put_all [(chars ''ftso_v2'', 1), (chars ''ftso_v2.price_feed'', 2), (chars ''ftso_v2.updated_at'', 3),
         (chars ''fdc'', 4)] (\<lambda>t.
       prefix_matches t (chars ''ftso_v2'') = [1, 2, 3] \<and> prefix_matches t (chars ''ftso_v2.price'') = [2]
       \<and> prefix_matches t (chars ''ftso_v2.zzz'') = [] \<and> trie_lookup t (chars ''ftso_v2'') = Some 1) trie_new"

definition prefix_matches_handles_unicode_symbol_characters :: bool where
  "prefix_matches_handles_unicode_symbol_characters \<longleftrightarrow>
     (let price = chars ''price''; usd = price @ [arrow] @ chars ''usd''; eur = price @ [arrow] @ chars ''eur'';
          abc = [greek 0, greek 1, greek 2] in
      put_all [(usd, 1), (eur, 2), (abc, 3)] (\<lambda>t.
        trie_lookup t usd = Some 1 \<and> trie_lookup t abc = Some 3
        \<and> prefix_matches t (price @ [arrow]) = [2, 1] \<and> prefix_matches t [greek 0] = [3]
        \<and> prefix_matches t price = [2, 1] \<and> prefix_matches t (price @ [arrow] @ chars ''u'') = [1]
        \<and> prefix_matches t (price @ [arrow] @ chars ''x'') = []) trie_new)"

definition lookup_and_prefix_retrieval_agree_and_stay_isolated :: bool where
  "lookup_and_prefix_retrieval_agree_and_stay_isolated \<longleftrightarrow>
     (let keys = [(chars ''alpha'', 0), (chars ''beta'', 1), (chars ''gamma'', 2)] in
      put_all keys (\<lambda>t. list_all (\<lambda>(k, i). trie_lookup t k = Some i \<and> prefix_matches t k = [i]) keys
        \<and> prefix_matches t (chars ''be'') = [1] \<and> prefix_matches t (chars ''ga'') = [2] \<and> trie_size t = 3) trie_new)"

lemma trie_tests:
  insert_and_exact_lookup
  insert_overwrites_and_reports_previous
  prefix_matches_in_lexicographic_order
  shared_prefixes_do_not_collide
  determinism_across_insertion_orders
  empty_key_and_empty_trie
  clone_of_branches
  prefix_matches_returns_key_itself_and_extensions_in_order
  prefix_matches_handles_unicode_symbol_characters
  lookup_and_prefix_retrieval_agree_and_stay_isolated
  by code_simp+

text \<open>The keys of 512 and 513 characters, where lemmas about long keys replace evaluation.\<close>

lemma key_len_replicate: "key_len (replicate n c) = n * utf8_len c"
  by (simp add: key_len_def sum_list_replicate)

lemma clamping_tests:
  clamping_rejects_oversized_keys_without_mutation
  clamping_boundary_is_exactly_max_key_len
proof -
  have u: "utf8_len (of_char CHR ''a'') = 1" "utf8_len (of_char CHR ''k'') = 1" by code_simp+
  have e: "trie_is_empty (trie_new :: nat symbolic_trie)" "prefix_matches (trie_new :: nat symbolic_trie) (chars ''a'') = []"
    by code_simp+
  have n: "trie_lookup (trie_new :: nat symbolic_trie) k = None" for k
    by (simp add: trie_lookup_def trie_new_def)
  then show clamping_rejects_oversized_keys_without_mutation
    using u e by (simp add: clamping_rejects_oversized_keys_without_mutation_def trie_insert_def key_len_replicate
        Let_def del: replicate.simps)
  let ?k = "replicate SymTrie.MAX_KEY_LEN (of_char CHR ''k'')"
  define t where "t = snd (trie_insert ?k (1 :: nat) trie_new)"
  have k: "key_len ?k \<le> SymTrie.MAX_KEY_LEN" using u by (simp add: key_len_replicate)
  have "trie_insert ?k (1 :: nat) trie_new = (Ok None, t)" "trie_lookup t ?k = Some 1"
    using trie_insert_Ok [OF k, of "1 :: nat" trie_new] n by (simp_all add: t_def prod_eq_iff)
  moreover have "trie_size t = 1"
    using k n [of ?k] node_insert_previous [of ?k "1 :: nat" "root trie_new"]
    by (simp add: t_def trie_insert_def trie_size_def trie_lookup_def trie_new_def Let_def case_prod_beta)
  ultimately show clamping_boundary_is_exactly_max_key_len
    using u key_len_replicate [of "SymTrie.MAX_KEY_LEN + 1" "of_char CHR ''k''"]
    by (simp add: clamping_boundary_is_exactly_max_key_len_def put_def trie_contains_def
        trie_insert_def [of "replicate (Suc SymTrie.MAX_KEY_LEN) c" for c] del: replicate.simps)
qed

text \<open>A trie far deeper than any key that \<open>insert\<close> accepts, built around the limit.\<close>

fun deep_node :: "nat \<Rightarrow> nat trie_node" where
  "deep_node 0 = TrieNode [] (Some 1)"
| "deep_node (Suc n) = TrieNode [(of_char CHR ''a'', deep_node n)] None"

definition DEPTH :: nat where
  "DEPTH = 100000"

definition traversal_and_drop_survive_clamp_bypassing_deep_trie :: bool where
  "traversal_and_drop_survive_clamp_bypassing_deep_trie \<longleftrightarrow>
     (let t = \<lparr>root = deep_node DEPTH, trie_len = 1\<rparr> in
      length (prefix_matches t (chars ''a'')) = 1
      \<and> (case trie_clone t of None \<Rightarrow> False
         | Some copy \<Rightarrow> length (prefix_matches copy (chars ''a'')) = 1 \<and> trie_size copy = trie_size t))"

lemma deep_node_facts: "node_wf (deep_node n)" "map snd (node_entries (deep_node n)) = [1]"
  by (induction n) (auto simp: om_wf_def)

lemma deep_test: traversal_and_drop_survive_clamp_bypassing_deep_trie
proof -
  let ?t = "\<lparr>root = deep_node DEPTH, trie_len = 1\<rparr>"
  have "DEPTH = Suc 99999" by (simp add: DEPTH_def)
  then have "deep_node DEPTH = TrieNode [(of_char CHR ''a'', deep_node 99999)] None" by (metis deep_node.simps(2))
  then have "descend (root ?t) (chars ''a'') = Some (deep_node 99999)" by (simp add: chars_def)
  then have "prefix_matches ?t (chars ''a'') = [1]"
    by (simp add: prefix_matches_def collect_values_def collect_loop_eq deep_node_facts)
  moreover have "trie_clone ?t = Some ?t" by (rule trie_clone_copy) (simp add: deep_node_facts)
  ultimately show ?thesis
    by (simp add: traversal_and_drop_survive_clamp_bypassing_deep_trie_def)
qed

end
