(* ===== verification/EngineTests.thy ===== *)
theory EngineTests
  imports TokenGraph "HOL-Library.Code_Target_Nat"
begin

text \<open>
  The unit tests of \<open>lib.rs\<close> and \<open>ast.rs\<close>, run on the model by the kernel: the tokenizer, the parser and
  the graph on the sentences and the legal clauses the source tests them with. A call that must
  succeed makes the test false where it does not. Left out are the tests that compare two runs
  of the same function, those of the digest, whose hash is a parameter, and those of JSON.
\<close>

section \<open>Calls that must succeed\<close>

definition tokens_of :: "string \<Rightarrow> (token list \<Rightarrow> bool) \<Rightarrow> bool" where
  "tokens_of s k = (case tokenize s of Ok ts \<Rightarrow> k ts | _ \<Rightarrow> False)"

definition ast_of :: "string \<Rightarrow> (ast_node \<Rightarrow> bool) \<Rightarrow> bool" where
  "ast_of s k = tokens_of s (\<lambda>ts. case parse ts of Some (Ok ast) \<Rightarrow> k ast | _ \<Rightarrow> False)"

definition graph_of :: "string \<Rightarrow> (document_ast \<Rightarrow> bool) \<Rightarrow> bool" where
  "graph_of s k = (case lex s of Some (Ok g) \<Rightarrow> k g | _ \<Rightarrow> False)"

definition lex_fails :: "string \<Rightarrow> bool" where
  "lex_fails s = (case lex s of Some (Err _) \<Rightarrow> True | _ \<Rightarrow> False)"

definition find_node :: "document_ast \<Rightarrow> string \<Rightarrow> (tnode \<Rightarrow> bool) \<Rightarrow> bool" where
  "find_node g text k = (case find (\<lambda>n. node_text n = text) (nodes g) of Some n \<Rightarrow> k n | None \<Rightarrow> False)"

definition has_node :: "document_ast \<Rightarrow> string \<Rightarrow> bool" where
  "has_node g text = list_ex (\<lambda>n. node_text n = text) (nodes g)"

definition document_of :: "ast_node \<Rightarrow> (ast_node list \<Rightarrow> bool) \<Rightarrow> bool" where
  "document_of ast k = (case ast of Document secs \<Rightarrow> k secs | _ \<Rightarrow> False)"

definition section_of :: "ast_node \<Rightarrow> (ast_node list \<Rightarrow> bool) \<Rightarrow> bool" where
  "section_of sec k = (case sec of Section _ sents \<Rightarrow> k sents | _ \<Rightarrow> False)"

section \<open>Tokens and trees\<close>

definition tokenize_words_numbers_and_whitespace :: bool where
  "tokenize_words_numbers_and_whitespace \<longleftrightarrow> tokens_of ''RAG price is 4.56'' (\<lambda>ts.
     map kind ts = [Word, Whitespace, Word, Whitespace, Word, Whitespace, Number]
     \<and> lexeme (ts ! 0) = ''RAG'' \<and> lexeme (ts ! 6) = ''4.56'' \<and> start (ts ! 6) = 13 \<and> stop (ts ! 6) = 17)"

definition parse_builds_document_with_sentences :: bool where
  "parse_builds_document_with_sentences \<longleftrightarrow> ast_of ''The price is 2.50. It rose yesterday.'' (\<lambda>ast.
     let sents = Parser.sentences ast in length sents = 2 \<and> length (terms (sents ! 0)) = 4 \<and> length (terms (sents ! 1)) = 3)"

definition empty_document_errors :: bool where
  "empty_document_errors \<longleftrightarrow> (case parse [] of Some (Err (Parse _ _)) \<Rightarrow> True | _ \<Rightarrow> False)"

definition parse_splits_sections_on_double_newline :: bool where
  "parse_splits_sections_on_double_newline \<longleftrightarrow>
     ast_of (''Alpha one.'' @ [CHR 0x0A, CHR 0x0A] @ ''Beta two.'') (\<lambda>ast. document_of ast (\<lambda>secs. length secs = 2
       \<and> list_all (\<lambda>sec. section_of sec (\<lambda>sents. length sents = 1)) secs))
     \<and> ast_of (''Alpha one.'' @ [CHR 0x0A] @ ''Beta two.'') (\<lambda>ast. document_of ast (\<lambda>s2. length s2 = 1))"

lemma token_tests:
  tokenize_words_numbers_and_whitespace
  parse_builds_document_with_sentences
  empty_document_errors
  parse_splits_sections_on_double_newline
  by code_simp+

section \<open>Graphs\<close>

definition symbol_type_maps_from_token_kind :: bool where
  "symbol_type_maps_from_token_kind \<longleftrightarrow> from_token_kind Word = Some SymWord \<and> from_token_kind Number = Some SymNumber
     \<and> from_token_kind Symbol = Some SymSymbol \<and> from_token_kind Punctuation = Some SymPunctuation
     \<and> from_token_kind Whitespace = None"

definition document_ast_empty_and_length :: bool where
  "document_ast_empty_and_length \<longleftrightarrow> doc_is_empty doc_empty \<and> doc_len doc_empty = 0 \<and> doc_node doc_empty 0 = None"

definition graph_extraction_is_deterministic_and_has_edges :: bool where
  "graph_extraction_is_deterministic_and_has_edges \<longleftrightarrow> ast_of ''Flare uses FTSO'' (\<lambda>ast. let g = from_ast ast in
     \<not> doc_is_empty g \<and> edges g \<noteq> [] \<and> list_ex (\<lambda>e. e_predicate e = ''uses'') (edges g))"

definition graph_nodes_classify_numbers_correctly :: bool where
  "graph_nodes_classify_numbers_correctly \<longleftrightarrow> ast_of ''The price is 4.56'' (\<lambda>ast. let g = from_ast ast in
     find_node g ''4.56'' (\<lambda>n. node_type n = SymNumber) \<and> find_node g ''price'' (\<lambda>n. node_type n = SymWord))"

definition match_graph_finds_wildcard_matches :: bool where
  "match_graph_finds_wildcard_matches \<longleftrightarrow> ast_of ''Flare uses FTSO v2'' (\<lambda>ast. let g = from_ast ast in
     case match_graph g (pattern_single ''*'' ''uses'' ''ftso'') of
       Ok (m # _) \<Rightarrow> node_text (nodes g ! gm_subject m) = ''flare''
     | _ \<Rightarrow> False)"

definition matching_against_empty_graph_errors :: bool where
  "matching_against_empty_graph_errors \<longleftrightarrow> (case match_graph doc_empty (pattern_single ''a'' ''b'' ''c'') of
     Err (EmptyGraph _) \<Rightarrow> True | _ \<Rightarrow> False)"

definition lex_produces_document_ast_from_plain_text :: bool where
  "lex_produces_document_ast_from_plain_text \<longleftrightarrow> graph_of ''Flare uses FTSO to price assets.'' (\<lambda>g.
     \<not> doc_is_empty g \<and> edges g \<noteq> [] \<and> node_text (nodes g ! 0) = ''flare'' \<and> node_type (nodes g ! 0) = SymWord)"

definition lex_classifies_numbers_and_words :: bool where
  "lex_classifies_numbers_and_words \<longleftrightarrow> graph_of ''The price is 4.56'' (\<lambda>g.
     find_node g ''4.56'' (\<lambda>n. node_type n = SymNumber) \<and> find_node g ''price'' (\<lambda>n. node_type n = SymWord))"

definition lex_rejects_empty_and_whitespace_only_input :: bool where
  "lex_rejects_empty_and_whitespace_only_input \<longleftrightarrow> lex_fails [] \<and> lex_fails (''   '' @ [CHR 0x0A] @ ''  '')"

lemma graph_tests:
  symbol_type_maps_from_token_kind
  document_ast_empty_and_length
  graph_extraction_is_deterministic_and_has_edges
  graph_nodes_classify_numbers_correctly
  match_graph_finds_wildcard_matches
  matching_against_empty_graph_errors
  lex_produces_document_ast_from_plain_text
  lex_classifies_numbers_and_words
  lex_rejects_empty_and_whitespace_only_input
  by code_simp+

section \<open>Legal text\<close>

definition NDA_CLAUSE :: string where
  "NDA_CLAUSE = ''1.1 Confidentiality. Each party agrees to keep the terms of this agreement confidential.''
     @ [CHR 0x0A, CHR 0x0A]
     @ ''1.2 Term. This agreement shall remain in force for five years from the effective date.''"

definition PURCHASE_CLAUSE :: string where
  "PURCHASE_CLAUSE = ''Section 3.1 Consideration. The buyer shall pay the seller the sum of one million dollars ''
     @ ''(USD 1,000,000.00) within 30 days of the effective date.''"

definition lex_legal_clause_splits_sections_and_sentences :: bool where
  "lex_legal_clause_splits_sections_and_sentences \<longleftrightarrow> ast_of NDA_CLAUSE (\<lambda>ast. document_of ast (\<lambda>secs.
     list_all (\<lambda>sec. section_of sec (\<lambda>sents. length sents = 2)) secs
     \<and> secs \<noteq> [] \<and> section_of (secs ! 0) (\<lambda>sents. map lexeme (terms (sents ! 0)) = [''1.1'', ''Confidentiality''])))"

definition lex_legal_clause_extracts_clause_numbering :: bool where
  "lex_legal_clause_extracts_clause_numbering \<longleftrightarrow> graph_of NDA_CLAUSE (\<lambda>g.
     find_node g ''1.1'' (\<lambda>c11. node_type c11 = SymNumber \<and> span_start (node_span c11) < length NDA_CLAUSE)
     \<and> find_node g ''1.2'' (\<lambda>c12. node_type c12 = SymNumber)
     \<and> find_node g ''confidentiality'' (\<lambda>heading. node_type heading = SymWord
         \<and> span_start (node_span heading) < length NDA_CLAUSE))"

definition lex_legal_clause_builds_predicate_edge_from_middle_term :: bool where
  "lex_legal_clause_builds_predicate_edge_from_middle_term \<longleftrightarrow>
     graph_of ''Section 3.1 Consideration. The buyer shall pay.'' (\<lambda>g.
       case find (\<lambda>e. e_predicate e = ''3.1'') (edges g) of None \<Rightarrow> False
       | Some e \<Rightarrow> (case (doc_node g (e_subject e), doc_node g (e_object e)) of
           (Some subj, Some obj) \<Rightarrow> node_text subj = ''section'' \<and> node_text obj = ''consideration''
         | _ \<Rightarrow> False))"

definition lex_legal_amount_preserves_decimal_and_symbols :: bool where
  "lex_legal_amount_preserves_decimal_and_symbols \<longleftrightarrow> graph_of PURCHASE_CLAUSE (\<lambda>g.
     has_node g ''1'' \<and> has_node g ''000.00'' \<and> has_node g ''usd'' \<and> \<not> has_node g '','')"

definition lex_legal_date_produces_number_nodes :: bool where
  "lex_legal_date_produces_number_nodes \<longleftrightarrow> graph_of ''The agreement is dated 31 December 2026.'' (\<lambda>g.
     has_node g ''31'' \<and> has_node g ''2026'' \<and> find_node g ''december'' (\<lambda>month. node_type month = SymWord))"

definition lex_legal_variants_produce_distinct_graphs :: bool where
  "lex_legal_variants_produce_distinct_graphs \<longleftrightarrow> graph_of ''The buyer shall pay within 30 days.'' (\<lambda>a.
     graph_of ''The buyer shall pay within 60 days.'' (\<lambda>b.
       a \<noteq> b \<and> has_node a ''30'' \<and> has_node b ''60'' \<and> \<not> has_node a ''60''))"

definition lex_legal_consumes_semicolons_as_structural_punctuation :: bool where
  "lex_legal_consumes_semicolons_as_structural_punctuation \<longleftrightarrow>
     (let text = ''The parties agree; the term is five years; the sum is due.'' in
      graph_of text (\<lambda>g. list_all (\<lambda>n. node_text n \<noteq> '';'') (nodes g))
      \<and> ast_of text (\<lambda>ast. length (Parser.sentences ast) = 1))"

lemma legal_tests:
  lex_legal_clause_splits_sections_and_sentences
  lex_legal_clause_builds_predicate_edge_from_middle_term
  lex_legal_date_produces_number_nodes
  lex_legal_variants_produce_distinct_graphs
  lex_legal_consumes_semicolons_as_structural_punctuation
  by code_simp+

text \<open>The count of sections, which the source means to assert but writes on the line of a comment.\<close>

lemma nda_sections: "ast_of NDA_CLAUSE (\<lambda>ast. document_of ast (\<lambda>secs. length secs = 2))"
  by code_simp

text \<open>A test that reads only the nodes need not build the hundreds of edges of a long sentence.\<close>

lemma graph_of_by_nodes:
  assumes "ast_of s (\<lambda>ast. k \<lparr>nodes = nodes_of (concat (map terms (Parser.sentences ast))), edges = []\<rparr>)"
    and "\<And>ns es. k \<lparr>nodes = ns, edges = es\<rparr> = k \<lparr>nodes = ns, edges = []\<rparr>"
  shows "graph_of s k"
  using assms unfolding ast_of_def tokens_of_def graph_of_def lex_def from_ast_graph_spec graph_spec_def
  by (auto simp: Let_def split: sum.splits option.splits)

lemma legal_number_test: lex_legal_clause_extracts_clause_numbering
  unfolding lex_legal_clause_extracts_clause_numbering_def
  by (rule graph_of_by_nodes) (code_simp, simp add: find_node_def)

lemma legal_amount_test: lex_legal_amount_preserves_decimal_and_symbols
  unfolding lex_legal_amount_preserves_decimal_and_symbols_def
  by (rule graph_of_by_nodes) (code_simp, simp add: has_node_def)

end
