(* ===== verification/ProviderTests.thy ===== *)
theory ProviderTests
  imports FtsoCalc FtsoSubmit
begin

text \<open>
  The unit tests of \<open>calculator.rs\<close> and \<open>submitter.rs\<close> that need no hash function, on the model. A decimal
  literal is the nearest double, as the compiler reads it; what a rounding gives is checked
  against the rational it rounds, so that the tests also validate the model of \<open>f64\<close>.
\<close>

section \<open>The median\<close>

definition obs_at :: "string \<Rightarrow> nat \<Rightarrow> nat \<Rightarrow> observation" where
  "obs_at exchange price volume = \<lparr>o_exchange = exchange, o_price = fnat price, o_volume = fnat volume\<rparr>"

definition empty_input_is_none :: bool where
  "empty_input_is_none \<longleftrightarrow> volume_trimmed_median [] = Some None"

definition single_observation_is_that_price :: bool where
  "single_observation_is_that_price \<longleftrightarrow>
     volume_trimmed_median [\<lparr>o_exchange = ''coinbase'', o_price = rnd (58432 / 100000), o_volume = fnat 1000\<rparr>]
       = Some (Some (rnd (58432 / 100000)))"

definition extreme_high_outlier_is_trimmed :: bool where
  "extreme_high_outlier_is_trimmed \<longleftrightarrow>
     volume_trimmed_median [obs_at ''a'' 100 1, obs_at ''b'' 101 1, obs_at ''c'' 102 1, obs_at ''d'' 103 1, obs_at ''e'' 500 1]
       = Some (Some (fnat 102))"

definition thin_low_quote_does_not_distort_median :: bool where
  "thin_low_quote_does_not_distort_median \<longleftrightarrow>
     volume_trimmed_median [obs_at ''thin'' 100 1, obs_at ''deep'' 110 10] = Some (Some (fnat 110))"

definition dominant_volume_drives_median :: bool where
  "dominant_volume_drives_median \<longleftrightarrow>
     volume_trimmed_median [obs_at ''a'' 100 3, obs_at ''b'' 110 1, obs_at ''c'' 120 1] = Some (Some (fnat 100))"

definition volume_weighting_beats_plain_median :: bool where
  "volume_weighting_beats_plain_median \<longleftrightarrow>
     (case volume_trimmed_median [obs_at ''a'' 99 1, obs_at ''b'' 101 90, obs_at ''c'' 101 1] of
        Some (Some result) \<Rightarrow> fle (fnat 101) result | _ \<Rightarrow> False)"

definition zero_volume_falls_back_to_plain_median :: bool where
  "zero_volume_falls_back_to_plain_median \<longleftrightarrow>
     volume_trimmed_median [obs_at ''a'' 10 0, obs_at ''b'' 20 0, obs_at ''c'' 30 0] = Some (Some (fnat 20))
     \<and> volume_trimmed_median [obs_at ''a'' 10 0, obs_at ''b'' 20 0] = Some (Some (fnat 15))"

definition unsorted_input_is_handled_deterministically :: bool where
  "unsorted_input_is_handled_deterministically \<longleftrightarrow>
     volume_trimmed_median [obs_at ''x'' 103 1, obs_at ''y'' 101 1, obs_at ''z'' 500 1, obs_at ''w'' 100 1, obs_at ''v'' 102 1]
     = volume_trimmed_median [obs_at ''w'' 100 1, obs_at ''z'' 500 1, obs_at ''x'' 103 1, obs_at ''v'' 102 1, obs_at ''y'' 101 1]"

lemma obs_at_simps [simp]: "o_price (obs_at x p v) = fnat p" "o_volume (obs_at x p v) = fnat v"
  by (simp_all add: obs_at_def)

lemma median_edge_tests:
  empty_input_is_none
  single_observation_is_that_price
  by (simp_all add: empty_input_is_none_def single_observation_is_that_price_def volume_trimmed_median_def)

lemma outlier_test: extreme_high_outlier_is_trimmed
  unfolding extreme_high_outlier_is_trimmed_def
  by (rule median_by_stages [where T = "fnat 5" and ob = "obs_at ''a'' 100 1" and ob' = "obs_at ''b'' 101 1"
        and obs' = "[obs_at ''c'' 102 1, obs_at ''d'' 103 1, obs_at ''e'' 500 1]"
        and k = "(fnat 101, fnat 1)" and kept = "[(fnat 102, fnat 1), (fnat 103, fnat 1)]"];
      (simp add: median_ops weighted_median_def del: fadd.simps fmul.simps fdiv.simps); simp add: fnat_def)

lemma thin_test: thin_low_quote_does_not_distort_median
  unfolding thin_low_quote_does_not_distort_median_def
  by (rule median_by_stages [where T = "fnat 11" and ob = "obs_at ''thin'' 100 1" and ob' = "obs_at ''deep'' 110 10"
        and obs' = "[]" and k = "(fnat 110, fnat 10)" and kept = "[]"];
      (simp add: median_ops weighted_median_def del: fadd.simps fmul.simps fdiv.simps); simp add: fnat_def)

lemma dominant_test: dominant_volume_drives_median
  unfolding dominant_volume_drives_median_def
  by (rule median_by_stages [where T = "fnat 5" and ob = "obs_at ''a'' 100 3" and ob' = "obs_at ''b'' 110 1"
        and obs' = "[obs_at ''c'' 120 1]" and k = "(fnat 100, fnat 3)" and kept = "[(fnat 110, fnat 1)]"];
      (simp add: median_ops weighted_median_def del: fadd.simps fmul.simps fdiv.simps); simp add: fnat_def)

lemma weighting_test: volume_weighting_beats_plain_median
proof -
  have "volume_trimmed_median [obs_at ''a'' 99 1, obs_at ''b'' 101 90, obs_at ''c'' 101 1] = Some (Some (fnat 101))"
    by (rule median_by_stages [where T = "fnat 92" and ob = "obs_at ''a'' 99 1" and ob' = "obs_at ''b'' 101 90"
          and obs' = "[obs_at ''c'' 101 1]" and k = "(fnat 101, fnat 90)" and kept = "[]"];
        (simp add: median_ops weighted_median_def del: fadd.simps fmul.simps fdiv.simps); simp add: fnat_def)
  then show ?thesis by (simp add: volume_weighting_beats_plain_median_def fle_def)
qed

lemma zero_volume_test: zero_volume_falls_back_to_plain_median
  unfolding zero_volume_falls_back_to_plain_median_def
proof
  show "volume_trimmed_median [obs_at ''a'' 10 0, obs_at ''b'' 20 0, obs_at ''c'' 30 0] = Some (Some (fnat 20))"
    by (simp add: volume_trimmed_median_def median_ops plain_median_def del: fadd.simps fmul.simps fdiv.simps)
  have "fdiv (fnat 30) 2 = fnat 15" using fraction_fnat(1) [of 30] by (simp add: fnat_def)
  then show "volume_trimmed_median [obs_at ''a'' 10 0, obs_at ''b'' 20 0] = Some (Some (fnat 15))"
    by (simp add: volume_trimmed_median_def median_ops plain_median_def del: fadd.simps fmul.simps fdiv.simps)
qed

lemma unsorted_test: unsorted_input_is_handled_deterministically
  unfolding unsorted_input_is_handled_deterministically_def by (rule median_order_free) simp_all

section \<open>Prices as integers\<close>

text \<open>The formatter's message texts do not matter here: any rendering of a number.\<close>

definition price_scales_to_five_decimals :: "(f64 \<Rightarrow> string) \<Rightarrow> bool" where
  "price_scales_to_five_decimals sf \<longleftrightarrow> format_price sf (rnd (584321 / 10 ^ 6)) = Ok 58432
     \<and> format_price sf (rnd (6400123456 / 10 ^ 5)) = Ok 6400123456
     \<and> format_price sf (rnd (345025 / 10 ^ 2)) = Ok 345025000"

definition price_rounds_half_up :: "(f64 \<Rightarrow> string) \<Rightarrow> bool" where
  "price_rounds_half_up sf \<longleftrightarrow> format_price sf (rnd (584325 / 10 ^ 6)) = Ok 58433
     \<and> format_price sf (rnd (584324 / 10 ^ 6)) = Ok 58432"

definition rejects_invalid_prices :: "(f64 \<Rightarrow> string) \<Rightarrow> bool" where
  "rejects_invalid_prices sf \<longleftrightarrow>
     list_all (\<lambda>p. case format_price sf p of Err _ \<Rightarrow> True | _ \<Rightarrow> False) [Fin 0, Fin (- 1), NaN, PosInf]"

lemma rejects_test: "rejects_invalid_prices sf"
  by (simp add: rejects_invalid_prices_def format_price_def is_finite_def fle_def)

text \<open>The two roundings of a format: that of the literal, at exponent \<open>k\<close>, and that of the product, at \<open>j\<close>.\<close>

lemma format_at:
  fixes q x y :: rat and k j m m' :: int and n :: nat
  assumes "2 powi k \<le> q" "q < 2 powi (k + 1)" "- 1022 \<le> k" "k < 1022" "\<bar>q / 2 powi (k - 52) - of_int m\<bar> < 1/2"
    and x: "x = of_int m * 2 powi (k - 52)" "0 < m"
    and "2 powi j \<le> x * 100000" "x * 100000 < 2 powi (j + 1)" "- 1022 \<le> j" "j < 1022"
    and "\<bar>x * 100000 / 2 powi (j - 52) - of_int m'\<bar> < 1/2"
    and y: "y = of_int m' * 2 powi (j - 52)" "of_nat n \<le> y + 1/2" "y + 1/2 < of_nat n + 1" "0 \<le> y" "n < 2 ^ 64" "p = word_of_nat n"
  shows "format_price sf (rnd q) = Ok p"
proof -
  have q: "rnd q = Fin x" unfolding x(1) by (rule rnd_nearest [OF assms(1-5)])
  have y': "rnd (x * 100000) = Fin y" unfolding y(1) by (rule rnd_nearest [OF assms(8-12)])
  have "\<lfloor>y + 1/2\<rfloor> = int n" using y by (intro floor_unique) simp_all
  then have u: "u64_of_scaled y = n" using y(5) by (simp add: u64_of_scaled_def)
  have "(of_nat n :: rat) < of_nat (2 ^ 64)" using y(5) by (simp only: of_nat_less_iff)
  moreover have "(of_nat n :: rat) + 1 \<le> of_nat (2 ^ 64)" using y(5)
    by (metis Suc_leI of_nat_Suc of_nat_le_iff add.commute)
  ultimately have "y \<le> 2 ^ 64" using y(3) by simp
  moreover have "0 < x" using x by simp
  ultimately show ?thesis unfolding q format_price_Fin using y' y(4,5,6) u unat_u64 by metis
qed

lemma scales_test: "price_scales_to_five_decimals sf"
  unfolding price_scales_to_five_decimals_def
proof (intro conjI)
  show "format_price sf (rnd (584321 / 10 ^ 6)) = Ok 58432"
    by (rule format_at [where k = "- 1" and m = 5263095675729511 and j = 15 and m' = 8030846673171251 and n = 58432, OF _ _ _ _ _ refl _ _ _ _ _ _ refl])
      (simp_all add: power_int_def divide_simps)
  show "format_price sf (rnd (6400123456 / 10 ^ 5)) = Ok 6400123456"
    by (rule format_at [where k = 15 and m = 8796262698842398 and j = 32 and m' = 6711015852998656 and n = 6400123456, OF _ _ _ _ _ refl _ _ _ _ _ _ refl])
      (simp_all add: power_int_def divide_simps)
  show "format_price sf (rnd (345025 / 10 ^ 2)) = Ok 345025000"
    by (rule format_at [where k = 11 and m = 7587179987468288 and j = 28 and m' = 5788558950400000 and n = 345025000, OF _ _ _ _ _ refl _ _ _ _ _ _ refl])
      (simp_all add: power_int_def divide_simps)
qed

lemma half_up_test: "price_rounds_half_up sf"
  unfolding price_rounds_half_up_def
proof
  show "format_price sf (rnd (584325 / 10 ^ 6)) = Ok 58433"
    by (rule format_at [where k = "- 1" and m = 5263131704526530 and j = 15 and m' = 8030901648752640 and n = 58433, OF _ _ _ _ _ refl _ _ _ _ _ _ refl])
      (simp_all add: power_int_def divide_simps)
  show "format_price sf (rnd (584324 / 10 ^ 6)) = Ok 58432"
    by (rule format_at [where k = "- 1" and m = 5263122697327275 and j = 15 and m' = 8030887904857292 and n = 58432, OF _ _ _ _ _ refl _ _ _ _ _ _ refl])
      (simp_all add: power_int_def divide_simps)
qed

section \<open>Calldata\<close>

definition submit_hash_calldata_is_well_formed :: "keccak \<Rightarrow> bool" where
  "submit_hash_calldata_is_well_formed kc \<longleftrightarrow>
     (let calldata = submit_hash_calldata kc 123 (replicate 32 0x42) in
      length calldata = 4 + 32 + 32 \<and> take 4 calldata = selector kc ''submitHash(uint256,bytes32)''
      \<and> take 32 (drop 4 calldata) = replicate 24 0 @ u64_to_be_bytes 123 \<and> drop 36 calldata = replicate 32 0x42)"

definition reveal_calldata_head_tail_layout :: "keccak \<Rightarrow> bool" where
  "reveal_calldata_head_tail_layout kc \<longleftrightarrow>
     (let calldata = reveal_prices_calldata kc 9 [1, 2] [100, 200] (replicate 32 0x11);
          word_at = (\<lambda>start. be_nat (take 8 (drop (start + 24) calldata)));
          indices_offset = word_at 36; prices_offset = word_at 68;
          tail = 4 + indices_offset; ptail = 4 + prices_offset in
      take 4 calldata = selector kc ''revealPrices(uint256,uint256[],uint256[],uint256)''
      \<and> take 32 (drop 4 calldata) = replicate 24 0 @ u64_to_be_bytes 9
      \<and> indices_offset = 4 * 32 \<and> prices_offset = 4 * 32 + 32 + 2 * 32 \<and> word_at tail = 2 \<and> word_at ptail = 2)"

definition submission_builds_hashes_and_roundtrips :: "keccak \<Rightarrow> (f64 \<Rightarrow> string) \<Rightarrow> (nat \<Rightarrow> bytes) \<Rightarrow> bool" where
  "submission_builds_hashes_and_roundtrips kc sf OsRng \<longleftrightarrow>
     (case submission_new kc sf 42 [(0, rnd (584321 / 10 ^ 6)), (1, rnd (6400123 / 10 ^ 2))] (fresh_random OsRng)
         (replicate 20 0xBB) of
        Err _ \<Rightarrow> False
      | Ok sub \<Rightarrow> ps_prices sub = [58432, 6400123000] \<and> length (ps_hashes sub) = 2 \<and> length (submit_txs kc sub) = 2
          \<and> length (reveal_tx kc sub) = 4 + 4 * 32 + 32 + 2 * 32 + 32 + 2 * 32)"

lemma submit_hash_test: "\<forall>bs. length (kc bs) = 32 \<Longrightarrow> submit_hash_calldata_is_well_formed kc"
  by (simp add: submit_hash_calldata_is_well_formed_def submit_hash_calldata_def selector_length word256_def Let_def
      u64_to_be_bytes_def)

lemma low_bytes: "drop 24 (word256 w) = u64_to_be_bytes w" "be_nat (u64_to_be_bytes w) = unat w"
  using be_nat_word256 [of w] by (simp_all add: word256_def be_nat_zeros)

lemma reveal_layout_test:
  assumes "\<forall>bs. length (kc bs) = 32"
  shows "reveal_calldata_head_tail_layout kc"
proof -
  have "length (selector kc s) = 4" for s by (rule selector_length [OF assms])
  then show ?thesis
    by (simp add: reveal_calldata_head_tail_layout_def reveal_layout low_bytes drop_append take_append)
      (simp add: word256_def)
qed

lemma submission_test:
  assumes "\<forall>bs. length (kc bs) = 32" "\<forall>n. length (OsRng n) = n"
  shows "submission_builds_hashes_and_roundtrips kc sf OsRng"
proof -
  have p: "format_price sf (rnd (584321 / 10 ^ 6)) = Ok 58432"
    using scales_test [of sf] by (simp add: price_scales_to_five_decimals_def)
  have q: "format_price sf (rnd (6400123 / 10 ^ 2)) = Ok 6400123000"
    by (rule format_at [where k = 15 and m = 8796262072120771 and j = 32 and m' = 6711015374848000 and n = 6400123000,
          OF _ _ _ _ _ refl _ _ _ _ _ _ refl])
      (simp_all add: power_int_def divide_simps)
  show ?thesis
    unfolding submission_builds_hashes_and_roundtrips_def submission_new_def
    using assms p q
    by (simp add: submit_txs_def reveal_tx_def reveal_layout selector_length fresh_random_def)
qed

end
