(* ===== verification/ServiceTests.thy ===== *)
theory ServiceTests
  imports Ticker KmsClient TlsProxy
begin

text \<open>
  Unit tests of \<open>node.rs\<close>, \<open>client.rs\<close> and \<open>cert_verifier.rs\<close> on the model. A ticker test starts from the
  JSON value of its message, since the reader of JSON text is a parameter of the model; a
  decimal literal is the nearest double.
\<close>

section \<open>Tickers\<close>

definition ticker_of :: "exchange_id \<Rightarrow> json \<Rightarrow> ticker option" where
  "ticker_of e v = parse_ticker (\<lambda>_. Some v) e (MText [])"

definition reads :: "exchange_id \<Rightarrow> json \<Rightarrow> string \<Rightarrow> rat \<Rightarrow> rat \<Rightarrow> bool" where
  "reads e v feed price volume \<longleftrightarrow> ticker_of e v
     = Some \<lparr>t_feed = feed, t_exchange = e, t_price = rnd price, t_volume = rnd volume\<rparr>"

definition coinbase_ticker_parses :: bool where
  "coinbase_ticker_parses \<longleftrightarrow> reads Coinbase (JObj [(''type'', JStr ''ticker''), (''product_id'', JStr ''BTC-USD''),
     (''price'', JStr ''64001.23''), (''volume_24h'', JStr ''1234.5'')]) ''BTC/USD'' (6400123 / 100) (12345 / 10)"

definition coinbase_heartbeat_ignored :: bool where
  "coinbase_heartbeat_ignored \<longleftrightarrow>
     ticker_of Coinbase (JObj [(''type'', JStr ''heartbeat''), (''sequence'', JNum (Fin 123))]) = None"

definition kraken_ticker_parses_and_normalizes_xbt :: bool where
  "kraken_ticker_parses_and_normalizes_xbt \<longleftrightarrow> reads Kraken (JArr [JNum (Fin 333),
     JObj [(''c'', JArr [JStr ''0.58432'', JStr ''100'']), (''v'', JArr [JStr ''500'', JStr ''9000''])],
     JStr ''ticker'', JStr ''XBT/USD'']) ''BTC/USD'' (58432 / 100000) 9000"

definition kraken_subscription_status_ignored :: bool where
  "kraken_subscription_status_ignored \<longleftrightarrow> ticker_of Kraken (JObj [(''event'', JStr ''subscriptionStatus''),
     (''channelID'', JNum (Fin 0)), (''status'', JStr ''subscribed'')]) = None"

definition binance_combined_ticker_parses :: bool where
  "binance_combined_ticker_parses \<longleftrightarrow> reads Binance (JObj [(''stream'', JStr ''btcusdt@ticker''),
     (''data'', JObj [(''e'', JStr ''24hrTicker''), (''s'', JStr ''BTCUSDT''), (''c'', JStr ''64001.23''),
        (''q'', JStr ''987654321.5'')])]) ''BTC/USD'' (6400123 / 100) (9876543215 / 10)"

definition gate_ticker_parses :: bool where
  "gate_ticker_parses \<longleftrightarrow> reads Gate (JObj [(''time'', JNum (Fin 1786868962)), (''time_ms'', JNum (Fin 1786868962889)),
     (''channel'', JStr ''spot.tickers''), (''event'', JStr ''update''),
     (''result'', JObj [(''currency_pair'', JStr ''BTC_USDT''), (''last'', JStr ''63071.4''),
        (''lowest_ask'', JStr ''63071.4''), (''highest_bid'', JStr ''63071.3''), (''change_percentage'', JStr ''0.03''),
        (''base_volume'', JStr ''568.133093''), (''quote_volume'', JStr ''35825234.3317461''),
        (''high_24h'', JStr ''63171.7''), (''low_24h'', JStr ''62917.7'')])])
       ''BTC/USD'' (630714 / 10) (358252343317461 / 10000000)
     \<and> (case ticker_of Gate (JObj [(''channel'', JStr ''spot.tickers''), (''event'', JStr ''update''),
         (''result'', JObj [(''currency_pair'', JStr ''XRP_USDT''), (''last'', JStr ''1.0018''), (''quote_volume'', JStr ''12345.6'')])]) of
         Some t2 \<Rightarrow> t_feed t2 = ''XRP/USD'' \<and> t_price t2 = rnd (10018 / 10000) | None \<Rightarrow> False)"

definition gate_subscription_ack_ignored :: bool where
  "gate_subscription_ack_ignored \<longleftrightarrow> ticker_of Gate (JObj [(''time'', JNum (Fin 1786868962)),
     (''channel'', JStr ''spot.tickers''), (''event'', JStr ''subscribe''),
     (''result'', JObj [(''status'', JStr ''success'')])]) = None"

definition bitfinex_ticker_parses :: bool where
  "bitfinex_ticker_parses \<longleftrightarrow> reads Bitfinex (JArr [JNum (Fin 57264), JArr [JNum (Fin 63083), JNum (rnd (322281482 / 10 ^ 8)),
     JNum (Fin 63086), JNum (rnd (190097424 / 10 ^ 8)), JNum (Fin (- 1)), JNum (rnd (- 1585 / 10 ^ 8)), JNum (rnd 63094),
     JNum (rnd (1158357962 / 10 ^ 7)), JNum (Fin 63210), JNum (Fin 62941), JNull], JStr ''tBTCUSD''])
       ''BTC/USD'' 63094 (1158357962 / 10 ^ 7)"

definition bitfinex_control_messages_ignored :: bool where
  "bitfinex_control_messages_ignored \<longleftrightarrow> ticker_of Bitfinex (JObj [(''event'', JStr ''subscribed''),
     (''channel'', JStr ''ticker''), (''chanId'', JNum (Fin 57264)), (''symbol'', JStr ''tBTCUSD''),
     (''pair'', JStr ''BTCUSD'')]) = None
     \<and> ticker_of Bitfinex (JArr [JNum (Fin 57264), JStr ''hb'']) = None"

definition rejects_non_positive_or_nan_prices :: bool where
  "rejects_non_positive_or_nan_prices \<longleftrightarrow> list_all (\<lambda>price. ticker_of Coinbase (JObj [(''type'', JStr ''ticker''),
     (''product_id'', JStr ''BTC-USD''), (''price'', JStr price), (''volume_24h'', JStr ''1'')]) = None) [''0'', ''abc'']"

text \<open>What the number parser gives on the texts of the tests.\<close>

lemma test_numbers:
  "parse_f64 ''64001.23'' = Some (rnd (6400123 / 100))" "parse_f64 ''1234.5'' = Some (rnd (12345 / 10))"
  "parse_f64 ''0.58432'' = Some (rnd (58432 / 100000))" "parse_f64 ''987654321.5'' = Some (rnd (9876543215 / 10))"
  "parse_f64 ''63071.4'' = Some (rnd (630714 / 10))" "parse_f64 ''35825234.3317461'' = Some (rnd (358252343317461 / 10000000))"
  "parse_f64 ''1.0018'' = Some (rnd (10018 / 10000))" "parse_f64 ''12345.6'' = Some (rnd (123456 / 10))"
  using parse_f64_plain [of "''64001''" "''23''"] parse_f64_plain [of "''1234''" "''5''"]
    parse_f64_plain [of "''0''" "''58432''"] parse_f64_plain [of "''987654321''" "''5''"]
    parse_f64_plain [of "''63071''" "''4''"] parse_f64_plain [of "''35825234''" "''3317461''"]
    parse_f64_plain [of "''1''" "''0018''"] parse_f64_plain [of "''12345''" "''6''"]
  by (simp_all add: digit_char_def less_eq_char_def digits_nat_def)

lemma test_integers: "parse_f64 ''9000'' = Some (rnd 9000)" "parse_f64 ''0'' = Some (rnd 0)" "parse_f64 ''1'' = Some (rnd 1)"
  "parse_f64 ''abc'' = None"
  by (simp_all add: parse_f64_def parse_decimal_def Let_def digit_char_def less_eq_char_def lower_char_def digits_nat_def
      del: rnd_0)

lemma rnd_accepted:
  assumes "1 / 4 \<le> p" "p \<le> 2 ^ 53"
  shows "is_finite (rnd p) \<and> \<not> fle (rnd p) (Fin 0) \<and> \<not> flt (rnd p) (Fin 0)"
proof -
  have "rnd (1 / 4) \<le> rnd p" "rnd p \<le> rnd (2 ^ 53)" using assms by (auto intro!: rnd_mono)
  moreover have "rnd (1 / 4) = Fin (1 / 4)" "rnd (2 ^ 53) = Fin (2 ^ 53)"
    using rnd_quarters [of 1] rnd_repr [OF repr_of_int [of "2 ^ 53"]] by simp_all
  ultimately show ?thesis by (cases "rnd p") (auto simp: is_finite_def fle_def flt_def)
qed

lemmas ticker_tests_simps = ticker_of_def reads_def parse_ticker_def parse_value.simps parser_defs rejected_def
  coinbase_feed_def kraken_feed_def binance_feed_def gate_feed_def bitfinex_feed_def test_numbers test_integers rnd_accepted

lemma ticker_tests:
  coinbase_ticker_parses
  coinbase_heartbeat_ignored
  kraken_ticker_parses_and_normalizes_xbt
  kraken_subscription_status_ignored
  binance_combined_ticker_parses
  gate_ticker_parses
  gate_subscription_ack_ignored
  bitfinex_ticker_parses
  bitfinex_control_messages_ignored
  by (simp_all add: coinbase_ticker_parses_def coinbase_heartbeat_ignored_def kraken_ticker_parses_and_normalizes_xbt_def
      kraken_subscription_status_ignored_def binance_combined_ticker_parses_def gate_ticker_parses_def
      gate_subscription_ack_ignored_def bitfinex_ticker_parses_def bitfinex_control_messages_ignored_def
      ticker_tests_simps)

lemma ticker_price_test: rejects_non_positive_or_nan_prices
  by (simp add: rejects_non_positive_or_nan_prices_def ticker_tests_simps fle_def is_finite_def)

section \<open>Key service and certificates\<close>

definition json_str_field_extracts_flat_string_values :: bool where
  "json_str_field_extracts_flat_string_values \<longleftrightarrow>
     json_str_field (''{'' @ dq ''access_token'' @ '':'' @ dq ''abc123'' @ '','' @ dq ''expires_in'' @ '':3600}'') ''access_token''
       = Some ''abc123''
     \<and> json_str_field (''{'' @ dq ''plaintext'' @ '':'' @ dq ''c2VjcmV0'' @ ''}'') ''plaintext'' = Some ''c2VjcmV0''
     \<and> json_str_field (''{'' @ dq ''a'' @ '':1}'') ''b'' = None"

definition chain_at :: "string \<Rightarrow> bytes \<Rightarrow> bytes list \<Rightarrow> captured_chain" where
  "chain_at server end_entity intermediates =
     \<lparr>cc_server = server, cc_end_entity = end_entity, cc_intermediates = intermediates\<rparr>"

definition chain_sink_is_bounded_and_server_keyed :: bool where
  "chain_sink_is_bounded_and_server_keyed \<longleftrightarrow>
     (let sink = sink_push (chain_at ''a.example'' [4] []) (sink_push (chain_at ''b.example'' [2] [[3]])
        (sink_push (chain_at ''a.example'' [1] []) (sink_new 2)));
        (a, sink) = take_for ''a.example'' sink; (a', sink) = take_for ''a.example'' sink;
        (b, sink) = take_for ''b.example'' sink in
      map_option cc_end_entity a = Some [4] \<and> a' = None
      \<and> map_option cc_end_entity b = Some [2] \<and> map_option cc_intermediates b = Some [[3]])"

definition all_der_orders_end_entity_first :: bool where
  "all_der_orders_end_entity_first \<longleftrightarrow> all_der (chain_at ''x'' [1] [[2], [3]]) = [[1], [2], [3]]"

lemma key_tests:
  json_str_field_extracts_flat_string_values
  chain_sink_is_bounded_and_server_keyed
  all_der_orders_end_entity_first
  by code_simp+

end
