(* ===== verification/ZkpTests.thy ===== *)
theory ZkpTests
  imports Zkp GraphTests
begin

text \<open>
  The unit tests of \<open>zkp.rs\<close>, over every halo2 library, hash function, modulus and JSON text:
  a test is a Boolean function of these, and is shown true for the libraries that keep the
  promises of \<open>Zkp\<close> and can prove at all (\<open>halo2_proves\<close>). The mock prover is \<open>satisfied\<close>. Left out
  are the tests that compare two digests or the bytes of two proofs, and those that feed
  \<open>verify_proof\<close> bytes no prover made, of which the model assumes nothing.
\<close>

definition halo2_proves :: "('params, 'vk, 'pk, 'rnd, 'e) halo2 \<Rightarrow> bool" where
  "halo2_proves h \<longleftrightarrow> (\<forall>k. 4 \<le> k \<longrightarrow> k \<le> 24 \<longrightarrow> (\<exists>pk. keygen h (params_new h k) circuit_unknown = Ok pk
     \<and> (\<forall>d p r rnd. \<exists>pf. pf \<noteq> [] \<and> create_proof h (params_new h k) pk (with_values d p r) [[d, p, r]] rnd = Ok pf)))"

lemma w_halo2_proves: "halo2_proves w_halo2"
proof -
  have "satisfied (with_values d p r) [[d, p, r]]" for d p r :: nat
    using circuit_binding [of "[d, p, r]" d p r] by simp
  then show ?thesis by (simp add: halo2_proves_def w_halo2_def keygen_def w_encode_def)
qed

section \<open>Calls that must succeed\<close>

definition public_inputs_for :: "nat \<Rightarrow> nat \<Rightarrow> nat \<Rightarrow> nat list" where
  "public_inputs_for doc prompt out = [doc, prompt, out]"

definition evidence_graph :: "(kg \<Rightarrow> bool) \<Rightarrow> bool" where
  "evidence_graph k = unwrap_entity ''flare'' (\<lambda>a. unwrap_entity ''ftso'' (\<lambda>b. unwrap_relation a ''operates'' b k)) kg_new"

definition with_evidence :: "(path \<Rightarrow> bool) \<Rightarrow> bool" where
  "with_evidence k = evidence_graph (expect_path ''flare'' ''operates'' k)"

definition evidence :: path where
  "evidence = \<lparr>path_subject = 0, path_predicate = ''operates'', path_entities = [0, 1], path_depths = [0, 1],
     path_relations = [rel 0 ''operates'' 1], path_relation_depths = [0]\<rparr>"

lemma with_evidence_eq: "with_evidence k = k evidence"
  by code_simp

text \<open>Parameters and a proving key of a size, and a proof that must be made.\<close>

definition with_params :: "('params, 'vk, 'pk, 'rnd, 'e) halo2 \<Rightarrow> nat \<Rightarrow> ('params \<Rightarrow> bool) \<Rightarrow> bool" where
  "with_params h k f = (case generate_params h k of Ok params \<Rightarrow> f params | _ \<Rightarrow> False)"

definition with_pk :: "('params, 'vk, 'pk, 'rnd, 'e) halo2 \<Rightarrow> 'params \<Rightarrow> ('pk \<Rightarrow> bool) \<Rightarrow> bool" where
  "with_pk h params f = (case keygen h params circuit_unknown of Ok pk \<Rightarrow> f pk | _ \<Rightarrow> False)"

definition with_proof :: "'e zkp_error + bytes \<Rightarrow> (bytes \<Rightarrow> bool) \<Rightarrow> bool" where
  "with_proof res f = (case res of Ok pf \<Rightarrow> f pf | _ \<Rightarrow> False)"

definition accepted :: "'e zkp_error + unit \<Rightarrow> bool" where
  "accepted res \<longleftrightarrow> res = Ok ()"

definition evidence_witnesses :: "sha256 \<Rightarrow> nat \<Rightarrow> (path \<Rightarrow> string) \<Rightarrow> (nat \<Rightarrow> nat \<Rightarrow> nat \<Rightarrow> bool) \<Rightarrow> bool" where
  "evidence_witnesses sha p json f = with_evidence (\<lambda>path.
     f (digest_to_field sha p (bytes_of ''document: flare network coverage report''))
       (digest_to_field sha p (bytes_of ''prompt: what is the FTSO v2 staleness bound?''))
       (graph_output_to_field sha p json path))"

text \<open>The calls of a process, which hand on the cell of the setup.\<close>

definition generated :: "('params, 'vk, 'pk, 'rnd, 'e) halo2 \<Rightarrow> ('params, 'pk) prover_keys option \<Rightarrow> nat \<Rightarrow> nat \<Rightarrow> nat \<Rightarrow> 'rnd
    \<Rightarrow> (bytes \<Rightarrow> ('params, 'pk) prover_keys option \<Rightarrow> bool) \<Rightarrow> bool" where
  "generated h cell d p r rnd f =
     (case generate_proof h cell d p r rnd of Some (res, cell') \<Rightarrow> with_proof res (\<lambda>pf. f pf cell') | None \<Rightarrow> False)"

definition checked :: "('params, 'vk, 'pk, 'rnd, 'e) halo2 \<Rightarrow> ('params, 'pk) prover_keys option \<Rightarrow> bytes \<Rightarrow> nat list
    \<Rightarrow> ('e zkp_error + unit \<Rightarrow> bool) \<Rightarrow> bool" where
  "checked h cell pf inputs f = (case verify_proof h cell pf inputs of Some (res, _) \<Rightarrow> f res | None \<Rightarrow> False)"

definition checked_by_key :: "('params, 'vk, 'pk, 'rnd, 'e) halo2 \<Rightarrow> ('params, 'pk) prover_keys option \<Rightarrow> bytes \<Rightarrow> nat list
    \<Rightarrow> ('e zkp_error + unit \<Rightarrow> bool) \<Rightarrow> bool" where
  "checked_by_key h cell pf inputs f = (case prover_verifying_key h cell of
     Some (vk, cell) \<Rightarrow> (case prover_setup h cell of
         Some (setup, _) \<Rightarrow> f (zkp_verify h (ps_params setup) vk inputs pf) | None \<Rightarrow> False)
   | None \<Rightarrow> False)"

section \<open>The binding\<close>

definition mock_prover_accepts_correct_binding :: "nat \<Rightarrow> bool" where
  "mock_prover_accepts_correct_binding p = (let doc = fp_from p 3; prompt = fp_from p 5; out = fp_from p 7
     in satisfied (with_values doc prompt out) [public_inputs_for doc prompt out])"

definition mock_prover_rejects_mismatched_witness_and_public_input :: "nat \<Rightarrow> bool" where
  "mock_prover_rejects_mismatched_witness_and_public_input p = (let doc = fp_from p 3; prompt = fp_from p 5; out = fp_from p 7
     in \<not> satisfied (with_values doc prompt out) [public_inputs_for doc prompt (fp_add p out (fp_from p 1))])"

definition digest_to_field_matches_independent_bigint_reference :: "sha256 \<Rightarrow> nat \<Rightarrow> bool" where
  "digest_to_field_matches_independent_bigint_reference sha p = list_all (\<lambda>input.
     digest_to_field sha p (bytes_of input) = be_nat (sha (bytes_of input)) mod p)
     [[], ''flare coston2 ftso'', ''document: rwa insurance claim'', ''the quick brown fox jumps over the lazy dog'']"

lemma fp_one_differs: "1 < p \<Longrightarrow> x < p \<Longrightarrow> fp_add p x (fp_from p 1) \<noteq> x"
  by (cases "x + 1 = p") (simp_all add: fp_add_def fp_from_def)

lemma fp_from_reduced: "1 < p \<Longrightarrow> fp_from p x < p"
  by (simp add: fp_from_def)

lemma binding_tests:
  assumes "1 < p"
  shows "mock_prover_accepts_correct_binding p" "mock_prover_rejects_mismatched_witness_and_public_input p"
    "digest_to_field_matches_independent_bigint_reference sha p"
proof -
  have bound: "satisfied (with_values d q r) [[x, y, z]] \<longleftrightarrow> x = d \<and> y = q \<and> z = r" for d q r x y z :: nat
    using circuit_binding [of "[x, y, z]" d q r] by simp
  show "mock_prover_accepts_correct_binding p" "mock_prover_rejects_mismatched_witness_and_public_input p"
    unfolding mock_prover_accepts_correct_binding_def mock_prover_rejects_mismatched_witness_and_public_input_def
      public_inputs_for_def Let_def bound
    using fp_one_differs [OF assms fp_from_reduced [OF assms]] by blast+
  show "digest_to_field_matches_independent_bigint_reference sha p"
    using assms by (simp add: digest_to_field_matches_independent_bigint_reference_def digest_mod)
qed

section \<open>Parameters, keys, proofs\<close>

definition refused_size :: "('params, 'vk, 'pk, 'rnd, 'e) halo2 \<Rightarrow> nat \<Rightarrow> bool" where
  "refused_size h k = (case generate_params h k of Err (InvalidK k') \<Rightarrow> k' = k | _ \<Rightarrow> False)"

definition generate_params_rejects_out_of_range_k_without_panicking :: "('params, 'vk, 'pk, 'rnd, 'e) halo2 \<Rightarrow> bool" where
  "generate_params_rejects_out_of_range_k_without_panicking h \<longleftrightarrow>
     refused_size h 32 \<and> refused_size h 25 \<and> refused_size h 3 \<and> refused_size h 0
     \<and> \<not> isl (generate_params h 4) \<and> \<not> isl (generate_params h 10)"

definition refused_inputs :: "'e zkp_error + 'a \<Rightarrow> nat \<Rightarrow> bool" where
  "refused_inputs res n = (case res of Err (InvalidPublicInputs len) \<Rightarrow> len = n | _ \<Rightarrow> False)"

definition prove_and_verify_reject_malformed_public_inputs :: "('params, 'vk, 'pk, 'rnd, 'e) halo2
    \<Rightarrow> sha256 \<Rightarrow> nat \<Rightarrow> 'rnd \<Rightarrow> bool" where
  "prove_and_verify_reject_malformed_public_inputs h sha p rnd = with_params h 4 (\<lambda>params.
     let doc = digest_to_field sha p (bytes_of ''document: malformed input test'');
         prompt = digest_to_field sha p (bytes_of ''prompt: input length contract'');
         out = digest_to_field sha p (bytes_of ''graph: evidence'');
         circuit = with_values doc prompt out;
         too_few = [doc, prompt]; too_many = [doc, prompt, out, out]
     in with_pk h params (\<lambda>pk. refused_inputs (prove h params pk circuit too_few rnd) 2
        \<and> refused_inputs (prove h params pk circuit too_many rnd) 4
        \<and> refused_inputs (zkp_verify h params (get_vk h pk) too_few (bytes_of ''proof'')) 2))"

definition keygen_prove_verify_roundtrip_succeeds :: "('params, 'vk, 'pk, 'rnd, 'e) halo2
    \<Rightarrow> sha256 \<Rightarrow> nat \<Rightarrow> (path \<Rightarrow> string) \<Rightarrow> 'rnd \<Rightarrow> bool" where
  "keygen_prove_verify_roundtrip_succeeds h sha p json rnd = with_params h 4 (\<lambda>params. with_evidence (\<lambda>path.
       let doc = digest_to_field sha p (bytes_of ''document: flare network coverage'');
           prompt = digest_to_field sha p (bytes_of ''prompt: what is the FTSO v2 staleness bound?'');
           out = graph_output_to_field sha p json path;
           circuit = with_values doc prompt out;
           public_inputs = public_inputs_for doc prompt out
       in with_pk h params (\<lambda>pk. with_proof (prove h params pk circuit public_inputs rnd) (\<lambda>proof.
            proof \<noteq> [] \<and> accepted (zkp_verify h params (get_vk h pk) public_inputs proof)))))"

definition verification_rejects_tampered_public_input :: "('params, 'vk, 'pk, 'rnd, 'e) halo2
    \<Rightarrow> sha256 \<Rightarrow> nat \<Rightarrow> (path \<Rightarrow> string) \<Rightarrow> 'rnd \<Rightarrow> bool" where
  "verification_rejects_tampered_public_input h sha p json rnd = with_params h 4 (\<lambda>params. with_evidence (\<lambda>path.
       let doc = digest_to_field sha p (bytes_of ''document: rwa insurance claim'');
           prompt = digest_to_field sha p (bytes_of ''prompt: payout condition'');
           out = graph_output_to_field sha p json path;
           circuit = with_values doc prompt out;
           honest = public_inputs_for doc prompt out;
           tampered = public_inputs_for doc prompt (fp_add p out (fp_from p 1))
       in with_pk h params (\<lambda>pk. with_proof (prove h params pk circuit honest rnd) (\<lambda>proof.
            \<not> accepted (zkp_verify h params (get_vk h pk) tampered proof)))))"

text \<open>What the library gives a test, at the size of the test and through the cell of the process.\<close>

lemma keys_prove:
  assumes h: "halo2_complete h" "halo2_sound h" "halo2_proves h" and k: "4 \<le> k" "k \<le> 24"
  obtains pk where "keygen h (params_new h k) circuit_unknown = Ok pk"
    "\<And>d p r rnd. \<exists>pf. pf \<noteq> [] \<and> prove h (params_new h k) pk (with_values d p r) [d, p, r] rnd = Ok pf
       \<and> (\<forall>inputs. zkp_verify h (params_new h k) (get_vk h pk) inputs pf = Ok () \<longleftrightarrow> inputs = [d, p, r])"
proof -
  obtain pk where pk: "keygen h (params_new h k) circuit_unknown = Ok pk"
    "\<forall>d p r rnd. \<exists>pf. pf \<noteq> [] \<and> create_proof h (params_new h k) pk (with_values d p r) [[d, p, r]] rnd = Ok pf"
    using h(3) k unfolding halo2_proves_def by blast
  have "\<exists>pf. pf \<noteq> [] \<and> prove h (params_new h k) pk (with_values d p r) [d, p, r] rnd = Ok pf
      \<and> (\<forall>inputs. zkp_verify h (params_new h k) (get_vk h pk) inputs pf = Ok () \<longleftrightarrow> inputs = [d, p, r])" for d p r rnd
  proof -
    obtain pf where p: "pf \<noteq> []" "prove h (params_new h k) pk (with_values d p r) [d, p, r] rnd = Ok pf"
      using pk(2) [rule_format, of d p r rnd] by (auto simp: prove_def)
    show ?thesis
      by (intro exI [of _ pf] conjI allI p prove_verify_exact [OF h(1,2) pk(1) p(2)])
  qed
  then show ?thesis using pk(1) that by blast
qed

lemma circuit_key_tests:
  assumes h: "halo2_complete h" "halo2_sound h" "halo2_proves h" and p: "1 < p"
  shows "generate_params_rejects_out_of_range_k_without_panicking h"
    "prove_and_verify_reject_malformed_public_inputs h sha p rnd"
    "keygen_prove_verify_roundtrip_succeeds h sha p json rnd"
    "verification_rejects_tampered_public_input h sha p json rnd"
proof -
  obtain pk where pk: "keygen h (params_new h 4) circuit_unknown = Ok pk"
    "\<And>d p r rnd. \<exists>pf. pf \<noteq> [] \<and> prove h (params_new h 4) pk (with_values d p r) [d, p, r] rnd = Ok pf
       \<and> (\<forall>inputs. zkp_verify h (params_new h 4) (get_vk h pk) inputs pf = Ok () \<longleftrightarrow> inputs = [d, p, r])"
    using keys_prove [OF h, of 4] by auto
  have params: "with_params h 4 f = f (params_new h 4)" for f by (simp add: with_params_def generate_params_def)
  have keys: "with_pk h (params_new h 4) f = f pk" for f by (simp add: with_pk_def pk(1))
  show "generate_params_rejects_out_of_range_k_without_panicking h"
    by (simp add: generate_params_rejects_out_of_range_k_without_panicking_def refused_size_def generate_params_def)
  show "prove_and_verify_reject_malformed_public_inputs h sha p rnd"
    by (simp add: prove_and_verify_reject_malformed_public_inputs_def params keys refused_inputs_def prove_def zkp_verify_def Let_def)
  let ?out = "graph_output_to_field sha p json evidence"
  let ?d = "digest_to_field sha p (bytes_of ''document: flare network coverage'')"
    and ?q = "digest_to_field sha p (bytes_of ''prompt: what is the FTSO v2 staleness bound?'')"
  obtain pf where "pf \<noteq> []" "prove h (params_new h 4) pk (with_values ?d ?q ?out) [?d, ?q, ?out] rnd = Ok pf"
    "\<forall>inputs. zkp_verify h (params_new h 4) (get_vk h pk) inputs pf = Ok () \<longleftrightarrow> inputs = [?d, ?q, ?out]"
    using pk(2) by blast
  then show "keygen_prove_verify_roundtrip_succeeds h sha p json rnd"
    by (simp add: keygen_prove_verify_roundtrip_succeeds_def params with_evidence_eq keys with_proof_def accepted_def
        public_inputs_for_def Let_def)
  let ?d = "digest_to_field sha p (bytes_of ''document: rwa insurance claim'')"
    and ?q = "digest_to_field sha p (bytes_of ''prompt: payout condition'')"
  obtain pf where "pf \<noteq> []" "prove h (params_new h 4) pk (with_values ?d ?q ?out) [?d, ?q, ?out] rnd = Ok pf"
    "\<forall>inputs. zkp_verify h (params_new h 4) (get_vk h pk) inputs pf = Ok () \<longleftrightarrow> inputs = [?d, ?q, ?out]"
    using pk(2) by blast
  moreover have "?out < p" using p by (simp add: graph_output_to_field_def digest_mod)
  ultimately show "verification_rejects_tampered_public_input h sha p json rnd"
    using fp_one_differs [OF p, of ?out]
    by (simp add: verification_rejects_tampered_public_input_def params with_evidence_eq keys with_proof_def accepted_def
        public_inputs_for_def Let_def)
qed

section \<open>The calls of a process\<close>

definition generate_proof_returns_real_non_empty_proof :: "('params, 'vk, 'pk, 'rnd, 'e) halo2 \<Rightarrow> ('params, 'pk) prover_keys option
    \<Rightarrow> sha256 \<Rightarrow> nat \<Rightarrow> (path \<Rightarrow> string) \<Rightarrow> 'rnd \<Rightarrow> bool" where
  "generate_proof_returns_real_non_empty_proof h cell sha p json rnd = evidence_witnesses sha p json (\<lambda>doc prompt out.
     generated h cell doc prompt out rnd (\<lambda>proof _. proof \<noteq> []))"

definition generate_proof_roundtrip_verifies_against_cached_vk :: "('params, 'vk, 'pk, 'rnd, 'e) halo2 \<Rightarrow> ('params, 'pk) prover_keys option
    \<Rightarrow> sha256 \<Rightarrow> nat \<Rightarrow> (path \<Rightarrow> string) \<Rightarrow> 'rnd \<Rightarrow> bool" where
  "generate_proof_roundtrip_verifies_against_cached_vk h cell sha p json rnd = evidence_witnesses sha p json (\<lambda>doc prompt out.
     generated h cell doc prompt out rnd (\<lambda>proof cell. checked_by_key h cell proof [doc, prompt, out] accepted))"

definition generate_proof_rejects_tampered_public_input :: "('params, 'vk, 'pk, 'rnd, 'e) halo2 \<Rightarrow> ('params, 'pk) prover_keys option
    \<Rightarrow> sha256 \<Rightarrow> nat \<Rightarrow> (path \<Rightarrow> string) \<Rightarrow> 'rnd \<Rightarrow> bool" where
  "generate_proof_rejects_tampered_public_input h cell sha p json rnd = evidence_witnesses sha p json (\<lambda>doc prompt out.
     generated h cell doc prompt out rnd (\<lambda>proof cell. let tampered = [doc, prompt, fp_add p out (fp_from p 1)]
       in checked_by_key h cell proof tampered (\<lambda>res. \<not> accepted res)))"

definition verify_proof_accepts_honest_proof_roundtrip :: "('params, 'vk, 'pk, 'rnd, 'e) halo2 \<Rightarrow> ('params, 'pk) prover_keys option
    \<Rightarrow> sha256 \<Rightarrow> nat \<Rightarrow> (path \<Rightarrow> string) \<Rightarrow> 'rnd \<Rightarrow> bool" where
  "verify_proof_accepts_honest_proof_roundtrip h cell sha p json rnd = evidence_witnesses sha p json (\<lambda>doc prompt out.
     generated h cell doc prompt out rnd (\<lambda>proof cell. checked h cell proof [doc, prompt, out] accepted))"

definition verify_proof_rejects_tampered_public_input :: "('params, 'vk, 'pk, 'rnd, 'e) halo2 \<Rightarrow> ('params, 'pk) prover_keys option
    \<Rightarrow> sha256 \<Rightarrow> nat \<Rightarrow> (path \<Rightarrow> string) \<Rightarrow> 'rnd \<Rightarrow> bool" where
  "verify_proof_rejects_tampered_public_input h cell sha p json rnd = evidence_witnesses sha p json (\<lambda>doc prompt out.
     generated h cell doc prompt out rnd (\<lambda>proof cell. let tampered = [doc, prompt, fp_add p out (fp_from p 1)]
       in checked h cell proof tampered (\<lambda>res. \<not> accepted res)))"

definition verify_proof_rejects_wrong_public_input_length :: "('params, 'vk, 'pk, 'rnd, 'e) halo2 \<Rightarrow> ('params, 'pk) prover_keys option
    \<Rightarrow> sha256 \<Rightarrow> nat \<Rightarrow> (path \<Rightarrow> string) \<Rightarrow> 'rnd \<Rightarrow> bool" where
  "verify_proof_rejects_wrong_public_input_length h cell sha p json rnd = evidence_witnesses sha p json (\<lambda>doc prompt out.
     generated h cell doc prompt out rnd (\<lambda>proof cell. let too_few = [doc, prompt]
       in checked h cell proof too_few (\<lambda>res. refused_inputs res 2)))"

definition prover_setup_is_cached_single_initialization :: "('params, 'vk, 'pk, 'rnd, 'e) halo2 \<Rightarrow> ('params, 'pk) prover_keys option
    \<Rightarrow> bool" where
  "prover_setup_is_cached_single_initialization h cell = (case prover_setup h cell of None \<Rightarrow> False | Some (s1, cell) \<Rightarrow>
     (case prover_setup h cell of None \<Rightarrow> False | Some (s2, cell) \<Rightarrow>
     (case prover_verifying_key h cell of None \<Rightarrow> False | Some (vk1, cell) \<Rightarrow>
     (case prover_verifying_key h cell of None \<Rightarrow> False | Some (vk2, cell) \<Rightarrow>
       s1 = s2 \<and> vk1 = vk2 \<and> cell = Some s1))))"

lemma process_tests:
  assumes h: "halo2_complete h" "halo2_sound h" "halo2_proves h" and cell: "cell_ok h cell" and p: "1 < p"
  shows "generate_proof_returns_real_non_empty_proof h cell sha p json rnd"
    "generate_proof_roundtrip_verifies_against_cached_vk h cell sha p json rnd"
    "generate_proof_rejects_tampered_public_input h cell sha p json rnd"
    "verify_proof_accepts_honest_proof_roundtrip h cell sha p json rnd"
    "verify_proof_rejects_tampered_public_input h cell sha p json rnd"
    "verify_proof_rejects_wrong_public_input_length h cell sha p json rnd"
    "prover_setup_is_cached_single_initialization h cell"
proof -
  obtain pk where pk: "keygen h (params_new h DEFAULT_K) circuit_unknown = Ok pk"
    "\<And>d p r rnd. \<exists>pf. pf \<noteq> [] \<and> prove h (params_new h DEFAULT_K) pk (with_values d p r) [d, p, r] rnd = Ok pf
       \<and> (\<forall>inputs. zkp_verify h (params_new h DEFAULT_K) (get_vk h pk) inputs pf = Ok () \<longleftrightarrow> inputs = [d, p, r])"
    using keys_prove [OF h, of DEFAULT_K] by (auto simp: DEFAULT_K_def)
  let ?s = "\<lparr>ps_params = params_new h DEFAULT_K, ps_pk = pk\<rparr>"
  have s: "the_setup h = ?s" by (simp add: the_setup_def pk(1))
  have cells: "cell_ok h (Some ?s)" by (simp add: cell_ok_def s)
  have psetup: "prover_setup h c = Some (?s, Some ?s)" if "cell_ok h c" for c
    using prover_setup_eq [OF h(1) that] by (simp add: s)
  let ?d = "digest_to_field sha p (bytes_of ''document: flare network coverage report'')"
    and ?q = "digest_to_field sha p (bytes_of ''prompt: what is the FTSO v2 staleness bound?'')"
    and ?o = "graph_output_to_field sha p json evidence"
  obtain pf where pf: "pf \<noteq> []" "prove h (params_new h DEFAULT_K) pk (with_values ?d ?q ?o) [?d, ?q, ?o] rnd = Ok pf"
    "\<forall>inputs. zkp_verify h (params_new h DEFAULT_K) (get_vk h pk) inputs pf = Ok () \<longleftrightarrow> inputs = [?d, ?q, ?o]"
    using pk(2) by blast
  have "?o < p" using p by (simp add: graph_output_to_field_def digest_mod)
  note differs = fp_one_differs [OF p this]
  have ev: "evidence_witnesses sha p json (\<lambda>doc prompt out. generated h cell doc prompt out rnd (f doc prompt out))
      = f ?d ?q ?o pf (Some ?s)" for f
    using pf(2) by (simp add: evidence_witnesses_def with_evidence_eq generated_def generate_proof_def psetup [OF cell]
        with_proof_def)
  have key: "checked_by_key h (Some ?s) pf inputs f = f (zkp_verify h (params_new h DEFAULT_K) (get_vk h pk) inputs pf)"
    and chk: "checked h (Some ?s) pf inputs f = f (zkp_verify h (params_new h DEFAULT_K) (get_vk h pk) inputs pf)"
    for inputs f
    by (simp_all add: checked_by_key_def checked_def prover_verifying_key_def verify_proof_def psetup [OF cells])
  show "generate_proof_returns_real_non_empty_proof h cell sha p json rnd"
    unfolding generate_proof_returns_real_non_empty_proof_def ev by (rule pf(1))
  show "generate_proof_roundtrip_verifies_against_cached_vk h cell sha p json rnd"
    "generate_proof_rejects_tampered_public_input h cell sha p json rnd"
    "verify_proof_accepts_honest_proof_roundtrip h cell sha p json rnd"
    "verify_proof_rejects_tampered_public_input h cell sha p json rnd"
    unfolding generate_proof_roundtrip_verifies_against_cached_vk_def generate_proof_rejects_tampered_public_input_def
      verify_proof_accepts_honest_proof_roundtrip_def verify_proof_rejects_tampered_public_input_def
      ev key chk accepted_def Let_def pf(3) [rule_format]
    using differs by simp_all
  show "verify_proof_rejects_wrong_public_input_length h cell sha p json rnd"
    unfolding verify_proof_rejects_wrong_public_input_length_def ev chk Let_def
    by (simp add: refused_inputs_def zkp_verify_def)
  show "prover_setup_is_cached_single_initialization h cell"
    by (simp add: prover_setup_is_cached_single_initialization_def prover_verifying_key_def psetup [OF cell] psetup [OF cells])
qed

text \<open>There is such a library.\<close>

lemmas w_key_tests = circuit_key_tests [OF w_halo2_ok w_halo2_proves]
  and w_process_tests = process_tests [OF w_halo2_ok w_halo2_proves]

end
