(* ===== verification/SignerTests.thy ===== *)
theory SignerTests
  imports ZkTls
begin

text \<open>
  The unit tests of \<open>mpc_signer.rs\<close> and the round trip of \<open>proof_generator.rs\<close>, over every curve
  library and RLP encoder: a test is a Boolean function of these and of the random scalars it
  draws, and is shown true for the libraries that keep the promises of \<open>MpcSigner\<close> and return
  low signatures. Left out are the tests of fixed vectors (an address, the first bytes of an
  RLP list, the output of jq) and the one of a tampered digest, of which no promise speaks.
\<close>

section \<open>Test data\<close>

text \<open>\<open>Scalar::from\<close> reduces modulo the order.\<close>

definition scalar_from :: "'p k256 \<Rightarrow> nat \<Rightarrow> nat" where
  "scalar_from k n = n mod k_order k"

definition sample_tx :: eip1559_tx where
  "sample_tx = \<lparr>tx_chain_id = 114, tx_nonce = 0, tx_max_priority_fee_per_gas = 1000000000,
     tx_max_fee_per_gas = 3000000000, tx_gas_limit = 21000, tx_to = replicate 20 0x11,
     tx_value = replicate 32 0, tx_data = []\<rparr>"

definition test_chain :: captured_chain where
  "test_chain = \<lparr>cc_server = ''api.example'', cc_end_entity = [0x30, 0x01, 0xAA], cc_intermediates = [[0x30, 0x01, 0xBB]]\<rparr>"

text \<open>The key, its two shares for a random scalar, and a signature that must be made.\<close>

definition with_shares :: "'p k256 \<Rightarrow> nat \<Rightarrow> nat \<Rightarrow> (nat \<Rightarrow> key_share \<Rightarrow> key_share \<Rightarrow> bool) \<Rightarrow> bool" where
  "with_shares k rnd n f = (let secret = scalar_from k n in case split_key k rnd secret of (s1, s2) \<Rightarrow> f secret s1 s2)"

definition must :: "'a option \<Rightarrow> ('a \<Rightarrow> bool) \<Rightarrow> bool" where
  "must res f = (case res of Some x \<Rightarrow> f x | None \<Rightarrow> False)"

section \<open>Shares and keys\<close>

definition shares_reconstruct_to_original_scalar :: "'p k256 \<Rightarrow> nat \<Rightarrow> bool" where
  "shares_reconstruct_to_original_scalar k rnd = with_shares k rnd 0xDEADBEEF (\<lambda>secret s1 s2.
     must (share_to_scalar k s1) (\<lambda>a. must (share_to_scalar k s2) (\<lambda>b. (a + b) mod k_order k = secret)))"

definition scalar_from_bytes_roundtrip :: "'p k256 \<Rightarrow> bool" where
  "scalar_from_bytes_roundtrip k = (let secret = scalar_from k 0xF00D; share = share_from_scalar secret
     in must (share_to_scalar k share) (\<lambda>x. x = secret))"

definition composed_public_key_matches_full_key_public_key :: "'p k256 \<Rightarrow> nat \<Rightarrow> bool" where
  "composed_public_key_matches_full_key_public_key k rnd = with_shares k rnd 42 (\<lambda>secret s1 s2.
     must (composed_public_key k s1 s2) (\<lambda>composed. must (public_key_of k secret) (\<lambda>full. composed = k_sec1 k True full)))"

section \<open>Signatures\<close>

definition sign_with_shares_equals_sign_with_full_key :: "'p k256 \<Rightarrow> rlp \<Rightarrow> nat \<Rightarrow> bool" where
  "sign_with_shares_equals_sign_with_full_key k enc rnd = with_shares k rnd 0xC0FFEE (\<lambda>secret s1 s2.
     must (sign_eip1559 k enc s1 s2 sample_tx) (\<lambda>sig_shares.
       let payload = eip1559_signing_payload enc sample_tx in
       (case k_sign k secret (k_keccak k payload) of (full_sig, rid) \<Rightarrow>
         let full_sig = (case normalize_s k full_sig of Some sg \<Rightarrow> sg | None \<Rightarrow> full_sig)
         in sig_r sig_shares = be_bytes 32 (fst full_sig) \<and> sig_s sig_shares = be_bytes 32 (snd full_sig)
            \<and> sig_y_parity sig_shares = (if odd rid then 1 else 0))))"

definition signature_verifies_against_composed_public_key :: "'p k256 \<Rightarrow> rlp \<Rightarrow> nat \<Rightarrow> bool" where
  "signature_verifies_against_composed_public_key k enc rnd = with_shares k rnd 7 (\<lambda>secret s1 s2.
     must (composed_public_key k s1 s2) (\<lambda>composed.
       let payload = eip1559_signing_payload enc sample_tx
       in must (sign_eip1559 k enc s1 s2 sample_tx) (\<lambda>sig. verify_signature k composed payload sig)))"

definition verify_signature_rejects_wrong_key :: "'p k256 \<Rightarrow> rlp \<Rightarrow> nat \<Rightarrow> nat \<Rightarrow> bool" where
  "verify_signature_rejects_wrong_key k enc rnd rnd' = with_shares k rnd 7 (\<lambda>secret s1 s2.
     with_shares k rnd' 8 (\<lambda>other o1 o2. must (composed_public_key k o1 o2) (\<lambda>composed_other.
       let payload = eip1559_signing_payload enc sample_tx
       in must (sign_eip1559 k enc s1 s2 sample_tx) (\<lambda>sig. \<not> verify_signature k composed_other payload sig))))"

definition ecrecover_recovers_composed_address :: "'p k256 \<Rightarrow> rlp \<Rightarrow> nat \<Rightarrow> bool" where
  "ecrecover_recovers_composed_address k enc rnd = with_shares k rnd 0xABCD (\<lambda>secret s1 s2.
     must (composed_address k s1 s2) (\<lambda>expected_addr.
       let payload = eip1559_signing_payload enc sample_tx
       in must (sign_eip1559 k enc s1 s2 sample_tx) (\<lambda>sig.
          must (recovery_id (unat (sig_y_parity sig))) (\<lambda>recid.
          let r = be_nat (sig_r sig); s = be_nat (sig_s sig)
          in 0 < r \<and> r < k_order k \<and> 0 < s \<and> s < k_order k \<and>
             must (k_recover k (k_keccak k payload) (r, s) recid) (\<lambda>recovered_pk.
               drop 12 (k_keccak k (drop 1 (k_sec1 k False recovered_pk))) = expected_addr)))))"

section \<open>The tests pass\<close>

text \<open>A draw that the tests are almost sure to make: neither share is zero, nor is the key.\<close>

definition good_draw :: "'p k256 \<Rightarrow> nat \<Rightarrow> nat \<Rightarrow> bool" where
  "good_draw k rnd n \<longleftrightarrow> 0 < rnd \<and> rnd < k_order k \<and> 0 < scalar_from k n \<and> rnd \<noteq> scalar_from k n"

definition plain_ids :: "'p k256 \<Rightarrow> bool" where
  "plain_ids k \<longleftrightarrow> (\<forall>d z. snd (k_sign k d z) < 2)"

lemma scalar_from_reduced: "k256_ok k \<Longrightarrow> scalar_from k n < k_order k"
  using k256_order [of k] by (simp add: scalar_from_def)

lemma good_shares:
  assumes "k256_ok k" "rnd < k_order k"
  obtains a b where "split_key k rnd (scalar_from k n) = (share_from_scalar a, share_from_scalar b)"
    "a < k_order k" "b < k_order k" "(a + b) mod k_order k = scalar_from k n"
    "good_draw k rnd n \<Longrightarrow> a \<noteq> 0 \<and> b \<noteq> 0 \<and> scalar_from k n \<noteq> 0"
proof
  let ?d = "scalar_from k n" and ?b = "(scalar_from k n + (k_order k - rnd)) mod k_order k"
  note d = scalar_from_reduced [OF assms(1), of n]
  show "split_key k rnd ?d = (share_from_scalar rnd, share_from_scalar ?b)" by (rule split_key_shares [OF assms])
  show "rnd < k_order k" "?b < k_order k" using assms k256_order by auto
  show s: "(rnd + ?b) mod k_order k = ?d" using assms(2) d by (simp add: mod_add_right_eq)
  show "rnd \<noteq> 0 \<and> ?b \<noteq> 0 \<and> ?d \<noteq> 0" if "good_draw k rnd n"
  proof -
    have "?b = 0 \<Longrightarrow> rnd = ?d" using s assms(2) by (metis add.right_neutral mod_less)
    then show ?thesis using that by (auto simp: good_draw_def)
  qed
qed

lemma share_tests:
  assumes "k256_ok k" "rnd < k_order k"
  shows "shares_reconstruct_to_original_scalar k rnd" "scalar_from_bytes_roundtrip k"
    "good_draw k rnd 42 \<Longrightarrow> composed_public_key_matches_full_key_public_key k rnd"
proof -
  obtain a b where "split_key k rnd (scalar_from k 0xDEADBEEF) = (share_from_scalar a, share_from_scalar b)"
    "a < k_order k" "b < k_order k" "(a + b) mod k_order k = scalar_from k 0xDEADBEEF"
    using good_shares [OF assms, of "0xDEADBEEF"] by metis
  then show "shares_reconstruct_to_original_scalar k rnd"
    using assms(1) by (simp add: shares_reconstruct_to_original_scalar_def with_shares_def must_def)
  show "scalar_from_bytes_roundtrip k"
    using assms(1) scalar_from_reduced [OF assms(1)] by (simp add: scalar_from_bytes_roundtrip_def must_def)
  obtain a b where "split_key k rnd (scalar_from k 42) = (share_from_scalar a, share_from_scalar b)"
    "a < k_order k" "b < k_order k" "(a + b) mod k_order k = scalar_from k 42"
    "good_draw k rnd 42 \<Longrightarrow> a \<noteq> 0 \<and> b \<noteq> 0 \<and> scalar_from k 42 \<noteq> 0"
    using good_shares [OF assms, of 42] by blast
  then show "composed_public_key_matches_full_key_public_key k rnd" if "good_draw k rnd 42"
    using that assms(1) scalar_from_reduced [OF assms(1), of 42]
    by (simp add: composed_public_key_matches_full_key_public_key_def with_shares_def must_def
        composed_public_key_def composed_point_eq public_key_of_share)
qed

text \<open>What signing with the shares of a good draw gives.\<close>

lemma good_signature:
  assumes k: "k256_ok k" "low_s k" "plain_ids k" and good: "good_draw k rnd n"
  obtains s1 s2 r s v where "split_key k rnd (scalar_from k n) = (s1, s2)"
    "composed_public_key k s1 s2 = Some (k_sec1 k True (k_mul_g k (scalar_from k n)))"
    "composed_address k s1 s2 = Some (address_of k (scalar_from k n))"
    "k_sign k (scalar_from k n) (k_keccak k (eip1559_signing_payload enc tx)) = ((r, s), v)"
    "normalize_s k (r, s) = None" "v < 2"
    "sign_eip1559 k enc s1 s2 tx = Some \<lparr>sig_r = be_bytes 32 r, sig_s = be_bytes 32 s, sig_y_parity = if odd v then 1 else 0\<rparr>"
    "0 < r" "r < k_order k" "0 < s" "s < k_order k"
    "k_recover k (k_keccak k (eip1559_signing_payload enc tx)) (r, s) v = Some (k_mul_g k (scalar_from k n))"
proof -
  let ?d = "scalar_from k n"
  have rnd: "rnd < k_order k" and d: "0 < ?d" using good by (simp_all add: good_draw_def)
  obtain a b where sh: "split_key k rnd ?d = (share_from_scalar a, share_from_scalar b)"
    "a < k_order k" "b < k_order k" "(a + b) mod k_order k = ?d" "a \<noteq> 0" "b \<noteq> 0"
    using good_shares [OF k(1) rnd, of n] good by metis
  obtain r s v where sg: "k_sign k ?d (k_keccak k (eip1559_signing_payload enc tx)) = ((r, s), v)" by (metis surj_pair)
  note ok = k256_sign [OF k(1) d scalar_from_reduced [OF k(1)] sg]
  have v: "v < 2" using k(3) sg unfolding plain_ids_def by (metis snd_conv)
  have low: "s \<le> k_order k div 2" using k(2) sg unfolding low_s_def by blast
  show ?thesis
  proof (rule that [OF sh(1) _ _ sg _ v])
    show "composed_public_key k (share_from_scalar a) (share_from_scalar b) = Some (k_sec1 k True (k_mul_g k ?d))"
      "composed_address k (share_from_scalar a) (share_from_scalar b) = Some (address_of k ?d)"
      using sh d by (simp_all add: composed_key_correct [OF k(1) sh(2,3)] address_of_def)
    show "normalize_s k (r, s) = None" using low by (simp add: normalize_s_def)
    show "sign_eip1559 k enc (share_from_scalar a) (share_from_scalar b) tx
        = Some \<lparr>sig_r = be_bytes 32 r, sig_s = be_bytes 32 s, sig_y_parity = if odd v then 1 else 0\<rparr>"
      using k(1) sh d sg low by (simp add: sign_eip1559_def sign_with_payload_def normalize_s_def recovery_id_def Let_def)
  qed (use ok in blast)+
qed

lemma parity_back: "v < 2 \<Longrightarrow> recovery_id (unat (if odd v then 1 else 0 :: u8)) = Some v"
  by (cases v) (auto simp: recovery_id_def)

lemma k_mul_g_inject:
  assumes k: "k256_ok k" and a: "a < k_order k" and b: "b < k_order k"
  shows "k_mul_g k a = k_mul_g k b \<longleftrightarrow> a = b"
proof
  assume e: "k_mul_g k a = k_mul_g k b"
  let ?m = "(k_order k - b) mod k_order k"
  have m: "?m < k_order k" and z: "(b + ?m) mod k_order k = 0"
    using k256_order [OF k] b by (simp_all add: mod_add_right_eq)
  have "k_mul_g k ((a + ?m) mod k_order k) = k_mul_g k ((b + ?m) mod k_order k)"
    unfolding k256_add [OF k a m, symmetric] k256_add [OF k b m, symmetric] e by (rule refl)
  also have "\<dots> = k_identity k"
    unfolding z using k256_identity [OF k, of 0] k256_order [OF k] by simp
  finally have "(a + ?m) mod k_order k = 0"
    using k256_identity [OF k, of "(a + ?m) mod k_order k"] k256_order [OF k] by simp
  then have "(a + (k_order k - b)) mod k_order k = 0" by (simp add: mod_add_right_eq)
  moreover have "a + (k_order k - b) = (a - b) + k_order k" if "b \<le> a" using that b by simp
  ultimately have "a - b = 0" if "b \<le> a" using that a by (metis mod_add_self2 mod_less less_imp_diff_less)
  moreover have "a + (k_order k - b) < k_order k \<and> 0 < a + (k_order k - b)" if "a < b" using that b by simp
  then have "\<not> a < b" using \<open>(a + (k_order k - b)) mod k_order k = 0\<close> by (metis mod_less less_irrefl)
  ultimately show "a = b" by (metis diff_is_0_eq antisym not_less)
qed simp

lemma signature_tests:
  assumes k: "k256_ok k" "low_s k" "plain_ids k"
  shows "good_draw k rnd 0xC0FFEE \<Longrightarrow> sign_with_shares_equals_sign_with_full_key k enc rnd"
    "good_draw k rnd 7 \<Longrightarrow> signature_verifies_against_composed_public_key k enc rnd"
    "good_draw k rnd 7 \<Longrightarrow> good_draw k rnd' 8 \<Longrightarrow> verify_signature_rejects_wrong_key k enc rnd rnd'"
    "good_draw k rnd 0xABCD \<Longrightarrow> ecrecover_recovers_composed_address k enc rnd"
proof -
  note nat = be_nat_bytes32 [OF _ k(1)] and red = scalar_from_reduced [OF k(1)]
  show "sign_with_shares_equals_sign_with_full_key k enc rnd" if "good_draw k rnd 0xC0FFEE"
    by (rule good_signature [OF k that, of enc sample_tx])
      (simp add: sign_with_shares_equals_sign_with_full_key_def with_shares_def must_def Let_def)
  show "signature_verifies_against_composed_public_key k enc rnd" if g: "good_draw k rnd 7"
    by (rule good_signature [OF k g, of enc sample_tx])
      (use g k256_sec1 [OF k(1) red, of 7] in \<open>simp add: signature_verifies_against_composed_public_key_def with_shares_def
        must_def Let_def verify_signature_def parity_back nat good_draw_def del: if_split\<close>)
  show "ecrecover_recovers_composed_address k enc rnd" if "good_draw k rnd 0xABCD"
    by (rule good_signature [OF k that, of enc sample_tx])
      (simp add: ecrecover_recovers_composed_address_def with_shares_def must_def Let_def parity_back nat address_of_def
        del: if_split)
  show "verify_signature_rejects_wrong_key k enc rnd rnd'" if g: "good_draw k rnd 7" "good_draw k rnd' 8"
  proof -
    have "2 < k_order k" using k256_order [OF k(1)] by simp
    then have "Suc 7 mod k_order k \<noteq> 7 mod k_order k"
      using mod_Suc [of 7 "k_order k"] by (cases "Suc (7 mod k_order k) = k_order k") auto
    then have ne: "k_mul_g k (scalar_from k 7) \<noteq> k_mul_g k (scalar_from k 8)"
      using k_mul_g_inject [OF k(1) red red, of 7 8] by (auto simp: scalar_from_def)
    show ?thesis
      by (rule good_signature [OF k g(1), of enc sample_tx], rule good_signature [OF k g(2), of enc sample_tx])
        (use g ne k256_sec1 [OF k(1) red, of 8] in \<open>simp add: verify_signature_rejects_wrong_key_def with_shares_def
          must_def Let_def verify_signature_def parity_back nat good_draw_def del: if_split\<close>)
  qed
qed

section \<open>Proofs of a TLS session\<close>

definition test_body :: bytes where
  "test_body = bytes_of (''{'' @ [CHR 0x22] @ ''completed'' @ [CHR 0x22] @ '':true}'')"

definition proof_roundtrip_and_signer_recovery :: "('p, 'f, 'v, 'x) zk_env \<Rightarrow> string + u64 \<Rightarrow> string \<Rightarrow> nat \<Rightarrow> bool" where
  "proof_roundtrip_and_signer_recovery env clock emsg sk =
     (let nonce = replicate 16 7 in
      case zk_generate_proof env clock ''https://api.example/data'' test_body ''.completed'' test_chain sk nonce None of
        Some (Ok proof) \<Rightarrow> (case zp_from_bytes (zp_to_bytes proof) of
            Ok decoded \<Rightarrow> zp_version decoded = PROOF_VERSION \<and> zp_url_hash decoded = zp_url_hash proof
              \<and> zp_data_hash decoded = zp_data_hash proof \<and> zp_nonce decoded = nonce
              \<and> (case recover_signer (ze_curve env) emsg decoded of
                   Ok recovered \<Rightarrow> let k = ze_curve env; uncompressed = k_sec1 k False (k_mul_g k sk)
                     in recovered = drop 12 (k_keccak k (drop 1 uncompressed))
                 | Err _ \<Rightarrow> False)
          | Err _ \<Rightarrow> False)
      | _ \<Rightarrow> False)"

lemma proof_tests:
  assumes "k256_ok (ze_curve env)" "low_s (ze_curve env)" "hash32 (ze_sha env)"
    and "0 < sk" "sk < k_order (ze_curve env)"
    and "jq_select (ze_jaq env) test_body ''.completed'' = Ok selected" "clock = Ok t"
  shows "proof_roundtrip_and_signer_recovery env clock emsg sk"
proof -
  let ?n = "replicate 16 (7 :: u8)"
  let ?p = "proof_of env t ''https://api.example/data'' test_body selected test_chain sk ?n"
  have "zk_generate_proof env clock ''https://api.example/data'' test_body ''.completed'' test_chain sk ?n None = Some (Ok ?p)"
    by (simp only: zk_generate_proof_eq assms(6,7) sum.case option.case Let_def)
  moreover have "zp_from_bytes (zp_to_bytes ?p) = Ok ?p"
    by (rule zp.dec_enc [OF proof_of_wf [OF assms(3)]]) simp
  moreover have "zp_version ?p = PROOF_VERSION \<and> zp_nonce ?p = ?n"
    by (simp add: proof_of_def Let_def split: prod.split)
  moreover note proof_of_signer [OF assms(1,2,4,5)]
  ultimately show ?thesis
    unfolding proof_roundtrip_and_signer_recovery_def by (simp only: Let_def option.case sum.case address_of_def simp_thms)
qed

section \<open>Libraries that meet the assumptions\<close>

text \<open>A toy curve of order 11, in which none of the test keys is zero.\<close>

definition t_k256 :: "nat k256" where
  "t_k256 = w_k256\<lparr>k_order := 11, k_add := (\<lambda>a b. (a + b) mod 11),
     k_sign := (\<lambda>d z. if d \<le> 5 then ((1, d), 0) else ((1, 11 - d), 1)),
     k_recover := (\<lambda>z rs v. Some (if v = 0 then snd rs else 11 - snd rs))\<rparr>"

lemma t_k256_ok: "k256_ok t_k256" "low_s t_k256" "plain_ids t_k256"
proof -
  have u: "unat (word_of_nat a :: u8) = a" if "a < 11" for a using that by (simp add: unat_of_nat)
  have o: "(11 :: nat) \<le> 256 ^ 32" by simp
  have ne: "11 - d \<noteq> d" for d :: nat by presburger
  show "k256_ok t_k256"
    unfolding k256_ok_def t_k256_def w_k256_def k256.simps using u o ne
    by (intro conjI allI impI) (auto split: if_splits)
  show "low_s t_k256" "plain_ids t_k256"
    by (auto simp: low_s_def plain_ids_def t_k256_def w_k256_def split: if_splits)
qed

lemma t_draws: "good_draw t_k256 1 0xC0FFEE" "good_draw t_k256 1 42" "good_draw t_k256 1 7" "good_draw t_k256 1 8"
  "good_draw t_k256 1 0xABCD" "1 < k_order t_k256"
  by (simp_all add: good_draw_def scalar_from_def t_k256_def)

lemma t_signer_tests:
  "shares_reconstruct_to_original_scalar t_k256 1"
  "composed_public_key_matches_full_key_public_key t_k256 1"
  "sign_with_shares_equals_sign_with_full_key t_k256 w_rlp 1"
  "signature_verifies_against_composed_public_key t_k256 w_rlp 1"
  "verify_signature_rejects_wrong_key t_k256 w_rlp 1 1"
  "ecrecover_recovers_composed_address t_k256 w_rlp 1"
  by (intro share_tests signature_tests t_k256_ok t_draws)+

end
