(* ===== verification/AttestTests.thy ===== *)
theory AttestTests
  imports Eat
begin

text \<open>
  The integration tests \<open>tests/test_eat_builder.rs\<close> and \<open>tests/test_tdx_emulator.rs\<close> with its
  emulator, over every CBOR codec, signature scheme and hash function: a test is a Boolean function
  of these, and is shown true for the libraries that keep the promises of \<open>Eat\<close>. Left out are
  the test that flips a byte of the encoded token and the inequality of two digests, of which
  no promise speaks.
\<close>

section \<open>Fixtures\<close>

definition DIGEST :: string where
  "DIGEST = ''sha256:8a1a98fa247bc0895b40ec16e89de96f0d935bd5be11bde02744f373ef207d6e''"

definition test_claims :: eat_claims where
  "test_claims = \<lparr>ec_nonce = bytes_of ''nonce-123'', ec_swname = DEFAULT_SWNAME, ec_image_digest = DIGEST,
     ec_hardware = ''intel-tdx'', ec_instance_id = replicate 16 7, ec_iat = 1700000000,
     ec_measurements = [replicate 32 0xAB]\<rparr>"

text \<open>Calls that must succeed, and calls that must fail with an error of the given kind.\<close>

definition got :: "'e + 'a \<Rightarrow> ('a \<Rightarrow> bool) \<Rightarrow> bool" where
  "got res f = (case res of Ok x \<Rightarrow> f x | Err _ \<Rightarrow> False)"

definition refused :: "('e \<Rightarrow> bool) \<Rightarrow> 'e + 'a \<Rightarrow> bool" where
  "refused p res = (case res of Err e \<Rightarrow> p e | Ok _ \<Rightarrow> False)"

fun is_policy :: "eat_verify_error \<Rightarrow> bool" where
  "is_policy (Policy m) = True"
| "is_policy _ = False"

fun is_bad_signature :: "eat_verify_error \<Rightarrow> bool" where
  "is_bad_signature (BadSignature m) = True"
| "is_bad_signature _ = False"

fun is_incomplete :: "eat_error \<Rightarrow> bool" where
  "is_incomplete (IncompleteClaims m) = True"
| "is_incomplete _ = False"

definition build_token :: "cbor_codec \<Rightarrow> ('sk, 'vk, 'sig) es256 \<Rightarrow> 'sk \<Rightarrow> (bytes \<Rightarrow> bool) \<Rightarrow> bool" where
  "build_token cb es key f = got (build_eat cb es test_claims key) f"

text \<open>The emulator expands the report data by repeated hashing; \<open>n\<close> bytes are still missing.\<close>

function expand :: "(bytes \<Rightarrow> bytes) \<Rightarrow> bytes \<Rightarrow> nat \<Rightarrow> bytes" where
  "expand sha seed n =
     (if n = 0 \<or> sha seed = [] then replicate n 0
      else let digest = sha seed; k = min (length digest) n in take k digest @ expand sha digest (n - k))"
  by pat_completeness auto
termination by (relation "measure (\<lambda>(sha, seed, n). n)") auto

declare expand.simps [simp del]

definition emulated_tdreport :: "(bytes \<Rightarrow> bytes) \<Rightarrow> bytes \<Rightarrow> bytes" where
  "emulated_tdreport sha reportdata = expand sha reportdata 1024"

definition real_device_present :: "kernel \<Rightarrow> bool" where
  "real_device_present kn \<longleftrightarrow> \<not> isl (kn_open kn ''/dev/tdx-guest'')"

lemma length_expand: "length (expand sha seed n) = n"
proof (induction sha seed n rule: expand.induct)
  case (1 sha seed n)
  then show ?case by (subst expand.simps) (auto simp: Let_def min_def)
qed

section \<open>Tokens\<close>

definition cose_sign1_structure_and_es256_header :: "cbor_codec \<Rightarrow> ('sk, 'vk, 'sig) es256 \<Rightarrow> 'sk \<Rightarrow> bool" where
  "cose_sign1_structure_and_es256_header cb es key = build_token cb es key (\<lambda>token.
     got (parse_cose_sign1 cb token) (\<lambda>parsed.
       (case pc_protected_map parsed of
          CMap entries \<Rightarrow> (case find (\<lambda>(k, v). k = cint COSE_HEADER_ALG) entries of
              Some (k, CInt v) \<Rightarrow> v = ALG_ES256 | _ \<Rightarrow> False)
        | _ \<Rightarrow> False)
       \<and> length (pc_signature parsed) = 64 \<and> pc_payload parsed \<noteq> []))"

definition signature_verifies_against_sig_structure :: "cbor_codec \<Rightarrow> ('sk, 'vk, 'sig) es256 \<Rightarrow> 'sk \<Rightarrow> bool" where
  "signature_verifies_against_sig_structure cb es key = build_token cb es key (\<lambda>token.
     let vk = es_public es key in got (verify_cose_sign1 cb es token vk) (\<lambda>payload. payload \<noteq> []))"

definition wrong_signing_key_is_rejected :: "cbor_codec \<Rightarrow> ('sk, 'vk, 'sig) es256 \<Rightarrow> 'sk \<Rightarrow> 'sk \<Rightarrow> bool" where
  "wrong_signing_key_is_rejected cb es key other = build_token cb es key (\<lambda>token.
     let other_vk = es_public es other in refused is_bad_signature (verify_cose_sign1 cb es token other_vk))"

definition policy_rejects_wrong_swname_and_digest :: "cbor_codec \<Rightarrow> ('sk, 'vk, 'sig) es256 \<Rightarrow> 'sk \<Rightarrow> bool" where
  "policy_rejects_wrong_swname_and_digest cb es key = build_token cb es key (\<lambda>token.
     got (verify_cose_sign1 cb es token (es_public es key)) (\<lambda>payload.
       refused is_policy (validate_claims cb payload ''NOT_CONFIDENTIAL'' None None)
       \<and> refused is_policy (validate_claims cb payload DEFAULT_SWNAME (Some ''sha256:deadbeef'') None)
       \<and> refused is_policy (validate_claims cb payload DEFAULT_SWNAME (Some DIGEST) (Some (bytes_of ''other-nonce'')))))"

definition policy_accepts_matching_claims :: "cbor_codec \<Rightarrow> ('sk, 'vk, 'sig) es256 \<Rightarrow> 'sk \<Rightarrow> bool" where
  "policy_accepts_matching_claims cb es key = build_token cb es key (\<lambda>token.
     got (verify_cose_sign1 cb es token (es_public es key)) (\<lambda>payload.
     got (validate_claims cb payload DEFAULT_SWNAME (Some DIGEST) (Some (bytes_of ''nonce-123''))) (\<lambda>verified.
       ve_image_digest verified = DIGEST \<and> ve_swname verified = DEFAULT_SWNAME)))"

definition incomplete_claims_are_rejected_before_signing :: "cbor_codec \<Rightarrow> ('sk, 'vk, 'sig) es256 \<Rightarrow> 'sk \<Rightarrow> bool" where
  "incomplete_claims_are_rejected_before_signing cb es key \<longleftrightarrow>
     (let c = test_claims\<lparr>ec_image_digest := []\<rparr>; c2 = test_claims\<lparr>ec_swname := ''   ''\<rparr>
      in refused is_incomplete (build_eat cb es c key) \<and> refused is_incomplete (build_eat cb es c2 key))"

section \<open>Devices\<close>

definition production_tdx_path_fails_closed_without_hardware :: "(bytes \<Rightarrow> bytes) \<Rightarrow> kernel \<Rightarrow> bool" where
  "production_tdx_path_fails_closed_without_hardware sha kn \<longleftrightarrow>
     (if real_device_present kn then True
      else let reportdata = nonce_to_reportdata sha (bytes_of ''production-probe'')
        in isl (get_tdreport kn reportdata))"

definition emulator_to_eat_to_verify_end_to_end :: "(bytes \<Rightarrow> bytes) \<Rightarrow> cbor_codec \<Rightarrow> ('sk, 'vk, 'sig) es256 \<Rightarrow> 'sk \<Rightarrow> bool" where
  "emulator_to_eat_to_verify_end_to_end sha cb es signing_key =
     (let reportdata = nonce_to_reportdata sha (bytes_of ''session-42'');
          report = emulated_tdreport sha reportdata;
          verifying_key = es_public es signing_key;
          claims = \<lparr>ec_nonce = reportdata, ec_swname = DEFAULT_SWNAME, ec_image_digest = DIGEST,
            ec_hardware = ''intel-tdx (emulator)'', ec_instance_id = replicate 16 1, ec_iat = 1700000000,
            ec_measurements = [take 32 report]\<rparr>
      in length report = TDX_REPORT_LEN
         \<and> got (build_eat cb es claims signing_key) (\<lambda>token. token \<noteq> []
           \<and> got (parse_cose_sign1 cb token) (\<lambda>parsed. pc_signature parsed \<noteq> [])
           \<and> got (verify_cose_sign1 cb es token verifying_key) (\<lambda>payload.
             got (validate_claims cb payload DEFAULT_SWNAME (Some DIGEST) (Some reportdata)) (\<lambda>verified.
               ve_swname verified = DEFAULT_SWNAME \<and> ve_image_digest verified = DIGEST
               \<and> ve_hardware verified = ec_hardware claims \<and> ve_nonce verified = reportdata))))"

section \<open>The tests pass\<close>

text \<open>What the tests use besides the promises of \<open>Eat\<close>: no value is written as no bytes, and a signature
  does not verify under the other key of the test.\<close>

definition writes_bytes :: "cbor_codec \<Rightarrow> bool" where
  "writes_bytes cb \<longleftrightarrow> (\<forall>v. cb_ser cb v \<noteq> Ok [])"

definition other_key :: "('sk, 'vk, 'sig) es256 \<Rightarrow> 'sk \<Rightarrow> 'sk \<Rightarrow> bool" where
  "other_key es key other \<longleftrightarrow> (\<forall>m. isl (es_verify es (es_public es other) m (es_sign es key m)))"

lemma test_texts_not_blank: "\<not> is_blank DEFAULT_SWNAME" "\<not> is_blank DIGEST" "is_blank []" "is_blank ''   ''"
  unfolding is_blank_words split_whitespace_def by code_simp+

lemma token_parts:
  assumes lib: "cbor_ok cb" "es256_ok es" "writes_bytes cb"
    and c: "\<not> is_blank (ec_swname c)" "\<not> is_blank (ec_image_digest c)"
  obtains token p q m where "build_eat cb es c key = Ok token" "token \<noteq> []" "q \<noteq> []"
    "parse_cose_sign1 cb token = Ok \<lparr>pc_protected = p, pc_protected_map = protected_header, pc_payload = q,
       pc_signature = es_to_bytes es (es_sign es key m)\<rparr>"
    "cb_ser cb (sig_structure p q) = Ok m" "cb_de cb q = Ok (encode_claims c)"
    "verify_cose_sign1 cb es token (es_public es key) = Ok q"
proof -
  obtain token where t: "build_eat cb es c key = Ok token" using build_eat_total [OF lib(1) c, of es key] by blast
  then obtain p q m where ser: "cb_ser cb protected_header = Ok p" "cb_ser cb (encode_claims c) = Ok q"
    "cb_ser cb (sig_structure p q) = Ok m"
    "cb_ser cb (CArray [CBytes p, CMap [], CBytes q, CBytes (es_to_bytes es (es_sign es key m))]) = Ok token"
    by (auto simp: build_eat_Ok)
  have de: "cb_de cb p = Ok protected_header" "cb_de cb q = Ok (encode_claims c)"
    "cb_de cb token = Ok (CArray [CBytes p, CMap [], CBytes q, CBytes (es_to_bytes es (es_sign es key m))])"
    using cbor_okD [OF lib(1) protected_header_wf] cbor_okD [OF lib(1) encode_claims_wf, of c]
      cbor_okD [OF lib(1), of "CArray [CBytes p, CMap [], CBytes q, CBytes (es_to_bytes es (es_sign es key m))]"] ser by auto
  have ne: "token \<noteq> []" "q \<noteq> []" using lib(3) ser(2,4) unfolding writes_bytes_def by metis+
  have "parse_cose_sign1 cb token = Ok \<lparr>pc_protected = p, pc_protected_map = protected_header, pc_payload = q,
      pc_signature = es_to_bytes es (es_sign es key m)\<rparr>"
    unfolding parse_cose_Ok using de by auto
  moreover have "verify_cose_sign1 cb es token (es_public es key) = Ok q"
    using lib(2) unfolding es256_ok_def by (intro built_verifies [OF ser(3) de(1,3)]) blast+
  ultimately show ?thesis using that t ne ser(3) de(2) by blast
qed

lemma header_alg: "cbor_get protected_header (cint COSE_HEADER_ALG) = Some (CInt ALG_ES256)"
  by (simp add: protected_header_def cbor_get_def claim_numbers)

lemma test_verdicts:
  "expected_verdict test_claims ''NOT_CONFIDENTIAL'' None None = Err (Policy ''swname does not match expected value'')"
  "expected_verdict test_claims DEFAULT_SWNAME (Some ''sha256:deadbeef'') None = Err (Policy ''image_digest does not match expected build digest'')"
  "expected_verdict test_claims DEFAULT_SWNAME (Some DIGEST) (Some (bytes_of ''other-nonce'')) = Err (Policy ''nonce does not match session nonce'')"
  "expected_verdict test_claims DEFAULT_SWNAME (Some DIGEST) (Some (bytes_of ''nonce-123''))
    = Ok \<lparr>ve_nonce = bytes_of ''nonce-123'', ve_swname = DEFAULT_SWNAME, ve_image_digest = DIGEST, ve_hardware = ''intel-tdx'', ve_iat = 1700000000\<rparr>"
  by (simp_all add: expected_verdict_def test_claims_def DEFAULT_SWNAME_def DIGEST_def bytes_of_def)

lemma attest_token_tests:
  assumes lib: "cbor_ok cb" "es256_ok es" "writes_bytes cb"
  shows "cose_sign1_structure_and_es256_header cb es key" "signature_verifies_against_sig_structure cb es key"
    "other_key es key other \<Longrightarrow> wrong_signing_key_is_rejected cb es key other"
    "policy_rejects_wrong_swname_and_digest cb es key" "policy_accepts_matching_claims cb es key"
    "incomplete_claims_are_rejected_before_signing cb es key"
proof -
  have "\<not> is_blank (ec_swname test_claims)" "\<not> is_blank (ec_image_digest test_claims)"
    using test_texts_not_blank by (simp_all add: test_claims_def)
  from token_parts [OF lib this] obtain token p q m where t: "build_eat cb es test_claims key = Ok token" "q \<noteq> []"
    "parse_cose_sign1 cb token = Ok \<lparr>pc_protected = p, pc_protected_map = protected_header, pc_payload = q,
       pc_signature = es_to_bytes es (es_sign es key m)\<rparr>"
    "cb_ser cb (sig_structure p q) = Ok m" "cb_de cb q = Ok (encode_claims test_claims)"
    "verify_cose_sign1 cb es token (es_public es key) = Ok q" by metis
  have sig: "length (es_to_bytes es (es_sign es key m)) = 64" "es_from_slice es (es_to_bytes es (es_sign es key m)) = Ok (es_sign es key m)"
    using lib(2) unfolding es256_ok_def by blast+
  note build = build_token_def t(1) got_def sum.case
  have "find (\<lambda>(k, v). k = cint COSE_HEADER_ALG) [(cint COSE_HEADER_ALG, cint ALG_ES256), (cint COSE_HEADER_KID, x)]
      = Some (cint COSE_HEADER_ALG, CInt ALG_ES256)" for x by (simp add: claim_numbers)
  then show "cose_sign1_structure_and_es256_header cb es key"
    unfolding cose_sign1_structure_and_es256_header_def build using t(2,3) sig(1) by (simp add: got_def protected_header_def)
  show "signature_verifies_against_sig_structure cb es key"
    unfolding signature_verifies_against_sig_structure_def build using t(2,6) by (simp add: got_def)
  show "wrong_signing_key_is_rejected cb es key other" if "other_key es key other"
  proof -
    have "isl (es_verify es (es_public es other) m (es_sign es key m))" using that by (simp add: other_key_def)
    then obtain e where "es_verify es (es_public es other) m (es_sign es key m) = Err e" by (auto simp: isl_def)
    then have "verify_cose_sign1 cb es token (es_public es other) = Err (BadSignature e)"
      using t(3,4) sig by (simp add: verify_cose_sign1_def header_alg)
    then show ?thesis unfolding wrong_signing_key_is_rejected_def build by (simp add: refused_def)
  qed
  note verdict = validate_encoded [OF t(5)] test_verdicts
  show "policy_rejects_wrong_swname_and_digest cb es key" "policy_accepts_matching_claims cb es key"
    unfolding policy_rejects_wrong_swname_and_digest_def policy_accepts_matching_claims_def build t(6) verdict
    by (simp_all add: refused_def)
  show "incomplete_claims_are_rejected_before_signing cb es key"
    using test_texts_not_blank
    by (simp add: incomplete_claims_are_rejected_before_signing_def build_eat_def refused_def test_claims_def)
qed

lemma attest_device_tests:
  assumes sha: "\<And>bs. length (sha bs) = 32"
    and lib: "cbor_ok cb" "es256_ok es" "writes_bytes cb"
  shows "production_tdx_path_fails_closed_without_hardware sha kn" "emulator_to_eat_to_verify_end_to_end sha cb es key"
proof -
  show "production_tdx_path_fails_closed_without_hardware sha kn"
    by (cases "kn_open kn ''/dev/tdx-guest''")
      (auto simp: production_tdx_path_fails_closed_without_hardware_def real_device_present_def get_tdreport_def)
  let ?rd = "nonce_to_reportdata sha (bytes_of ''session-42'')"
  let ?c = "\<lparr>ec_nonce = ?rd, ec_swname = DEFAULT_SWNAME, ec_image_digest = DIGEST,
    ec_hardware = ''intel-tdx (emulator)'', ec_instance_id = replicate 16 1, ec_iat = 1700000000,
    ec_measurements = [take 32 (emulated_tdreport sha ?rd)]\<rparr>"
  have rd: "?rd \<noteq> []" using sha [of "bytes_of ''session-42''"] by (auto simp: nonce_to_reportdata_def Let_def)
  have "\<not> is_blank (ec_swname ?c)" "\<not> is_blank (ec_image_digest ?c)" using test_texts_not_blank by simp_all
  from token_parts [OF lib this] obtain token p q m where t: "build_eat cb es ?c key = Ok token" "token \<noteq> []"
    "parse_cose_sign1 cb token = Ok \<lparr>pc_protected = p, pc_protected_map = protected_header, pc_payload = q,
       pc_signature = es_to_bytes es (es_sign es key m)\<rparr>"
    "cb_de cb q = Ok (encode_claims ?c)" "verify_cose_sign1 cb es token (es_public es key) = Ok q" by metis
  have "length (es_to_bytes es (es_sign es key m)) = 64" using lib(2) unfolding es256_ok_def by blast
  then have sig: "es_to_bytes es (es_sign es key m) \<noteq> []" by auto
  have v: "validate_claims cb q DEFAULT_SWNAME (Some DIGEST) (Some ?rd)
      = Ok \<lparr>ve_nonce = ?rd, ve_swname = DEFAULT_SWNAME, ve_image_digest = DIGEST, ve_hardware = ''intel-tdx (emulator)'', ve_iat = 1700000000\<rparr>"
    unfolding validate_encoded [OF t(4)] using rd by (simp add: expected_verdict_def)
  have "length (emulated_tdreport sha ?rd) = TDX_REPORT_LEN"
    by (simp add: emulated_tdreport_def length_expand TDX_REPORT_LEN_def)
  with t(2) sig show "emulator_to_eat_to_verify_end_to_end sha cb es key"
    by (simp add: emulator_to_eat_to_verify_end_to_end_def Let_def got_def t(1,3,5) v)
qed

section \<open>Libraries that meet the assumptions\<close>

text \<open>A codec that writes a byte more, and a scheme whose keys accept only their own signatures.\<close>

definition t_cbor :: cbor_codec where
  "t_cbor = \<lparr>cb_ser = (\<lambda>v. Ok (replicate (Suc (to_nat v)) 0)), cb_de = (\<lambda>bs. Ok (from_nat (length bs - 1)))\<rparr>"

definition t_es :: "(bool, bool, bool) es256" where
  "t_es = \<lparr>es_sign = (\<lambda>sk _. sk), es_to_bytes = (\<lambda>sg. replicate 64 (if sg then 1 else 0)),
     es_from_slice = (\<lambda>bs. Ok (hd bs = 1)), es_verify = (\<lambda>vk _ sg. if vk = sg then Ok () else Err ''signature error''),
     es_public = (\<lambda>sk. sk)\<rparr>"

lemma t_attest_ok: "cbor_ok t_cbor" "es256_ok t_es" "writes_bytes t_cbor" "other_key t_es True False"
  by (simp_all add: cbor_ok_def es256_ok_def writes_bytes_def other_key_def t_cbor_def t_es_def)

lemma t_attest_tests:
  "cose_sign1_structure_and_es256_header t_cbor t_es True" "wrong_signing_key_is_rejected t_cbor t_es True False"
  "policy_rejects_wrong_swname_and_digest t_cbor t_es True" "policy_accepts_matching_claims t_cbor t_es True"
  by (intro attest_token_tests t_attest_ok)+

end
