(* ===== verification/EngineIntegration.thy ===== *)
theory EngineIntegration
  imports ZkpTests TrieTests
begin

text \<open>
  The tests of the engine from outside: \<open>tests/public_api.rs\<close>, \<open>tests/zkp_integration.rs\<close> and the probe
  \<open>examples/deep_probe.rs\<close>. Those over the prover are stated as in \<open>ZkpTests\<close>. Left out are the tests
  that only name types, that feed a verifier bytes no prover made, or that compare digests.
\<close>

section \<open>Queries and keys\<close>

definition find_path_is_callable_through_the_public_api :: bool where
  "find_path_is_callable_through_the_public_api \<longleftrightarrow>
     unwrap_entity ''flare'' (\<lambda>a. unwrap_entity ''ftso'' (\<lambda>b. unwrap_relation a ''operates'' b (
       expect_path ''flare'' ''operates'' (\<lambda>path. path_subject path = a \<and> path_predicate path = ''operates''
         \<and> path_entities path = [a, b] \<and> path_depths path = [0, 1] \<and> length (path_relations path) = 1
         \<and> path_relations path ! 0 = rel a ''operates'' b \<and> path_relation_depths path = [0])))) kg_new"

definition deep_probe :: "nat \<Rightarrow> bool" where
  "deep_probe depth \<longleftrightarrow> (let deep = replicate depth (of_char CHR ''a'') in
     case trie_insert deep 1 (trie_new :: nat symbolic_trie) of
       (Err (KeyTooLong len _), t) \<Rightarrow> len = depth \<and> trie_is_empty t
         \<and> put (replicate SymTrie.MAX_KEY_LEN (of_char CHR ''b'')) 7 (\<lambda>_ t.
             let results = prefix_matches t (chars ''b'') in length results = 1 \<and> results ! 0 = 7) t
     | _ \<Rightarrow> False)"

lemma public_api_test: find_path_is_callable_through_the_public_api
  by code_simp

lemma deep_key_len: "key_len (replicate n (of_char CHR ''a'')) = n"
  by (simp add: key_len_def utf8_len_def sum_list_replicate)

lemma insert_alone: "node_entries (snd (node_insert k v node_new)) = [(k, v)]"
  by (induction k) (simp_all add: node_new_def case_prod_beta Let_def)

lemma single_prefix:
  assumes "trie_insert k v trie_new = (Ok old, t)" "prefix p k"
  shows "prefix_matches t p = [v]"
proof -
  have "root t = snd (node_insert k v node_new)"
    using assms(1) by (auto simp: trie_insert_def trie_new_def Let_def case_prod_beta split: if_splits)
  moreover have "node_wf (snd (node_insert k v node_new))"
    by (rule node_insert_wf) (simp add: node_new_def)
  ultimately show ?thesis using prefix_matches_eq [of t p] assms(2) by (simp add: insert_alone)
qed

lemma deep_probe_test:
  assumes "SymTrie.MAX_KEY_LEN < depth"
  shows "deep_probe depth"
proof -
  let ?k = "replicate SymTrie.MAX_KEY_LEN (of_char CHR ''b'') :: key"
  have "key_len ?k = SymTrie.MAX_KEY_LEN" by (simp add: key_len_def utf8_len_def sum_list_replicate)
  then obtain old t where t: "trie_insert ?k 7 (trie_new :: nat symbolic_trie) = (Ok old, t)"
    using trie_insert_Ok(1) [of ?k "7 :: nat" trie_new] by (cases "trie_insert ?k (7 :: nat) trie_new") auto
  have limit: "SymTrie.MAX_KEY_LEN = Suc 511" by (simp add: SymTrie.MAX_KEY_LEN_def)
  have "prefix (chars ''b'') ?k" unfolding limit replicate_Suc by (simp add: chars_def)
  from single_prefix [OF t this] have "put ?k 7 (\<lambda>_ t. let results = prefix_matches t (chars ''b'') in length results = 1 \<and> results ! 0 = 7) trie_new"
    by (simp only: put_def t prod.case sum.case Let_def) simp
  moreover have "trie_insert (replicate depth (of_char CHR ''a'')) 1 (trie_new :: nat symbolic_trie)
      = (Err (KeyTooLong depth SymTrie.MAX_KEY_LEN), trie_new)"
    using assms by (simp only: trie_insert_def deep_key_len if_True)
  moreover have "trie_is_empty (trie_new :: nat symbolic_trie)" by (simp add: trie_is_empty_def trie_new_def)
  ultimately show ?thesis by (simp only: deep_probe_def Let_def prod.case sum.case trie_error.case simp_thms)
qed

section \<open>The prover from outside\<close>

text \<open>An honest proof at a size, handed on with the keys and the public inputs.\<close>

definition honest_roundtrip :: "('params, 'vk, 'pk, 'rnd, 'e) halo2 \<Rightarrow> sha256 \<Rightarrow> nat \<Rightarrow> (path \<Rightarrow> string) \<Rightarrow> 'rnd \<Rightarrow> nat
    \<Rightarrow> ('params \<Rightarrow> 'pk \<Rightarrow> nat list \<Rightarrow> bytes \<Rightarrow> bool) \<Rightarrow> bool" where
  "honest_roundtrip h sha p json rnd k f = with_params h k (\<lambda>params.
     evidence_witnesses sha p json (\<lambda>doc prompt out.
       let circuit = with_values doc prompt out; public_inputs = [doc, prompt, out]
       in with_pk h params (\<lambda>pk. with_proof (prove h params pk circuit public_inputs rnd) (\<lambda>proof.
            f params pk public_inputs proof))))"

definition full_keygen_prove_verify_roundtrip_accepts_honest_proof :: "('params, 'vk, 'pk, 'rnd, 'e) halo2
    \<Rightarrow> sha256 \<Rightarrow> nat \<Rightarrow> (path \<Rightarrow> string) \<Rightarrow> 'rnd \<Rightarrow> bool" where
  "full_keygen_prove_verify_roundtrip_accepts_honest_proof h sha p json rnd =
     honest_roundtrip h sha p json rnd 6 (\<lambda>params pk public_inputs proof.
       proof \<noteq> [] \<and> accepted (zkp_verify h params (get_vk h pk) public_inputs proof))"

definition tampered_public_inputs_are_rejected :: "('params, 'vk, 'pk, 'rnd, 'e) halo2
    \<Rightarrow> sha256 \<Rightarrow> nat \<Rightarrow> (path \<Rightarrow> string) \<Rightarrow> 'rnd \<Rightarrow> bool" where
  "tampered_public_inputs_are_rejected h sha p json rnd =
     honest_roundtrip h sha p json rnd 6 (\<lambda>params pk public_inputs proof.
       let doc = public_inputs ! 0; prompt = public_inputs ! 1; out = public_inputs ! 2;
           tampered = [[out, prompt, out], [doc, doc, out], [doc, prompt, doc], [doc, prompt, fp_add p out (fp_from p 1)]]
       in list_all (\<lambda>inputs. \<not> accepted (zkp_verify h params (get_vk h pk) inputs proof)) tampered)"

definition generate_proof_verify_proof_roundtrip_succeeds :: "('params, 'vk, 'pk, 'rnd, 'e) halo2
    \<Rightarrow> ('params, 'pk) prover_keys option \<Rightarrow> sha256 \<Rightarrow> nat \<Rightarrow> (path \<Rightarrow> string) \<Rightarrow> 'rnd \<Rightarrow> bool" where
  "generate_proof_verify_proof_roundtrip_succeeds h cell sha p json rnd = evidence_witnesses sha p json (\<lambda>doc prompt out.
     generated h cell doc prompt out rnd (\<lambda>proof cell. proof \<noteq> [] \<and> checked h cell proof [doc, prompt, out] accepted))"

text \<open>The digests of the test, and that they are three different numbers, as it takes for granted.\<close>

definition distinct_witnesses :: "sha256 \<Rightarrow> nat \<Rightarrow> (path \<Rightarrow> string) \<Rightarrow> bool" where
  "distinct_witnesses sha p json = evidence_witnesses sha p json (\<lambda>doc prompt out. distinct [doc, prompt, out])"

lemma evidence_witnesses_eq: "evidence_witnesses sha p json f =
    f (digest_to_field sha p (bytes_of ''document: flare network coverage report''))
      (digest_to_field sha p (bytes_of ''prompt: what is the FTSO v2 staleness bound?''))
      (graph_output_to_field sha p json evidence)"
  by (simp add: evidence_witnesses_def with_evidence_eq)

lemma outside_tests:
  assumes h: "halo2_complete h" "halo2_sound h" "halo2_proves h" and p: "1 < p"
  shows "full_keygen_prove_verify_roundtrip_accepts_honest_proof h sha p json rnd"
    "distinct_witnesses sha p json \<Longrightarrow> tampered_public_inputs_are_rejected h sha p json rnd"
    "cell_ok h cell \<Longrightarrow> generate_proof_verify_proof_roundtrip_succeeds h cell sha p json rnd"
proof -
  obtain pk where pk: "keygen h (params_new h 6) circuit_unknown = Ok pk"
    "\<And>d p r rnd. \<exists>pf. pf \<noteq> [] \<and> prove h (params_new h 6) pk (with_values d p r) [d, p, r] rnd = Ok pf
       \<and> (\<forall>inputs. zkp_verify h (params_new h 6) (get_vk h pk) inputs pf = Ok () \<longleftrightarrow> inputs = [d, p, r])"
    using keys_prove [OF h, of 6] by auto
  let ?d = "digest_to_field sha p (bytes_of ''document: flare network coverage report'')"
    and ?q = "digest_to_field sha p (bytes_of ''prompt: what is the FTSO v2 staleness bound?'')"
    and ?o = "graph_output_to_field sha p json evidence"
  obtain pf where pf: "pf \<noteq> []" "prove h (params_new h 6) pk (with_values ?d ?q ?o) [?d, ?q, ?o] rnd = Ok pf"
    "\<forall>inputs. zkp_verify h (params_new h 6) (get_vk h pk) inputs pf = Ok () \<longleftrightarrow> inputs = [?d, ?q, ?o]"
    using pk(2) by blast
  have trip: "honest_roundtrip h sha p json rnd 6 f = f (params_new h 6) pk [?d, ?q, ?o] pf" for f
    using pf(2) pk(1)
    by (simp add: honest_roundtrip_def with_params_def generate_params_def evidence_witnesses_eq with_pk_def with_proof_def Let_def)
  show "full_keygen_prove_verify_roundtrip_accepts_honest_proof h sha p json rnd"
    unfolding full_keygen_prove_verify_roundtrip_accepts_honest_proof_def trip accepted_def using pf(1,3) by simp
  have "?o < p" using p by (simp add: graph_output_to_field_def digest_mod)
  note nudged = fp_one_differs [OF p this]
  show "tampered_public_inputs_are_rejected h sha p json rnd" if "distinct_witnesses sha p json"
    using that nudged unfolding tampered_public_inputs_are_rejected_def trip accepted_def distinct_witnesses_def evidence_witnesses_eq
    by (auto simp: Let_def pf(3) [rule_format])
  show "generate_proof_verify_proof_roundtrip_succeeds h cell sha p json rnd" if c: "cell_ok h cell"
    using process_tests(1,4) [OF h c p, of sha json rnd]
    by (auto simp: generate_proof_verify_proof_roundtrip_succeeds_def generate_proof_returns_real_non_empty_proof_def
        verify_proof_accepts_honest_proof_roundtrip_def evidence_witnesses_eq generated_def with_proof_def
        split: option.splits prod.splits sum.splits)
qed

text \<open>There are a library, a hash function and a modulus for which they do.\<close>

lemma w_distinct: "distinct_witnesses (\<lambda>bs. [word_of_nat (length bs)]) 251 (\<lambda>_. ''x'')"
  by (simp add: distinct_witnesses_def evidence_witnesses_eq graph_output_to_field_def digest_mod bytes_of_def be_nat_def)

lemma w_outside_tests:
  "tampered_public_inputs_are_rejected w_halo2 (\<lambda>bs. [word_of_nat (length bs)]) 251 (\<lambda>_. ''x'') rnd"
  by (intro outside_tests w_halo2_ok w_halo2_proves w_distinct) simp

end
