(* ===== verification/KmsFlow.thy ===== *)
theory KmsFlow
  imports KmsClient SignerTests AttestTests GrpcServer
begin

text \<open>
  From an attestation token to a signed transaction: the key service of \<open>tests/kms_emulator.rs\<close> and
  the flows of \<open>tests/test_end_to_end_kms_tx.rs\<close>, which compose the builder of tokens, the client of
  the key service and the signer. The emulator is a state and a handler; the client sees it as
  a server whose answers depend on the state, and the requests it logs move the state on. The
  flows are stated over every curve, RLP encoder, CBOR codec and signature scheme and shown
  true for those that keep their promises.
\<close>

section \<open>The emulator\<close>

record emulator =
  em_ciphertexts :: "string \<rightharpoonup> bytes"
  em_issued_token :: "string option"

definition emulator_start :: emulator where
  "emulator_start = \<lparr>em_ciphertexts = Map.empty, em_issued_token = None\<rparr>"

definition load_shard :: "string \<Rightarrow> bytes \<Rightarrow> emulator \<Rightarrow> emulator" where
  "load_shard ciphertext_b64 plaintext em = em\<lparr>em_ciphertexts := (em_ciphertexts em)(ciphertext_b64 \<mapsto> plaintext)\<rparr>"

definition issued_token :: "emulator \<Rightarrow> string option" where
  "issued_token em = em_issued_token em"

definition json_error :: "string \<Rightarrow> string" where
  "json_error msg = ''{'' @ dq ''error'' @ '':'' @ dq msg @ ''}''"

definition GRANT :: string where
  "GRANT = dq ''grantType'' @ '':'' @ dq ''urn:ietf:params:oauth:grant-type:token-exchange''"

text \<open>\<open>now\<close> is the clock in nanoseconds; an answer is a status and a body.\<close>

definition emulator_handle :: "(bytes \<Rightarrow> string) \<Rightarrow> nat \<Rightarrow> string \<Rightarrow> string option \<Rightarrow> string \<Rightarrow> emulator
    \<Rightarrow> (nat \<times> string) \<times> emulator" where
  "emulator_handle b64 now path auth_header body_bytes em =
     (let body = utf8_lossy body_bytes in
      if path = ''/v1/token'' then
        (if str_find GRANT body = None then ((400, json_error ''missing grantType''), em)
         else let nonce = ''test-token-'' @ show_nat now;
                  resp = ''{'' @ dq ''access_token'' @ '':'' @ dq nonce @ '','' @ dq ''expires_in'' @ '':3600,''
                    @ dq ''token_type'' @ '':'' @ dq ''Bearer'' @ ''}''
           in ((200, resp), em\<lparr>em_issued_token := Some nonce\<rparr>))
      else if suffix '':decrypt'' path then
        (if (case (auth_header, em_issued_token em) of (Some a, Some expected) \<Rightarrow> a = ''Bearer '' @ expected | _ \<Rightarrow> False)
         then (case json_str_field body ''ciphertext'' of
             None \<Rightarrow> ((400, json_error ''missing ciphertext''), em)
           | Some ct \<Rightarrow> (case em_ciphertexts em ct of
               Some plaintext \<Rightarrow> ((200, ''{'' @ dq ''plaintext'' @ '':'' @ dq (b64 plaintext) @ ''}''), em)
             | None \<Rightarrow> ((404, json_error ''unknown ciphertext''), em)))
         else ((401, json_error ''unauthorized: no valid bearer token''), em))
      else ((404, json_error ''not found''), em))"

text \<open>What a client that connects to the emulator at \<open>base\<close> is answered, and the state after the
  requests it logged.\<close>

definition emulator_http :: "(bytes \<Rightarrow> string) \<Rightarrow> nat \<Rightarrow> string \<Rightarrow> emulator
    \<Rightarrow> (string \<times> string option \<times> string, string) http_client" where
  "emulator_http b64 now base em =
     \<lparr>hc_request = (\<lambda>url headers body. Ok (url, map_of headers ''authorization'', body)),
      hc_send = (\<lambda>(url, auth, body) _. Some (if prefix base url
        then Ok (fst (emulator_handle b64 now (drop (length base) url) auth body em)) else Err ''connection refused'')),
      hc_read = (\<lambda>body _. Some (Ok body))\<rparr>"

fun emulator_served :: "(bytes \<Rightarrow> string) \<Rightarrow> nat \<Rightarrow> string \<Rightarrow> sent list \<Rightarrow> emulator \<Rightarrow> emulator" where
  "emulator_served b64 now base [] em = em"
| "emulator_served b64 now base ((url, bearer, body) # trace) em = emulator_served b64 now base trace
     (if prefix base url then snd (emulator_handle b64 now (drop (length base) url) (map_option ((@) ''Bearer '') bearer) body em) else em)"

section \<open>The flows\<close>

definition flow_config :: "string \<Rightarrow> string \<Rightarrow> string \<Rightarrow> kms_config" where
  "flow_config base crypto_key_name audience = \<lparr>kc_crypto_key_name = crypto_key_name, kc_wip_audience = audience,
     kc_kms_base_url = base, kc_sts_token_url = base @ ''/v1/token'', kc_timeout = 5000000000\<rparr>"

definition mint_test_eat :: "cbor_codec \<Rightarrow> ('sk, 'vk, 'sig) es256 \<Rightarrow> 'sk \<Rightarrow> bytes \<Rightarrow> eat_error + bytes" where
  "mint_test_eat cb es key instance_id =
     build_eat cb es \<lparr>ec_nonce = bytes_of ''test-nonce'', ec_swname = DEFAULT_SWNAME,
       ec_image_digest = ''sha256:9f86d081884c7d659a2feaa0c55ad015a3bf4f1b2b0b822cd15d6c15b0f00a08'',
       ec_hardware = ''intel-tdx'', ec_instance_id = instance_id, ec_iat = 1700000000,
       ec_measurements = [replicate 32 7]\<rparr> key"

definition flow_tx :: eip1559_tx where
  "flow_tx = \<lparr>tx_chain_id = 114, tx_nonce = 3, tx_max_priority_fee_per_gas = 1000000000,
     tx_max_fee_per_gas = 2500000000, tx_gas_limit = 21000, tx_to = replicate 20 0xBE,
     tx_value = replicate 31 0 @ [1], tx_data = []\<rparr>"

text \<open>Recovering the signer as the chain does, from a signature in bytes.\<close>

definition ecrecover_is :: "'p k256 \<Rightarrow> bytes \<Rightarrow> signature_parts \<Rightarrow> bytes \<Rightarrow> bool" where
  "ecrecover_is k payload sig expected \<longleftrightarrow>
     must (recovery_id (unat (sig_y_parity sig))) (\<lambda>recid.
       let r = be_nat (sig_r sig); s = be_nat (sig_s sig)
       in 0 < r \<and> r < k_order k \<and> 0 < s \<and> s < k_order k \<and>
          must (k_recover k (k_keccak k payload) (r, s) recid) (\<lambda>recovered.
            drop 12 (k_keccak k (drop 1 (k_sec1 k False recovered))) = expected))"

text \<open>The parameters of the flow: the libraries, the key and instance of the token, the address and clock
  of the emulator, the secret and the scalar drawn to split it.\<close>

record ('p, 'sk, 'vk, 'sig) flow_env =
  fe_curve :: "'p k256"
  fe_rlp :: rlp
  fe_cbor :: cbor_codec
  fe_es :: "('sk, 'vk, 'sig) es256"
  fe_eat_key :: 'sk
  fe_instance :: bytes
  fe_b64 :: "bytes \<Rightarrow> string"
  fe_unb64 :: "string \<Rightarrow> string + bytes"
  fe_b64url :: "bytes \<Rightarrow> string"
  fe_base :: string
  fe_now :: nat
  fe_secret :: bytes
  fe_draw :: nat

definition end_to_end_rat_passport_mpc_signing_flow :: "('p, 'sk, 'vk, 'sig) flow_env \<Rightarrow> bool" where
  "end_to_end_rat_passport_mpc_signing_flow e =
     (let k = fe_curve e; emulator = emulator_start;
          config = flow_config (fe_base e)
            ''projects/test-project/locations/us-central1/keyRings/test-ring/cryptoKeys/enclave-shard''
            ''//iam.googleapis.com/projects/test-project/locations/global/workloadIdentityPools/test-pool/providers/test-provider''
      in must (split_key_bytes k (fe_draw e) (fe_secret e)) (\<lambda>(enclave_share, client_share).
         must (composed_address k enclave_share client_share) (\<lambda>expected_address.
         must (composed_public_key k enclave_share client_share) (\<lambda>expected_pk.
         let shard_plaintext = share_as_bytes enclave_share; shard_ciphertext_b64 = fe_b64 e shard_plaintext;
             emulator = load_shard shard_ciphertext_b64 shard_plaintext emulator
         in got (mint_test_eat (fe_cbor e) (fe_es e) (fe_eat_key e) (fe_instance e)) (\<lambda>eat_token.
         let eat_str = fe_b64url e eat_token in
         case exchange_eat_for_access_token (emulator_http (fe_b64 e) (fe_now e) (fe_base e) emulator) config eat_str [] of
           (exchanged, trace) \<Rightarrow> let emulator = emulator_served (fe_b64 e) (fe_now e) (fe_base e) trace emulator in
         got exchanged (\<lambda>access_token. Some access_token = issued_token emulator \<and>
         got (fst (decrypt_key_shard (emulator_http (fe_b64 e) (fe_now e) (fe_base e) emulator) (fe_unb64 e) config
             access_token shard_ciphertext_b64 trace)) (\<lambda>released. released = share_as_bytes enclave_share \<and>
         must (scalar_from_repr k released) (\<lambda>scalar.
         let enclave_share_rehydrated = share_from_scalar scalar in
         must (sign_eip1559 k (fe_rlp e) enclave_share_rehydrated client_share flow_tx) (\<lambda>sig.
         let payload = eip1559_signing_payload (fe_rlp e) flow_tx in
           verify_signature k expected_pk payload sig \<and> ecrecover_is k payload sig expected_address
           \<and> be_nat (sig_s sig) \<le> be_nat (0x7F # replicate 31 0xFF))))))))))"

definition kms_client_fails_closed_without_valid_token :: "(bytes \<Rightarrow> string) \<Rightarrow> (string \<Rightarrow> string + bytes) \<Rightarrow> string \<Rightarrow> nat \<Rightarrow> bool" where
  "kms_client_fails_closed_without_valid_token b64 unb64 base now =
     (let emulator = load_shard ''c2hYXJk'' (bytes_of ''secret'') emulator_start;
          config = flow_config base ''projects/p/locations/l/keyRings/r/cryptoKeys/k'' ''//iam.googleapis.com/aud''
      in isl (fst (decrypt_key_shard (emulator_http b64 now base emulator) unb64 config ''not-a-token'' ''c2hYXJk'' [])))"

definition kms_client_rejects_missing_eat :: "(bytes \<Rightarrow> string) \<Rightarrow> string \<Rightarrow> nat \<Rightarrow> bool" where
  "kms_client_rejects_missing_eat b64 base now =
     (let config = flow_config base ''projects/p/locations/l/keyRings/r/cryptoKeys/k'' ''//iam.googleapis.com/aud''
      in isl (fst (exchange_eat_for_access_token (emulator_http b64 now base emulator_start) config [] [])))"

definition key_shares_are_redacted_in_debug_output :: "'p k256 \<Rightarrow> nat \<Rightarrow> bytes \<Rightarrow> bool" where
  "key_shares_are_redacted_in_debug_output k draw secret = must (split_key_bytes k draw secret) (\<lambda>(s1, s2).
     let dbg = share_debug s1 in str_find ''redacted'' dbg \<noteq> None \<and> str_find (hex_encode secret) dbg = None)"


section \<open>Text on the wire\<close>

text \<open>Base64 as the flow relies on it: it decodes back and writes visible characters only.\<close>

definition base64_ok :: "(bytes \<Rightarrow> string) \<Rightarrow> (string \<Rightarrow> string + bytes) \<Rightarrow> bool" where
  "base64_ok b64 unb64 \<longleftrightarrow> (\<forall>bs. unb64 (b64 bs) = Ok bs \<and> list_all visible (b64 bs))"

definition base64_text :: "(bytes \<Rightarrow> string) \<Rightarrow> bool" where
  "base64_text b64 \<longleftrightarrow> (\<forall>bs. list_all visible (b64 bs) \<and> (bs \<noteq> [] \<longrightarrow> b64 bs \<noteq> []))"

definition ascii_text :: "string \<Rightarrow> bool" where
  "ascii_text s \<longleftrightarrow> list_all (\<lambda>c. of_char c < (128 :: nat)) s"

lemma ascii_text_simps [simp]: "ascii_text []" "ascii_text (c # s) \<longleftrightarrow> of_char c < (128 :: nat) \<and> ascii_text s"
  "ascii_text (s @ t) \<longleftrightarrow> ascii_text s \<and> ascii_text t" "ascii_text (dq s) \<longleftrightarrow> ascii_text s"
  by (simp_all add: ascii_text_def dq_def)

lemma lossy_ascii: "ascii_text s \<Longrightarrow> utf8_lossy s = s"
  unfolding ascii_text_def by (rule utf8_lossy_ascii)

lemma visible_ascii: "list_all visible s \<Longrightarrow> ascii_text s"
  by (induction s) (auto simp: visible_def)

lemma visible_no_quote: "list_all visible s \<Longrightarrow> CHR 0x22 \<notin> set s"
  by (induction s) (auto simp: visible_def)

lemma visible_not_blank: "list_all visible s \<Longrightarrow> s \<noteq> [] \<Longrightarrow> \<not> is_blank s"
  by (cases s) (auto simp: is_blank_def visible_def trim_visible)

lemma show_nat_visible: "list_all visible (show_nat n)"
proof (induction n rule: show_nat.induct)
  case (1 n)
  have "visible (char_of (48 + d))" if "d < 10" for d :: nat
  proof -
    have n: "(of_char (char_of (48 + d) :: char) :: nat) = 48 + d" using that by simp
    have "char_of (48 + d) \<noteq> CHR 0x22"
    proof
      assume "char_of (48 + d) = CHR 0x22"
      with n show False by simp
    qed
    with n that show ?thesis unfolding visible_def by simp
  qed
  with 1 show ?case by (subst show_nat.simps) auto
qed

lemma str_find_within: "str_find needle (s @ needle @ t) \<noteq> None"
proof (induction s)
  case Nil
  have "take (length needle) (needle @ t) = needle" by simp
  then show ?case by (cases "needle @ t") auto
qed auto

lemma str_find_longer: "length s < length needle \<Longrightarrow> str_find needle s = None"
  by (induction s) auto

lemma length_hex_encode: "length (hex_encode bs) = 2 * length bs"
  by (induction bs) (simp_all add: hex_encode_def)

section \<open>What the emulator answers\<close>

text \<open>Its three bodies are flat objects, of which the extraction gives exactly the fields.\<close>

definition token_body :: "string \<Rightarrow> json_fields" where
  "token_body nonce = [(''access_token'', [], JText nonce), (''expires_in'', [], JRaw ''3600''), (''token_type'', [], JText ''Bearer'')]"

lemma flat_field:
  assumes "name_ok key" "CHR 0x22 \<notin> set v" "CHR 0x22 \<notin> set key"
  shows "json_str_field (''{'' @ dq key @ '':'' @ dq v @ ''}'') key = Some v"
proof -
  have "fields_ok [(key, [], JText v)]" using assms(2,3) by (simp add: fields_ok_def)
  from json_str_field_exact [OF assms(1) this] show ?thesis by (simp add: render_object_def)
qed

lemma token_field:
  assumes "list_all visible nonce"
  shows "json_str_field (render_object (token_body nonce)) ''access_token'' = Some nonce"
proof -
  have "name_ok ''access_token''" "fields_ok (token_body nonce)"
    using visible_no_quote [OF assms] by (simp_all add: name_ok_def fields_ok_def token_body_def visible_def)
  from json_str_field_exact [OF this] show ?thesis by (simp add: token_body_def)
qed

lemma handle_token:
  assumes "ascii_text body" "str_find GRANT body \<noteq> None"
  shows "emulator_handle b64 now ''/v1/token'' auth body em =
    ((200, render_object (token_body (''test-token-'' @ show_nat now))), em\<lparr>em_issued_token := Some (''test-token-'' @ show_nat now)\<rparr>)"
  using assms by (simp add: emulator_handle_def lossy_ascii Let_def token_body_def render_object_def)

lemma handle_decrypt:
  assumes "suffix '':decrypt'' path" "path \<noteq> ''/v1/token''" "em_issued_token em = Some tok"
    and "list_all visible ct" "em_ciphertexts em ct = Some plaintext"
  shows "emulator_handle b64 now path (Some (''Bearer '' @ tok)) (''{'' @ dq ''ciphertext'' @ '':'' @ dq ct @ ''}'') em
    = ((200, ''{'' @ dq ''plaintext'' @ '':'' @ dq (b64 plaintext) @ ''}''), em)"
proof -
  let ?body = "''{'' @ dq ''ciphertext'' @ '':'' @ dq ct @ ''}''"
  have "ascii_text ?body" using visible_ascii [OF assms(4)] by simp
  moreover have "json_str_field ?body ''ciphertext'' = Some ct"
    using visible_no_quote [OF assms(4)] by (intro flat_field) (simp_all add: name_ok_def)
  ultimately show ?thesis
    unfolding emulator_handle_def using assms by (simp only: lossy_ascii Let_def if_False if_True prod.case option.case simp_thms)
qed

text \<open>Without the token it issued nothing is decrypted.\<close>

lemma handle_unauthorized:
  assumes "suffix '':decrypt'' path" "path \<noteq> ''/v1/token''" "\<And>tok. em_issued_token em = Some tok \<Longrightarrow> auth \<noteq> Some (''Bearer '' @ tok)"
  shows "emulator_handle b64 now path auth body em = ((401, json_error ''unauthorized: no valid bearer token''), em)"
  using assms by (auto simp: emulator_handle_def Let_def split: option.splits)

lemma emulator_post:
  assumes "emulator_handle b64 now path (map_option ((@) ''Bearer '') bearer) body em = ((status, answer), em')" "ascii_text answer"
  shows "post_json (emulator_http b64 now base em) (base @ path) bearer body timeout trace
    = (Ok (status, answer), trace @ [(base @ path, bearer, body)])"
  using assms by (cases bearer) (simp_all add: post_json_def emulator_http_def lossy_ascii)


section \<open>The release of the shard\<close>

text \<open>An address of the emulator: no slash at its end.\<close>

definition base_url_ok :: "string \<Rightarrow> bool" where
  "base_url_ok base \<longleftrightarrow> base \<noteq> [] \<and> last base \<noteq> CHR ''/''"

lemma trim_end_other: "base_url_ok base \<Longrightarrow> trim_end_matches (CHR ''/'') base = base"
  unfolding base_url_ok_def trim_end_matches_def by (cases base rule: rev_cases) auto

lemma flow_decrypt_url: "base_url_ok base \<Longrightarrow> decrypt_url (flow_config base name audience) = base @ ''/v1/'' @ name @ '':decrypt''"
  by (simp add: decrypt_url_def flow_config_def trim_end_other)

lemma exchange_has_grant: "str_find GRANT (exchange_body config eat) \<noteq> None"
proof -
  obtain s t where "exchange_body config eat = s @ GRANT @ t"
  proof
    show "exchange_body config eat = (''{'' @ dq ''audience'' @ '':'' @ dq (kc_wip_audience config) @ '','') @ GRANT
      @ '','' @ dq ''requestedTokenType'' @ '':'' @ dq ''urn:ietf:params:oauth:token-type:access_token''
      @ '','' @ dq ''scope'' @ '':'' @ dq ''https://www.googleapis.com/auth/cloudkms''
      @ '','' @ dq ''subjectTokenType'' @ '':'' @ dq ''urn:ietf:params:oauth:token-type:jwt''
      @ '','' @ dq ''subjectToken'' @ '':'' @ dq eat @ ''}''"
      by (simp add: exchange_body_def GRANT_def)
  qed
  then show ?thesis using str_find_within by simp
qed

text \<open>The exchange makes the emulator issue a token, and returns that token.\<close>

lemma emulator_exchange:
  fixes now :: nat and base name :: string
  assumes "list_all visible eat" "eat \<noteq> []" "ascii_text audience"
  defines "tok \<equiv> ''test-token-'' @ show_nat now" and "config \<equiv> flow_config base name audience"
  shows "exchange_eat_for_access_token (emulator_http b64 now base em) config eat trace
      = (Ok tok, trace @ [sts_request config eat])"
    and "emulator_served b64 now base [sts_request config eat] em = em\<lparr>em_issued_token := Some tok\<rparr>"
    and "list_all visible tok"
proof -
  show v: "list_all visible tok" unfolding tok_def by (simp add: show_nat_visible) (simp add: visible_def)
  have "ascii_text (exchange_body config eat)"
    using visible_ascii [OF assms(1)] assms(3) by (simp add: exchange_body_def config_def flow_config_def)
  note h = handle_token [where now = now, OF this exchange_has_grant, folded tok_def]
  have "ascii_text (render_object (token_body tok))"
    using visible_ascii [OF v] by (simp add: render_object_def token_body_def)
  from emulator_post [where bearer = None and base = base, simplified, OF h this]
  have "post_json (emulator_http b64 now base em) (kc_sts_token_url config) None (exchange_body config eat) (kc_timeout config) trace
      = (Ok (200, render_object (token_body tok)), trace @ [sts_request config eat])"
    by (simp add: sts_request_def config_def flow_config_def)
  then show "exchange_eat_for_access_token (emulator_http b64 now base em) config eat trace = (Ok tok, trace @ [sts_request config eat])"
    using visible_not_blank [OF assms(1,2)] token_field [OF v] by (simp add: exchange_eat_for_access_token_def)
  show "emulator_served b64 now base [sts_request config eat] em = em\<lparr>em_issued_token := Some tok\<rparr>"
    using h by (simp add: sts_request_def) (simp add: config_def flow_config_def)
qed

text \<open>With the token the loaded shard is returned; without it nothing is.\<close>

lemma emulator_decrypt:
  fixes audience :: string
  assumes "base_url_ok base" "name \<noteq> []" "base64_ok b64 unb64" "em_issued_token em = Some tok"
    and "list_all visible ct" "em_ciphertexts em ct = Some plaintext"
  defines "config \<equiv> flow_config base name audience"
  shows "fst (decrypt_key_shard (emulator_http b64 now base em) unb64 config tok ct trace) = Ok plaintext"
proof -
  let ?path = "''/v1/'' @ name @ '':decrypt''"
  have p: "suffix '':decrypt'' ?path" "?path \<noteq> ''/v1/token''"
  proof -
    show "suffix '':decrypt'' ?path" by (metis suffix_appendI suffix_order.refl)
    then show "?path \<noteq> ''/v1/token''" by (auto simp: suffix_def dest: arg_cong [of _ _ rev])
  qed
  have b: "unb64 (b64 plaintext) = Ok plaintext" "list_all visible (b64 plaintext)" using assms(3) by (simp_all add: base64_ok_def)
  note h = handle_decrypt [OF p assms(4,5,6), of b64 now]
  have "ascii_text (''{'' @ dq ''plaintext'' @ '':'' @ dq (b64 plaintext) @ ''}'')" using visible_ascii [OF b(2)] by simp
  from emulator_post [where bearer = "Some tok" and base = base and timeout = "kc_timeout config" and trace = trace, unfolded option.map, OF h this]
  have "fst (post_json (emulator_http b64 now base em) (decrypt_url config) (Some tok) (''{'' @ dq ''ciphertext'' @ '':'' @ dq ct @ ''}'')
      (kc_timeout config) trace) = Ok (200, ''{'' @ dq ''plaintext'' @ '':'' @ dq (b64 plaintext) @ ''}'')"
    by (simp only: config_def flow_decrypt_url [OF assms(1)] fst_conv)
  moreover have "json_str_field (''{'' @ dq ''plaintext'' @ '':'' @ dq (b64 plaintext) @ ''}'') ''plaintext'' = Some (b64 plaintext)"
    using visible_no_quote [OF b(2)] by (intro flat_field) (simp_all add: name_ok_def)
  ultimately show ?thesis
    unfolding decrypt_key_shard_def using b(1) by (simp add: case_prod_beta)
qed


section \<open>The flows succeed and fail as the tests say\<close>

text \<open>A signature made with two shares verifies, recovers the composed address and has a low \<open>s\<close>.\<close>

definition settles :: "'p k256 \<Rightarrow> bytes \<Rightarrow> bytes \<Rightarrow> bytes \<Rightarrow> signature_parts \<Rightarrow> bool" where
  "settles k payload pk addr sig \<longleftrightarrow> verify_signature k pk payload sig \<and> ecrecover_is k payload sig addr
     \<and> be_nat (sig_s sig) \<le> be_nat (0x7F # replicate 31 0xFF)"

lemma be_nat_ones: "Suc (be_nat (0x7F # replicate n 0xFF)) = 128 * 256 ^ n"
proof (induction n)
  case (Suc n)
  have "0x7F # replicate (Suc n) 0xFF = (0x7F # replicate n 0xFF) @ [0xFF :: u8]" by (simp add: replicate_append_same)
  then have "be_nat (0x7F # replicate (Suc n) 0xFF) = be_nat (0x7F # replicate n 0xFF) * 256 + 255"
    by (simp only: be_nat_snoc) simp
  with Suc show ?case by simp
qed (simp add: be_nat_def)

lemma half_order: "be_nat (0x7F # replicate 31 0xFF) = 2 ^ 255 - 1"
  using be_nat_ones [of 31] by simp

lemma shares_settle:
  assumes k: "k256_ok k" "low_s k" "plain_ids k" and good: "good_draw k draw n"
  obtains s1 s2 pk addr sig where "split_key k draw (scalar_from k n) = (s1, s2)"
    "s1 = share_from_scalar draw" "composed_address k s1 s2 = Some addr" "composed_public_key k s1 s2 = Some pk"
    "sign_eip1559 k enc s1 s2 tx = Some sig" "settles k (eip1559_signing_payload enc tx) pk addr sig"
proof (rule good_signature [OF k good, of enc tx])
  fix s1 s2 r s v
  assume sk: "split_key k draw (scalar_from k n) = (s1, s2)"
    and c: "composed_public_key k s1 s2 = Some (k_sec1 k True (k_mul_g k (scalar_from k n)))"
      "composed_address k s1 s2 = Some (address_of k (scalar_from k n))"
    and low: "normalize_s k (r, s) = None" and v: "v < 2"
    and sg: "sign_eip1559 k enc s1 s2 tx = Some \<lparr>sig_r = be_bytes 32 r, sig_s = be_bytes 32 s, sig_y_parity = if odd v then 1 else 0\<rparr>"
    and rs: "0 < r" "r < k_order k" "0 < s" "s < k_order k"
    and rec: "k_recover k (k_keccak k (eip1559_signing_payload enc tx)) (r, s) v = Some (k_mul_g k (scalar_from k n))"
  let ?sig = "\<lparr>sig_r = be_bytes 32 r, sig_s = be_bytes 32 s, sig_y_parity = if odd v then 1 else 0 :: u8\<rparr>"
  note nat = be_nat_bytes32 [OF rs(2) k(1)] be_nat_bytes32 [OF rs(4) k(1)]
  have "s1 = share_from_scalar draw"
    using sk split_key_shares [OF k(1), of draw "scalar_from k n"] good by (simp add: good_draw_def)
  have "s \<le> k_order k div 2" using low by (simp add: normalize_s_def split: if_splits)
  also have "\<dots> \<le> 2 ^ 255 - 1"
  proof -
    have "k_order k \<noteq> 2 ^ 255 * 2" using k256_okD(2) [OF k(1)] by auto
    then have "k_order k < 2 ^ 255 * 2" using k256_okD(3) [OF k(1)] by simp
    then have "k_order k div 2 < 2 ^ 255" by (rule less_mult_imp_div_less)
    then show ?thesis by simp
  qed
  finally have half: "s \<le> 2 ^ 255 - 1" .
  have d: "scalar_from k n \<noteq> 0" using good by (simp add: good_draw_def)
  have "settles k (eip1559_signing_payload enc tx) (k_sec1 k True (k_mul_g k (scalar_from k n))) (address_of k (scalar_from k n)) ?sig"
    unfolding settles_def half_order verify_signature_def ecrecover_is_def must_def
    using rs rec half k256_sec1 [OF k(1) scalar_from_reduced [OF k(1)] d] parity_back [OF v]
    by (simp add: nat address_of_def Let_def del: if_split)
  then show thesis by (rule that [OF sk \<open>s1 = share_from_scalar draw\<close> c(2,1) sg])
qed

text \<open>What the end-to-end flow asks of its parameters.\<close>

definition flow_ok :: "('p, 'sk, 'vk, 'sig) flow_env \<Rightarrow> bool" where
  "flow_ok e \<longleftrightarrow> k256_ok (fe_curve e) \<and> low_s (fe_curve e) \<and> plain_ids (fe_curve e)
     \<and> cbor_ok (fe_cbor e) \<and> es256_ok (fe_es e) \<and> writes_bytes (fe_cbor e)
     \<and> base64_ok (fe_b64 e) (fe_unb64 e) \<and> base64_text (fe_b64url e) \<and> base_url_ok (fe_base e)
     \<and> be_nat (fe_secret e) < k_order (fe_curve e) \<and> good_draw (fe_curve e) (fe_draw e) (be_nat (fe_secret e))"

lemma test_eat_minted:
  assumes "cbor_ok cb" "es256_ok es" "writes_bytes cb"
  obtains token where "mint_test_eat cb es key iid = Ok token" "token \<noteq> []"
proof -
  let ?c = "\<lparr>ec_nonce = bytes_of ''test-nonce'', ec_swname = DEFAULT_SWNAME,
       ec_image_digest = ''sha256:9f86d081884c7d659a2feaa0c55ad015a3bf4f1b2b0b822cd15d6c15b0f00a08'',
       ec_hardware = ''intel-tdx'', ec_instance_id = iid, ec_iat = 1700000000, ec_measurements = [replicate 32 7]\<rparr>"
  have "\<not> is_blank ''sha256:9f86d081884c7d659a2feaa0c55ad015a3bf4f1b2b0b822cd15d6c15b0f00a08''"
    by (rule visible_not_blank) (simp_all add: visible_def)
  then have "\<not> is_blank (ec_swname ?c)" "\<not> is_blank (ec_image_digest ?c)" using test_texts_not_blank(1) by simp_all
  from token_parts [OF assms this] obtain token p q m where "build_eat cb es ?c key = Ok token" "token \<noteq> []"
    "cb_de cb q = Ok (encode_claims ?c)" by metis
  then show ?thesis using that by (simp add: mint_test_eat_def)
qed

lemma end_to_end_test:
  assumes "flow_ok e"
  shows "end_to_end_rat_passport_mpc_signing_flow e"
proof -
  let ?k = "fe_curve e" and ?aud = "''//iam.googleapis.com/projects/test-project/locations/global/workloadIdentityPools/test-pool/providers/test-provider''"
  note ok = assms [unfolded flow_ok_def]
  obtain s1 s2 pk addr sig where s: "split_key ?k (fe_draw e) (scalar_from ?k (be_nat (fe_secret e))) = (s1, s2)"
    "s1 = share_from_scalar (fe_draw e)" "composed_address ?k s1 s2 = Some addr" "composed_public_key ?k s1 s2 = Some pk"
    "sign_eip1559 ?k (fe_rlp e) s1 s2 flow_tx = Some sig" "settles ?k (eip1559_signing_payload (fe_rlp e) flow_tx) pk addr sig"
    using ok by (metis shares_settle)
  have split: "split_key_bytes ?k (fe_draw e) (fe_secret e) = Some (s1, s2)"
    using s(1) ok by (simp add: split_key_bytes_def scalar_from_repr_def scalar_from_def)
  have draw: "fe_draw e < k_order ?k" using ok by (simp add: good_draw_def)
  then have scalar: "scalar_from_repr ?k (share_as_bytes s1) = Some (fe_draw e)"
    using ok s(2) share_scalar [of "fe_draw e" ?k] by (simp add: share_as_bytes_def share_to_scalar_def)
  obtain token where t: "mint_test_eat (fe_cbor e) (fe_es e) (fe_eat_key e) (fe_instance e) = Ok token" "token \<noteq> []"
    using ok by (metis test_eat_minted)
  have eat: "list_all visible (fe_b64url e token)" "fe_b64url e token \<noteq> []" using ok t(2) by (auto simp: base64_text_def)
  have ct: "list_all visible (fe_b64 e (share_as_bytes s1))" using ok by (simp add: base64_ok_def)
  have "ascii_text ?aud" by simp
  note x = emulator_exchange [OF eat this]
  show ?thesis
    unfolding end_to_end_rat_passport_mpc_signing_flow_def must_def got_def
    using ok ct
    by (simp add: split s(3,4,5) t(1) x(1) x(2) Let_def issued_token_def load_shard_def emulator_start_def
        emulator_decrypt scalar s(2) [symmetric] s(6) [unfolded settles_def])
qed


lemma fail_closed_tests:
  assumes "base_url_ok base"
  shows "kms_client_fails_closed_without_valid_token b64 unb64 base now" "kms_client_rejects_missing_eat b64 base now"
proof -
  let ?em = "load_shard ''c2hYXJk'' (bytes_of ''secret'') emulator_start" and ?name = "''projects/p/locations/l/keyRings/r/cryptoKeys/k''"
  let ?path = "''/v1/'' @ ?name @ '':decrypt''"
  have "suffix '':decrypt'' ?path" "?path \<noteq> ''/v1/token''"
    using suffixI [of ?path "''/v1/'' @ ?name" "'':decrypt''"] by simp_all
  from handle_unauthorized [OF this, of ?em "Some (''Bearer '' @ ''not-a-token'')"]
  have h: "emulator_handle b64 now ?path (Some (''Bearer '' @ ''not-a-token'')) body ?em
      = ((401, json_error ''unauthorized: no valid bearer token''), ?em)" for body
    by (simp add: load_shard_def emulator_start_def)
  have "ascii_text (json_error ''unauthorized: no valid bearer token'')" by (simp add: json_error_def)
  note p = emulator_post [where bearer = "Some ''not-a-token''" and base = base, unfolded option.map, OF h this]
  show "kms_client_fails_closed_without_valid_token b64 unb64 base now"
    unfolding kms_client_fails_closed_without_valid_token_def decrypt_key_shard_def
    by (simp only: Let_def flow_decrypt_url [OF assms] p prod.case) (simp add: isl_def)
  show "kms_client_rejects_missing_eat b64 base now"
    using test_texts_not_blank(3) by (simp add: kms_client_rejects_missing_eat_def exchange_eat_for_access_token_def Let_def)
qed

lemma redaction_test:
  assumes "length secret = 32" "be_nat secret < k_order k"
  shows "key_shares_are_redacted_in_debug_output k draw secret"
proof -
  have "split_key_bytes k draw secret = Some (split_key k draw (be_nat secret))"
    using assms(2) by (simp add: split_key_bytes_def scalar_from_repr_def)
  moreover have "str_find ''redacted'' (share_debug s) \<noteq> None" for s
    using str_find_within [of "''redacted''" "''KeyShare(''" "'')''"] by (simp add: share_debug_def)
  moreover have "str_find (hex_encode secret) (share_debug s) = None" for s
    using assms(1) by (intro str_find_longer) (simp add: share_debug_def length_hex_encode)
  ultimately show ?thesis by (simp add: key_shares_are_redacted_in_debug_output_def must_def case_prod_beta)
qed

section \<open>Parameters that meet the assumptions\<close>

text \<open>Half bytes as visible characters in place of base64, and the toy libraries of the other theories.\<close>

definition t_b64 :: "bytes \<Rightarrow> string" where
  "t_b64 bs = concat (map (\<lambda>b. [char_of (64 + unat b div 16), char_of (64 + unat b mod 16)]) bs)"

fun t_unb64 :: "string \<Rightarrow> bytes" where
  "t_unb64 (c # d # s) = word_of_nat (16 * (of_char c - 64) + (of_char d - 64)) # t_unb64 s"
| "t_unb64 _ = []"

definition t_flow :: "(nat, bool, bool, bool) flow_env" where
  "t_flow = \<lparr>fe_curve = t_k256, fe_rlp = w_rlp, fe_cbor = t_cbor, fe_es = t_es, fe_eat_key = True,
     fe_instance = replicate 16 5, fe_b64 = t_b64, fe_unb64 = (\<lambda>s. Ok (t_unb64 s)), fe_b64url = t_b64,
     fe_base = ''http://127.0.0.1:8085'', fe_now = 12345, fe_secret = replicate 31 0 @ [7], fe_draw = 1\<rparr>"

lemma t_b64_ok: "base64_ok t_b64 (\<lambda>s. Ok (t_unb64 s))" "base64_text t_b64"
proof -
  have half: "visible (char_of (64 + h))" "(of_char (char_of (64 + h) :: char) :: nat) = 64 + h" if "h < 16" for h :: nat
  proof -
    show n: "(of_char (char_of (64 + h) :: char) :: nat) = 64 + h" using that by simp
    have "char_of (64 + h) \<noteq> CHR 0x22"
    proof
      assume "char_of (64 + h) = CHR 0x22"
      with n show False by simp
    qed
    with n that show "visible (char_of (64 + h))" unfolding visible_def by simp
  qed
  have b: "unat b div 16 < 16" "unat b mod 16 < 16" for b :: u8
    using unsigned_less [of b, where ?'a = nat] by (simp_all add: less_mult_imp_div_less)
  have dec: "t_unb64 (t_b64 bs) = bs" for bs
  proof (induction bs)
    case (Cons b bs)
    have "t_unb64 (t_b64 (b # bs)) = word_of_nat (16 * (unat b div 16) + unat b mod 16) # t_unb64 (t_b64 bs)"
      by (simp only: t_b64_def list.map concat.simps append.simps t_unb64.simps half(2) [OF b(1)] half(2) [OF b(2)] add_diff_cancel_left')
    then show ?case unfolding mult_div_mod_eq Cons by simp
  qed (simp add: t_b64_def)
  have vis: "list_all visible (t_b64 bs)" for bs
    by (induction bs) (simp_all add: t_b64_def half(1) b)
  show "base64_ok t_b64 (\<lambda>s. Ok (t_unb64 s))" using dec vis by (simp add: base64_ok_def)
  show "base64_text t_b64" using vis by (auto simp: base64_text_def) (auto simp: t_b64_def neq_Nil_conv)
qed

lemma t_flow_ok: "flow_ok t_flow"
proof -
  have "be_nat (replicate n 0) = 0" for n
  proof (induction n)
    case (Suc n)
    have "be_nat (replicate (Suc n) 0) = be_nat (replicate n (0 :: u8) @ [0])" by (simp add: replicate_append_same)
    with Suc show ?case by (simp only: be_nat_snoc) simp
  qed simp
  then have "be_nat (replicate 31 0 @ [7]) = 7" unfolding be_nat_snoc by simp
  then show ?thesis
    using t_k256_ok t_attest_ok t_b64_ok t_draws(3)
    by (simp add: flow_ok_def t_flow_def base_url_ok_def) (simp add: t_k256_def)
qed

lemma t_flow_runs: "end_to_end_rat_passport_mpc_signing_flow t_flow"
  by (rule end_to_end_test [OF t_flow_ok])

end
