(* ===== verification/ServiceIntegration.thy ===== *)
theory ServiceIntegration
  imports KmsFlow ProviderTests
begin

text \<open>
  The integration tests \<open>tests/test_grpc_server.rs\<close>, \<open>tests/test_rate_limit.rs\<close> and
  \<open>tests/test_ftso_calculator.rs\<close>: the service behind its limiter as a client sees it, and the median.
  The connection is left out: a call is made on the router at an instant and answered. The
  calls of a burst are made at one instant.
\<close>

section \<open>Queries over the router\<close>

definition call_query :: "(bytes \<Rightarrow> bytes) \<Rightarrow> nat \<Rightarrow> query_request \<Rightarrow> 'feed router
    \<Rightarrow> (status + query_response) \<times> 'feed router" where
  "call_query sha now req ro =
     (case rate_limit_interceptor now () (ro_bucket ro) of
        (Inl e, b) \<Rightarrow> (Err e, ro\<lparr>ro_bucket := b\<rparr>)
      | (Inr _, b) \<Rightarrow> (case execute_query sha 0 0 req (ro_service ro) of
          (res, sv) \<Rightarrow> (res, ro\<lparr>ro_bucket := b, ro_service := sv\<rparr>)))"

definition spawn_server :: "nat \<Rightarrow> string option \<Rightarrow> unit router" where
  "spawn_server now digest = build_router now digest"

definition execute_query_roundtrip_over_loopback :: "(bytes \<Rightarrow> bytes) \<Rightarrow> nat \<Rightarrow> string option \<Rightarrow> bool" where
  "execute_query_roundtrip_over_loopback sha now digest =
     got (fst (call_query sha now \<lparr>qr_document_id = ''doc-001'', qr_prompt = ''  what   governs   clause 4  '', qr_encrypted_payload = []\<rparr>
         (spawn_server now digest)))
       (\<lambda>r. qs_output r = ''what governs clause 4'' \<and> length (qs_doc_hash r) = 32 \<and> length (qs_prompt_hash r) = 32
         \<and> length (qs_output_hash r) = 32 \<and> qs_prompt_hash r \<noteq> qs_output_hash r)"

fun is_invalid_argument :: "status \<Rightarrow> bool" where
  "is_invalid_argument (InvalidArgument m) = True"
| "is_invalid_argument _ = False"

fun is_exhausted :: "status + 'a \<Rightarrow> bool" where
  "is_exhausted (Inl (ResourceExhausted m)) = True"
| "is_exhausted _ = False"

definition execute_query_rejects_empty_prompt :: "(bytes \<Rightarrow> bytes) \<Rightarrow> nat \<Rightarrow> string option \<Rightarrow> bool" where
  "execute_query_rejects_empty_prompt sha now digest =
     refused is_invalid_argument (fst (call_query sha now
       \<lparr>qr_document_id = ''doc-001'', qr_prompt = ''   '', qr_encrypted_payload = []\<rparr> (spawn_server now digest)))"

definition attestation_fails_closed_without_tee_hardware :: "('sk, 'vk, 'sig) attest_env \<Rightarrow> u64 option \<Rightarrow> bytes \<Rightarrow> 'sk
    \<Rightarrow> nat \<Rightarrow> string option \<Rightarrow> bool" where
  "attestation_fails_closed_without_tee_hardware env clock instance_id key now digest =
     (case get_attestation_token env clock instance_id key \<lparr>ar_nonce = ''test-nonce'', ar_audience = ''test''\<rparr>
         (ro_service (spawn_server now digest)) of
        Ok r \<Rightarrow> as_eat_token r \<noteq> [] \<and> as_swname r \<noteq> []
      | Err status \<Rightarrow> (case status of Unavailable m \<Rightarrow> True | _ \<Rightarrow> False))"

section \<open>A burst\<close>

definition BURST :: nat where "BURST = 150"
definition QUOTA :: nat where "QUOTA = 100"

fun burst_from :: "(bytes \<Rightarrow> bytes) \<Rightarrow> nat \<Rightarrow> nat list \<Rightarrow> unit router \<Rightarrow> (status + query_response) list" where
  "burst_from sha i [] ro = []"
| "burst_from sha i (now # nows) ro =
     (case call_query sha now \<lparr>qr_document_id = ''burst-'' @ show_nat i, qr_prompt = ''rate limit probe'', qr_encrypted_payload = []\<rparr> ro of
        (res, ro) \<Rightarrow> res # burst_from sha (Suc i) nows ro)"

definition burst_exceeding_quota_yields_resource_exhausted :: "(bytes \<Rightarrow> bytes) \<Rightarrow> nat \<Rightarrow> string option \<Rightarrow> bool" where
  "burst_exceeding_quota_yields_resource_exhausted sha now digest =
     (let results = burst_from sha 0 (replicate BURST now) (spawn_server now digest);
          ok = length (filter (\<lambda>r. \<not> isl r) results); exhausted = length (filter is_exhausted results)
      in list_all (\<lambda>r. \<not> isl r \<or> is_exhausted r) results \<and> QUOTA \<le> ok \<and> 1 \<le> exhausted \<and> ok + exhausted = BURST)"

section \<open>The tests pass\<close>

lemma fresh_bucket: "\<exists>b. try_acquire now (default_ingress_bucket now) = (True, b)"
proof -
  have "fst (acquire_all (replicate (Suc 0) now) (bucket_new now 100 100)) = [True]"
    by (subst burst_exact) simp_all
  then show ?thesis
    by (cases "try_acquire now (default_ingress_bucket now)")
      (simp add: acquire_all_Cons default_ingress_bucket_def DEFAULT_RATE_PER_SEC_def)
qed

lemma first_query: "fst (call_query sha now req (spawn_server now digest))
    = fst (execute_query sha 0 0 req (ro_service (spawn_server now digest)))"
  using fresh_bucket [of now]
  by (auto simp: call_query_def rate_limit_interceptor_def spawn_server_def build_router_def split: prod.split)

lemma query_tests:
  assumes "\<And>bs. length (sha bs) = 32" "sha (bytes_of ''  what   governs   clause 4  '') \<noteq> sha (bytes_of ''what governs clause 4'')"
  shows "execute_query_roundtrip_over_loopback sha now digest" "execute_query_rejects_empty_prompt sha now digest"
proof -
  have "split_whitespace ''  what   governs   clause 4  '' = [''what'', ''governs'', ''clause'', ''4'']"
    unfolding split_whitespace_def by code_simp
  then have w: "\<not> is_blank ''  what   governs   clause 4  ''" "deterministic_output ''  what   governs   clause 4  '' = ''what governs clause 4''"
    by (simp_all add: is_blank_words deterministic_output_def)
  then show "execute_query_roundtrip_over_loopback sha now digest"
    unfolding execute_query_roundtrip_over_loopback_def first_query using assms
    by (simp add: execute_query_def lock_state_def spawn_server_def build_router_def got_def Let_def)
  show "execute_query_rejects_empty_prompt sha now digest"
    unfolding execute_query_rejects_empty_prompt_def first_query using test_texts_not_blank(4)
    by (simp add: execute_query_def refused_def)
qed


lemma service_of: "ro_service (spawn_server now digest) = \<lparr>sv_state = enclave_state_new now digest, sv_poisoned = False,
    sv_queries_total = 0, sv_query_latency = []\<rparr>"
  by (simp add: spawn_server_def build_router_def)

text \<open>The attestation test passes without a device, and with one when a digest is configured.\<close>

lemma attestation_tests:
  assumes "\<And>bs. length (ae_sha env bs) = 32"
  shows "isl (hardware_report (ae_kernel env) (nonce_to_reportdata (ae_sha env) (bytes_of ''test-nonce'')))
      \<Longrightarrow> attestation_fails_closed_without_tee_hardware env clock iid key now digest"
    "cbor_ok (ae_cbor env) \<Longrightarrow> es256_ok (ae_es256 env) \<Longrightarrow> writes_bytes (ae_cbor env) \<Longrightarrow> \<not> is_blank d
      \<Longrightarrow> attestation_fails_closed_without_tee_hardware env clock iid key now (Some d)"
proof -
  let ?req = "\<lparr>ar_nonce = ''test-nonce'', ar_audience = ''test''\<rparr>"
  let ?hw = "hardware_report (ae_kernel env) (nonce_to_reportdata (ae_sha env) (bytes_of ''test-nonce''))"
  have nb: "\<not> is_blank ''test-nonce''" by (rule visible_not_blank) (simp_all add: visible_def)
  show fails: "attestation_fails_closed_without_tee_hardware env clock iid key now digest" if "isl ?hw" for digest
    using that nb by (auto simp: attestation_fails_closed_without_tee_hardware_def get_attestation_token_def isl_def Let_def)
  show "attestation_fails_closed_without_tee_hardware env clock iid key now (Some d)"
    if lib: "cbor_ok (ae_cbor env)" "es256_ok (ae_es256 env)" "writes_bytes (ae_cbor env)" and d: "\<not> is_blank d"
  proof (cases ?hw)
    case (Inr hr)
    obtain hardware report where hr: "hr = (hardware, report)" by fastforce
    let ?c = "\<lparr>ec_nonce = bytes_of (sha256_hex (ae_sha env) (bytes_of ''test-nonce'')), ec_swname = DEFAULT_SWNAME, ec_image_digest = d,
       ec_hardware = hardware, ec_instance_id = iid, ec_iat = (case clock of Some t \<Rightarrow> t | None \<Rightarrow> 0), ec_measurements = [measurement_of report]\<rparr>"
    have "\<not> is_blank (ec_swname ?c)" "\<not> is_blank (ec_image_digest ?c)" using d test_texts_not_blank(1) by simp_all
    from token_parts [OF lib this] obtain token p q m where t: "build_eat (ae_cbor env) (ae_es256 env) ?c key = Ok token" "token \<noteq> []"
      "cb_de (ae_cbor env) q = Ok (encode_claims ?c)" by metis
    have "d \<noteq> []" using d test_texts_not_blank(3) by auto
    then have "get_attestation_token env clock iid key ?req (ro_service (spawn_server now (Some d)))
        = Ok \<lparr>as_eat_token = token, as_swname = DEFAULT_SWNAME, as_image_digest = d, as_hardware = hardware, as_instance_id = hex_encode iid\<rparr>"
      using nb Inr hr t(1)
      by (simp add: get_attestation_token_def Let_def service_of lock_state_def enclave_state_new_def)
    moreover have "DEFAULT_SWNAME \<noteq> []" by (simp add: DEFAULT_SWNAME_def)
    ultimately show ?thesis using t(2) by (simp add: attestation_fails_closed_without_tee_hardware_def)
  qed (use fails in \<open>simp add: isl_def\<close>)
qed

text \<open>But on a host with a device and no digest configured, as its own comment describes, it fails.\<close>

lemma attestation_test_needs_digest:
  assumes "hardware_report (ae_kernel env) (nonce_to_reportdata (ae_sha env) (bytes_of ''test-nonce'')) = Ok (hardware, report)"
  shows "\<not> attestation_fails_closed_without_tee_hardware env clock iid key now None"
proof -
  have "\<not> is_blank ''test-nonce''" by (rule visible_not_blank) (simp_all add: visible_def)
  then show ?thesis using assms
    by (simp add: attestation_fails_closed_without_tee_hardware_def get_attestation_token_def Let_def service_of lock_state_def
        enclave_state_new_def)
qed

lemma burst_outcomes:
  assumes "service_ok (ro_service ro)"
  shows "map (\<lambda>r. \<not> isl r) (burst_from sha i nows ro) = fst (acquire_all nows (ro_bucket ro))
    \<and> list_all (\<lambda>r. isl r \<longrightarrow> is_exhausted r) (burst_from sha i nows ro)"
  using assms
proof (induction nows arbitrary: i ro)
  case (Cons now nows)
  let ?req = "\<lparr>qr_document_id = ''burst-'' @ show_nat i, qr_prompt = ''rate limit probe'', qr_encrypted_payload = []\<rparr>"
  have nb: "\<not> is_blank ''rate limit probe''" by (simp add: is_blank_def trim_visible)
  obtain g b where g: "try_acquire now (ro_bucket ro) = (g, b)" by fastforce
  obtain res sv where e: "execute_query sha 0 0 ?req (ro_service ro) = (res, sv)" by fastforce
  have sv: "service_ok sv" using execute_query_ok [OF Cons.prems, of sha 0 0 ?req] e by simp
  have res: "\<not> isl res" using e nb Cons.prems
    by (auto simp: execute_query_def lock_state_def service_ok_def Let_def)
  show ?case
  proof (cases g)
    case True
    then have c: "call_query sha now ?req ro = (res, ro\<lparr>ro_bucket := b, ro_service := sv\<rparr>)"
      using g e by (simp add: call_query_def rate_limit_interceptor_def)
    show ?thesis using Cons.IH [of "ro\<lparr>ro_bucket := b, ro_service := sv\<rparr>" "Suc i"] sv res True
      unfolding burst_from.simps c prod.case by (simp add: acquire_all_Cons g)
  next
    case False
    then obtain m where c: "call_query sha now ?req ro = (Err (ResourceExhausted m), ro\<lparr>ro_bucket := b\<rparr>)"
      using g by (simp add: call_query_def rate_limit_interceptor_def)
    show ?thesis using Cons.IH [of "ro\<lparr>ro_bucket := b\<rparr>" "Suc i"] Cons.prems False
      unfolding burst_from.simps c prod.case by (simp add: acquire_all_Cons g)
  qed
qed simp

lemma burst_test: "burst_exceeding_quota_yields_resource_exhausted sha now digest"
proof -
  let ?rs = "burst_from sha 0 (replicate BURST now) (spawn_server now digest)"
  have "service_ok (ro_service (spawn_server now digest))" by (simp add: service_of service_ok_def enclave_state_new_def)
  note o = burst_outcomes [OF this, of sha 0 "replicate BURST now"]
  have b: "ro_bucket (spawn_server now digest) = bucket_new now 100 100"
    by (simp add: spawn_server_def build_router_def default_ingress_bucket_def DEFAULT_RATE_PER_SEC_def)
  have m: "map (\<lambda>r. \<not> isl r) ?rs = replicate 100 True @ replicate 50 False"
    using conjunct1 [OF o] burst_exact [of 100 100 BURST now] unfolding b by (simp add: BURST_def)
  have only: "isl r \<longleftrightarrow> is_exhausted r" if "r \<in> set ?rs" for r
  proof
    show "isl r \<Longrightarrow> is_exhausted r" using conjunct2 [OF o] that by (simp add: list_all_iff)
    show "is_exhausted r \<Longrightarrow> isl r" by (cases r rule: is_exhausted.cases) simp_all
  qed
  have "length (filter (\<lambda>r. \<not> isl r) ?rs) = length (filter id (map (\<lambda>r. \<not> isl r) ?rs))"
    by (simp add: filter_map comp_def)
  then have ok: "length (filter (\<lambda>r. \<not> isl r) ?rs) = 100" unfolding m by simp
  have "length ?rs = 150" using arg_cong [OF m, of length] by simp
  moreover have "length (filter is_exhausted ?rs) = length (filter isl ?rs)" using only by (metis (mono_tags, lifting) filter_cong)
  ultimately have "length (filter is_exhausted ?rs) = 50"
    using ok sum_length_filter_compl [of isl ?rs] by simp
  moreover have "list_all (\<lambda>r. \<not> isl r \<or> is_exhausted r) ?rs" using only by (auto simp: list_all_iff)
  ultimately show ?thesis using ok
    by (simp add: burst_exceeding_quota_yields_resource_exhausted_def Let_def QUOTA_def BURST_def)
qed


section \<open>The median through the public interface\<close>

text \<open>A decimal literal for a price is the nearest double; the volumes of the tests are whole numbers.\<close>

definition obs_of :: "string \<Rightarrow> rat \<Rightarrow> nat \<Rightarrow> observation" where
  "obs_of exchange price volume = \<lparr>o_exchange = exchange, o_price = rnd price, o_volume = fnat volume\<rparr>"

definition no_observations_produces_no_price :: bool where
  "no_observations_produces_no_price \<longleftrightarrow> volume_trimmed_median [] = Some None"

definition a_single_exchange_is_its_price :: bool where
  "a_single_exchange_is_its_price \<longleftrightarrow>
     volume_trimmed_median [obs_of ''kraken'' (58432 / 10 ^ 5) 1000000] = Some (Some (rnd (58432 / 10 ^ 5)))"

definition synthetic_median_hand_computed_case :: bool where
  "synthetic_median_hand_computed_case \<longleftrightarrow>
     volume_trimmed_median [obs_of ''kraken'' (58420 / 10 ^ 5) 12000000, obs_of ''coinbase'' (58432 / 10 ^ 5) 9000000,
       obs_of ''binance'' (58440 / 10 ^ 5) 15000000] = Some (Some (rnd (58432 / 10 ^ 5)))"

definition synthetic_trim_removes_extreme_quotes :: bool where
  "synthetic_trim_removes_extreme_quotes \<longleftrightarrow>
     volume_trimmed_median [obs_of ''a'' (50 / 10 ^ 2) 1000, obs_of ''b'' (51 / 10 ^ 2) 1000, obs_of ''c'' (52 / 10 ^ 2) 1000,
       obs_of ''d'' (53 / 10 ^ 2) 1000, obs_of ''e'' (60 / 10 ^ 2) 1000] = Some (Some (rnd (52 / 10 ^ 2)))"

definition synthetic_volume_weight_beats_equal_weight :: bool where
  "synthetic_volume_weight_beats_equal_weight \<longleftrightarrow>
     (case volume_trimmed_median [obs_of ''thin'' 100 1, obs_of ''deep'' 101 95, obs_of ''rest'' 101 4] of
        Some (Some median) \<Rightarrow> fle (rnd 101) median | _ \<Rightarrow> False)"

definition synthetic_stable_across_input_order :: bool where
  "synthetic_stable_across_input_order \<longleftrightarrow>
     volume_trimmed_median [obs_of ''kraken'' (58420 / 10 ^ 5) 12, obs_of ''coinbase'' (58432 / 10 ^ 5) 9, obs_of ''binance'' (58440 / 10 ^ 5) 15]
     = volume_trimmed_median [obs_of ''binance'' (58440 / 10 ^ 5) 15, obs_of ''kraken'' (58420 / 10 ^ 5) 12, obs_of ''coinbase'' (58432 / 10 ^ 5) 9]"

definition synthetic_zero_volume_uses_plain_median :: bool where
  "synthetic_zero_volume_uses_plain_median \<longleftrightarrow>
     volume_trimmed_median [obs_of ''a'' 1 0, obs_of ''b'' 2 0, obs_of ''c'' 3 0, obs_of ''d'' 100 0] = Some (Some (Fin (5/2)))"

text \<open>The literals as doubles.\<close>

lemma price_literals:
  "rnd (58420 / 10 ^ 5) = Fin (5262005804619688 / 2 ^ 53)" "rnd (58432 / 10 ^ 5) = Fin (5263086668530256 / 2 ^ 53)"
  "rnd (58440 / 10 ^ 5) = Fin (5263807244470636 / 2 ^ 53)" "rnd (50 / 10 ^ 2) = Fin (1 / 2)"
  "rnd (51 / 10 ^ 2) = Fin (4593671619917906 / 2 ^ 53)" "rnd (52 / 10 ^ 2) = Fin (4683743612465316 / 2 ^ 53)"
  "rnd (53 / 10 ^ 2) = Fin (4773815605012726 / 2 ^ 53)" "rnd (60 / 10 ^ 2) = Fin (5404319552844595 / 2 ^ 53)"
proof -
  have half: "rnd q = Fin (of_int m / 2 ^ 53)" if "1/2 \<le> q" "q < 1" "\<bar>q * 2 ^ 53 - of_int m\<bar> < 1/2" for q :: rat and m :: int
    using rnd_nearest [of "- 1" q m] that by (simp add: power_int_def divide_simps)
  show "rnd (58420 / 10 ^ 5) = Fin (5262005804619688 / 2 ^ 53)" by (subst half [where m = 5262005804619688]) simp_all
  show "rnd (58432 / 10 ^ 5) = Fin (5263086668530256 / 2 ^ 53)" by (subst half [where m = 5263086668530256]) simp_all
  show "rnd (58440 / 10 ^ 5) = Fin (5263807244470636 / 2 ^ 53)" by (subst half [where m = 5263807244470636]) simp_all
  show "rnd (50 / 10 ^ 2) = Fin (1 / 2)" by (subst half [where m = 4503599627370496]) simp_all
  show "rnd (51 / 10 ^ 2) = Fin (4593671619917906 / 2 ^ 53)" by (subst half [where m = 4593671619917906]) simp_all
  show "rnd (52 / 10 ^ 2) = Fin (4683743612465316 / 2 ^ 53)" by (subst half [where m = 4683743612465316]) simp_all
  show "rnd (53 / 10 ^ 2) = Fin (4773815605012726 / 2 ^ 53)" by (subst half [where m = 4773815605012726]) simp_all
  show "rnd (60 / 10 ^ 2) = Fin (5404319552844595 / 2 ^ 53)" by (subst half [where m = 5404319552844595]) simp_all
qed


text \<open>The same with the fractions reduced, as the simplifier sees them.\<close>

lemmas price_values = price_literals [simplified]

lemma price_numbers: "rnd 1 = fnat 1" "rnd 2 = fnat 2" "rnd 3 = fnat 3" "rnd 100 = fnat 100" "rnd 101 = fnat 101"
  using rnd_repr [OF repr_of_int [of 1]] rnd_repr [OF repr_of_int [of 2]] rnd_repr [OF repr_of_int [of 3]]
    rnd_repr [OF repr_of_int [of 100]] rnd_repr [OF repr_of_int [of 101]] by (simp_all add: fnat_def)

lemma obs_of_simps [simp]: "o_price (obs_of x q v) = rnd q" "o_volume (obs_of x q v) = fnat v"
  by (simp_all add: obs_of_def)

lemma median_basic_tests: no_observations_produces_no_price a_single_exchange_is_its_price
  by (simp_all add: no_observations_produces_no_price_def a_single_exchange_is_its_price_def volume_trimmed_median_def)

lemma hand_computed_test: synthetic_median_hand_computed_case
  unfolding synthetic_median_hand_computed_case_def
  by (rule median_by_stages [where T = "fnat 36000000" and ob = "obs_of ''kraken'' (58420 / 10 ^ 5) 12000000"
        and ob' = "obs_of ''coinbase'' (58432 / 10 ^ 5) 9000000" and obs' = "[obs_of ''binance'' (58440 / 10 ^ 5) 15000000]"
        and k = "(rnd (58420 / 10 ^ 5), fnat 12000000)"
        and kept = "[(rnd (58432 / 10 ^ 5), fnat 9000000), (rnd (58440 / 10 ^ 5), fnat 15000000)]"];
      (simp add: median_ops weighted_median_def price_values del: fadd.simps fmul.simps fdiv.simps); simp add: fnat_def)

lemma trim_test: synthetic_trim_removes_extreme_quotes
  unfolding synthetic_trim_removes_extreme_quotes_def
  by (rule median_by_stages [where T = "fnat 5000" and ob = "obs_of ''a'' (50 / 10 ^ 2) 1000" and ob' = "obs_of ''b'' (51 / 10 ^ 2) 1000"
        and obs' = "[obs_of ''c'' (52 / 10 ^ 2) 1000, obs_of ''d'' (53 / 10 ^ 2) 1000, obs_of ''e'' (60 / 10 ^ 2) 1000]"
        and k = "(rnd (51 / 10 ^ 2), fnat 1000)" and kept = "[(rnd (52 / 10 ^ 2), fnat 1000), (rnd (53 / 10 ^ 2), fnat 1000)]"];
      (simp add: median_ops weighted_median_def price_values del: fadd.simps fmul.simps fdiv.simps); simp add: fnat_def)

lemma volume_weight_test: synthetic_volume_weight_beats_equal_weight
proof -
  have "volume_trimmed_median [obs_of ''thin'' 100 1, obs_of ''deep'' 101 95, obs_of ''rest'' 101 4] = Some (Some (fnat 101))"
    by (rule median_by_stages [where T = "fnat 100" and ob = "obs_of ''thin'' 100 1" and ob' = "obs_of ''deep'' 101 95"
          and obs' = "[obs_of ''rest'' 101 4]" and k = "(fnat 101, fnat 95)" and kept = "[]"];
        (simp add: median_ops weighted_median_def price_numbers del: fadd.simps fmul.simps fdiv.simps); simp add: fnat_def)
  then show ?thesis by (simp add: synthetic_volume_weight_beats_equal_weight_def price_numbers fle_def)
qed

lemma input_order_test: synthetic_stable_across_input_order
  unfolding synthetic_stable_across_input_order_def by (rule median_order_free) (simp_all add: price_values)

lemma zero_volume_median_test: synthetic_zero_volume_uses_plain_median
proof -
  have "fdiv (fnat 5) 2 = Fin (5/2)" using fraction_fnat(1) [of 5] by (simp add: fnat_def)
  then show ?thesis unfolding synthetic_zero_volume_uses_plain_median_def
    by (simp add: volume_trimmed_median_def median_ops plain_median_def price_numbers del: fadd.simps fmul.simps fdiv.simps)
qed

end
