(* ===== verification/Spec2Isabelle.thy ===== *)
theory Spec2Isabelle
  imports TokenGraph KGraphProps SymTrie Ffi FtsoNodeProps FtsoSubmit ZkTls TlsClient KmsClient GrpcServer
    GrpcMain EatTyping ClientCli GraphTests TrieTests EngineTests ProviderTests ServiceTests
    ZkpTests SignerTests AttestTests EngineIntegration KmsFlow ServiceIntegration
begin

text \<open>
  Verification of the Rust part of the verifiable RAG enclave: the symbolic engine of
  \<open>src/enclave/src/rag_engine\<close> and the enclave process of \<open>src/enclave/enclave_grpc\<close>.

  \<^bold>\<open>The program and its parts.\<close> The engine turns a document into tokens, a syntax tree and a
  graph of terms, keeps knowledge in an acyclic graph and in a trie of symbols, and commits to its
  answers with a halo2 proof. The enclave process serves queries and attestation tokens over
  gRPC behind a rate limiter and mutual TLS, mints the tokens from a report of the TEE device,
  proves what an HTTPS server answered (zkTLS), releases a key shard from a key service, signs
  with two shares of a key, and runs a price provider (FTSO) that watches five exchanges, takes a
  trimmed median and submits it by commit and reveal. Two command-line tools mint tokens and
  drive the service.

  \<^bold>\<open>Conventions.\<close> A \<open>Result\<close> is a sum with \<open>Err\<close> and \<open>Ok\<close>; an operation that can panic returns an
  option whose \<open>None\<close> is the panic; a \<open>struct\<close> is a record with a prefix on its fields; an
  \<open>enum\<close> is a datatype with the constructors of the source; a \<open>String\<close> is the list of its UTF-8
  bytes; \<open>u8\<close> to \<open>u128\<close> are words; \<open>usize\<close> counters bounded by memory are natural numbers; \<open>f64\<close> is
  the rational model of theory \<open>F64\<close>; \<open>BTreeMap\<close> and \<open>BTreeSet\<close> are the ordered lists of
  theory \<open>OrdMap\<close>; a clock is a number of nanoseconds handed to the operation. State is passed
  explicitly; a mutable reference is a component of the returned pair.

  \<^bold>\<open>Shared theories.\<close>
  \<^item> \<open>Prelude\<close>: results and the operator for their early return, the locales \<open>machine\<close> (a state with
    operations and an invariant) and \<open>codec\<close> (an encoder with its decoder), words and bytes in
    big-endian order, decimal numbers.
  \<^item> \<open>OrdMap\<close>: the locale \<open>btree_map\<close> of ordered maps and its instance of sorted association lists.
  \<^item> \<open>Digraph\<close>: breadth-first search over an interface of indexed vertices (locale
    \<open>digraph_view\<close>), with distances. \<open>RustText\<close>: Unicode white space and searching in strings.
    \<open>CliText\<close>: lines of output and splitting at a character. \<open>F64\<close>: binary64 with rounding to
    nearest even, as an instance of \<open>linorder\<close> on its values.

  \<^bold>\<open>The engine\<close> (\<open>rag_engine/src\<close>).
  \<^item> \<open>Tokenizer\<close> and \<open>Parser\<close> model \<open>lib.rs\<close>: the byte classes, the scan of one token, \<open>tokenize\<close>, spans,
    the syntax tree and the single pass of \<open>parse\<close> with its two flushing closures. Proved: the
    tokenizer is the longest-match lexer of its token shapes; the pass is the declarative split into sections and sentences.
  \<^item> \<open>TokenGraph\<close> models \<open>ast.rs\<close> and the rest of \<open>lib.rs\<close>: \<open>from_ast\<close>, \<open>lex\<close> and \<open>match_graph\<close>. Proved: the
    loops compute the first occurrences and the pairs of different terms of a sentence, and a
    pattern returns exactly its answers, each with its place in the document.
  \<^item> \<open>Adjacency\<close>, \<open>Kahn\<close>, \<open>KGraph\<close> and \<open>KGraphProps\<close> model \<open>graph.rs\<close>: the nested adjacency caches, the
    rank computation, every operation of \<open>KnowledgeGraph\<close>, its serialized form. Proved: whatever
    calls are made the graph is acyclic, its caches agree and nothing panics; adding, searching,
    ordering and loading do exactly what their comments say.
  \<^item> \<open>SymTrie\<close> models \<open>trie.rs\<close>, with the explicit stacks of its prefix search, clone and drop. Proved:
    it refines a finite map, its shape depends on the map only, and the loops end and stay in
    bounds.
  \<^item> \<open>Zkp\<close> and \<open>Ffi\<close> model \<open>zkp.rs\<close> and \<open>ffi.rs\<close>: commitments to field elements, the circuit and its copy
    constraints, the cached keys, proving and verifying over a record of the functions of halo2,
    and the entry point called from Python.

  \<^bold>\<open>The price provider\<close> (\<open>enclave_grpc/src/ftso_provider\<close>).
  \<^item> \<open>FtsoCalc\<close> models \<open>calculator.rs\<close>, the trimmed and weighted median over \<open>F64\<close>. \<open>Ticker\<close> and \<open>FtsoNode\<close>
    model \<open>node.rs\<close>: the five message formats, the price book, the snapshot, staleness, connecting,
    the backoff, and the daemon as a step relation that interleaves its tasks. \<open>FtsoNodeProps\<close>
    proves the invariant of every reachable state and what a reader sees in it.
  \<^item> \<open>FtsoSubmit\<close> models \<open>submitter.rs\<close>: prices as integers, commit hashes, calldata, signing.

  \<^bold>\<open>Keys\<close> (\<open>kms\<close>). \<open>MpcSigner\<close> models \<open>mpc_signer.rs\<close> (shares modulo the order of the curve, EIP-1559
  payloads, signing); \<open>KmsClient\<close> models \<open>client.rs\<close> (configuration, the hand-written reading of JSON
  fields, the two-step release of a shard with the log of its requests).

  \<^bold>\<open>zkTLS\<close> (\<open>zktls\<close>). \<open>TlsProxy\<close> and \<open>TlsClient\<close> model \<open>cert_verifier.rs\<close> and \<open>proxy.rs\<close> (the sink of validated
  chains, the verifier that fills it, the client that drains it, its configuration); \<open>ZkTls\<close> models
  \<open>proof_generator.rs\<close> (selection of the claimed data, the signed payload, the wire format,
  redaction).

  \<^bold>\<open>Attestation and service\<close>.
  \<^item> \<open>TeeDevice\<close> models \<open>attestation/tdx.rs\<close> and \<open>sev_snp.rs\<close>: the requests to the guest devices and
    their errors. \<open>Eat\<close> models \<open>eat_builder.rs\<close> and \<open>verifier.rs\<close>: claims, the COSE envelope, building,
    parsing, verification and policy. \<open>EatTyping\<close> gives tokens a type and proves it of all issued ones.
  \<^item> \<open>RateLimit\<close> models \<open>middleware/rate_limit.rs\<close>; \<open>GrpcServer\<close> models \<open>grpc_server.rs\<close>: the three handlers
    over the shared state and the router behind the limiter.
  \<^item> \<open>Telemetry\<close> models \<open>metrics.rs\<close> and the task of \<open>main_grpc.rs\<close> that mirrors the provider's counters,
    interleaved with the provider's own steps. \<open>TlsServer\<close> models \<open>tls_config.rs\<close>. \<open>GrpcMain\<close> models
    \<open>main_grpc.rs\<close>: the start of the process as a list of effects, and the accept loop.
  \<^item> \<open>AttestTool\<close> and \<open>ClientCli\<close> model \<open>bin/tdx_attest_tool.rs\<close> and \<open>bin/client_cli.rs\<close>: what they print and
    their exit codes.

  \<^bold>\<open>Validation.\<close> \<open>GraphTests\<close>, \<open>TrieTests\<close>, \<open>EngineTests\<close>, \<open>ProviderTests\<close> and \<open>ServiceTests\<close> translate the unit tests
  inside the source files to Boolean functions over the model and evaluate them in the kernel: the
  model meets every expectation its source states about itself, roundings of \<open>f64\<close> included.
  \<open>ZkpTests\<close> and \<open>SignerTests\<close> do so for the code that rests on halo2, the curve and RLP, whose tests are
  proved for every library that keeps its promises. \<open>AttestTests\<close>, \<open>EngineIntegration\<close>, \<open>KmsFlow\<close> and
  \<open>ServiceIntegration\<close> do the same for the tests under \<open>tests\<close> with their emulators: the tokens and
  devices, the engine from outside, the service behind its limiter, and the flow from a minted
  token over the key service to a signature that recovers the composed address.

  \<^bold>\<open>How the parts interact, and where that is proved.\<close> \<open>Ffi\<close> runs the tokenizer, the parser, the graph
  and the prover in sequence (\<open>Zkp.parse_and_prove_exact\<close>). The daemon feeds tickers into the book
  and the median reads it (\<open>FtsoNodeProps.snapshot_exact\<close>), the mirror reads the node while its tasks
  run (\<open>Telemetry.telemetry_exact\<close>). The service asks the devices for a report and signs the claims
  (\<open>GrpcServer.attestation_token_exact\<close>), as does the tool (\<open>AttestTool.tool_fail_closed\<close>). The
  limiter stands before the handlers (\<open>GrpcServer.router_counts\<close>), the client before the service
  (\<open>ClientCli.cli_stream_end_to_end\<close>), the TLS configuration before the router
  (\<open>GrpcMain.served_authenticated\<close>). Below, what the submitter reveals is tied to what the daemon received
  (\<open>revealed_between_quotes\<close>). The submitter signs with the shares of \<open>MpcSigner\<close>; the proof
  generator of \<open>ZkTls\<close> uses its curve.

  \<^bold>\<open>Loops and bounds.\<close> No definition needs fuel: structural recursion or a measure ends every loop (the
  vertices not yet visited together with the queue for the searches of the graph, the nodes on
  the stack for the trie, the bytes left for the text functions). The loops of the daemon run
  for ever and are step relations; the properties are about every reachable state. Bounds of
  the source are kept as they are: keys of the trie, the channel of 64 feeds, the sink of
  64 chains, the delays from 0.5 to 30 seconds, the burst of 100 requests, and saturating or
  wrapping arithmetic on words.

  \<^bold>\<open>Parameters.\<close> What is not in the repository is an argument: halo2, SHA-256 and Keccak, k256, RLP,
  CBOR (ciborium), ES256 (p256), base64, serde_json and jaq, URL and PEM parsing, rustls and webpki, hyper
  and the generated gRPC client, the kernel, the clock, the random generators, DNS and sockets.
  The few laws a theorem needs are named predicates (\<open>halo2_complete\<close>, \<open>halo2_sound\<close>, \<open>k256_ok\<close>, \<open>rlp_ok\<close>, \<open>cbor_ok\<close>,
  \<open>es256_ok\<close>, \<open>kernel_ok\<close>, \<open>rustls_ok\<close>, \<open>prometheus_ok\<close>, \<open>json_ok\<close>); each has an instance in its theory, and the witness
  of the theorem uses it. Hexadecimal text is the lower-case encoding of the \<open>hex\<close> crate.

  \<^bold>\<open>Not modelled.\<close> Forwarding of bytes in \<open>TlsStreamIo\<close>, signals and logging, which only touch the
  operating system; zeroization of secrets and the release of the interpreter lock, which the
  model cannot observe; \<open>serde\<close> derivations, \<open>rate_limit_layer\<close> and the code generated from the
  protocol file; benches, the tests over live TLS connections, tests of run time, of JSON text or
  of fixed vectors; the Python enclave, the smart contracts, the frontend and the infrastructure,
  which are not Rust.
\<close>

section \<open>From the quotes to the chain\<close>

lemma price_limit_half: "price_limit < half_range"
proof -
  have "(10 :: rat) ^ 14 \<le> 2 ^ 64" by simp
  moreover have "(2 :: rat) ^ 64 < 2 ^ 1023" by (rule power_strict_increasing) simp_all
  ultimately show ?thesis by (simp only: price_limit_def half_range_def less_f64_simps)
qed

text \<open>The number a price is submitted as lies between those of two quotes.\<close>

definition between_quotes :: "(f64 \<Rightarrow> string) \<Rightarrow> (exchange_id \<Rightarrow> book_entry option) \<Rightarrow> u64 \<Rightarrow> bool" where
  "between_quotes sf quotes q \<longleftrightarrow>
     (\<exists>e b n. quotes e = Some b \<and> format_price sf (be_price b) = Ok n \<and> n \<le> q)
     \<and> (\<exists>e b n. quotes e = Some b \<and> format_price sf (be_price b) = Ok n \<and> q \<le> n)"

lemma format_between:
  assumes "\<forall>e b. quotes e = Some b \<longrightarrow> Fin 0 < be_price b \<and> be_price b \<le> price_limit"
    "\<exists>e b. quotes e = Some b \<and> be_price b \<le> p" "\<exists>e b. quotes e = Some b \<and> p \<le> be_price b"
  shows "\<exists>q. format_price sf p = Ok q \<and> between_quotes sf quotes q"
proof -
  obtain e b e' b' where b: "quotes e = Some b" "be_price b \<le> p" "quotes e' = Some b'" "p \<le> be_price b'"
    using assms(2,3) by blast
  then have "Fin 0 < p" "p \<le> price_limit" using assms(1) by (meson order.strict_trans2 order.trans)+
  then obtain q where q: "format_price sf p = Ok q" using format_price_total by blast
  obtain n n' where n: "format_price sf (be_price b) = Ok n" "format_price sf (be_price b') = Ok n'"
    using format_price_total assms(1) b by meson
  have "n \<le> q" "q \<le> n'" using format_price_mono b(2,4) q n by blast+
  then show ?thesis unfolding between_quotes_def using b n q by blast
qed

text \<open>C19: from the quotes to the chain: whatever the exchanges sent and however the tasks of the provider
  interleaved, for any choice of live feeds whose quotes stay below a hundred trillion dollars
  the snapshot has a price for each, the submission made of these prices is accepted, and a
  standard decoder reads back from its reveal the epoch, the chosen indices in order and the random
  value, with a price for each feed between the formatted prices of two of its latest quotes;
  the commitments are the hashes of exactly these prices.\<close>

theorem revealed_between_quotes:
  assumes "\<forall>text v. json_of text = Some v \<longrightarrow> json_ok v"
    and "(daemon_step json_of)\<^sup>*\<^sup>* (daemon_start now sa exchs) d" "\<forall>f. is_order (orders f)"
    and "chosen \<noteq> []" "\<forall>(i, f)\<in>set chosen. f \<in> set FEEDS \<and> live_exchanges (orders f) f (dm_node d) \<noteq> 0"
    and "\<forall>f e b. nd_book (dm_node d) f e = Some b \<longrightarrow> be_price b \<le> price_limit"
    and "\<forall>bs. length (kc bs) = 32" "length random = 32" "160 + 32 * length chosen < 2 ^ 64"
  shows "\<exists>prices sub qs. snapshot orders (dm_node d) = Some prices
    \<and> submission_new kc sf epoch (map (\<lambda>(i, f). (i, fst (the (prices f)))) chosen) random voter = Ok sub
    \<and> abi_decode_reveal kc (reveal_tx kc sub) = Ok (epoch, map fst chosen, qs, random)
    \<and> submit_txs kc sub = map (\<lambda>q. submit_hash_calldata kc epoch (commit_hash kc q random voter)) qs
    \<and> list_all2 (\<lambda>(i, f) q. between_quotes sf (nd_book (dm_node d) f) q) chosen qs"
proof -
  let ?book = "nd_book (dm_node d)"
  let ?feeds = "\<lambda>prices. map (\<lambda>(i, f). (i, fst (the (prices f)))) chosen"
  have dok: "daemon_ok d" by (rule reachable_ok [OF assms(1,2)])
  then have ok: "\<forall>ob\<in>set (book_observations (orders f) ?book f). obs_ok ob" for f
    using observations_ok by (auto simp: daemon_ok_def)
  have dist: "distinct FEEDS" by (simp add: FEEDS_def)
  obtain prices where p: "snapshot_from orders ?book FEEDS = Some prices"
    "\<forall>f. prices f = None \<longleftrightarrow> f \<notin> set FEEDS \<or> book_observations (orders f) ?book f = []"
    using snapshot_from_spec [of orders ?book FEEDS, OF ok dist] by blast
  have quotes: "\<forall>e b. ?book f e = Some b \<longrightarrow> Fin 0 < be_price b \<and> be_price b \<le> price_limit" for f
    using dok assms(6) unfolding daemon_ok_def book_ok_def by (metis less_f64_simps(1))
  have small: "\<forall>e b. ?book f e = Some b \<longrightarrow> be_price b < half_range" for f
    using price_limit_half assms(6) by (meson order.strict_trans1)
  have "\<exists>q. format_price sf (fst (the (prices f))) = Ok q \<and> between_quotes sf (?book f) q" if f: "(i, f) \<in> set chosen" for i f
  proof -
    obtain x n where x: "prices f = Some (x, n)"
      using p(2) f assms(5) by (fastforce simp: live_exchanges_def)
    show ?thesis
      using format_between [OF quotes] snapshot_between [OF ok dist p(1) x small] by (simp add: x)
  qed
  then have "\<forall>c\<in>set chosen. \<exists>q. (case c of (i, f) \<Rightarrow> \<lambda>q. format_price sf (fst (the (prices f))) = Ok q
      \<and> between_quotes sf (?book f) q) q" by auto
  then obtain qs where qs: "list_all2 (\<lambda>(i, f) q. format_price sf (fst (the (prices f))) = Ok q
      \<and> between_quotes sf (?book f) q) chosen qs"
    by (elim list_choice [THEN exE])
  then have "map (format_price sf \<circ> snd) (?feeds prices) = map Ok qs"
    by (induction rule: list_all2_induct) auto
  moreover have "160 + 32 * length (?feeds prices) < 2 ^ 64" "?feeds prices \<noteq> []" using assms(4,9) by simp_all
  ultimately have says: "\<exists>sub. submission_new kc sf epoch (?feeds prices) random voter = Ok sub
      \<and> abi_decode_reveal kc (reveal_tx kc sub) = Ok (epoch, map fst (?feeds prices), qs, random)
      \<and> submit_txs kc sub = map (\<lambda>q. submit_hash_calldata kc epoch (commit_hash kc q random voter)) qs"
    using submission_new_says [OF assms(7,8)] by blast
  have "list_all2 (\<lambda>(i, f) q. between_quotes sf (?book f) q) chosen qs"
    using qs by (rule list_all2_mono) auto
  moreover have "map fst (?feeds prices) = map fst chosen" by (simp add: case_prod_unfold)
  ultimately show ?thesis using p(1) says unfolding snapshot_def by metis
qed

theorem revealed_between_quotes_witness:
  "\<exists>prices sub. snapshot (\<lambda>_. all_exchanges) (dm_node w_daemon) = Some prices
    \<and> submission_new w_kc (\<lambda>_. ''usd'') 7 [(2, fst (the (prices ''BTC/USD'')))] (replicate 32 9) (replicate 20 1) = Ok sub
    \<and> abi_decode_reveal w_kc (reveal_tx w_kc sub) = Ok (7, [2], [6300050000], replicate 32 9)"
proof -
  let ?sf = "\<lambda>_ :: f64. ''usd''"
  have l: "live_exchanges all_exchanges ''BTC/USD'' (dm_node w_daemon) = 1"
    by (simp add: live_exchanges_def w_daemon_book book_observations_def book_upsert_def w_ticker_def
        all_exchanges_def map_filter_simps)
  have b: "nd_book (dm_node w_daemon) f e = Some b \<Longrightarrow> be_price b = Fin (126001/2)" for f e b
    using rnd_repr [of "126001/2"] repr_nat_div [of 126001]
    by (auto simp: w_daemon_book book_upsert_def w_ticker_def split: if_splits)
  then have small: "\<forall>f e b. nd_book (dm_node w_daemon) f e = Some b \<longrightarrow> be_price b \<le> price_limit"
    by (fastforce simp: price_limit_def)
  have c: "\<forall>(i, f)\<in>set [(2 :: u64, ''BTC/USD'')]. f \<in> set FEEDS \<and> live_exchanges all_exchanges f (dm_node w_daemon) \<noteq> 0"
    using l by (simp add: FEEDS_def)
  have f: "format_price ?sf (Fin (126001/2)) = Ok 6300050000"
    using rnd_repr [OF repr_of_int [of 6300050000]] floor_unique [of 6300050000 "6300050000 + 1/2 :: rat"]
    by (simp add: format_price_Fin u64_of_scaled_def)
  then have q: "q = 6300050000" if "between_quotes ?sf (nd_book (dm_node w_daemon) feed) q" for feed q
    using that b unfolding between_quotes_def by fastforce
  have r: "length (replicate 32 9 :: bytes) = 32" "160 + 32 * length [(2 :: u64, ''BTC/USD'')] < 2 ^ 64" by simp_all
  obtain prices sub qs where p: "snapshot (\<lambda>_. all_exchanges) (dm_node w_daemon) = Some prices"
    "submission_new w_kc ?sf 7 (map (\<lambda>(i, f). (i, fst (the (prices f)))) [(2, ''BTC/USD'')]) (replicate 32 9) (replicate 20 1) = Ok sub"
    "abi_decode_reveal w_kc (reveal_tx w_kc sub) = Ok (7, map fst [(2 :: u64, ''BTC/USD'')], qs, replicate 32 9)"
    "list_all2 (\<lambda>(i, f) q. between_quotes ?sf (nd_book (dm_node w_daemon) f) q) [(2 :: u64, ''BTC/USD'')] qs"
    using revealed_between_quotes [OF w_json_ok w_daemon_reachable, of "\<lambda>_. all_exchanges" "[(2, ''BTC/USD'')]" w_kc "replicate 32 9" ?sf 7 "replicate 20 1",
        OF _ _ c small w_kc_length r] all_exchanges_order(1) by blast
  from p(4) have "qs = [6300050000]" using q by (auto simp: list_all2_Cons1)
  with p(1-3) show ?thesis by auto
qed

end
